(* ===== verification/CM_Prelude.thy ===== *)
theory CM_Prelude
  imports Main "HOL-Library.Word"
begin

text \<open>
  Shared vocabulary of the development: the machine integer types of the C code, the conversions
  between them, byte order, loads and stores on byte buffers, and the generic lemmas on lists and
  words that the component theories use.

  The target is the x86-64 Linux machine the testbed runs on: \<^verbatim>\<open>int\<close> has 32 bits, memory is
  little-endian, network byte order is big-endian.
\<close>

unbundle bit_operations_syntax

type_synonym u8 = "8 word"
type_synonym u16 = "16 word"
type_synonym u32 = "32 word"
type_synonym u64 = "64 word"

text \<open>
  \<^verbatim>\<open>named_theorems\<close> collections: \<open>flow_key\<close> unfolds the comparison of flow keys; \<open>ht_ops\<close>
  collects the laws of the chained hash tables that client proofs rewrite with.
\<close>

named_theorems flow_key
named_theorems ht_ops

section \<open>Signed C integers\<close>

text \<open>
  A C \<^verbatim>\<open>int\<close> is an \<^typ>\<open>int\<close> in the range of 32-bit two's complement.  \<open>c_int\<close> is the conversion
  to \<^verbatim>\<open>int\<close> (implementation-defined in C; two's complement wrap-around with gcc).
\<close>

definition c_int :: "int \<Rightarrow> int" where
  "c_int x = (x + 2147483648) mod 4294967296 - 2147483648"

definition int_range :: "int \<Rightarrow> bool" where
  "int_range x \<longleftrightarrow> - 2147483648 \<le> x \<and> x < 2147483648"

lemma c_int_id [simp]: "int_range x \<Longrightarrow> c_int x = x"
  by (simp add: c_int_def int_range_def)

lemma c_int_range [simp, intro]: "int_range (c_int x)"
proof -
  have "0 \<le> (x + 2147483648) mod 4294967296" "(x + 2147483648) mod 4294967296 < 4294967296"
    by simp_all
  then show ?thesis by (simp add: c_int_def int_range_def)
qed

text \<open>Conversion \<^verbatim>\<open>uint32_t\<close> to \<^verbatim>\<open>int\<close> is \<^const>\<open>sint\<close>; \<^verbatim>\<open>int\<close> to \<^verbatim>\<open>uint32_t\<close> is \<^const>\<open>word_of_int\<close>.\<close>

lemma sint_int_range [simp, intro]: "int_range (sint (w :: u32))"
  using sint_greater_eq [of w] sint_less [of w] by (simp add: int_range_def)

lemma sint_word_of_int_range [simp]:
  "int_range x \<Longrightarrow> sint (word_of_int x :: u32) = x"
  by (simp add: sint_sbintrunc' int_range_def signed_take_bit_int_eq_self)

lemma sint_u32_nonneg: "w < 2147483648 \<Longrightarrow> sint (w :: u32) = uint w"
proof -
  assume "w < 2147483648"
  then have "uint w < 2147483648" by (simp add: word_less_def)
  moreover have "0 \<le> uint w" by simp
  ultimately have "int_range (uint w)" unfolding int_range_def by linarith
  from sint_word_of_int_range [OF this] show "sint w = uint w" by simp
qed

lemma sint_u32_of_nat: "n < 2147483648 \<Longrightarrow> sint (word_of_nat n :: u32) = int n"
  using sint_word_of_int_range [of "int n"] by (simp add: int_range_def)

section \<open>Index ranges\<close>

lemma upt_split_at: "c < n \<Longrightarrow> [0..<n] = [0..<c] @ c # [Suc c..<n]"
  using upt_add_eq_append [of 0 c "n - c"] upt_conv_Cons [of c n] by (simp del: upt_conv_Cons)

end
