(* ===== verification/Flow.thy ===== *)
theory Flow
  imports CM_Prelude "HOL-Library.Product_Lexorder"
begin

text \<open>
  Flow identities (\<^verbatim>\<open>public_lib/flow.h\<close>, \<^verbatim>\<open>flow.c\<close>, \<^verbatim>\<open>packet.h\<close>, \<^verbatim>\<open>condition.h\<close>): the 5-tuple
  \<open>flow_s\<close>, the monitored flow \<open>flow_src\<close> (source and destination address, since \<^verbatim>\<open>FLOW_SRC_DST\<close>
  is the configured definition), the packet, and the three-way comparisons that order hash chains.
  The interface that the hash tables rely on is the locale \<open>key_order\<close>; it is interpreted for both
  comparison functions.
\<close>

section \<open>Data\<close>

record flow_s =
  f_srcip :: u32
  f_dstip :: u32
  f_src_port :: u16
  f_dst_port :: u16
  f_protocol :: u8

record flow_src =
  fs_srcip :: u32
  fs_dstip :: u32

record condition =
  c_srcip :: u32
  c_dstip :: u32

datatype selected_level_e = NO_SELECTED_LEVEL | SELECTED_LEVEL | TARGET_LEVEL

fun level_val :: "selected_level_e \<Rightarrow> u32" where
  "level_val NO_SELECTED_LEVEL = 0"
| "level_val SELECTED_LEVEL = 1"
| "level_val TARGET_LEVEL = 2"

record packet =
  p_srcip :: u32
  p_dstip :: u32
  p_src_port :: u16
  p_dst_port :: u16
  p_protocol :: u8
  p_seqid :: u32
  p_len :: u16
  p_sampled :: bool
  p_selected_level :: u32

text \<open>The cast \<^verbatim>\<open>(flow_s*)(&packet)\<close>: the 5-tuple is the common prefix of both structs.\<close>

definition packet_flow :: "packet \<Rightarrow> flow_s" where
  "packet_flow p = \<lparr>f_srcip = p_srcip p, f_dstip = p_dstip p, f_src_port = p_src_port p,
     f_dst_port = p_dst_port p, f_protocol = p_protocol p\<rparr>"

definition packet_flow_src :: "packet \<Rightarrow> flow_src" where
  "packet_flow_src p = \<lparr>fs_srcip = p_srcip p, fs_dstip = p_dstip p\<rparr>"

definition deep_copy_flow :: "flow_s \<Rightarrow> flow_s" where
  "deep_copy_flow input = input"

section \<open>Comparison\<close>

definition flow_compare :: "flow_s \<Rightarrow> flow_s \<Rightarrow> int" where
  "flow_compare flow1 flow2 =
    (if f_srcip flow1 \<noteq> f_srcip flow2 then
       (if f_srcip flow1 > f_srcip flow2 then 1 else - 1)
     else if f_dstip flow1 \<noteq> f_dstip flow2 then
       (if f_dstip flow1 > f_dstip flow2 then 1 else - 1)
     else if f_src_port flow1 \<noteq> f_src_port flow2 then
       (if f_src_port flow1 > f_src_port flow2 then 1 else - 1)
     else if f_dst_port flow1 \<noteq> f_dst_port flow2 then
       (if f_dst_port flow1 > f_dst_port flow2 then 1 else - 1)
     else 0)"

definition flow_src_compare :: "flow_src \<Rightarrow> flow_src \<Rightarrow> int" where
  "flow_src_compare flow1 flow2 =
    (if fs_srcip flow1 \<noteq> fs_srcip flow2 then
       (if fs_srcip flow1 > fs_srcip flow2 then 1 else - 1)
     else if fs_dstip flow1 \<noteq> fs_dstip flow2 then
       (if fs_dstip flow1 > fs_dstip flow2 then 1 else - 1)
     else 0)"

declare flow_compare_def [flow_key] flow_src_compare_def [flow_key]

text \<open>The five-tuple without the protocol: what \<^const>\<open>flow_compare\<close> actually looks at.\<close>

definition flow_tuple :: "flow_s \<Rightarrow> u32 \<times> u32 \<times> u16 \<times> u16" where
  "flow_tuple f = (f_srcip f, f_dstip f, f_src_port f, f_dst_port f)"

definition flow_src_tuple :: "flow_src \<Rightarrow> u32 \<times> u32" where
  "flow_src_tuple f = (fs_srcip f, fs_dstip f)"

text \<open>
  Both comparisons are the sign of the lexicographic order on these tuples
  (\<^verbatim>\<open>HOL-Library.Product_Lexorder\<close>).
\<close>

definition lex_compare :: "'a :: linorder \<Rightarrow> 'a \<Rightarrow> int" where
  "lex_compare x y = (if x > y then 1 else if x = y then 0 else - 1)"

lemma flow_compare_lex: "flow_compare a b = lex_compare (flow_tuple a) (flow_tuple b)"
  unfolding flow_compare_def flow_tuple_def lex_compare_def
  by (cases "f_srcip a = f_srcip b"; cases "f_dstip a = f_dstip b";
      cases "f_src_port a = f_src_port b"; cases "f_dst_port a = f_dst_port b") auto

lemma flow_src_compare_lex: "flow_src_compare a b = lex_compare (flow_src_tuple a) (flow_src_tuple b)"
  unfolding flow_src_compare_def flow_src_tuple_def lex_compare_def
  by (cases "fs_srcip a = fs_srcip b"; cases "fs_dstip a = fs_dstip b") auto

lemma lex_compare_eq_0 [simp]: "lex_compare x y = 0 \<longleftrightarrow> x = y"
  by (auto simp: lex_compare_def)

lemma flow_src_tuple_inj [simp]: "flow_src_tuple a = flow_src_tuple b \<longleftrightarrow> a = b"
  by (cases a; cases b) (simp add: flow_src_tuple_def)

lemma flow_compare_eq_0 [simp]: "flow_compare a b = 0 \<longleftrightarrow> flow_tuple a = flow_tuple b"
  by (simp add: flow_compare_lex)

lemma flow_src_compare_eq_0 [simp]: "flow_src_compare a b = 0 \<longleftrightarrow> a = b"
  by (simp add: flow_src_compare_lex)

section \<open>The ordering interface of the hash chains\<close>

text \<open>
  A bucket chain is kept sorted by a C comparison function, and every search stops at the first
  entry that is not smaller.  What this needs from the comparison is that of a total preorder
  given by its sign.
\<close>

locale key_order =
  fixes cmp :: "'k \<Rightarrow> 'k \<Rightarrow> int"
  assumes cmp_refl: "cmp a a = 0"
    and cmp_anti: "0 < cmp a b \<longleftrightarrow> cmp b a < 0"
    and cmp_trans: "0 < cmp a b \<Longrightarrow> 0 < cmp b c \<Longrightarrow> 0 < cmp a c"
    and cmp_eq_left: "cmp a b = 0 \<Longrightarrow> cmp a c = cmp b c"
begin

lemma cmp_sym: "cmp a b = 0 \<longleftrightarrow> cmp b a = 0"
  using cmp_anti [of a b] cmp_anti [of b a] by linarith

lemma cmp_eq_right: "cmp a b = 0 \<Longrightarrow> 0 < cmp c a \<longleftrightarrow> 0 < cmp c b"
  using cmp_anti [of c a] cmp_anti [of c b] cmp_eq_left [of a b c] by simp

lemma cmp_eq_right0: "cmp a b = 0 \<Longrightarrow> cmp c a = 0 \<longleftrightarrow> cmp c b = 0"
  using cmp_sym [of c a] cmp_sym [of c b] cmp_eq_left [of a b c] by simp

lemma cmp_not_less: "cmp a b < 0 \<Longrightarrow> \<not> 0 < cmp a b" by simp

lemma cmp_less_trans: "cmp a b < 0 \<Longrightarrow> cmp b c < 0 \<Longrightarrow> cmp a c < 0"
  using cmp_trans [of c b a] cmp_anti by blast

end

interpretation lex: key_order lex_compare
  by unfold_locales (auto simp: lex_compare_def split: if_splits)

interpretation flow_ord: key_order flow_compare
  unfolding flow_compare_lex
  by unfold_locales (auto simp: lex.cmp_refl lex.cmp_anti intro: lex.cmp_less_trans)

interpretation flow_src_ord: key_order flow_src_compare
  unfolding flow_src_compare_lex
  by unfold_locales (auto simp: lex.cmp_refl lex.cmp_anti intro: lex.cmp_less_trans)

section \<open>Properties\<close>

text \<open>
  \<^verbatim>\<open>flow_compare\<close> is a total preorder whose equivalence is agreement on the source and destination
  addresses and ports: it is reflexive, antisymmetric in sign, transitive, and it reports equality
  for two flows exactly when these four fields agree.  The protocol is never looked at.
\<close>

lemma flow_compare_order:
  "(flow_compare a b = 0 \<longleftrightarrow> f_srcip a = f_srcip b \<and> f_dstip a = f_dstip b \<and>
      f_src_port a = f_src_port b \<and> f_dst_port a = f_dst_port b) \<and>
   flow_compare b a = - flow_compare a b \<and>
   \<not> (flow_compare a b \<le> 0 \<and> flow_compare b c \<le> 0 \<and> flow_compare a c > 0) \<and>
   flow_compare (a\<lparr>f_protocol := p\<rparr>) b = flow_compare a b"
proof -
  have "flow_compare b a = - flow_compare a b"
    unfolding flow_compare_lex lex_compare_def by auto
  moreover have "\<not> (flow_compare a b \<le> 0 \<and> flow_compare b c \<le> 0 \<and> flow_compare a c > 0)"
    unfolding flow_compare_lex lex_compare_def by auto
  ultimately show ?thesis by (simp add: flow_tuple_def) (simp add: flow_compare_def)
qed

end
