(* ===== verification/Chained_Table.thy ===== *)
theory Chained_Table
  imports Flow
begin

text \<open>
  The chained hash table that \<^verbatim>\<open>public_lib\<close> instantiates five times by copying its text
  (\<^verbatim>\<open>mt_hashtable_kFlow_vInt\<close>, \<^verbatim>\<open>_vFloat\<close>, \<^verbatim>\<open>kFlowSrc_vInt\<close>, \<^verbatim>\<open>kFlowSrc_vFloat\<close>,
  \<^verbatim>\<open>hashTableFlow\<close>; \<^verbatim>\<open>kFlow_vLinklist\<close> has no iterator): an array of sorted singly linked lists
  and a resumable iterator.  The operations here are parametrised by the comparison and the hash
  function; the per-table theories instantiate them.

  A chain of \<^verbatim>\<open>next\<close> pointers is the list of its entries.  The iterator's pointer
  \<^verbatim>\<open>next_last_visit_entry\<close> is the key of the entry it points to: entries never change their key or
  their chain, and an entry that is freed is first unlinked from the iterator, so within a
  well-formed table the key identifies the node.
\<close>

section \<open>Entries, chains and the table\<close>

record ('k, 'v) entry =
  e_key :: 'k
  e_value :: 'v

record ('k, 'v) chained =
  ct_size :: int
  ct_table :: "nat \<Rightarrow> ('k, 'v) entry list"
  ct_cur :: int
  ct_last :: "'k option"

text \<open>
  The search loop \<^verbatim>\<open>while (next != NULL && cmp(key, &next->key) > 0) { last = next; next = next->next; }\<close>
  splits a chain into the entries passed and the rest.
\<close>

definition chain_before :: "('k \<Rightarrow> 'k \<Rightarrow> int) \<Rightarrow> 'k \<Rightarrow> ('k, 'v) entry list \<Rightarrow> ('k, 'v) entry list" where
  "chain_before cmp k es = takeWhile (\<lambda>e. cmp k (e_key e) > 0) es"

definition chain_seek :: "('k \<Rightarrow> 'k \<Rightarrow> int) \<Rightarrow> 'k \<Rightarrow> ('k, 'v) entry list \<Rightarrow> ('k, 'v) entry list" where
  "chain_seek cmp k es = dropWhile (\<lambda>e. cmp k (e_key e) > 0) es"

definition chain_get :: "('k \<Rightarrow> 'k \<Rightarrow> int) \<Rightarrow> 'k \<Rightarrow> ('k, 'v) entry list \<Rightarrow> ('k, 'v) entry option" where
  "chain_get cmp k es =
    (case chain_seek cmp k es of
       [] \<Rightarrow> None
     | e # _ \<Rightarrow> if cmp k (e_key e) \<noteq> 0 then None else Some e)"

text \<open>
  Insertion or in-place update: \<open>f\<close> is applied to the value of an existing pair, otherwise the new
  pair is linked at the position where the search stopped.
\<close>

definition chain_upsert :: "('k \<Rightarrow> 'k \<Rightarrow> int) \<Rightarrow> 'k \<Rightarrow> ('v \<Rightarrow> 'v) \<Rightarrow> ('k, 'v) entry \<Rightarrow>
    ('k, 'v) entry list \<Rightarrow> ('k, 'v) entry list" where
  "chain_upsert cmp k f newpair es =
    (case chain_seek cmp k es of
       [] \<Rightarrow> chain_before cmp k es @ [newpair]
     | e # rest \<Rightarrow>
         if cmp k (e_key e) = 0 then chain_before cmp k es @ e\<lparr>e_value := f (e_value e)\<rparr> # rest
         else chain_before cmp k es @ newpair # e # rest)"

definition ct_create :: "int \<Rightarrow> ('k, 'v) chained" where
  "ct_create n = \<lparr>ct_size = n, ct_table = (\<lambda>_. []), ct_cur = - 1, ct_last = None\<rparr>"

text \<open>Clearing every bin and resetting the iterator.\<close>

definition ct_refresh :: "('k, 'v) chained \<Rightarrow> ('k, 'v) chained" where
  "ct_refresh ht = ht\<lparr>ct_table := (\<lambda>i. if int i < ct_size ht then [] else ct_table ht i),
     ct_cur := - 1, ct_last := None\<rparr>"

definition ct_get :: "('k \<Rightarrow> 'k \<Rightarrow> int) \<Rightarrow> (int \<Rightarrow> 'k \<Rightarrow> nat) \<Rightarrow> ('k, 'v) chained \<Rightarrow> 'k \<Rightarrow>
    ('k, 'v) entry option" where
  "ct_get cmp hash ht k = chain_get cmp k (ct_table ht (hash (ct_size ht) k))"

definition ct_upsert :: "('k \<Rightarrow> 'k \<Rightarrow> int) \<Rightarrow> (int \<Rightarrow> 'k \<Rightarrow> nat) \<Rightarrow> ('v \<Rightarrow> 'v) \<Rightarrow> ('k, 'v) entry \<Rightarrow>
    ('k, 'v) chained \<Rightarrow> 'k \<Rightarrow> ('k, 'v) chained" where
  "ct_upsert cmp hash f newpair ht k =
    (let bin = hash (ct_size ht) k
     in ht\<lparr>ct_table := (ct_table ht)(bin := chain_upsert cmp k f newpair (ct_table ht bin))\<rparr>)"

text \<open>
  Deletion unlinks the matching entry; if the iterator points at it, the iterator moves to the
  successor in the chain.
\<close>

definition ct_del :: "('k \<Rightarrow> 'k \<Rightarrow> int) \<Rightarrow> (int \<Rightarrow> 'k \<Rightarrow> nat) \<Rightarrow> ('k, 'v) chained \<Rightarrow> 'k \<Rightarrow>
    ('k, 'v) chained" where
  "ct_del cmp hash ht k =
    (let bin = hash (ct_size ht) k; es = ct_table ht bin
     in case chain_seek cmp k es of
          [] \<Rightarrow> ht
        | e # rest \<Rightarrow>
            if cmp k (e_key e) = 0 then
              ht\<lparr>ct_table := (ct_table ht)(bin := chain_before cmp k es @ rest),
                 ct_last := (if ct_last ht = Some (e_key e)
                             then (case rest of [] \<Rightarrow> None | e' # _ \<Rightarrow> Some (e_key e'))
                             else ct_last ht)\<rparr>
            else ht)"

section \<open>The iterator\<close>

text \<open>\<^verbatim>\<open>next_last_visit_entry->next\<close>: the entry after the one with key \<open>k\<close>.\<close>

fun entry_after :: "'k \<Rightarrow> ('k, 'v) entry list \<Rightarrow> ('k, 'v) entry option" where
  "entry_after k [] = None"
| "entry_after k (e # es) =
    (if e_key e = k then (case es of [] \<Rightarrow> None | e' # _ \<Rightarrow> Some e') else entry_after k es)"

text \<open>The loop that looks for the next non-empty bin.\<close>

function scan_bins :: "(nat \<Rightarrow> ('k, 'v) entry list) \<Rightarrow> int \<Rightarrow> int \<Rightarrow> (int \<times> ('k, 'v) entry) option" where
  "scan_bins t n i =
    (if i \<ge> n then None
     else case t (nat i) of [] \<Rightarrow> scan_bins t n (i + 1) | e # _ \<Rightarrow> Some (i, e))"
  by pat_completeness auto
termination
  by (relation "measure (\<lambda>(t, n, i). nat (n - i))") auto

declare scan_bins.simps [simp del]

definition ct_next :: "('k, 'v) chained \<Rightarrow> ('k, 'v) chained \<times> ('k, 'v) entry option" where
  "ct_next ht =
    (if ct_cur ht \<ge> ct_size ht then (ht, None)
     else
       case (if 0 \<le> ct_cur ht \<and> ct_cur ht < ct_size ht
             then (case ct_last ht of
                     None \<Rightarrow> None
                   | Some k \<Rightarrow> entry_after k (ct_table ht (nat (ct_cur ht))))
             else None) of
         Some e \<Rightarrow> (ht\<lparr>ct_last := Some (e_key e)\<rparr>, Some e)
       | None \<Rightarrow>
           (case scan_bins (ct_table ht) (ct_size ht) (ct_cur ht + 1) of
              None \<Rightarrow> (ht\<lparr>ct_cur := - 1, ct_last := None\<rparr>, None)
            | Some (i, e) \<Rightarrow> (ht\<lparr>ct_cur := i, ct_last := Some (e_key e)\<rparr>, Some e)))"

text \<open>
  The client loop \<^verbatim>\<open>while (ht_next(ht, &e) == 0) body(e)\<close> over a table that the body does not
  change.  It may run forever on a damaged table, so it is a partial function.
\<close>

partial_function (option) ct_fold ::
  "(('k, 'v) entry \<Rightarrow> 's \<Rightarrow> 's) \<Rightarrow> ('k, 'v) chained \<Rightarrow> 's \<Rightarrow> (('k, 'v) chained \<times> 's) option" where
  "ct_fold body ht s =
    (case ct_next ht of
       (ht', None) \<Rightarrow> Some (ht', s)
     | (ht', Some e) \<Rightarrow> ct_fold body ht' (body e s))"

section \<open>Well-formedness\<close>

definition chain_sorted :: "('k \<Rightarrow> 'k \<Rightarrow> int) \<Rightarrow> ('k, 'v) entry list \<Rightarrow> bool" where
  "chain_sorted cmp es \<longleftrightarrow> sorted_wrt (\<lambda>a b. cmp (e_key a) (e_key b) < 0) es"

definition ct_iter_ok :: "('k, 'v) chained \<Rightarrow> bool" where
  "ct_iter_ok ht \<longleftrightarrow> - 1 \<le> ct_cur ht \<and> ct_cur ht < ct_size ht \<and>
    (case ct_last ht of
       None \<Rightarrow> True
     | Some k \<Rightarrow> 0 \<le> ct_cur ht \<and> k \<in> e_key ` set (ct_table ht (nat (ct_cur ht))))"

definition ct_wf :: "('k \<Rightarrow> 'k \<Rightarrow> int) \<Rightarrow> (int \<Rightarrow> 'k \<Rightarrow> nat) \<Rightarrow> ('k, 'v) chained \<Rightarrow> bool" where
  "ct_wf cmp hash ht \<longleftrightarrow> 0 < ct_size ht \<and> ct_size ht < 2147483648 \<and>
    (\<forall>i. chain_sorted cmp (ct_table ht i)) \<and>
    (\<forall>i. \<forall>e \<in> set (ct_table ht i). hash (ct_size ht) (e_key e) = i) \<and>
    ct_iter_ok ht"

definition ct_lookup :: "('k \<Rightarrow> 'k \<Rightarrow> int) \<Rightarrow> (int \<Rightarrow> 'k \<Rightarrow> nat) \<Rightarrow> ('k, 'v) chained \<Rightarrow> 'k \<Rightarrow> 'v option" where
  "ct_lookup cmp hash ht k = map_option e_value (ct_get cmp hash ht k)"

text \<open>All entries in iteration order, and the ones the iterator has still to visit.\<close>

definition ct_entries :: "('k, 'v) chained \<Rightarrow> ('k, 'v) entry list" where
  "ct_entries ht = concat (map (ct_table ht) [0..<nat (ct_size ht)])"

definition chain_rest :: "'k option \<Rightarrow> ('k, 'v) entry list \<Rightarrow> ('k, 'v) entry list" where
  "chain_rest l es =
    (case l of None \<Rightarrow> [] | Some k \<Rightarrow> tl (dropWhile (\<lambda>e. e_key e \<noteq> k) es))"

definition ct_remaining :: "('k, 'v) chained \<Rightarrow> ('k, 'v) entry list" where
  "ct_remaining ht =
    (if ct_cur ht < 0 then [] else chain_rest (ct_last ht) (ct_table ht (nat (ct_cur ht)))) @
    concat (map (ct_table ht) [nat (ct_cur ht + 1)..<nat (ct_size ht)])"

section \<open>Chains\<close>

definition chain_remove :: "('k \<Rightarrow> 'k \<Rightarrow> int) \<Rightarrow> 'k \<Rightarrow> ('k, 'v) entry list \<Rightarrow> ('k, 'v) entry list" where
  "chain_remove cmp k es =
    (case chain_seek cmp k es of
       [] \<Rightarrow> es
     | e # rest \<Rightarrow> if cmp k (e_key e) = 0 then chain_before cmp k es @ rest else es)"

lemma chain_get_simps [simp]:
  "chain_get cmp k [] = None"
  "chain_get cmp k (e # es) =
    (if cmp k (e_key e) > 0 then chain_get cmp k es else if cmp k (e_key e) = 0 then Some e else None)"
  by (simp_all add: chain_get_def chain_seek_def)

lemma chain_upsert_simps [simp]:
  "chain_upsert cmp k f n [] = [n]"
  "chain_upsert cmp k f n (e # es) =
    (if cmp k (e_key e) > 0 then e # chain_upsert cmp k f n es
     else if cmp k (e_key e) = 0 then e\<lparr>e_value := f (e_value e)\<rparr> # es else n # e # es)"
  by (simp_all add: chain_upsert_def chain_seek_def chain_before_def del: dropWhile_eq_Nil_conv
      split: list.split)

lemma chain_remove_simps [simp]:
  "chain_remove cmp k [] = []"
  "chain_remove cmp k (e # es) =
    (if cmp k (e_key e) > 0 then e # chain_remove cmp k es
     else if cmp k (e_key e) = 0 then es else e # es)"
  by (simp_all add: chain_remove_def chain_seek_def chain_before_def del: dropWhile_eq_Nil_conv
      split: list.split)

lemma chain_sorted_simps [simp]:
  "chain_sorted cmp []"
  "chain_sorted cmp (e # es) \<longleftrightarrow> (\<forall>x \<in> set es. cmp (e_key e) (e_key x) < 0) \<and> chain_sorted cmp es"
  by (simp_all add: chain_sorted_def)

lemma chain_get_SomeD: "chain_get cmp k es = Some e \<Longrightarrow> e \<in> set es \<and> cmp k (e_key e) = 0"
  by (induction es) (auto split: if_splits)

lemma chain_remove_subset: "set (chain_remove cmp k es) \<subseteq> set es"
  by (induction es) auto

lemma chain_remove_sorted: "chain_sorted cmp es \<Longrightarrow> chain_sorted cmp (chain_remove cmp k es)"
  using chain_remove_subset [of cmp k] by (induction es) (auto split: if_splits)

lemma e_key_upd [simp]: "e_key (e\<lparr>e_value := v\<rparr>) = e_key e"
  by (cases e) simp

lemma chain_upsert_keys:
  "e_key ` set (chain_upsert cmp k f n es) \<subseteq> insert (e_key n) (e_key ` set es)"
  by (induction es) auto

lemma chain_upsert_keys_mono:
  "e_key ` set es \<subseteq> e_key ` set (chain_upsert cmp k f n es)"
  by (induction es) auto

lemma ct_del_table:
  "ct_table (ct_del cmp hash ht k) =
    (ct_table ht)(hash (ct_size ht) k := chain_remove cmp k (ct_table ht (hash (ct_size ht) k)))"
  by (auto simp: ct_del_def chain_remove_def Let_def fun_eq_iff split: list.split)

lemma ct_del_frame [simp]:
  "ct_size (ct_del cmp hash ht k) = ct_size ht" "ct_cur (ct_del cmp hash ht k) = ct_cur ht"
  by (simp_all add: ct_del_def Let_def split: list.split)

lemma ct_upsert_frame [simp]:
  "ct_size (ct_upsert cmp hash f n ht k) = ct_size ht"
  "ct_cur (ct_upsert cmp hash f n ht k) = ct_cur ht"
  "ct_last (ct_upsert cmp hash f n ht k) = ct_last ht"
  by (simp_all add: ct_upsert_def Let_def)

context key_order
begin

lemma chain_get_less:
  "chain_sorted cmp es \<Longrightarrow> \<forall>x \<in> set es. cmp k (e_key x) < 0 \<Longrightarrow> chain_get cmp k es = None"
  by (cases es) auto

lemma chain_get_iff:
  "chain_sorted cmp es \<Longrightarrow> chain_get cmp k es = Some e \<longleftrightarrow> e \<in> set es \<and> cmp k (e_key e) = 0"
proof (induction es)
  case (Cons x es)
  have below: "cmp k (e_key y) < 0" if "y \<in> set es" "\<not> 0 < cmp k (e_key x)" for y
    using that Cons.prems cmp_less_trans [of k "e_key x" "e_key y"] cmp_eq_left [of k "e_key x" "e_key y"]
    by (cases "cmp k (e_key x) = 0") auto
  show ?case
  proof (cases "0 < cmp k (e_key x)")
    case True
    with Cons show ?thesis by auto
  next
    case False
    then have "cmp k (e_key y) \<noteq> 0" if "y \<in> set es" for y using below [OF that] by simp
    with False show ?thesis by auto
  qed
qed simp

lemma chain_upsert_sorted:
  "chain_sorted cmp es \<Longrightarrow> e_key n = k \<Longrightarrow> chain_sorted cmp (chain_upsert cmp k f n es)"
proof (induction es)
  case (Cons x es)
  have "cmp (e_key x) (e_key y) < 0" if "y \<in> set (chain_upsert cmp k f n es)" "0 < cmp k (e_key x)" for y
  proof -
    from that(1) have "e_key y \<in> e_key ` set (chain_upsert cmp k f n es)" by blast
    then have "e_key y \<in> insert (e_key n) (e_key ` set es)"
      using chain_upsert_keys [of cmp k f n es] by blast
    then show ?thesis using Cons.prems that(2) cmp_anti by auto
  qed
  moreover have "cmp k (e_key y) < 0"
    if "y \<in> set es" "\<not> 0 < cmp k (e_key x)" "cmp k (e_key x) \<noteq> 0" for y
    using that Cons.prems cmp_less_trans [of k "e_key x" "e_key y"] by auto
  ultimately show ?case using Cons by auto
qed simp

lemma chain_get_upsert:
  "chain_sorted cmp es \<Longrightarrow> e_key n = k \<Longrightarrow>
   chain_get cmp k' (chain_upsert cmp k f n es) =
    (if cmp k k' = 0
     then (case chain_get cmp k es of None \<Rightarrow> Some n | Some e \<Rightarrow> Some (e\<lparr>e_value := f (e_value e)\<rparr>))
     else chain_get cmp k' es)"
proof (induction es)
  case Nil
  then show ?case using cmp_sym [of k k'] by auto
next
  case (Cons x es)
  have eq: "cmp k k' = 0 \<Longrightarrow> cmp k' c = cmp k c" for c
    using cmp_eq_left [of k k'] by simp
  consider "0 < cmp k (e_key x)" | "cmp k (e_key x) = 0" | "cmp k (e_key x) < 0" by linarith
  then show ?case
  proof cases
    case 1
    then show ?thesis using Cons eq by simp
  next
    case 2
    then have "cmp k k' \<noteq> 0 \<Longrightarrow> cmp k' (e_key x) \<noteq> 0"
      using cmp_eq_right0 [of "e_key x" k k'] cmp_sym by blast
    with 2 eq show ?thesis by auto
  next
    case 3
    then have "cmp k' k < 0 \<Longrightarrow> cmp k' (e_key x) < 0" using cmp_less_trans by blast
    with 3 Cons.prems eq show ?thesis using cmp_sym [of k k'] by (auto simp: not_less)
  qed
qed

lemma chain_get_remove:
  "chain_sorted cmp es \<Longrightarrow>
   chain_get cmp k' (chain_remove cmp k es) = (if cmp k k' = 0 then None else chain_get cmp k' es)"
proof (induction es)
  case (Cons x es)
  have eq: "cmp k k' = 0 \<Longrightarrow> cmp k' c = cmp k c" for c
    using cmp_eq_left [of k k'] by simp
  have gone: "chain_get cmp k' es = None" if "cmp k' (e_key x) \<le> 0"
  proof (rule chain_get_less)
    show "chain_sorted cmp es" using Cons.prems by simp
    show "\<forall>y \<in> set es. cmp k' (e_key y) < 0"
      using that Cons.prems cmp_less_trans [of k' "e_key x"] cmp_eq_left [of k' "e_key x"]
      by (cases "cmp k' (e_key x) = 0") auto
  qed
  have ne: "cmp k (e_key x) = 0 \<Longrightarrow> cmp k' (e_key x) = 0 \<Longrightarrow> cmp k k' = 0"
    using cmp_eq_right0 [of k' "e_key x" k] cmp_sym by blast
  consider "0 < cmp k (e_key x)" | "cmp k (e_key x) = 0" | "cmp k (e_key x) < 0" by linarith
  then show ?case
  proof cases
    case 1
    then show ?thesis using Cons eq by simp
  next
    case 2
    then show ?thesis using eq ne gone by auto
  next
    case 3
    then show ?thesis using eq by auto
  qed
qed simp

end

section \<open>The table as a map\<close>

text \<open>
  The second interface: a hash that stays inside the array and does not separate keys that compare
  equal.
\<close>

locale hashed_order = key_order cmp for cmp :: "'k \<Rightarrow> 'k \<Rightarrow> int" +
  fixes hash :: "int \<Rightarrow> 'k \<Rightarrow> nat"
  assumes hash_range: "0 < n \<Longrightarrow> n < 2147483648 \<Longrightarrow> int (hash n k) < n"
    and hash_cmp: "cmp a b = 0 \<Longrightarrow> hash n a = hash n b"
begin

lemma wf_create: "0 < n \<Longrightarrow> n < 2147483648 \<Longrightarrow> ct_wf cmp hash (ct_create n)"
  by (simp add: ct_wf_def ct_create_def ct_iter_ok_def)

lemma lookup_create: "ct_lookup cmp hash (ct_create n) k = None"
  by (simp add: ct_lookup_def ct_get_def ct_create_def)

lemma wf_refresh: "ct_wf cmp hash ht \<Longrightarrow> ct_wf cmp hash (ct_refresh ht)"
  by (simp add: ct_wf_def ct_refresh_def ct_iter_ok_def)

lemma lookup_refresh: "ct_wf cmp hash ht \<Longrightarrow> ct_lookup cmp hash (ct_refresh ht) k = None"
  using hash_range [of "ct_size ht" k]
  by (simp add: ct_wf_def ct_lookup_def ct_get_def ct_refresh_def)

lemma wf_bin_eq:
  "ct_wf cmp hash ht \<Longrightarrow> e \<in> set (ct_table ht i) \<Longrightarrow> i = hash (ct_size ht) (e_key e)"
  by (auto simp: ct_wf_def)

lemma wf_bin_range: "ct_wf cmp hash ht \<Longrightarrow> e \<in> set (ct_table ht i) \<Longrightarrow> int i < ct_size ht"
  using hash_range [of "ct_size ht" "e_key e"] wf_bin_eq by (auto simp: ct_wf_def)

lemma wf_upsert:
  assumes wf: "ct_wf cmp hash ht" and n: "e_key n = k"
  shows "ct_wf cmp hash (ct_upsert cmp hash f n ht k)"
proof -
  let ?b = "hash (ct_size ht) k"
  let ?es = "chain_upsert cmp k f n (ct_table ht ?b)"
  have "hash (ct_size ht) (e_key e) = ?b" if "e \<in> set ?es" for e
  proof -
    from that have "e_key e \<in> insert k (e_key ` set (ct_table ht ?b))"
      using chain_upsert_keys [of cmp k f n "ct_table ht ?b"] n by blast
    then show ?thesis using wf by (auto simp: ct_wf_def)
  qed
  moreover have "chain_sorted cmp ?es"
    using wf n by (simp add: ct_wf_def chain_upsert_sorted)
  moreover have "ct_iter_ok (ct_upsert cmp hash f n ht k)"
    using wf chain_upsert_keys_mono [of "ct_table ht ?b" cmp k f n]
    by (auto simp: ct_wf_def ct_iter_ok_def ct_upsert_def Let_def split: option.splits)
  ultimately show ?thesis using wf by (simp add: ct_wf_def ct_upsert_def Let_def)
qed

lemma get_upsert:
  assumes wf: "ct_wf cmp hash ht" and n: "e_key n = k"
  shows "ct_get cmp hash (ct_upsert cmp hash f n ht k) k' =
    (if cmp k k' = 0
     then (case ct_get cmp hash ht k of
             None \<Rightarrow> Some n | Some e \<Rightarrow> Some (e\<lparr>e_value := f (e_value e)\<rparr>))
     else ct_get cmp hash ht k')"
  using wf n hash_cmp [of k k' "ct_size ht"]
  by (simp add: ct_get_def ct_upsert_def Let_def chain_get_upsert ct_wf_def)

lemma lookup_upsert:
  assumes "ct_wf cmp hash ht"
  shows "ct_lookup cmp hash (ct_upsert cmp hash f \<lparr>e_key = k, e_value = v\<rparr> ht k) k' =
    (if cmp k k' = 0
     then Some (case ct_lookup cmp hash ht k of None \<Rightarrow> v | Some x \<Rightarrow> f x)
     else ct_lookup cmp hash ht k')"
  using assms by (simp add: ct_lookup_def get_upsert split: option.split)

lemma lookup_set:
  assumes "ct_wf cmp hash ht"
  shows "ct_lookup cmp hash (ct_upsert cmp hash (\<lambda>_. v) \<lparr>e_key = k, e_value = v\<rparr> ht k) k' =
    (if cmp k k' = 0 then Some v else ct_lookup cmp hash ht k')"
  using lookup_upsert [OF assms, of "\<lambda>_. v" k v k'] by (simp split: option.splits)

lemma chain_get_cong: "cmp k k' = 0 \<Longrightarrow> chain_get cmp k es = chain_get cmp k' es"
  using cmp_eq_left [of k k'] by (induction es) auto

lemma lookup_cong: "cmp k k' = 0 \<Longrightarrow> ct_lookup cmp hash ht k = ct_lookup cmp hash ht k'"
proof -
  assume eq: "cmp k k' = 0"
  show ?thesis by (simp add: ct_lookup_def ct_get_def chain_get_cong [OF eq] hash_cmp [OF eq])
qed

lemma lookup_del:
  "ct_wf cmp hash ht \<Longrightarrow>
   ct_lookup cmp hash (ct_del cmp hash ht k) k' =
    (if cmp k k' = 0 then None else ct_lookup cmp hash ht k')"
  using hash_cmp [of k k' "ct_size ht"]
  by (simp add: ct_lookup_def ct_get_def ct_del_table chain_get_remove ct_wf_def)

lemma del_iter_ok:
  assumes wf: "ct_wf cmp hash ht"
  shows "ct_iter_ok (ct_del cmp hash ht k)"
proof (cases "chain_seek cmp k (ct_table ht (hash (ct_size ht) k))")
  case Nil
  then show ?thesis using wf by (simp add: ct_del_def Let_def ct_wf_def)
next
  case (Cons e rest)
  let ?b = "hash (ct_size ht) k"
  have es: "ct_table ht ?b = chain_before cmp k (ct_table ht ?b) @ e # rest"
    using Cons unfolding chain_seek_def chain_before_def by (metis takeWhile_dropWhile_id)
  then have e: "e \<in> set (ct_table ht ?b)" by (metis in_set_conv_decomp)
  have "?b = nat (ct_cur ht)" if "ct_last ht = Some (e_key e)"
  proof -
    from that wf obtain x where "x \<in> set (ct_table ht (nat (ct_cur ht)))" "e_key x = e_key e"
      by (auto simp: ct_wf_def ct_iter_ok_def)
    with wf e show ?thesis by (metis wf_bin_eq)
  qed
  moreover have "e_key ` set (ct_table ht ?b) - {e_key e}
      \<subseteq> e_key ` set (chain_before cmp k (ct_table ht ?b) @ rest)"
    by (subst es) auto
  ultimately have last: "k' \<in> e_key ` set (chain_before cmp k (ct_table ht ?b) @ rest)"
    if "cmp k (e_key e) = 0" "ct_last (ct_del cmp hash ht k) = Some k'" "nat (ct_cur ht) = ?b" for k'
    using wf Cons that
    by (auto simp: ct_del_def Let_def ct_wf_def ct_iter_ok_def split: if_splits list.splits)
  have other: "ct_last (ct_del cmp hash ht k) = ct_last ht" if "nat (ct_cur ht) \<noteq> ?b"
    using that Cons \<open>ct_last ht = Some (e_key e) \<Longrightarrow> ?b = nat (ct_cur ht)\<close>
    by (auto simp: ct_del_def Let_def)
  show ?thesis
  proof (cases "cmp k (e_key e) = 0 \<and> nat (ct_cur ht) = ?b")
    case True
    have "0 \<le> ct_cur ht" if "ct_last (ct_del cmp hash ht k) \<noteq> None"
      using wf that Cons by (auto simp: ct_del_def Let_def ct_wf_def ct_iter_ok_def split: if_splits)
    then show ?thesis
      using True last wf Cons chain_remove_def [of cmp k "ct_table ht ?b"]
      by (auto simp: ct_iter_ok_def ct_wf_def ct_del_table split: option.split)
  next
    case False
    then show ?thesis
      using other wf Cons
      by (cases "cmp k (e_key e) = 0") (auto simp: ct_del_def Let_def ct_iter_ok_def ct_wf_def split: option.splits)
  qed
qed

lemma wf_del:
  assumes wf: "ct_wf cmp hash ht"
  shows "ct_wf cmp hash (ct_del cmp hash ht k)"
proof -
  let ?b = "hash (ct_size ht) k"
  have "\<forall>e \<in> set (chain_remove cmp k (ct_table ht ?b)). hash (ct_size ht) (e_key e) = ?b"
    using wf chain_remove_subset [of cmp k "ct_table ht ?b"] unfolding ct_wf_def by blast
  then show ?thesis
    using wf del_iter_ok [OF wf, of k] by (simp add: ct_wf_def ct_del_table chain_remove_sorted)
qed

lemma entry_lookup:
  assumes wf: "ct_wf cmp hash ht" and e: "e \<in> set (ct_entries ht)"
  shows "ct_lookup cmp hash ht (e_key e) = Some (e_value e)"
proof -
  from e obtain i where i: "e \<in> set (ct_table ht i)" by (auto simp: ct_entries_def)
  with wf have bin: "hash (ct_size ht) (e_key e) = i" using wf_bin_eq by metis
  have "chain_sorted cmp (ct_table ht i)" using wf by (simp add: ct_wf_def)
  with i have "chain_get cmp (e_key e) (ct_table ht i) = Some e" by (simp add: chain_get_iff cmp_refl)
  then show ?thesis by (simp add: ct_lookup_def ct_get_def bin)
qed

lemma lookup_entry:
  assumes wf: "ct_wf cmp hash ht" and l: "ct_lookup cmp hash ht k = Some v"
  shows "\<exists>e \<in> set (ct_entries ht). cmp k (e_key e) = 0 \<and> e_value e = v"
proof -
  from l obtain e where g: "chain_get cmp k (ct_table ht (hash (ct_size ht) k)) = Some e" "e_value e = v"
    by (auto simp: ct_lookup_def ct_get_def)
  from chain_get_SomeD [OF g(1)] have e: "e \<in> set (ct_table ht (hash (ct_size ht) k))" "cmp k (e_key e) = 0"
    by auto
  have "int (hash (ct_size ht) k) < ct_size ht" using wf hash_range by (simp add: ct_wf_def)
  with e g(2) show ?thesis by (force simp: ct_entries_def)
qed

end

section \<open>Iteration\<close>

lemma entry_after_rest:
  "entry_after k es = (case chain_rest (Some k) es of [] \<Rightarrow> None | e # _ \<Rightarrow> Some e)"
  by (induction es) (simp_all add: chain_rest_def split: list.split)

lemma chain_rest_step:
  "distinct (map e_key es) \<Longrightarrow> chain_rest (Some k) es = e # r \<Longrightarrow>
   chain_rest (Some (e_key e)) es = r \<and> e \<in> set es"
  by (induction es arbitrary: e r) (auto simp: chain_rest_def split: if_splits dest: set_dropWhileD)

lemma scan_bins_None:
  "0 \<le> i \<Longrightarrow> scan_bins t n i = None \<longleftrightarrow> concat (map t [nat i..<nat n]) = []"
proof (induction t n i rule: scan_bins.induct)
  case (1 t n i)
  show ?case
  proof (cases "i < n")
    case True
    then have "[nat i..<nat n] = nat i # [nat (i + 1)..<nat n]"
      using "1.prems" by (simp add: upt_conv_Cons nat_add_distrib)
    then show ?thesis
      using True "1.prems" "1.IH" by (auto simp: scan_bins.simps [of t n i] split: list.splits)
  qed (simp add: scan_bins.simps [of t n i])
qed

lemma scan_bins_Some:
  "0 \<le> i \<Longrightarrow> scan_bins t n i = Some (j, e) \<Longrightarrow>
   i \<le> j \<and> j < n \<and> (\<exists>r. t (nat j) = e # r \<and>
     concat (map t [nat i..<nat n]) = e # r @ concat (map t [nat (j + 1)..<nat n]))"
proof (induction t n i rule: scan_bins.induct)
  case (1 t n i)
  from "1.prems" have i: "i < n" by (simp add: scan_bins.simps [of t n i] split: if_splits)
  then have upt: "[nat i..<nat n] = nat i # [nat (i + 1)..<nat n]"
    using "1.prems" by (simp add: upt_conv_Cons nat_add_distrib)
  show ?case
  proof (cases "t (nat i)")
    case Nil
    then show ?thesis
      using "1.prems" "1.IH" i upt by (simp add: scan_bins.simps [of t n i])
  next
    case (Cons x xs)
    then show ?thesis using "1.prems" i upt by (simp add: scan_bins.simps [of t n i])
  qed
qed

context hashed_order
begin

lemma chain_sorted_distinct: "chain_sorted cmp es \<Longrightarrow> distinct (map e_key es)"
proof (induction es)
  case (Cons x es)
  then have "cmp (e_key x) (e_key y) \<noteq> 0" if "y \<in> set es" for y using that by fastforce
  then have "e_key x \<notin> e_key ` set es" using cmp_refl by (metis imageE)
  with Cons show ?case by simp
qed simp

lemma wf_distinct: "ct_wf cmp hash ht \<Longrightarrow> distinct (map e_key (ct_table ht i))"
  by (simp add: ct_wf_def chain_sorted_distinct)

text \<open>One call of the iterator: it returns the head of what remains, or resets itself.\<close>

lemma next_Nil:
  assumes wf: "ct_wf cmp hash ht" and r: "ct_remaining ht = []"
  shows "ct_next ht = (ht\<lparr>ct_cur := - 1, ct_last := None\<rparr>, None)"
proof -
  have cur: "- 1 \<le> ct_cur ht" "ct_cur ht < ct_size ht"
    using wf by (simp_all add: ct_wf_def ct_iter_ok_def)
  with r have "scan_bins (ct_table ht) (ct_size ht) (ct_cur ht + 1) = None"
    by (simp add: scan_bins_None ct_remaining_def)
  moreover have "entry_after k (ct_table ht (nat (ct_cur ht))) = None"
    if "0 \<le> ct_cur ht" "ct_last ht = Some k" for k
    using r that by (simp add: ct_remaining_def entry_after_rest)
  ultimately show ?thesis using cur by (auto simp: ct_next_def split: option.split)
qed

lemma next_in_chain:
  assumes wf: "ct_wf cmp hash ht" and cur: "0 \<le> ct_cur ht"
    and l: "ct_last ht = Some k" and r: "chain_rest (Some k) (ct_table ht (nat (ct_cur ht))) = e # r"
  shows "ct_next ht = (ht\<lparr>ct_last := Some (e_key e)\<rparr>, Some e) \<and>
    ct_remaining (ht\<lparr>ct_last := Some (e_key e)\<rparr>) =
      r @ concat (map (ct_table ht) [nat (ct_cur ht + 1)..<nat (ct_size ht)]) \<and>
    ct_wf cmp hash (ht\<lparr>ct_last := Some (e_key e)\<rparr>)"
  using chain_rest_step [OF wf_distinct [OF wf] r] wf cur l r
  by (auto simp: ct_next_def entry_after_rest ct_remaining_def ct_wf_def ct_iter_ok_def)

lemma next_in_bins:
  assumes wf: "ct_wf cmp hash ht"
    and none: "0 \<le> ct_cur ht \<Longrightarrow> chain_rest (ct_last ht) (ct_table ht (nat (ct_cur ht))) = []"
    and s: "scan_bins (ct_table ht) (ct_size ht) (ct_cur ht + 1) = Some (j, e)"
  shows "ct_next ht = (ht\<lparr>ct_cur := j, ct_last := Some (e_key e)\<rparr>, Some e) \<and>
    ct_remaining ht = e # ct_remaining (ht\<lparr>ct_cur := j, ct_last := Some (e_key e)\<rparr>) \<and>
    ct_wf cmp hash (ht\<lparr>ct_cur := j, ct_last := Some (e_key e)\<rparr>)"
proof -
  have cur: "- 1 \<le> ct_cur ht" "ct_cur ht < ct_size ht"
    using wf by (simp_all add: ct_wf_def ct_iter_ok_def)
  then have cur1: "0 \<le> ct_cur ht + 1" by simp
  from scan_bins_Some [OF cur1 s] obtain r
    where j: "ct_cur ht + 1 \<le> j" "j < ct_size ht" and t: "ct_table ht (nat j) = e # r"
      and c: "concat (map (ct_table ht) [nat (ct_cur ht + 1)..<nat (ct_size ht)]) =
        e # r @ concat (map (ct_table ht) [nat (j + 1)..<nat (ct_size ht)])"
    by blast
  have "ct_next ht = (ht\<lparr>ct_cur := j, ct_last := Some (e_key e)\<rparr>, Some e)"
    using cur none s by (auto simp: ct_next_def entry_after_rest split: option.split)
  moreover have "ct_remaining ht = e # ct_remaining (ht\<lparr>ct_cur := j, ct_last := Some (e_key e)\<rparr>)"
    using cur j none by (auto simp: ct_remaining_def c t chain_rest_def)
  moreover have "ct_wf cmp hash (ht\<lparr>ct_cur := j, ct_last := Some (e_key e)\<rparr>)"
    using wf cur j t by (simp add: ct_wf_def ct_iter_ok_def)
  ultimately show ?thesis by blast
qed

lemma next_Cons:
  assumes wf: "ct_wf cmp hash ht" and r: "ct_remaining ht = e # r"
  shows "\<exists>c l. ct_next ht = (ht\<lparr>ct_cur := c, ct_last := l\<rparr>, Some e) \<and>
    ct_remaining (ht\<lparr>ct_cur := c, ct_last := l\<rparr>) = r \<and> ct_wf cmp hash (ht\<lparr>ct_cur := c, ct_last := l\<rparr>)"
proof (cases "0 \<le> ct_cur ht \<and> chain_rest (ct_last ht) (ct_table ht (nat (ct_cur ht))) \<noteq> []")
  case True
  then obtain k e' r' where l: "ct_last ht = Some k"
    and c: "chain_rest (Some k) (ct_table ht (nat (ct_cur ht))) = e' # r'"
    by (cases "ct_last ht") (auto simp: chain_rest_def neq_Nil_conv)
  have e': "e' = e" using True l c r by (simp add: ct_remaining_def)
  have "ht\<lparr>ct_cur := ct_cur ht, ct_last := Some (e_key e)\<rparr> = ht\<lparr>ct_last := Some (e_key e)\<rparr>" by simp
  moreover have "r = r' @ concat (map (ct_table ht) [nat (ct_cur ht + 1)..<nat (ct_size ht)])"
    using True l c r by (simp add: ct_remaining_def)
  ultimately show ?thesis using next_in_chain [OF wf _ l c] True e' by metis
next
  case False
  then have "concat (map (ct_table ht) [nat (ct_cur ht + 1)..<nat (ct_size ht)]) = e # r"
    using r by (auto simp: ct_remaining_def split: if_splits)
  then have "scan_bins (ct_table ht) (ct_size ht) (ct_cur ht + 1) \<noteq> None"
    using wf scan_bins_None [of "ct_cur ht + 1" "ct_table ht" "ct_size ht"]
    by (simp add: ct_wf_def ct_iter_ok_def del: concat_eq_Nil_conv)
  then obtain j e' where s: "scan_bins (ct_table ht) (ct_size ht) (ct_cur ht + 1) = Some (j, e')" by auto
  show ?thesis using next_in_bins [OF wf _ s] False r by auto
qed

text \<open>
  The client loop terminates, visits exactly what remains, in order, and leaves the table as it was
  with the iterator reset.
\<close>

lemma fold_remaining:
  "ct_wf cmp hash ht \<Longrightarrow>
   ct_fold body ht s = Some (ht\<lparr>ct_cur := - 1, ct_last := None\<rparr>, fold body (ct_remaining ht) s)"
proof (induction "ct_remaining ht" arbitrary: ht s)
  case Nil
  then show ?case using next_Nil [OF Nil.prems] by (subst ct_fold.simps) simp
next
  case (Cons e r)
  from next_Cons [OF Cons.prems Cons.hyps(2) [symmetric]] obtain c l
    where n: "ct_next ht = (ht\<lparr>ct_cur := c, ct_last := l\<rparr>, Some e)"
      and rem: "ct_remaining (ht\<lparr>ct_cur := c, ct_last := l\<rparr>) = r"
      and wf: "ct_wf cmp hash (ht\<lparr>ct_cur := c, ct_last := l\<rparr>)" by blast
  have "ct_fold body ht s = ct_fold body (ht\<lparr>ct_cur := c, ct_last := l\<rparr>) (body e s)"
    by (subst ct_fold.simps) (simp add: n)
  also have "\<dots> = Some (ht\<lparr>ct_cur := - 1, ct_last := None\<rparr>, fold body r (body e s))"
    using Cons.hyps(1) [OF rem [symmetric] wf, of "body e s"] rem by simp
  finally show ?case by (simp add: Cons.hyps(2) [symmetric])
qed

lemma fold_entries:
  assumes "ct_wf cmp hash ht" "ct_cur ht = - 1" "ct_last ht = None"
  shows "ct_fold body ht s = Some (ht, fold body (ct_entries ht) s)"
proof -
  have "ct_remaining ht = ct_entries ht" "ht\<lparr>ct_cur := - 1, ct_last := None\<rparr> = ht"
    using assms(2,3) by (simp_all add: ct_remaining_def ct_entries_def)
  then show ?thesis using fold_remaining [OF assms(1), of body s] by simp
qed

lemma entries_distinct:
  assumes wf: "ct_wf cmp hash ht"
  shows "distinct (map e_key (ct_entries ht))"
proof -
  have "distinct (map e_key (concat (map (ct_table ht) [0..<n])))" for n
  proof (induction n)
    case (Suc n)
    have "e_key x \<noteq> e_key y" if "x \<in> set (ct_table ht i)" "i < n" "y \<in> set (ct_table ht n)" for x y i
      using wf_bin_eq [OF wf that(1)] wf_bin_eq [OF wf that(3)] that(2) by auto
    then show ?case using Suc wf_distinct [OF wf, of n] by force
  qed simp
  then show ?thesis by (simp add: ct_entries_def)
qed

lemma chain_rest_suffix: "\<exists>p. es = p @ chain_rest l es"
proof (cases l)
  case (Some k)
  show ?thesis
  proof (cases "dropWhile (\<lambda>e. e_key e \<noteq> k) es")
    case (Cons x r)
    then have "es = (takeWhile (\<lambda>e. e_key e \<noteq> k) es @ [x]) @ r"
      using takeWhile_dropWhile_id [of "\<lambda>e. e_key e \<noteq> k" es] by simp
    moreover have "chain_rest l es = r" using Some Cons by (simp add: chain_rest_def)
    ultimately show ?thesis by metis
  next
    case Nil
    then have "chain_rest l es = []" by (simp only: chain_rest_def Some option.case list.sel)
    then show ?thesis by simp
  qed
qed (simp add: chain_rest_def)

lemma remaining_suffix:
  assumes wf: "ct_wf cmp hash ht"
  shows "\<exists>p. ct_entries ht = p @ ct_remaining ht"
proof (cases "0 \<le> ct_cur ht")
  case True
  let ?t = "ct_table ht" and ?c = "nat (ct_cur ht)" and ?n = "nat (ct_size ht)"
  have c: "?c < ?n" using wf True by (simp add: ct_wf_def ct_iter_ok_def)
  have c1: "nat (ct_cur ht + 1) = Suc ?c" using True by (simp add: Suc_nat_eq_nat_zadd1 add.commute)
  have "[0..<?n] = [0..<?c] @ ?c # [Suc ?c..<?n]" 
    using c by (rule upt_split_at)
  then have "ct_entries ht = concat (map ?t [0..<?c]) @ ?t ?c @ concat (map ?t [Suc ?c..<?n])"
    by (simp add: ct_entries_def)
  moreover obtain p where "?t ?c = p @ chain_rest (ct_last ht) (?t ?c)" using chain_rest_suffix by blast
  moreover have "ct_remaining ht = chain_rest (ct_last ht) (?t ?c) @ concat (map ?t [Suc ?c..<?n])"
    using True c1 by (simp add: ct_remaining_def)
  ultimately show ?thesis by (metis append_assoc)
next
  case False
  then have "ct_cur ht = - 1" using wf by (simp add: ct_wf_def ct_iter_ok_def)
  then show ?thesis by (simp add: ct_remaining_def ct_entries_def)
qed

lemma remaining_distinct: "ct_wf cmp hash ht \<Longrightarrow> distinct (map e_key (ct_remaining ht))"
  using remaining_suffix entries_distinct by (metis distinct_append map_append)

lemma next_hd:
  "ct_wf cmp hash ht \<Longrightarrow> snd (ct_next ht) = (case ct_remaining ht of [] \<Rightarrow> None | e # _ \<Rightarrow> Some e)"
  using next_Nil next_Cons by (fastforce split: list.split)

text \<open>
  Deleting the entry the iterator stands on moves the iterator onto the successor as if it had been
  visited: the successor is skipped.  Deleting any other entry only removes that entry from what
  remains.
\<close>

lemma del_last_skips:
  assumes wf: "ct_wf cmp hash ht" and cur: "0 \<le> ct_cur ht" and l: "ct_last ht = Some k"
    and r: "chain_rest (Some k) (ct_table ht (nat (ct_cur ht))) = e # r"
  shows "ct_remaining ht = e # ct_remaining (ct_del cmp hash ht k)"
proof -
  let ?es = "ct_table ht (nat (ct_cur ht))"
  from l wf have "k \<in> e_key ` set ?es" by (simp add: ct_wf_def ct_iter_ok_def)
  then obtain x where x: "x \<in> set ?es" "e_key x = k" by blast
  then have bin: "hash (ct_size ht) k = nat (ct_cur ht)" using wf_bin_eq [OF wf x(1)] by simp
  from x obtain ys zs where es: "?es = ys @ x # zs" by (meson split_list)
  have dis: "distinct (map e_key (ys @ x # zs))" using wf_distinct [OF wf, of "nat (ct_cur ht)"] es by simp
  have dw: "dropWhile (\<lambda>e. e_key e \<noteq> e_key x) (ys @ x # zs) = x # zs"
    using dis by (subst dropWhile_append2) (auto, metis imageI)
  with r x es have zs: "zs = e # r" by (simp add: chain_rest_def)
  have sorted: "chain_sorted cmp (ys @ x # zs)" using wf es by (metis ct_wf_def)
  then have "\<forall>y \<in> set ys. cmp k (e_key y) > 0"
    using x(2) by (auto simp: chain_sorted_def sorted_wrt_append cmp_anti)
  then have seek: "chain_seek cmp k ?es = x # e # r" "chain_before cmp k ?es = ys"
    using x(2) cmp_refl [of k] by (simp_all add: chain_seek_def chain_before_def es zs)
  have dw': "dropWhile (\<lambda>a. e_key a \<noteq> e_key e) (ys @ e # r) = e # r"
    using dis zs by (subst dropWhile_append2) (auto, metis imageI)
  have frame: "map ((ct_table ht)(nat (ct_cur ht) := z)) [nat (ct_cur ht + 1)..<nat (ct_size ht)] =
      map (ct_table ht) [nat (ct_cur ht + 1)..<nat (ct_size ht)]" for z
    using cur by (intro map_cong) auto
  show ?thesis
    using cur l x(2) cmp_refl [of k] r bin seek dw'
    by (simp add: ct_del_def Let_def ct_remaining_def chain_rest_def frame)
qed

end

end
