(* ===== verification/C_Float.thy ===== *)
theory C_Float
  imports CM_Prelude "HOL-Library.Log_Nat" Complex_Main
begin

text \<open>
  IEEE-754 arithmetic as the C code uses it (\<^verbatim>\<open>float\<close> is binary32, \<^verbatim>\<open>double\<close> is binary64, rounding
  to nearest, ties to even, evaluation in the declared type).  A finite value is the rational number
  it denotes; the sign of zero is not kept, because no operation of the code distinguishes it.
\<close>

datatype cfloat = Fin rat | PInf | NInf | NaN

section \<open>Rounding\<close>

definition round_even :: "rat \<Rightarrow> int" where
  "round_even x =
    (let f = \<lfloor>x\<rfloor>; d = x - of_int f
     in if d < 1 / 2 then f else if d > 1 / 2 then f + 1 else if even f then f else f + 1)"

text \<open>The binary exponent of a positive rational: \<open>2 powi ilog2 x \<le> x < 2 powi (ilog2 x + 1)\<close>.\<close>

definition ilog2 :: "rat \<Rightarrow> int" where
  "ilog2 x =
    (let (n, d) = quotient_of x; e = bitlen n - bitlen d
     in if 2 powi e \<le> x then e else e - 1)"

definition round_fp :: "int \<Rightarrow> int \<Rightarrow> int \<Rightarrow> rat \<Rightarrow> cfloat" where
  "round_fp prec emin emax x =
    (if x = 0 then Fin 0
     else
       let e = max (ilog2 \<bar>x\<bar>) emin; u = 2 powi (e - prec + 1);
           r = of_int (round_even (x / u)) * u
       in if \<bar>r\<bar> \<ge> 2 powi (emax + 1) then (if x > 0 then PInf else NInf) else Fin r)"

definition fl32 :: "rat \<Rightarrow> cfloat" where
  "fl32 = round_fp 24 (- 126) 127"

definition fl64 :: "rat \<Rightarrow> cfloat" where
  "fl64 = round_fp 53 (- 1022) 1023"

text \<open>Conversion of a value to \<^verbatim>\<open>float\<close> or \<^verbatim>\<open>double\<close>.\<close>

fun to_float :: "cfloat \<Rightarrow> cfloat" where
  "to_float (Fin x) = fl32 x"
| "to_float y = y"

fun to_double :: "cfloat \<Rightarrow> cfloat" where
  "to_double (Fin x) = fl64 x"
| "to_double y = y"

section \<open>Arithmetic and comparison\<close>

text \<open>
  Division and multiplication before rounding.  Division by zero gives an infinity or, for
  \<open>0 / 0\<close>, NaN; the infinities only ever meet finite operands in this code.
\<close>

fun cf_div :: "(rat \<Rightarrow> cfloat) \<Rightarrow> cfloat \<Rightarrow> cfloat \<Rightarrow> cfloat" where
  "cf_div rnd (Fin x) (Fin y) =
    (if y = 0 then (if x = 0 then NaN else if x > 0 then PInf else NInf) else rnd (x / y))"
| "cf_div rnd (Fin x) PInf = Fin 0"
| "cf_div rnd (Fin x) NInf = Fin 0"
| "cf_div rnd PInf (Fin y) = (if y \<ge> 0 then PInf else NInf)"
| "cf_div rnd NInf (Fin y) = (if y \<ge> 0 then NInf else PInf)"
| "cf_div rnd _ _ = NaN"

fun cf_mul :: "(rat \<Rightarrow> cfloat) \<Rightarrow> cfloat \<Rightarrow> cfloat \<Rightarrow> cfloat" where
  "cf_mul rnd (Fin x) (Fin y) = rnd (x * y)"
| "cf_mul rnd PInf (Fin y) = (if y = 0 then NaN else if y > 0 then PInf else NInf)"
| "cf_mul rnd NInf (Fin y) = (if y = 0 then NaN else if y > 0 then NInf else PInf)"
| "cf_mul rnd (Fin x) PInf = (if x = 0 then NaN else if x > 0 then PInf else NInf)"
| "cf_mul rnd (Fin x) NInf = (if x = 0 then NaN else if x > 0 then NInf else PInf)"
| "cf_mul rnd PInf PInf = PInf"
| "cf_mul rnd NInf NInf = PInf"
| "cf_mul rnd PInf NInf = NInf"
| "cf_mul rnd NInf PInf = NInf"
| "cf_mul rnd _ _ = NaN"

text \<open>\<open>cf_less x y\<close> is C's \<^verbatim>\<open>x < y\<close>; every comparison with NaN is false.\<close>

fun cf_less :: "cfloat \<Rightarrow> cfloat \<Rightarrow> bool" where
  "cf_less NaN _ = False"
| "cf_less _ NaN = False"
| "cf_less (Fin x) (Fin y) = (x < y)"
| "cf_less (Fin _) PInf = True"
| "cf_less (Fin _) NInf = False"
| "cf_less PInf _ = False"
| "cf_less NInf NInf = False"
| "cf_less NInf _ = True"

fun cf_ge :: "cfloat \<Rightarrow> cfloat \<Rightarrow> bool" where
  "cf_ge NaN _ = False"
| "cf_ge _ NaN = False"
| "cf_ge x y = (\<not> cf_less x y)"

definition cf_eq0 :: "cfloat \<Rightarrow> bool" where
  "cf_eq0 x \<longleftrightarrow> x = Fin 0"

text \<open>
  Conversion to \<^verbatim>\<open>int\<close> truncates towards zero; out of range the x86-64 conversion instruction delivers
  the smallest \<^verbatim>\<open>int\<close>.
\<close>

fun float_to_int :: "cfloat \<Rightarrow> int" where
  "float_to_int (Fin x) =
    (let t = (if x < 0 then \<lceil>x\<rceil> else \<lfloor>x\<rfloor>) in if int_range t then t else - 2147483648)"
| "float_to_int _ = - 2147483648"

section \<open>Bounds of rounding\<close>

lemma round_even_bounds: "of_int (round_even x) - x \<le> 1 / 2" "x - of_int (round_even x) \<le> 1 / 2"
proof -
  have f: "of_int \<lfloor>x\<rfloor> \<le> x" "x < of_int \<lfloor>x\<rfloor> + 1" by (rule of_int_floor_le) linarith
  define d where "d = x - of_int \<lfloor>x\<rfloor>"
  have x: "x = of_int \<lfloor>x\<rfloor> + d" and d: "0 \<le> d" "d < 1" using f by (simp_all add: d_def)
  have "round_even x = (if d < 1 / 2 then \<lfloor>x\<rfloor> else if d > 1 / 2 then \<lfloor>x\<rfloor> + 1
      else if even \<lfloor>x\<rfloor> then \<lfloor>x\<rfloor> else \<lfloor>x\<rfloor> + 1)"
    unfolding round_even_def Let_def d_def by (rule refl)
  then have "round_even x = \<lfloor>x\<rfloor> \<and> d \<le> 1 / 2 \<or> round_even x = \<lfloor>x\<rfloor> + 1 \<and> 1 / 2 \<le> d"
    using linorder_less_linear [of d "1 / 2"] by (auto split: if_splits)
  then have "of_int (round_even x) - x \<le> 1 / 2 \<and> x - of_int (round_even x) \<le> 1 / 2"
  proof
    assume "round_even x = \<lfloor>x\<rfloor> \<and> d \<le> 1 / 2"
    then have "of_int (round_even x) = x - d" "d \<le> 1 / 2" by (simp_all add: d_def)
    then show ?thesis using d by linarith
  next
    assume "round_even x = \<lfloor>x\<rfloor> + 1 \<and> 1 / 2 \<le> d"
    then have "of_int (round_even x) = x - d + 1" "1 / 2 \<le> d" by (simp_all add: d_def)
    then show ?thesis using d by linarith
  qed
  then show "of_int (round_even x) - x \<le> 1 / 2" "x - of_int (round_even x) \<le> 1 / 2" by simp_all
qed

lemma round_even_le: "x \<le> of_int n \<Longrightarrow> round_even x \<le> n"
proof -
  assume x: "x \<le> of_int n"
  show ?thesis
  proof (cases "x = of_int n")
    case True
    then show ?thesis by (simp add: round_even_def Let_def)
  next
    case False
    with x have "\<lfloor>x\<rfloor> < n" by (simp add: floor_less_iff)
    then show ?thesis by (auto simp: round_even_def Let_def)
  qed
qed

lemma round_even_ge0: "0 \<le> x \<Longrightarrow> 0 \<le> round_even x"
proof -
  assume "0 \<le> x"
  then have "0 \<le> \<lfloor>x\<rfloor>" by simp
  then show ?thesis by (auto simp: round_even_def Let_def)
qed

lemma fl32_0 [simp]: "fl32 0 = Fin 0" and fl64_0 [simp]: "fl64 0 = Fin 0"
  by (simp_all add: fl32_def fl64_def round_fp_def)

text \<open>The exponent brackets its argument.\<close>

lemma ilog2_bounds:
  assumes "0 < x"
  shows "2 powi ilog2 x \<le> x" "x < 2 powi (ilog2 x + 1)"
proof -
  obtain n d where q: "quotient_of x = (n, d)" by fastforce
  have d: "0 < d" using q by (rule quotient_of_denom_pos)
  have x: "x = of_int n / of_int d" using q by (rule quotient_of_div)
  with assms d have n: "0 < n" by (simp add: zero_less_divide_iff)
  let ?e = "bitlen n - bitlen d"
  have pw: "(2 :: rat) powi (bitlen m - 1) \<le> of_int m" "of_int m < (2 :: rat) powi bitlen m" if "0 < m" for m :: int
  proof -
    have "1 \<le> bitlen m" using that bitlen_nonneg [of m] bitlen_eq_zero_iff [of m] by linarith
    then have "(2 :: rat) powi (bitlen m - 1) = of_int (2 ^ nat (bitlen m - 1))"
      "(2 :: rat) powi bitlen m = of_int (2 ^ nat (bitlen m))"
      by (simp_all add: power_int_def)
    then show "(2 :: rat) powi (bitlen m - 1) \<le> of_int m" "of_int m < (2 :: rat) powi bitlen m"
      using bitlen_bounds [OF that] by (simp_all only: of_int_le_iff of_int_less_iff)
  qed
  have "(2 :: rat) powi (?e - 1) = 2 powi (bitlen n - 1) / 2 powi bitlen d"
    by (simp add: power_int_diff [symmetric] algebra_simps)
  also have "\<dots> \<le> of_int n / of_int d"
    using pw(1) [OF n] pw(2) [OF d] d n by (intro frac_le) auto
  finally have lo: "2 powi (?e - 1) \<le> x" by (simp add: x)
  have "of_int n / of_int d < (2 :: rat) powi bitlen n / 2 powi (bitlen d - 1)"
    using pw(2) [OF n] pw(1) [OF d] n d by (intro frac_less) auto
  also have "\<dots> = 2 powi (?e + 1)"
    by (simp add: power_int_diff [symmetric] algebra_simps)
  finally have hi: "x < 2 powi (?e + 1)" by (simp add: x)
  show "2 powi ilog2 x \<le> x" "x < 2 powi (ilog2 x + 1)"
    using lo hi by (auto simp: ilog2_def q Let_def)
qed

text \<open>
  The rounding error of a finite result is at most half a unit in the last place, where the unit is
  that of the argument's binade (or of the subnormal range).
\<close>

lemma round_fp_error:
  assumes "round_fp prec emin emax x = Fin r" "x \<noteq> 0"
  shows "\<bar>r - x\<bar> \<le> 2 powi (max (ilog2 \<bar>x\<bar>) emin - prec + 1) / 2"
proof -
  define u :: rat where "u = 2 powi (max (ilog2 \<bar>x\<bar>) emin - prec + 1)"
  have u: "0 < u" by (simp add: u_def)
  have r: "r = of_int (round_even (x / u)) * u"
    using assms by (simp add: round_fp_def Let_def u_def split: if_splits)
  have "\<bar>of_int (round_even (x / u)) - x / u\<bar> \<le> 1 / 2"
    using round_even_bounds [of "x / u"] unfolding abs_le_iff by linarith
  then have "\<bar>of_int (round_even (x / u)) - x / u\<bar> * u \<le> 1 / 2 * u"
    using u by (intro mult_right_mono) auto
  moreover have "\<bar>of_int (round_even (x / u)) - x / u\<bar> * u = \<bar>r - x\<bar>"
    using u by (simp add: r abs_mult_pos left_diff_distrib)
  ultimately show ?thesis unfolding u_def [symmetric] by simp
qed

lemma round_fp_nonneg: "0 \<le> x \<Longrightarrow> round_fp prec emin emax x = Fin r \<Longrightarrow> 0 \<le> r"
  by (auto simp: round_fp_def Let_def round_even_ge0 split: if_splits)

end
