(* ===== verification/Ht_kFlow.thy ===== *)
theory Ht_kFlow
  imports Chained_Table C_Float
begin

text \<open>
  The three tables keyed by the 5-tuple flow: \<^verbatim>\<open>hashTableFlow.c\<close> (\<open>ht_kf\<close>, single-threaded, the
  sequence numbers of the trace generator), \<^verbatim>\<open>mt_hashtable_kFlow_vInt.c\<close> (\<open>ht_vi\<close>) and
  \<^verbatim>\<open>mt_hashtable_kFlow_vFloat.c\<close> (\<open>ht_vf\<close>).

  A table pointer is an \<open>option\<close>, \<open>None\<close> being \<^verbatim>\<open>NULL\<close>.  The argument \<open>malloc_ok\<close> of the creation
  functions says whether the allocation succeeds.  The allocation of a single entry is taken to
  succeed: the code dereferences its result unchecked.  Each operation holds the mutex of its one
  bin from before its first access to after its last, so one operation is one atomic step.
\<close>

definition HASH_MAP_SIZE :: int where
  "HASH_MAP_SIZE = 65535"

lemma HASH_MAP_SIZE_range: "0 < HASH_MAP_SIZE" "HASH_MAP_SIZE < 2147483648"
  by (simp_all add: HASH_MAP_SIZE_def)

section \<open>Hashing of the 5-tuple\<close>

definition flow_hash :: "int \<Rightarrow> flow_s \<Rightarrow> nat" where
  "flow_hash n key =
    (let hashval = ucast (f_srcip key) :: u64;
         hashval = ((push_bit 32 hashval OR ucast (f_dstip key)) XOR ucast (f_src_port key))
                     XOR ucast (f_dst_port key)
     in unat (hashval mod word_of_int n))"

lemma unat_mod_size:
  "0 < n \<Longrightarrow> n < 2147483648 \<Longrightarrow> int (unat (w mod word_of_int n :: u64)) < n"
proof -
  assume n: "0 < n" "n < 2147483648"
  then have m: "uint (word_of_int n :: u64) = n"
    by (simp add: uint_word_of_int_eq take_bit_int_eq_self)
  then have "uint (w mod word_of_int n) = uint w mod n" by (simp add: uint_mod)
  then show ?thesis using n by simp
qed

interpretation flow_tab: hashed_order flow_compare flow_hash
proof
  show "int (flow_hash n k) < n" if "0 < n" "n < 2147483648" for n k
    unfolding flow_hash_def Let_def using that by (rule unat_mod_size)
  show "flow_hash n a = flow_hash n b" if "flow_compare a b = 0" for a b n
    using that by (simp add: flow_hash_def flow_tuple_def)
qed

section \<open>mt\_hashtable\_kFlow\_vInt\<close>

type_synonym entry_vi = "(flow_s, u32) entry"
type_synonym hashtable_vi = "(flow_s, u32) chained"

definition ht_vi_create :: "bool \<Rightarrow> hashtable_vi option" where
  "ht_vi_create malloc_ok = (if malloc_ok then Some (ct_create HASH_MAP_SIZE) else None)"

text \<open>The entries passed to \<^verbatim>\<open>free\<close>, in order.\<close>

definition ht_vi_destory :: "hashtable_vi option \<Rightarrow> entry_vi list" where
  "ht_vi_destory hashtable =
    (case hashtable of
       None \<Rightarrow> []
     | Some ht \<Rightarrow> concat (map (\<lambda>i. ct_table ht i) [0..<nat (ct_size ht)]))"

definition ht_vi_hash :: "int \<Rightarrow> flow_s \<Rightarrow> nat" where
  "ht_vi_hash = flow_hash"

definition ht_vi_newpair :: "flow_s \<Rightarrow> u32 \<Rightarrow> entry_vi" where
  "ht_vi_newpair key value = \<lparr>e_key = key, e_value = value\<rparr>"

definition ht_vi_get :: "hashtable_vi option \<Rightarrow> flow_s \<Rightarrow> int" where
  "ht_vi_get hashtable key =
    (case hashtable of
       None \<Rightarrow> - 1
     | Some ht \<Rightarrow>
         (case ct_get flow_compare ht_vi_hash ht key of
            None \<Rightarrow> - 1
          | Some pair \<Rightarrow> sint (e_value pair)))"

definition ht_vi_set :: "hashtable_vi option \<Rightarrow> flow_s \<Rightarrow> u32 \<Rightarrow> hashtable_vi option" where
  "ht_vi_set hashtable key value =
    (case hashtable of
       None \<Rightarrow> None
     | Some ht \<Rightarrow>
         Some (ct_upsert flow_compare ht_vi_hash (\<lambda>_. value) (ht_vi_newpair key value) ht key))"

definition ht_vi_del :: "hashtable_vi option \<Rightarrow> flow_s \<Rightarrow> hashtable_vi option" where
  "ht_vi_del hashtable key =
    (case hashtable of None \<Rightarrow> None | Some ht \<Rightarrow> Some (ct_del flow_compare ht_vi_hash ht key))"

text \<open>\<^verbatim>\<open>ht_vi_next\<close> does not test for \<^verbatim>\<open>NULL\<close>; it is called on a table.\<close>

definition ht_vi_next :: "hashtable_vi \<Rightarrow> hashtable_vi \<times> entry_vi option" where
  "ht_vi_next hashtable = ct_next hashtable"

section \<open>mt\_hashtable\_kFlow\_vFloat\<close>

type_synonym entry_vf = "(flow_s, cfloat) entry"
type_synonym hashtable_vf = "(flow_s, cfloat) chained"

definition ht_vf_create :: "bool \<Rightarrow> hashtable_vf option" where
  "ht_vf_create malloc_ok = (if malloc_ok then Some (ct_create HASH_MAP_SIZE) else None)"

definition ht_vf_destory :: "hashtable_vf option \<Rightarrow> entry_vf list" where
  "ht_vf_destory hashtable =
    (case hashtable of
       None \<Rightarrow> []
     | Some ht \<Rightarrow> concat (map (\<lambda>i. ct_table ht i) [0..<nat (ct_size ht)]))"

definition ht_vf_hash :: "int \<Rightarrow> flow_s \<Rightarrow> nat" where
  "ht_vf_hash = flow_hash"

definition ht_vf_newpair :: "flow_s \<Rightarrow> cfloat \<Rightarrow> entry_vf" where
  "ht_vf_newpair key value = \<lparr>e_key = key, e_value = value\<rparr>"

definition ht_vf_get :: "hashtable_vf option \<Rightarrow> flow_s \<Rightarrow> cfloat" where
  "ht_vf_get hashtable key =
    (case hashtable of
       None \<Rightarrow> Fin (- 1)
     | Some ht \<Rightarrow>
         (case ct_get flow_compare ht_vf_hash ht key of
            None \<Rightarrow> Fin (- 1)
          | Some pair \<Rightarrow> e_value pair))"

definition ht_vf_set :: "hashtable_vf option \<Rightarrow> flow_s \<Rightarrow> cfloat \<Rightarrow> hashtable_vf option" where
  "ht_vf_set hashtable key value =
    (case hashtable of
       None \<Rightarrow> None
     | Some ht \<Rightarrow>
         Some (ct_upsert flow_compare ht_vf_hash (\<lambda>_. value) (ht_vf_newpair key value) ht key))"

definition ht_vf_del :: "hashtable_vf option \<Rightarrow> flow_s \<Rightarrow> hashtable_vf option" where
  "ht_vf_del hashtable key =
    (case hashtable of None \<Rightarrow> None | Some ht \<Rightarrow> Some (ct_del flow_compare ht_vf_hash ht key))"

definition ht_vf_next :: "hashtable_vf \<Rightarrow> hashtable_vf \<times> entry_vf option" where
  "ht_vf_next hashtable = ct_next hashtable"

section \<open>hashTableFlow\<close>

text \<open>
  \<open>ht_kf\<close> has no iterator; its size is an argument of the constructor, which refuses a size below
  one, and of the destructor.  \<open>malloc_ok\<close> covers both allocations of the constructor.
\<close>

type_synonym entry_kf = "(flow_s, u32) entry"

record hashtable_kf =
  kf_size :: int
  kf_table :: "nat \<Rightarrow> entry_kf list"

definition ht_kf_create :: "bool \<Rightarrow> int \<Rightarrow> hashtable_kf option" where
  "ht_kf_create malloc_ok n =
    (if n < 1 then None
     else if \<not> malloc_ok then None
     else Some \<lparr>kf_size = n, kf_table = (\<lambda>_. [])\<rparr>)"

definition ht_kf_destory :: "hashtable_kf option \<Rightarrow> int \<Rightarrow> entry_kf list" where
  "ht_kf_destory hashtable n =
    (case hashtable of
       None \<Rightarrow> []
     | Some ht \<Rightarrow> concat (map (kf_table ht) [0..<nat n]))"

definition ht_kf_hash :: "hashtable_kf \<Rightarrow> flow_s \<Rightarrow> nat" where
  "ht_kf_hash hashtable key =
    (let hashval = ucast (f_srcip key) :: u64;
         hashval = ((push_bit 32 hashval OR ucast (f_dstip key)) XOR ucast (f_src_port key))
                     XOR ucast (f_dst_port key)
     in unat (hashval mod word_of_int (kf_size hashtable)))"

definition ht_kf_newpair :: "flow_s \<Rightarrow> u32 \<Rightarrow> entry_kf" where
  "ht_kf_newpair key value = \<lparr>e_key = deep_copy_flow key, e_value = value\<rparr>"

definition ht_kf_set :: "hashtable_kf option \<Rightarrow> flow_s \<Rightarrow> u32 \<Rightarrow> hashtable_kf option" where
  "ht_kf_set hashtable key value =
    (case hashtable of
       None \<Rightarrow> None
     | Some ht \<Rightarrow>
         (let bin = ht_kf_hash ht key
          in Some (ht\<lparr>kf_table := (kf_table ht)(bin :=
               chain_upsert flow_compare key (\<lambda>_. value) (ht_kf_newpair key value) (kf_table ht bin))\<rparr>)))"

definition ht_kf_get :: "hashtable_kf option \<Rightarrow> flow_s \<Rightarrow> int" where
  "ht_kf_get hashtable key =
    (case hashtable of
       None \<Rightarrow> - 1
     | Some ht \<Rightarrow>
         (case chain_get flow_compare key (kf_table ht (ht_kf_hash ht key)) of
            None \<Rightarrow> - 1
          | Some pair \<Rightarrow> sint (e_value pair)))"

section \<open>Laws\<close>

abbreviation vi_wf :: "hashtable_vi \<Rightarrow> bool" where
  "vi_wf \<equiv> ct_wf flow_compare flow_hash"

abbreviation vf_wf :: "hashtable_vf \<Rightarrow> bool" where
  "vf_wf \<equiv> ct_wf flow_compare flow_hash"

lemma vi_lookup:
  "ht_vi_get (Some ht) key =
    (case ct_lookup flow_compare flow_hash ht key of None \<Rightarrow> - 1 | Some v \<Rightarrow> sint v)"
  by (simp add: ht_vi_get_def ct_lookup_def ht_vi_hash_def split: option.split)

lemma vi_set_Some:
  "ht_vi_set (Some ht) key v =
    Some (ct_upsert flow_compare flow_hash (\<lambda>_. v) \<lparr>e_key = key, e_value = v\<rparr> ht key)"
  by (simp add: ht_vi_set_def ht_vi_newpair_def ht_vi_hash_def)

text \<open>The plain-table view of \<open>ht_kf\<close> agrees with the chained table without its iterator.\<close>

definition kf_chained :: "hashtable_kf \<Rightarrow> (flow_s, u32) chained" where
  "kf_chained ht = \<lparr>ct_size = kf_size ht, ct_table = kf_table ht, ct_cur = - 1, ct_last = None\<rparr>"

definition kf_wf :: "hashtable_kf \<Rightarrow> bool" where
  "kf_wf ht \<longleftrightarrow> ct_wf flow_compare flow_hash (kf_chained ht)"

lemma kf_hash_flow_hash: "ht_kf_hash ht key = flow_hash (kf_size ht) key"
  by (simp add: ht_kf_hash_def flow_hash_def)

lemma kf_create_wf: "0 < n \<Longrightarrow> n < 2147483648 \<Longrightarrow> ht_kf_create True n = Some ht \<Longrightarrow> kf_wf ht"
  by (auto simp: ht_kf_create_def kf_wf_def kf_chained_def ct_wf_def ct_iter_ok_def split: if_splits)

lemma kf_set_chained:
  "ht_kf_set (Some ht) key v = Some ht' \<Longrightarrow>
   kf_chained ht' = ct_upsert flow_compare flow_hash (\<lambda>_. v) \<lparr>e_key = key, e_value = v\<rparr> (kf_chained ht) key"
  by (auto simp: ht_kf_set_def kf_chained_def ct_upsert_def Let_def kf_hash_flow_hash ht_kf_newpair_def
      deep_copy_flow_def)

lemma kf_get_chained:
  "ht_kf_get (Some ht) key =
    (case ct_lookup flow_compare flow_hash (kf_chained ht) key of None \<Rightarrow> - 1 | Some v \<Rightarrow> sint v)"
  by (simp add: ht_kf_get_def kf_chained_def ct_lookup_def ct_get_def kf_hash_flow_hash split: option.split)

lemma kf_set_wf: "kf_wf ht \<Longrightarrow> ht_kf_set (Some ht) key v = Some ht' \<Longrightarrow> kf_wf ht'"
  by (simp add: kf_wf_def kf_set_chained flow_tab.wf_upsert)

lemma kf_get_set:
  "kf_wf ht \<Longrightarrow> ht_kf_set (Some ht) key v = Some ht' \<Longrightarrow>
   ht_kf_get (Some ht') key' =
    (if flow_tuple key = flow_tuple key' then sint v else ht_kf_get (Some ht) key')"
  by (simp add: kf_wf_def kf_get_chained kf_set_chained flow_tab.lookup_set)

end
