(* ===== verification/Murmur3.thy ===== *)
theory Murmur3
  imports Flow
begin

text \<open>
  \<^verbatim>\<open>public_lib/murmur3.c\<close> and the bin function \<^verbatim>\<open>flow_src_hash_bin\<close> of \<^verbatim>\<open>flow.c\<close>.  A key is the list of
  its bytes in memory and \<^verbatim>\<open>len\<close> is the length of that list; blocks are loaded little-endian.
  The lemmas show that every mixing step is a bijection, hence that two monitored flows which differ
  in one address only have different 32-bit hashes, and that the bin is the remainder of the hash.
\<close>

section \<open>Rotation, block loads, finalization\<close>

definition rotl32 :: "u32 \<Rightarrow> nat \<Rightarrow> u32" where
  "rotl32 x r = push_bit r x OR drop_bit (32 - r) x"

definition rotl64 :: "u64 \<Rightarrow> nat \<Rightarrow> u64" where
  "rotl64 x r = push_bit r x OR drop_bit (64 - r) x"

fun le_bytes :: "u8 list \<Rightarrow> 'w::len word" where
  "le_bytes [] = 0"
| "le_bytes (b # bs) = ucast b OR push_bit 8 (le_bytes bs)"

definition getblock32 :: "u8 list \<Rightarrow> nat \<Rightarrow> u32" where
  "getblock32 data i = le_bytes (take 4 (drop (4 * i) data))"

definition getblock64 :: "u8 list \<Rightarrow> nat \<Rightarrow> u64" where
  "getblock64 data i = le_bytes (take 8 (drop (8 * i) data))"

definition fmix32 :: "u32 \<Rightarrow> u32" where
  "fmix32 h =
    (let h = h XOR drop_bit 16 h;
         h = h * 0x85ebca6b;
         h = h XOR drop_bit 13 h;
         h = h * 0xc2b2ae35
     in h XOR drop_bit 16 h)"

definition fmix64 :: "u64 \<Rightarrow> u64" where
  "fmix64 k =
    (let k = k XOR drop_bit 33 k;
         k = k * 0xff51afd7ed558ccd;
         k = k XOR drop_bit 33 k;
         k = k * 0xc4ceb9fe1a85ec53
     in k XOR drop_bit 33 k)"

section \<open>MurmurHash3\_x86\_32\<close>

definition x86_32_mix :: "u32 \<Rightarrow> u32" where
  "x86_32_mix k1 = rotl32 (k1 * 0xcc9e2d51) 15 * 0x1b873593"

definition x86_32_block :: "u32 \<Rightarrow> u32 \<Rightarrow> u32" where
  "x86_32_block h1 k1 = rotl32 (h1 XOR x86_32_mix k1) 13 * 5 + 0xe6546b64"

definition x86_32_tail :: "u8 list \<Rightarrow> nat \<Rightarrow> u32 \<Rightarrow> u32" where
  "x86_32_tail tail r h1 =
    (let k1 = 0;
         k1 = (if r \<ge> 3 then k1 XOR push_bit 16 (ucast (tail ! 2)) else k1);
         k1 = (if r \<ge> 2 then k1 XOR push_bit 8 (ucast (tail ! 1)) else k1)
     in if r \<ge> 1 then h1 XOR x86_32_mix (k1 XOR ucast (tail ! 0)) else h1)"

definition MurmurHash3_x86_32 :: "u8 list \<Rightarrow> u32 \<Rightarrow> u32" where
  "MurmurHash3_x86_32 key seed =
    (let len = length key;
         nblocks = len div 4;
         h1 = fold (\<lambda>i h. x86_32_block h (getblock32 key i)) [0..<nblocks] seed;
         h1 = x86_32_tail (drop (nblocks * 4) key) (len mod 4) h1;
         h1 = h1 XOR word_of_nat len
     in fmix32 h1)"

section \<open>MurmurHash3\_x86\_128\<close>

definition mix32 :: "u32 \<Rightarrow> u32 \<Rightarrow> nat \<Rightarrow> u32 \<Rightarrow> u32" where
  "mix32 k ca r cb = rotl32 (k * ca) r * cb"

definition x86_128_block :: "u8 list \<Rightarrow> nat \<Rightarrow> u32 \<times> u32 \<times> u32 \<times> u32 \<Rightarrow> u32 \<times> u32 \<times> u32 \<times> u32" where
  "x86_128_block data i = (\<lambda>(h1, h2, h3, h4).
    let c1 = 0x239b961b; c2 = 0xab0e9789; c3 = 0x38b34ae5; c4 = 0xa1e38b93;
        k1 = getblock32 data (i * 4 + 0); k2 = getblock32 data (i * 4 + 1);
        k3 = getblock32 data (i * 4 + 2); k4 = getblock32 data (i * 4 + 3);
        h1 = h1 XOR mix32 k1 c1 15 c2;
        h1 = (rotl32 h1 19 + h2) * 5 + 0x561ccd1b;
        h2 = h2 XOR mix32 k2 c2 16 c3;
        h2 = (rotl32 h2 17 + h3) * 5 + 0x0bcaa747;
        h3 = h3 XOR mix32 k3 c3 17 c4;
        h3 = (rotl32 h3 15 + h4) * 5 + 0x96cd1c35;
        h4 = h4 XOR mix32 k4 c4 18 c1;
        h4 = (rotl32 h4 13 + h1) * 5 + 0x32ac3b17
    in (h1, h2, h3, h4))"

text \<open>
  The tail switch falls through from \<open>case r\<close> down to \<open>case 1\<close>: byte \<open>j\<close> is folded into its lane
  exactly when \<open>j < r\<close>, the highest byte first, and a lane is mixed when its lowest byte is present.
\<close>

definition tail_lane :: "u8 list \<Rightarrow> nat \<Rightarrow> nat \<Rightarrow> nat \<Rightarrow> 'w::len word" where
  "tail_lane tail r lo n =
    fold (\<lambda>j k. if lo + j < r then k XOR push_bit (8 * j) (ucast (tail ! (lo + j))) else k)
      (rev [0..<n]) 0"

definition x86_128_tail :: "u8 list \<Rightarrow> nat \<Rightarrow> u32 \<times> u32 \<times> u32 \<times> u32 \<Rightarrow> u32 \<times> u32 \<times> u32 \<times> u32" where
  "x86_128_tail tail r = (\<lambda>(h1, h2, h3, h4).
    let c1 = 0x239b961b; c2 = 0xab0e9789; c3 = 0x38b34ae5; c4 = 0xa1e38b93;
        h4 = (if r \<ge> 13 then h4 XOR mix32 (tail_lane tail r 12 3) c4 18 c1 else h4);
        h3 = (if r \<ge> 9 then h3 XOR mix32 (tail_lane tail r 8 4) c3 17 c4 else h3);
        h2 = (if r \<ge> 5 then h2 XOR mix32 (tail_lane tail r 4 4) c2 16 c3 else h2);
        h1 = (if r \<ge> 1 then h1 XOR mix32 (tail_lane tail r 0 4) c1 15 c2 else h1)
    in (h1, h2, h3, h4))"

definition x86_128_final :: "nat \<Rightarrow> u32 \<times> u32 \<times> u32 \<times> u32 \<Rightarrow> u32 list" where
  "x86_128_final len = (\<lambda>(h1, h2, h3, h4).
    let h1 = h1 XOR word_of_nat len; h2 = h2 XOR word_of_nat len;
        h3 = h3 XOR word_of_nat len; h4 = h4 XOR word_of_nat len;
        h1 = h1 + h2 + h3 + h4; h2 = h2 + h1; h3 = h3 + h1; h4 = h4 + h1;
        h1 = fmix32 h1; h2 = fmix32 h2; h3 = fmix32 h3; h4 = fmix32 h4;
        h1 = h1 + h2 + h3 + h4; h2 = h2 + h1; h3 = h3 + h1; h4 = h4 + h1
    in [h1, h2, h3, h4])"

definition MurmurHash3_x86_128 :: "u8 list \<Rightarrow> u32 \<Rightarrow> u32 list" where
  "MurmurHash3_x86_128 key seed =
    (let len = length key;
         nblocks = len div 16;
         hs = fold (x86_128_block key) [0..<nblocks] (seed, seed, seed, seed);
         hs = x86_128_tail (drop (nblocks * 16) key) (len mod 16) hs
     in x86_128_final len hs)"

section \<open>MurmurHash3\_x64\_128\<close>

definition mix64 :: "u64 \<Rightarrow> u64 \<Rightarrow> nat \<Rightarrow> u64 \<Rightarrow> u64" where
  "mix64 k ca r cb = rotl64 (k * ca) r * cb"

definition x64_128_block :: "u8 list \<Rightarrow> nat \<Rightarrow> u64 \<times> u64 \<Rightarrow> u64 \<times> u64" where
  "x64_128_block data i = (\<lambda>(h1, h2).
    let c1 = 0x87c37b91114253d5; c2 = 0x4cf5ad432745937f;
        k1 = getblock64 data (i * 2 + 0); k2 = getblock64 data (i * 2 + 1);
        h1 = h1 XOR mix64 k1 c1 31 c2;
        h1 = (rotl64 h1 27 + h2) * 5 + 0x52dce729;
        h2 = h2 XOR mix64 k2 c2 33 c1;
        h2 = (rotl64 h2 31 + h1) * 5 + 0x38495ab5
    in (h1, h2))"

definition x64_128_tail :: "u8 list \<Rightarrow> nat \<Rightarrow> u64 \<times> u64 \<Rightarrow> u64 \<times> u64" where
  "x64_128_tail tail r = (\<lambda>(h1, h2).
    let c1 = 0x87c37b91114253d5; c2 = 0x4cf5ad432745937f;
        h2 = (if r \<ge> 9 then h2 XOR mix64 (tail_lane tail r 8 7) c2 33 c1 else h2);
        h1 = (if r \<ge> 1 then h1 XOR mix64 (tail_lane tail r 0 8) c1 31 c2 else h1)
    in (h1, h2))"

definition x64_128_final :: "nat \<Rightarrow> u64 \<times> u64 \<Rightarrow> u64 list" where
  "x64_128_final len = (\<lambda>(h1, h2).
    let h1 = h1 XOR word_of_nat len; h2 = h2 XOR word_of_nat len;
        h1 = h1 + h2; h2 = h2 + h1;
        h1 = fmix64 h1; h2 = fmix64 h2;
        h1 = h1 + h2; h2 = h2 + h1
    in [h1, h2])"

definition MurmurHash3_x64_128 :: "u8 list \<Rightarrow> u32 \<Rightarrow> u64 list" where
  "MurmurHash3_x64_128 key seed =
    (let len = length key;
         nblocks = len div 16;
         hs = fold (x64_128_block key) [0..<nblocks] (ucast seed, ucast seed);
         hs = x64_128_tail (drop (nblocks * 16) key) (len mod 16) hs
     in x64_128_final len hs)"

section \<open>The bin of a monitored flow\<close>

definition bytes32 :: "u32 \<Rightarrow> u8 list" where
  "bytes32 w = [ucast w, ucast (drop_bit 8 w), ucast (drop_bit 16 w), ucast (drop_bit 24 w)]"

text \<open>The eight bytes of a \<^verbatim>\<open>flow_src_t\<close>, which has no padding.\<close>

definition flow_src_bytes :: "flow_src \<Rightarrow> u8 list" where
  "flow_src_bytes f = bytes32 (fs_srcip f) @ bytes32 (fs_dstip f)"

text \<open>
  The value of the variable \<^verbatim>\<open>hash\<close> when control reaches the end of \<^verbatim>\<open>flow_src_hash_bin\<close>; the function
  has no \<^verbatim>\<open>return\<close> statement in this configuration.
\<close>

definition flow_src_hash_bin :: "flow_src \<Rightarrow> u32 \<Rightarrow> u32" where
  "flow_src_hash_bin p_flow_src map_size =
    (let hash = MurmurHash3_x86_32 (flow_src_bytes p_flow_src) 42
     in hash - map_size * (hash div map_size))"

section \<open>Every mixing step is a bijection\<close>

lemma rotl32_rotl:
  assumes "0 < r" "r < 32"
  shows "rotl32 x r = word_rotl r x"
proof (rule bit_word_eqI)
  fix n
  assume n: "n < LENGTH(32)"
  then have "(n + (32 - r)) mod 32 = (if r \<le> n then n - r else n + (32 - r))"
    using assms by (auto simp: mod_if)
  moreover have "32 - r + n = n + (32 - r)" by (rule add.commute)
  ultimately show "bit (rotl32 x r) n = bit (word_rotl r x) n"
    using assms n bit_imp_le_length [of x "n + (32 - r)"]
    by (auto simp: rotl32_def bit_simps bit_word_rotl_iff)
qed

lemma rotl32_inj: "0 < r \<Longrightarrow> r < 32 \<Longrightarrow> rotl32 x r = rotl32 y r \<longleftrightarrow> x = y"
  by (metis rotl32_rotl word_rot_lr)

lemma xorshift_inj:
  fixes x y :: "'w::len word"
  assumes s: "0 < s"
  shows "x XOR drop_bit s x = y XOR drop_bit s y \<longleftrightarrow> x = y"
proof
  assume eq: "x XOR drop_bit s x = y XOR drop_bit s y"
  define z where "z = x XOR y"
  have "z = drop_bit s z"
  proof (rule bit_word_eqI)
    fix n
    have "bit (x XOR drop_bit s x) n = bit (y XOR drop_bit s y) n" using eq by simp
    then show "bit z n = bit (drop_bit s z) n" by (auto simp: z_def bit_simps)
  qed
  then have "unat z = unat z div 2 ^ s" by (metis unat_drop_bit_eq drop_bit_eq_div)
  moreover have "unat z div 2 ^ s < unat z" if "0 < unat z"
    using that s one_less_power [of "2 :: nat" s] by (intro div_less_dividend) auto
  ultimately have "unat z = 0" by fastforce
  then have "x XOR y = 0" by (simp add: z_def unat_eq_0)
  then show "x = y" by (metis xor.assoc xor_self_eq xor.left_neutral xor.right_neutral)
qed simp

lemma mult_inj_inverse: "(c :: 'w::len word) * d = 1 \<Longrightarrow> x * c = y * c \<longleftrightarrow> x = y"
  by (metis mult.assoc mult.right_neutral)

lemma fmix32_inj: "fmix32 x = fmix32 y \<longleftrightarrow> x = y"
proof -
  have "x * 0x85ebca6b = y * 0x85ebca6b \<longleftrightarrow> x = y" for x y :: u32
    by (rule mult_inj_inverse [where d = "0xa5cb9243"]) simp
  moreover have "x * 0xc2b2ae35 = y * 0xc2b2ae35 \<longleftrightarrow> x = y" for x y :: u32
    by (rule mult_inj_inverse [where d = "0x7ed1b41d"]) simp
  ultimately show ?thesis by (simp only: fmix32_def Let_def xorshift_inj zero_less_numeral)
qed

lemma fmix64_inj: "fmix64 x = fmix64 y \<longleftrightarrow> x = y"
proof -
  have "x * 0xff51afd7ed558ccd = y * 0xff51afd7ed558ccd \<longleftrightarrow> x = y" for x y :: u64
    by (rule mult_inj_inverse [where d = "0x4f74430c22a54005"]) simp
  moreover have "x * 0xc4ceb9fe1a85ec53 = y * 0xc4ceb9fe1a85ec53 \<longleftrightarrow> x = y" for x y :: u64
    by (rule mult_inj_inverse [where d = "0x9cb4b2f8129337db"]) simp
  ultimately show ?thesis by (simp only: fmix64_def Let_def xorshift_inj zero_less_numeral)
qed

lemma x86_32_mix_inj: "x86_32_mix x = x86_32_mix y \<longleftrightarrow> x = y"
proof -
  have "x * 0xcc9e2d51 = y * 0xcc9e2d51 \<longleftrightarrow> x = y" for x y :: u32
    by (rule mult_inj_inverse [where d = "0xdee13bb1"]) simp
  moreover have "x * 0x1b873593 = y * 0x1b873593 \<longleftrightarrow> x = y" for x y :: u32
    by (rule mult_inj_inverse [where d = "0x56ed309b"]) simp
  ultimately show ?thesis by (simp add: x86_32_mix_def rotl32_inj)
qed

lemma xor_inj_left: "(a :: 'w::len word) XOR b = a XOR c \<longleftrightarrow> b = c"
  by (metis xor.assoc xor_self_eq xor.left_neutral)

lemma xor_inj_right: "(b :: 'w::len word) XOR a = c XOR a \<longleftrightarrow> b = c"
  by (metis xor_inj_left xor.commute)

lemma mult5_inj: "x * 5 = y * 5 \<longleftrightarrow> x = y" for x y :: u32
  by (rule mult_inj_inverse [where d = "0xcccccccd"]) simp

lemma x86_32_block_inj:
  "x86_32_block h k = x86_32_block h k' \<longleftrightarrow> k = k'"
  "x86_32_block h k = x86_32_block h' k \<longleftrightarrow> h = h'"
  by (simp_all add: x86_32_block_def mult5_inj rotl32_inj xor_inj_left xor_inj_right x86_32_mix_inj)

section \<open>The hash of a flow\<close>

lemma le_bytes_bytes32: "le_bytes (bytes32 w) = (w :: u32)"
proof (rule bit_word_eqI)
  fix n
  assume "n < LENGTH(32)"
  then consider "n < 8" | "8 \<le> n" "n < 16" | "16 \<le> n" "n < 24" | "24 \<le> n" "n < 32" by fastforce
  then show "bit (le_bytes (bytes32 w) :: u32) n = bit w n"
    by cases (auto simp: bytes32_def bit_simps)
qed

lemma getblock32_bytes:
  "getblock32 (bytes32 a @ bytes32 b) 0 = a" "getblock32 (bytes32 a @ bytes32 b) (Suc 0) = b"
proof -
  have "length (bytes32 a) = 4" "length (bytes32 b) = 4" for a b by (simp_all add: bytes32_def)
  then show "getblock32 (bytes32 a @ bytes32 b) 0 = a" "getblock32 (bytes32 a @ bytes32 b) (Suc 0) = b"
    by (simp_all add: getblock32_def le_bytes_bytes32)
qed

lemma murmur_flow_src:
  "MurmurHash3_x86_32 (flow_src_bytes f) seed =
    fmix32 (x86_32_block (x86_32_block seed (fs_srcip f)) (fs_dstip f) XOR 8)"
proof -
  have len: "length (flow_src_bytes f) = 8" by (simp add: flow_src_bytes_def bytes32_def)
  have upt: "[0..<2] = [0, Suc 0]" by (simp add: upt_rec)
  have "getblock32 (flow_src_bytes f) 0 = fs_srcip f" "getblock32 (flow_src_bytes f) (Suc 0) = fs_dstip f"
    by (simp_all only: flow_src_bytes_def getblock32_bytes)
  then show ?thesis
    by (simp add: MurmurHash3_x86_32_def Let_def len upt x86_32_tail_def)
qed

lemma flow_src_hash_bin_mod: "flow_src_hash_bin f n = MurmurHash3_x86_32 (flow_src_bytes f) 42 mod n"
  by (simp add: flow_src_hash_bin_def Let_def minus_mult_div_eq_mod)

text \<open>
  What the hash tables keyed by \<^typ>\<open>flow_src\<close> rely on: a bin is an index of the array.  The value
  that \<^const>\<open>flow_src_hash_bin\<close> computes is one.
\<close>

locale flow_src_hash =
  fixes hb :: "flow_src \<Rightarrow> u32 \<Rightarrow> u32"
  assumes hb_range: "0 < n \<Longrightarrow> hb key n < n"

interpretation murmur: flow_src_hash flow_src_hash_bin
proof
  fix n :: u32 and key
  assume "0 < n"
  then show "flow_src_hash_bin key n < n"
    by (simp add: flow_src_hash_bin_mod word_less_def uint_mod)
qed

section \<open>Properties\<close>

text \<open>
  The bin of a monitored flow is the remainder of its MurmurHash3 by the table size, computed
  without wrap-around, hence an index of the table.
\<close>

lemma flow_src_hash_bin_index:
  assumes "0 < n"
  shows "unat (flow_src_hash_bin f n) = unat (MurmurHash3_x86_32 (flow_src_bytes f) 42) mod unat n \<and>
    flow_src_hash_bin f n < n"
  using assms murmur.hb_range by (simp add: flow_src_hash_bin_mod unat_mod)

text \<open>
  The hash separates flows that share one address: for a fixed seed, two flows with the same
  source (or the same destination) have the same MurmurHash3\_x86\_32 value only if they are equal.
\<close>

theorem murmur_separates:
  assumes "fs_srcip f = fs_srcip g \<or> fs_dstip f = fs_dstip g"
  shows "MurmurHash3_x86_32 (flow_src_bytes f) seed = MurmurHash3_x86_32 (flow_src_bytes g) seed \<longleftrightarrow> f = g"
proof -
  have "f = g \<longleftrightarrow> fs_srcip f = fs_srcip g \<and> fs_dstip f = fs_dstip g" by (cases f; cases g) simp
  then show ?thesis
    using assms by (auto simp: murmur_flow_src fmix32_inj xor_inj_right x86_32_block_inj)
qed

theorem murmur_separates_witness:
  "MurmurHash3_x86_32 (flow_src_bytes \<lparr>fs_srcip = 1, fs_dstip = 2\<rparr>) 42 \<noteq>
   MurmurHash3_x86_32 (flow_src_bytes \<lparr>fs_srcip = 1, fs_dstip = 3\<rparr>) 42"
  using murmur_separates [of "\<lparr>fs_srcip = 1, fs_dstip = 2\<rparr>" "\<lparr>fs_srcip = 1, fs_dstip = 3\<rparr>" 42] by simp

end
