(* ===== verification/Ht_kFlowSrc.thy ===== *)
theory Ht_kFlowSrc
  imports Ht_kFlow Murmur3
begin

text \<open>
  The two chained tables keyed by \<open>flow_src\<close>: \<^verbatim>\<open>mt_hashtable_kFlowSrc_vInt.c\<close> (\<open>ht_kfs_vi\<close>) and
  \<^verbatim>\<open>mt_hashtable_kFlowSrc_vFloat.c\<close> (\<open>ht_kfs_vf\<close>).

  The bin of a key is \<^verbatim>\<open>flow_src_hash_bin(key, size)\<close>.  In the configured \<^verbatim>\<open>FLOW_SRC_DST\<close> build that
  function ends without a \<^verbatim>\<open>return\<close> statement, so the C standard gives its result no value; the
  tables are therefore modelled over an arbitrary function \<open>hb\<close> in its place.  All that their
  correctness needs of \<open>hb\<close> is the locale \<open>flow_src_hash\<close> of \<open>Murmur3\<close>: the result is an index of
  the array.  The value that the function computes before its end has this property.
\<close>

section \<open>The bin function as an interface\<close>

definition kfs_bin :: "(flow_src \<Rightarrow> u32 \<Rightarrow> u32) \<Rightarrow> int \<Rightarrow> flow_src \<Rightarrow> nat" where
  "kfs_bin hb n key = unat (hb key (word_of_int n))"

sublocale flow_src_hash \<subseteq> kfs: hashed_order flow_src_compare "kfs_bin hb"
proof
  show "int (kfs_bin hb n k) < n" if "0 < n" "n < 2147483648" for n k
  proof -
    have n: "uint (word_of_int n :: u32) = n"
      using that by (simp add: uint_word_of_int_eq take_bit_int_eq_self)
    then have "0 < (word_of_int n :: u32)" using that by (simp add: word_less_def)
    then have "uint (hb k (word_of_int n)) < n" using hb_range n by (metis word_less_def)
    then show ?thesis by (simp add: kfs_bin_def)
  qed
  show "kfs_bin hb n a = kfs_bin hb n b" if "flow_src_compare a b = 0" for a b n
    using that by simp
qed

section \<open>mt\_hashtable\_kFlowSrc\_vInt\<close>

type_synonym entry_kfs_vi = "(flow_src, u32) entry"
type_synonym hashtable_kfs_vi = "(flow_src, u32) chained"

definition ht_kfs_vi_create :: "bool \<Rightarrow> hashtable_kfs_vi option" where
  "ht_kfs_vi_create malloc_ok = (if malloc_ok then Some (ct_create HASH_MAP_SIZE) else None)"

definition ht_kfs_vi_destory :: "hashtable_kfs_vi option \<Rightarrow> entry_kfs_vi list" where
  "ht_kfs_vi_destory hashtable =
    (case hashtable of
       None \<Rightarrow> []
     | Some ht \<Rightarrow> concat (map (\<lambda>i. ct_table ht i) [0..<nat (ct_size ht)]))"

definition ht_kfs_vi_refresh :: "hashtable_kfs_vi option \<Rightarrow> hashtable_kfs_vi option" where
  "ht_kfs_vi_refresh hashtable =
    (case hashtable of None \<Rightarrow> None | Some ht \<Rightarrow> Some (ct_refresh ht))"

definition ht_kfs_vi_newpair :: "flow_src \<Rightarrow> u32 \<Rightarrow> entry_kfs_vi" where
  "ht_kfs_vi_newpair key value = \<lparr>e_key = key, e_value = value\<rparr>"

definition ht_kfs_vi_get :: "(flow_src \<Rightarrow> u32 \<Rightarrow> u32) \<Rightarrow> hashtable_kfs_vi option \<Rightarrow> flow_src \<Rightarrow> int" where
  "ht_kfs_vi_get hb hashtable key =
    (case hashtable of
       None \<Rightarrow> - 1
     | Some ht \<Rightarrow>
         (case ct_get flow_src_compare (kfs_bin hb) ht key of
            None \<Rightarrow> - 1
          | Some pair \<Rightarrow> sint (e_value pair)))"

definition ht_kfs_vi_set :: "(flow_src \<Rightarrow> u32 \<Rightarrow> u32) \<Rightarrow> hashtable_kfs_vi option \<Rightarrow> flow_src \<Rightarrow> u32 \<Rightarrow>
    hashtable_kfs_vi option" where
  "ht_kfs_vi_set hb hashtable key value =
    (case hashtable of
       None \<Rightarrow> None
     | Some ht \<Rightarrow>
         Some (ct_upsert flow_src_compare (kfs_bin hb) (\<lambda>_. value) (ht_kfs_vi_newpair key value) ht key))"

definition ht_kfs_vi_del :: "(flow_src \<Rightarrow> u32 \<Rightarrow> u32) \<Rightarrow> hashtable_kfs_vi option \<Rightarrow> flow_src \<Rightarrow>
    hashtable_kfs_vi option" where
  "ht_kfs_vi_del hb hashtable key =
    (case hashtable of
       None \<Rightarrow> None
     | Some ht \<Rightarrow> Some (ct_del flow_src_compare (kfs_bin hb) ht key))"

definition ht_kfs_vi_next :: "hashtable_kfs_vi option \<Rightarrow> hashtable_kfs_vi option \<times> entry_kfs_vi option" where
  "ht_kfs_vi_next hashtable =
    (case hashtable of
       None \<Rightarrow> (None, None)
     | Some ht \<Rightarrow> (case ct_next ht of (ht', r) \<Rightarrow> (Some ht', r)))"

text \<open>The loop \<^verbatim>\<open>while (ht_kfs_vi_next(ht, &ret_entry) == 0) body(ret_entry)\<close>.\<close>

definition ht_kfs_vi_foreach :: "(entry_kfs_vi \<Rightarrow> 's \<Rightarrow> 's) \<Rightarrow> hashtable_kfs_vi option \<Rightarrow> 's \<Rightarrow>
    (hashtable_kfs_vi option \<times> 's) option" where
  "ht_kfs_vi_foreach body hashtable s =
    (case hashtable of
       None \<Rightarrow> Some (None, s)
     | Some ht \<Rightarrow> map_option (\<lambda>(ht', s'). (Some ht', s')) (ct_fold body ht s))"

definition ht_kfs_vi_copy :: "(flow_src \<Rightarrow> u32 \<Rightarrow> u32) \<Rightarrow> bool \<Rightarrow> hashtable_kfs_vi option \<Rightarrow>
    (hashtable_kfs_vi option \<times> hashtable_kfs_vi option) option" where
  "ht_kfs_vi_copy hb malloc_ok source_hashtable =
    (case ht_kfs_vi_create malloc_ok of
       None \<Rightarrow> Some (source_hashtable, None)
     | Some ret_hashtable \<Rightarrow>
         ht_kfs_vi_foreach (\<lambda>e ret. ht_kfs_vi_set hb ret (e_key e) (e_value e))
           source_hashtable (Some ret_hashtable))"

section \<open>mt\_hashtable\_kFlowSrc\_vFloat\<close>

type_synonym entry_kfs_vf = "(flow_src, cfloat) entry"
type_synonym hashtable_kfs_vf = "(flow_src, cfloat) chained"

definition ht_kfs_vf_create :: "bool \<Rightarrow> hashtable_kfs_vf option" where
  "ht_kfs_vf_create malloc_ok = (if malloc_ok then Some (ct_create HASH_MAP_SIZE) else None)"

definition ht_kfs_vf_destory :: "hashtable_kfs_vf option \<Rightarrow> entry_kfs_vf list" where
  "ht_kfs_vf_destory hashtable =
    (case hashtable of
       None \<Rightarrow> []
     | Some ht \<Rightarrow> concat (map (\<lambda>i. ct_table ht i) [0..<nat (ct_size ht)]))"

definition ht_kfs_vf_newpair :: "flow_src \<Rightarrow> cfloat \<Rightarrow> entry_kfs_vf" where
  "ht_kfs_vf_newpair key value = \<lparr>e_key = key, e_value = value\<rparr>"

definition ht_kfs_vf_get :: "(flow_src \<Rightarrow> u32 \<Rightarrow> u32) \<Rightarrow> hashtable_kfs_vf option \<Rightarrow> flow_src \<Rightarrow> cfloat" where
  "ht_kfs_vf_get hb hashtable key =
    (case hashtable of
       None \<Rightarrow> Fin (- 1)
     | Some ht \<Rightarrow>
         (case ct_get flow_src_compare (kfs_bin hb) ht key of
            None \<Rightarrow> Fin (- 1)
          | Some pair \<Rightarrow> e_value pair))"

definition ht_kfs_vf_set :: "(flow_src \<Rightarrow> u32 \<Rightarrow> u32) \<Rightarrow> hashtable_kfs_vf option \<Rightarrow> flow_src \<Rightarrow> cfloat \<Rightarrow>
    hashtable_kfs_vf option" where
  "ht_kfs_vf_set hb hashtable key value =
    (case hashtable of
       None \<Rightarrow> None
     | Some ht \<Rightarrow>
         Some (ct_upsert flow_src_compare (kfs_bin hb) (\<lambda>_. value) (ht_kfs_vf_newpair key value) ht key))"

definition ht_kfs_vf_del :: "(flow_src \<Rightarrow> u32 \<Rightarrow> u32) \<Rightarrow> hashtable_kfs_vf option \<Rightarrow> flow_src \<Rightarrow>
    hashtable_kfs_vf option" where
  "ht_kfs_vf_del hb hashtable key =
    (case hashtable of
       None \<Rightarrow> None
     | Some ht \<Rightarrow> Some (ct_del flow_src_compare (kfs_bin hb) ht key))"

text \<open>\<^verbatim>\<open>ht_kfs_vf_next\<close>, unlike its \<^verbatim>\<open>vi\<close> twin, does not test for \<^verbatim>\<open>NULL\<close>.\<close>

definition ht_kfs_vf_next :: "hashtable_kfs_vf \<Rightarrow> hashtable_kfs_vf \<times> entry_kfs_vf option" where
  "ht_kfs_vf_next hashtable = ct_next hashtable"

section \<open>The tables as maps\<close>

text \<open>
  On \<open>flow_src\<close> keys the comparison is equality up to its sign, so a table is a partial function.
\<close>

abbreviation kfs_wf :: "(flow_src \<Rightarrow> u32 \<Rightarrow> u32) \<Rightarrow> (flow_src, 'v) chained \<Rightarrow> bool" where
  "kfs_wf hb \<equiv> ct_wf flow_src_compare (kfs_bin hb)"

definition kfs_map :: "(flow_src \<Rightarrow> u32 \<Rightarrow> u32) \<Rightarrow> (flow_src, 'v) chained \<Rightarrow> flow_src \<rightharpoonup> 'v" where
  "kfs_map hb ht = ct_lookup flow_src_compare (kfs_bin hb) ht"

lemma kfs_vi_get_map [ht_ops]:
  "ht_kfs_vi_get hb (Some ht) k = (case kfs_map hb ht k of None \<Rightarrow> - 1 | Some v \<Rightarrow> sint v)"
  by (simp add: ht_kfs_vi_get_def kfs_map_def ct_lookup_def split: option.split)

lemma kfs_vf_get_map [ht_ops]:
  "ht_kfs_vf_get hb (Some ht) k = (case kfs_map hb ht k of None \<Rightarrow> Fin (- 1) | Some v \<Rightarrow> v)"
  by (simp add: ht_kfs_vf_get_def kfs_map_def ct_lookup_def split: option.split)

context flow_src_hash
begin

lemma map_create [ht_ops]: "kfs_map hb (ct_create n) = Map.empty"
  by (simp add: kfs_map_def fun_eq_iff kfs.lookup_create)

lemma wf_new [ht_ops]: "kfs_wf hb (ct_create HASH_MAP_SIZE)"
  by (intro kfs.wf_create HASH_MAP_SIZE_range)

lemma vi_set [ht_ops]:
  assumes "kfs_wf hb ht"
  shows "\<exists>ht'. ht_kfs_vi_set hb (Some ht) k v = Some ht' \<and> kfs_wf hb ht' \<and>
    kfs_map hb ht' = (kfs_map hb ht)(k \<mapsto> v) \<and> ct_size ht' = ct_size ht \<and>
    ct_cur ht' = ct_cur ht \<and> ct_last ht' = ct_last ht"
  using assms
  by (simp add: ht_kfs_vi_set_def ht_kfs_vi_newpair_def kfs.wf_upsert kfs_map_def kfs.lookup_set fun_eq_iff)

lemma vf_set [ht_ops]:
  assumes "kfs_wf hb ht"
  shows "\<exists>ht'. ht_kfs_vf_set hb (Some ht) k v = Some ht' \<and> kfs_wf hb ht' \<and>
    kfs_map hb ht' = (kfs_map hb ht)(k \<mapsto> v)"
  using assms
  by (simp add: ht_kfs_vf_set_def ht_kfs_vf_newpair_def kfs.wf_upsert kfs_map_def kfs.lookup_set fun_eq_iff)

lemma vi_del [ht_ops]:
  assumes "kfs_wf hb ht"
  shows "\<exists>ht'. ht_kfs_vi_del hb (Some ht) k = Some ht' \<and> kfs_wf hb ht' \<and>
    kfs_map hb ht' = (kfs_map hb ht)(k := None)"
  using assms by (simp add: ht_kfs_vi_del_def kfs.wf_del kfs_map_def kfs.lookup_del fun_eq_iff)

lemma foreach_entries:
  assumes "kfs_wf hb ht" "ct_cur ht = - 1" "ct_last ht = None"
  shows "ht_kfs_vi_foreach body (Some ht) s = Some (Some ht, fold body (ct_entries ht) s)"
  by (simp add: ht_kfs_vi_foreach_def kfs.fold_entries [OF assms])

lemma kfs_hashed: "hashed_order flow_src_compare (kfs_bin hb)"
  by (rule kfs.hashed_order_axioms)

lemma entry_iff:
  assumes "kfs_wf hb ht"
  shows "\<lparr>e_key = k, e_value = v\<rparr> \<in> set (ct_entries ht) \<longleftrightarrow> kfs_map hb ht k = Some v"
  using kfs.lookup_entry [OF assms, of k v] kfs.entry_lookup [OF assms, of "\<lparr>e_key = k, e_value = v\<rparr>"]
  by (auto simp: kfs_map_def) (metis entry.surjective old.unit.exhaust)

lemma entries_map:
  assumes "kfs_wf hb ht"
  shows "map_of (rev (map (\<lambda>e. (e_key e, e_value e)) (ct_entries ht))) = kfs_map hb ht" (is "?m = _")
proof
  fix k
  have 1: "kfs_map hb ht k = Some v" if "?m k = Some v" for v
    using map_of_SomeD [OF that] kfs.entry_lookup [OF assms] by (auto simp: kfs_map_def)
  have 2: "?m k \<noteq> None" if l: "kfs_map hb ht k = Some v" for v
  proof -
    from l have "ct_lookup flow_src_compare (kfs_bin hb) ht k = Some v" by (simp add: kfs_map_def)
    from kfs.lookup_entry [OF assms this] obtain e where "e \<in> set (ct_entries ht)" "k = e_key e" by auto
    then show ?thesis by (auto simp: map_of_eq_None_iff image_iff)
  qed
  show "?m k = kfs_map hb ht k" using 1 2 by (cases "?m k"; cases "kfs_map hb ht k") auto
qed

lemma fold_set_entries:
  assumes "kfs_wf hb r"
  shows "\<exists>r'. fold (\<lambda>e ret. ht_kfs_vi_set hb ret (e_key e) (e_value e)) es (Some r) = Some r' \<and>
    kfs_wf hb r' \<and> kfs_map hb r' = kfs_map hb r ++ map_of (rev (map (\<lambda>e. (e_key e, e_value e)) es)) \<and>
    ct_cur r' = ct_cur r \<and> ct_last r' = ct_last r"
  using assms
proof (induction es arbitrary: r)
  case (Cons e es)
  from vi_set [OF Cons.prems, of "e_key e" "e_value e"] obtain r1
    where r1: "ht_kfs_vi_set hb (Some r) (e_key e) (e_value e) = Some r1" "kfs_wf hb r1"
      "kfs_map hb r1 = (kfs_map hb r)(e_key e \<mapsto> e_value e)" "ct_cur r1 = ct_cur r" "ct_last r1 = ct_last r"
    by blast
  from Cons.IH [OF r1(2)] show ?case
    by (auto simp: r1 map_add_def fun_eq_iff split: option.split)
qed simp

end

section \<open>Properties\<close>

text \<open>A small table with two entries in one chain, on which the properties are instantiated.\<close>

definition kfs_sample :: hashtable_kfs_vi where
  "kfs_sample = \<lparr>ct_size = 4, ct_table = (\<lambda>i. if i = 0 then
      [\<lparr>e_key = \<lparr>fs_srcip = 1, fs_dstip = 1\<rparr>, e_value = 5\<rparr>,
       \<lparr>e_key = \<lparr>fs_srcip = 2, fs_dstip = 2\<rparr>, e_value = 6\<rparr>] else []), ct_cur = - 1, ct_last = None\<rparr>"

lemma kfs_sample_ok: "flow_src_hash (\<lambda>_ _. 0)" "kfs_wf (\<lambda>_ _. 0) kfs_sample"
  by unfold_locales
    (simp_all add: ct_wf_def ct_iter_ok_def kfs_sample_def kfs_bin_def flow_src_compare_def)

text \<open>
  C26: \<^verbatim>\<open>ht_kfs_vi_set\<close> followed by \<^verbatim>\<open>ht_kfs_vi_get\<close>: in a well-formed table the written flow reads back
  the written value and every other flow what it read before, and the table stays well-formed
  (sorted duplicate-free chains, every entry in its bin, a valid iterator).
\<close>

theorem kfs_vi_get_set:
  assumes "flow_src_hash hb" "kfs_wf hb ht" "ht_kfs_vi_set hb (Some ht) k v = Some ht'"
  shows "kfs_wf hb ht' \<and>
    ht_kfs_vi_get hb (Some ht') k' = (if k' = k then sint v else ht_kfs_vi_get hb (Some ht) k')"
  using flow_src_hash.vi_set [OF assms(1,2), of k v] assms(3) by (auto simp: kfs_vi_get_map)

theorem kfs_vi_get_set_witness:
  "ht_kfs_vi_get flow_src_hash_bin
     (ht_kfs_vi_set flow_src_hash_bin (ht_kfs_vi_create True) \<lparr>fs_srcip = 1, fs_dstip = 2\<rparr> 7)
     \<lparr>fs_srcip = 1, fs_dstip = 2\<rparr> = 7"
proof -
  obtain ht' where "ht_kfs_vi_set flow_src_hash_bin (Some (ct_create HASH_MAP_SIZE))
      \<lparr>fs_srcip = 1, fs_dstip = 2\<rparr> 7 = Some ht'" by (simp add: ht_kfs_vi_set_def)
  from kfs_vi_get_set [OF murmur.flow_src_hash_axioms murmur.wf_new this, of "\<lparr>fs_srcip = 1, fs_dstip = 2\<rparr>"] this
  show ?thesis by (simp add: ht_kfs_vi_create_def)
qed

text \<open>
  \<^verbatim>\<open>ht_kfs_vi_del\<close> removes exactly its key: the deleted flow reads \<open>-1\<close>, every other flow what it
  read before, and the table, its iterator included, stays well-formed.
\<close>

lemma kfs_vi_get_del:
  assumes "flow_src_hash hb" "kfs_wf hb ht" "ht_kfs_vi_del hb (Some ht) k = Some ht'"
  shows "kfs_wf hb ht' \<and>
    ht_kfs_vi_get hb (Some ht') k' = (if k' = k then - 1 else ht_kfs_vi_get hb (Some ht) k')"
  using flow_src_hash.vi_del [OF assms(1,2), of k] assms(3) by (auto simp: kfs_vi_get_map)

text \<open>
  C27: the loop \<^verbatim>\<open>while (ht_kfs_vi_next(...) == 0)\<close> over a table whose iterator is at rest terminates
  and leaves the table as it was; the entries it hands to its body have pairwise different keys and
  are exactly the pairs of the table.
\<close>

theorem kfs_vi_foreach_complete:
  assumes "flow_src_hash hb" "kfs_wf hb ht" "ct_cur ht = - 1" "ct_last ht = None"
  shows "\<exists>es. ht_kfs_vi_foreach body (Some ht) s = Some (Some ht, fold body es s) \<and>
    distinct (map e_key es) \<and>
    (\<forall>k v. \<lparr>e_key = k, e_value = v\<rparr> \<in> set es \<longleftrightarrow> kfs_map hb ht k = Some v)"
proof (intro exI conjI allI)
  show "ht_kfs_vi_foreach body (Some ht) s = Some (Some ht, fold body (ct_entries ht) s)"
    using assms by (rule flow_src_hash.foreach_entries)
  show "distinct (map e_key (ct_entries ht))"
    using hashed_order.entries_distinct [OF flow_src_hash.kfs_hashed [OF assms(1)] assms(2)] .
  show "\<lparr>e_key = k, e_value = v\<rparr> \<in> set (ct_entries ht) \<longleftrightarrow> kfs_map hb ht k = Some v" for k v
    by (rule flow_src_hash.entry_iff [OF assms(1,2)])
qed

theorem kfs_vi_foreach_complete_witness:
  "\<exists>es. ht_kfs_vi_foreach (\<lambda>e n. n + uint (e_value e)) (Some kfs_sample) 0 =
      Some (Some kfs_sample, fold (\<lambda>e n. n + uint (e_value e)) es 0) \<and>
    \<lparr>e_key = \<lparr>fs_srcip = 2, fs_dstip = 2\<rparr>, e_value = 6 :: u32\<rparr> \<in> set es"
proof -
  have m: "kfs_map (\<lambda>_ _. 0) kfs_sample \<lparr>fs_srcip = 2, fs_dstip = 2\<rparr> = Some 6"
    by (simp add: kfs_map_def ct_lookup_def ct_get_def kfs_sample_def kfs_bin_def flow_src_compare_def)
  have rest: "ct_cur kfs_sample = - 1" "ct_last kfs_sample = None" by (simp_all add: kfs_sample_def)
  from kfs_vi_foreach_complete [OF kfs_sample_ok rest, of "\<lambda>e n. n + uint (e_value e)" 0]
  obtain es where es: "ht_kfs_vi_foreach (\<lambda>e n. n + uint (e_value e)) (Some kfs_sample) 0 =
      Some (Some kfs_sample, fold (\<lambda>e n. n + uint (e_value e)) es 0)"
    and iff: "\<forall>k v. \<lparr>e_key = k, e_value = v\<rparr> \<in> set es \<longleftrightarrow> kfs_map (\<lambda>_ _. 0) kfs_sample k = Some v"
    by (elim exE conjE)
  have "\<lparr>e_key = \<lparr>fs_srcip = 2, fs_dstip = 2\<rparr>, e_value = 6\<rparr> \<in> set es" using iff m by simp
  with es show ?thesis by (intro exI conjI)
qed

text \<open>
  \<^verbatim>\<open>ht_kfs_vi_copy\<close> of a table at rest returns, leaves its source unchanged, and produces a
  well-formed table with the same contents.
\<close>

theorem kfs_vi_copy_correct:
  assumes "flow_src_hash hb" "kfs_wf hb src" "ct_cur src = - 1" "ct_last src = None"
  shows "\<exists>ret. ht_kfs_vi_copy hb True (Some src) = Some (Some src, Some ret) \<and> kfs_wf hb ret \<and>
    (\<forall>k. ht_kfs_vi_get hb (Some ret) k = ht_kfs_vi_get hb (Some src) k)"
  using flow_src_hash.fold_set_entries [OF assms(1) flow_src_hash.wf_new [OF assms(1)], of "ct_entries src"]
    flow_src_hash.entries_map [OF assms(1,2)]
  by (auto simp: flow_src_hash.map_create [OF assms(1)] ht_kfs_vi_copy_def ht_kfs_vi_create_def flow_src_hash.foreach_entries [OF assms] kfs_vi_get_map)

theorem kfs_vi_copy_correct_witness:
  "\<exists>ret. ht_kfs_vi_copy (\<lambda>_ _. 0) True (Some kfs_sample) = Some (Some kfs_sample, Some ret) \<and>
    (\<forall>k. ht_kfs_vi_get (\<lambda>_ _. 0) (Some ret) k = ht_kfs_vi_get (\<lambda>_ _. 0) (Some kfs_sample) k)"
  using kfs_vi_copy_correct [OF kfs_sample_ok] by (auto simp: kfs_sample_def)

text \<open>
  Deleting the entry the iterator stands on silently drops the successor from the iteration:
  if \<open>e\<close> is the entry that \<^verbatim>\<open>ht_kfs_vi_next\<close> would return, then after deleting the last visited key
  the next call does not return \<open>e\<close> but what would have followed it.
\<close>

theorem kfs_vi_del_skips:
  assumes "flow_src_hash hb" "kfs_wf hb ht" "0 \<le> ct_cur ht" "ct_last ht = Some k"
    and "entry_after k (ct_table ht (nat (ct_cur ht))) = Some e"
  shows "snd (ht_kfs_vi_next (Some ht)) = Some e \<and>
    (\<exists>ht'. ht_kfs_vi_del hb (Some ht) k = Some ht' \<and> ct_remaining ht = e # ct_remaining ht' \<and>
      snd (ht_kfs_vi_next (Some ht')) \<noteq> Some e)"
proof -
  note hashed = flow_src_hash.kfs_hashed [OF assms(1)]
  let ?es = "ct_table ht (nat (ct_cur ht))" and ?ht' = "ct_del flow_src_compare (kfs_bin hb) ht k"
  obtain r where r: "chain_rest (Some k) ?es = e # r"
    using assms(5) by (auto simp: entry_after_rest split: list.splits)
  have rem: "ct_remaining ht = e # ct_remaining ?ht'"
    using hashed_order.del_last_skips [OF hashed assms(2-4) r] .
  then have "e \<notin> set (ct_remaining ?ht')"
    using hashed_order.remaining_distinct [OF hashed assms(2)] by auto
  then have "snd (ct_next ?ht') \<noteq> Some e"
    using hashed_order.next_hd [OF hashed hashed_order.wf_del [OF hashed assms(2)], of k]
    by (auto split: list.splits)
  moreover have "snd (ct_next ht) = Some e"
    using hashed_order.next_hd [OF hashed assms(2)] rem by simp
  ultimately show ?thesis
    using rem by (auto simp: ht_kfs_vi_next_def ht_kfs_vi_del_def split: prod.split)
qed

theorem kfs_vi_del_skips_witness:
  "snd (ht_kfs_vi_next (ht_kfs_vi_del (\<lambda>_ _. 0)
     (Some (kfs_sample\<lparr>ct_cur := 0, ct_last := Some \<lparr>fs_srcip = 1, fs_dstip = 1\<rparr>\<rparr>))
     \<lparr>fs_srcip = 1, fs_dstip = 1\<rparr>)) \<noteq> Some \<lparr>e_key = \<lparr>fs_srcip = 2, fs_dstip = 2\<rparr>, e_value = 6\<rparr>"
  (is "snd (ht_kfs_vi_next (ht_kfs_vi_del _ (Some ?ht) ?k)) \<noteq> Some ?e")
proof -
  have "kfs_wf (\<lambda>_ _. 0) ?ht"
    by (simp add: ct_wf_def ct_iter_ok_def kfs_sample_def kfs_bin_def flow_src_compare_def)
  then have "\<exists>ht'. ht_kfs_vi_del (\<lambda>_ _. 0) (Some ?ht) ?k = Some ht' \<and>
      snd (ht_kfs_vi_next (Some ht')) \<noteq> Some ?e"
    using kfs_vi_del_skips [OF kfs_sample_ok(1), of ?ht ?k ?e] by (auto simp: kfs_sample_def)
  then show ?thesis by auto
qed

end
