(* ===== verification/Ht_fixSize.thy ===== *)
theory Ht_fixSize
  imports Ht_kFlowSrc
begin

text \<open>
  \<^verbatim>\<open>public_lib/mt_hashtable_kFlowSrc_fixsize.c\<close>: the table of sampled flows with one slot per bin.
  Two flows that share a bin compete for its slot; in replacement mode the flow with the higher
  selected level wins.  \<open>replacement\<close> is the field of that name of the global experiment setting and
  \<open>hb\<close> the bin function (see \<open>Ht_kFlowSrc\<close>).  The slots are guarded by striped mutexes; every
  operation touches one slot under its mutex and is one atomic step.
\<close>

section \<open>State\<close>

record entry_kfs_fixSize =
  fx_key :: flow_src
  fx_selected_level :: int
  fx_value :: u32

record hashtable_kfs_fixSize =
  fx_size :: int
  fx_collision_times :: int
  fx_table :: "nat \<Rightarrow> entry_kfs_fixSize option"
  fx_next_current_bin :: int

section \<open>Operations\<close>

definition ht_kfs_fixSize_create :: "bool \<Rightarrow> int \<Rightarrow> hashtable_kfs_fixSize option" where
  "ht_kfs_fixSize_create malloc_ok sz =
    (if malloc_ok then
       Some \<lparr>fx_size = sz, fx_collision_times = 0, fx_table = (\<lambda>_. None), fx_next_current_bin = - 1\<rparr>
     else None)"

text \<open>The entries passed to \<^verbatim>\<open>free\<close>, in order.\<close>

definition ht_kfs_fixSize_destory :: "hashtable_kfs_fixSize option \<Rightarrow> entry_kfs_fixSize list" where
  "ht_kfs_fixSize_destory hashtable =
    (case hashtable of
       None \<Rightarrow> []
     | Some ht \<Rightarrow>
         concat (map (\<lambda>i. case fx_table ht i of None \<Rightarrow> [] | Some p_node \<Rightarrow> [p_node]) [0..<nat (fx_size ht)]))"

definition ht_kfs_fixSize_refresh :: "hashtable_kfs_fixSize option \<Rightarrow> hashtable_kfs_fixSize option" where
  "ht_kfs_fixSize_refresh hashtable =
    (case hashtable of
       None \<Rightarrow> None
     | Some ht \<Rightarrow>
         Some (ht\<lparr>fx_table := (\<lambda>i. if int i < fx_size ht then None else fx_table ht i),
                  fx_collision_times := 0, fx_next_current_bin := - 1\<rparr>))"

definition ht_kfs_fixSize_newpair :: "flow_src \<Rightarrow> u32 \<Rightarrow> int \<Rightarrow> entry_kfs_fixSize" where
  "ht_kfs_fixSize_newpair key value selected_level =
    \<lparr>fx_key = key, fx_selected_level = selected_level, fx_value = value\<rparr>"

text \<open>\<open>None\<close> is the result \<open>-1\<close>; otherwise the fields \<^verbatim>\<open>value\<close> and \<^verbatim>\<open>selected_level\<close> written to \<^verbatim>\<open>ret_entry\<close>.\<close>

definition ht_kfs_fixSize_get :: "(flow_src \<Rightarrow> u32 \<Rightarrow> u32) \<Rightarrow> hashtable_kfs_fixSize option \<Rightarrow> flow_src \<Rightarrow>
    (u32 \<times> int) option" where
  "ht_kfs_fixSize_get hb hashtable key =
    (case hashtable of
       None \<Rightarrow> None
     | Some ht \<Rightarrow>
         (case fx_table ht (kfs_bin hb (fx_size ht) key) of
            None \<Rightarrow> None
          | Some pair \<Rightarrow>
              if flow_src_compare key (fx_key pair) \<noteq> 0 then None
              else Some (fx_value pair, fx_selected_level pair)))"

definition ht_kfs_fixSize_is_sampled :: "(flow_src \<Rightarrow> u32 \<Rightarrow> u32) \<Rightarrow> hashtable_kfs_fixSize option \<Rightarrow>
    flow_src \<Rightarrow> bool" where
  "ht_kfs_fixSize_is_sampled hb hashtable key =
    (case ht_kfs_fixSize_get hb hashtable key of
       Some (value, selected_level) \<Rightarrow> value > 0
     | None \<Rightarrow> False)"

text \<open>Storing a pointer into a slot, and counting a collision (an \<^verbatim>\<open>int\<close>).\<close>

definition fx_store :: "nat \<Rightarrow> entry_kfs_fixSize option \<Rightarrow> hashtable_kfs_fixSize \<Rightarrow> hashtable_kfs_fixSize" where
  "fx_store bin e ht = ht\<lparr>fx_table := (fx_table ht)(bin := e)\<rparr>"

definition fx_collide :: "hashtable_kfs_fixSize \<Rightarrow> hashtable_kfs_fixSize" where
  "fx_collide ht = ht\<lparr>fx_collision_times := c_int (fx_collision_times ht + 1)\<rparr>"

definition ht_kfs_fixSize_add_value :: "(flow_src \<Rightarrow> u32 \<Rightarrow> u32) \<Rightarrow> hashtable_kfs_fixSize option \<Rightarrow>
    flow_src \<Rightarrow> u32 \<Rightarrow> hashtable_kfs_fixSize option" where
  "ht_kfs_fixSize_add_value hb hashtable key delta_value =
    (case hashtable of
       None \<Rightarrow> None
     | Some ht \<Rightarrow>
         let bin = kfs_bin hb (fx_size ht) key
         in Some (case fx_table ht bin of
              Some nxt \<Rightarrow>
                if flow_src_compare key (fx_key nxt) = 0 then
                  fx_store bin (Some (nxt\<lparr>fx_value := fx_value nxt + delta_value\<rparr>)) ht
                else fx_collide ht
            | None \<Rightarrow> fx_store bin (Some (ht_kfs_fixSize_newpair key delta_value 0)) ht))"

definition ht_kfs_fixSize_add_value_and_update_selected_level_info ::
    "(flow_src \<Rightarrow> u32 \<Rightarrow> u32) \<Rightarrow> bool \<Rightarrow> hashtable_kfs_fixSize option \<Rightarrow> flow_src \<Rightarrow> u32 \<Rightarrow> int \<Rightarrow>
     hashtable_kfs_fixSize option" where
  "ht_kfs_fixSize_add_value_and_update_selected_level_info hb replacement hashtable key delta_value selected_level =
    (case hashtable of
       None \<Rightarrow> None
     | Some ht \<Rightarrow>
         let bin = kfs_bin hb (fx_size ht) key
         in Some (case fx_table ht bin of
              Some nxt \<Rightarrow>
                if flow_src_compare key (fx_key nxt) = 0 then
                  fx_store bin (Some (nxt\<lparr>fx_value := fx_value nxt + delta_value,
                    fx_selected_level := selected_level\<rparr>)) ht
                else
                  let ht = fx_collide ht
                  in if replacement then
                       if fx_selected_level nxt \<ge> selected_level then ht
                       else fx_store bin (Some (ht_kfs_fixSize_newpair key delta_value selected_level)) ht
                     else ht
            | None \<Rightarrow> fx_store bin (Some (ht_kfs_fixSize_newpair key delta_value selected_level)) ht))"

definition ht_kfs_fixSize_set_selected_level ::
    "(flow_src \<Rightarrow> u32 \<Rightarrow> u32) \<Rightarrow> bool \<Rightarrow> hashtable_kfs_fixSize option \<Rightarrow> flow_src \<Rightarrow> int \<Rightarrow>
     hashtable_kfs_fixSize option" where
  "ht_kfs_fixSize_set_selected_level hb replacement hashtable key selected_level =
    (case hashtable of
       None \<Rightarrow> None
     | Some ht \<Rightarrow>
         let bin = kfs_bin hb (fx_size ht) key
         in Some (case fx_table ht bin of
              Some nxt \<Rightarrow>
                if flow_src_compare key (fx_key nxt) = 0 then
                  fx_store bin (Some (nxt\<lparr>fx_selected_level := selected_level\<rparr>)) ht
                else if selected_level = 0 then ht
                else
                  let ht = fx_collide ht
                  in if replacement then
                       if fx_selected_level nxt > selected_level \<or>
                          (fx_selected_level nxt = selected_level \<and> fx_value nxt > 0) then ht
                       else if selected_level \<ge> fx_selected_level nxt then
                         fx_store bin (Some (ht_kfs_fixSize_newpair key 0 selected_level)) ht
                       else ht
                     else ht
            | None \<Rightarrow>
                if replacement \<and> selected_level > 0 then
                  fx_store bin (Some (ht_kfs_fixSize_newpair key 0 selected_level)) ht
                else ht))"

definition ht_kfs_fixSize_del :: "(flow_src \<Rightarrow> u32 \<Rightarrow> u32) \<Rightarrow> hashtable_kfs_fixSize option \<Rightarrow> flow_src \<Rightarrow>
    hashtable_kfs_fixSize option" where
  "ht_kfs_fixSize_del hb hashtable key =
    (case hashtable of
       None \<Rightarrow> None
     | Some ht \<Rightarrow>
         let bin = kfs_bin hb (fx_size ht) key
         in Some (case fx_table ht bin of
              Some nxt \<Rightarrow> if flow_src_compare key (fx_key nxt) = 0 then fx_store bin None ht else ht
            | None \<Rightarrow> ht))"

text \<open>
  The loop of \<^verbatim>\<open>ht_kfs_fixSize_next\<close>: the bin where it stops and the entry there.  The result hands
  out key and value; the field \<^verbatim>\<open>selected_level\<close> of \<^verbatim>\<open>ret_entry\<close> is not written.
\<close>

function fx_scan :: "(nat \<Rightarrow> entry_kfs_fixSize option) \<Rightarrow> int \<Rightarrow> int \<Rightarrow> (int \<times> entry_kfs_fixSize) option" where
  "fx_scan t n cur =
    (let cur = cur + 1
     in if cur \<ge> n then None
        else case t (nat cur) of Some it \<Rightarrow> Some (cur, it) | None \<Rightarrow> fx_scan t n cur)"
  by pat_completeness auto
termination
  by (relation "measure (\<lambda>(t, n, cur). nat (n - cur))") auto

declare fx_scan.simps [simp del]

definition ht_kfs_fixSize_next :: "hashtable_kfs_fixSize option \<Rightarrow>
    hashtable_kfs_fixSize option \<times> (flow_src \<times> u32) option" where
  "ht_kfs_fixSize_next hashtable =
    (case hashtable of
       None \<Rightarrow> (None, None)
     | Some ht \<Rightarrow>
         if fx_next_current_bin ht \<ge> fx_size ht then (Some ht, None)
         else case fx_scan (fx_table ht) (fx_size ht) (fx_next_current_bin ht) of
                None \<Rightarrow> (Some (ht\<lparr>fx_next_current_bin := - 1\<rparr>), None)
              | Some (bin, it) \<Rightarrow> (Some (ht\<lparr>fx_next_current_bin := bin\<rparr>), Some (fx_key it, fx_value it)))"

section \<open>Invariant\<close>

definition fx_wf :: "(flow_src \<Rightarrow> u32 \<Rightarrow> u32) \<Rightarrow> hashtable_kfs_fixSize \<Rightarrow> bool" where
  "fx_wf hb ht \<longleftrightarrow> 0 < fx_size ht \<and> fx_size ht < 2147483648 \<and>
    (\<forall>i e. fx_table ht i = Some e \<longrightarrow> kfs_bin hb (fx_size ht) (fx_key e) = i) \<and>
    - 1 \<le> fx_next_current_bin ht \<and> fx_next_current_bin ht < fx_size ht"

lemmas fx_ops_def = ht_kfs_fixSize_add_value_def ht_kfs_fixSize_add_value_and_update_selected_level_info_def
  ht_kfs_fixSize_set_selected_level_def ht_kfs_fixSize_del_def fx_store_def fx_collide_def
  ht_kfs_fixSize_newpair_def Let_def

text \<open>The updates of the table as a trace of operations.\<close>

datatype fx_op =
    FxAdd flow_src u32
  | FxAddLevel flow_src u32 int
  | FxSetLevel flow_src int
  | FxDel flow_src

fun fx_step :: "(flow_src \<Rightarrow> u32 \<Rightarrow> u32) \<Rightarrow> bool \<Rightarrow> fx_op \<Rightarrow> hashtable_kfs_fixSize option \<Rightarrow>
    hashtable_kfs_fixSize option" where
  "fx_step hb repl (FxAdd k d) ht = ht_kfs_fixSize_add_value hb ht k d"
| "fx_step hb repl (FxAddLevel k d l) ht = ht_kfs_fixSize_add_value_and_update_selected_level_info hb repl ht k d l"
| "fx_step hb repl (FxSetLevel k l) ht = ht_kfs_fixSize_set_selected_level hb repl ht k l"
| "fx_step hb repl (FxDel k) ht = ht_kfs_fixSize_del hb ht k"

fun fx_op_key :: "fx_op \<Rightarrow> flow_src" where
  "fx_op_key (FxAdd k d) = k"
| "fx_op_key (FxAddLevel k d l) = k"
| "fx_op_key (FxSetLevel k l) = k"
| "fx_op_key (FxDel k) = k"

fun fx_op_level :: "fx_op \<Rightarrow> int" where
  "fx_op_level (FxAddLevel k d l) = l"
| "fx_op_level (FxSetLevel k l) = l"
| "fx_op_level _ = 0"

text \<open>What a step makes of the content of its slot.\<close>

fun fx_slot :: "bool \<Rightarrow> fx_op \<Rightarrow> entry_kfs_fixSize option \<Rightarrow> entry_kfs_fixSize option" where
  "fx_slot repl (FxAdd k d) None = Some (ht_kfs_fixSize_newpair k d 0)"
| "fx_slot repl (FxAdd k d) (Some e) =
    Some (if k = fx_key e then e\<lparr>fx_value := fx_value e + d\<rparr> else e)"
| "fx_slot repl (FxAddLevel k d l) None = Some (ht_kfs_fixSize_newpair k d l)"
| "fx_slot repl (FxAddLevel k d l) (Some e) =
    Some (if k = fx_key e then e\<lparr>fx_value := fx_value e + d, fx_selected_level := l\<rparr>
          else if repl \<and> fx_selected_level e < l then ht_kfs_fixSize_newpair k d l else e)"
| "fx_slot repl (FxSetLevel k l) None =
    (if repl \<and> 0 < l then Some (ht_kfs_fixSize_newpair k 0 l) else None)"
| "fx_slot repl (FxSetLevel k l) (Some e) =
    Some (if k = fx_key e then e\<lparr>fx_selected_level := l\<rparr>
          else if repl \<and> l \<noteq> 0 \<and> (fx_selected_level e < l \<or> fx_selected_level e = l \<and> fx_value e = 0)
          then ht_kfs_fixSize_newpair k 0 l else e)"
| "fx_slot repl (FxDel k) None = None"
| "fx_slot repl (FxDel k) (Some e) = (if k = fx_key e then None else Some e)"

abbreviation fx_bin :: "(flow_src \<Rightarrow> u32 \<Rightarrow> u32) \<Rightarrow> hashtable_kfs_fixSize \<Rightarrow> flow_src \<Rightarrow> nat" where
  "fx_bin hb ht \<equiv> kfs_bin hb (fx_size ht)"

lemma fx_step_slot:
  "\<exists>ht'. fx_step hb repl op (Some ht) = Some ht' \<and>
    fx_table ht' = (fx_table ht)(fx_bin hb ht (fx_op_key op) := fx_slot repl op (fx_table ht (fx_bin hb ht (fx_op_key op)))) \<and>
    fx_size ht' = fx_size ht \<and> fx_next_current_bin ht' = fx_next_current_bin ht"
proof -
  have pos: "0 < x \<longleftrightarrow> x \<noteq> 0" for x :: u32 by (rule word_neq_0_conv [symmetric])
  show ?thesis
    by (cases op; cases "fx_table ht (fx_bin hb ht (fx_op_key op))")
      (simp_all add: fx_ops_def fun_upd_idem pos)
qed

lemma fx_get_table:
  "ht_kfs_fixSize_get hb (Some ht) k =
    (case fx_table ht (fx_bin hb ht k) of
       None \<Rightarrow> None | Some e \<Rightarrow> if fx_key e = k then Some (fx_value e, fx_selected_level e) else None)"
  by (auto simp: ht_kfs_fixSize_get_def split: option.split)

lemma fx_slot_bin:
  "fx_slot repl op slot = Some e \<Longrightarrow> fx_key e = fx_op_key op \<or> (\<exists>e'. slot = Some e' \<and> fx_key e = fx_key e')"
  by (cases op; cases slot) (auto simp: ht_kfs_fixSize_newpair_def split: if_splits)

lemma fx_step_wf:
  assumes "fx_wf hb ht"
  shows "\<exists>ht'. fx_step hb repl op (Some ht) = Some ht' \<and> fx_wf hb ht' \<and> fx_size ht' = fx_size ht"
proof -
  from fx_step_slot [of hb repl op ht] obtain ht' where ht': "fx_step hb repl op (Some ht) = Some ht'"
    "fx_table ht' = (fx_table ht)(fx_bin hb ht (fx_op_key op) := fx_slot repl op (fx_table ht (fx_bin hb ht (fx_op_key op))))"
    "fx_size ht' = fx_size ht" "fx_next_current_bin ht' = fx_next_current_bin ht" by blast
  then have "fx_bin hb ht (fx_key e) = i" if "fx_table ht' i = Some e" for i e
    using that assms fx_slot_bin [of repl op "fx_table ht (fx_bin hb ht (fx_op_key op))" e]
    by (auto simp: fx_wf_def split: if_splits)
  then show ?thesis using ht' assms by (auto simp: fx_wf_def)
qed

text \<open>When a step on behalf of another flow takes the slot from its resident.\<close>

fun fx_evicts :: "bool \<Rightarrow> fx_op \<Rightarrow> u32 \<Rightarrow> int \<Rightarrow> bool" where
  "fx_evicts repl (FxAddLevel k d lvl) v l = (repl \<and> l < lvl)"
| "fx_evicts repl (FxSetLevel k lvl) v l = (repl \<and> lvl \<noteq> 0 \<and> (l < lvl \<or> l = lvl \<and> v = 0))"
| "fx_evicts repl _ v l = False"

lemma fx_slot_other:
  "fx_key e \<noteq> fx_op_key op \<Longrightarrow>
   (if fx_evicts repl op (fx_value e) (fx_selected_level e)
    then (\<exists>e'. fx_slot repl op (Some e) = Some e' \<and> fx_key e' = fx_op_key op)
    else fx_slot repl op (Some e) = Some e)"
  by (cases op) (auto simp: ht_kfs_fixSize_newpair_def)

lemma fx_step_other:
  assumes "ht_kfs_fixSize_get hb (Some ht) r = Some (v, l)" "fx_op_key op \<noteq> r"
  shows "ht_kfs_fixSize_get hb (fx_step hb repl op (Some ht)) r =
    (if fx_bin hb ht (fx_op_key op) = fx_bin hb ht r \<and> fx_evicts repl op v l then None else Some (v, l))"
proof -
  from assms(1) obtain e where e: "fx_table ht (fx_bin hb ht r) = Some e" "fx_key e = r"
    "fx_value e = v" "fx_selected_level e = l"
    by (auto simp: fx_get_table split: option.splits if_splits)
  from fx_step_slot [of hb repl op ht] obtain ht' where ht': "fx_step hb repl op (Some ht) = Some ht'"
    "fx_table ht' = (fx_table ht)(fx_bin hb ht (fx_op_key op) := fx_slot repl op (fx_table ht (fx_bin hb ht (fx_op_key op))))"
    "fx_size ht' = fx_size ht" by blast
  show ?thesis
    using fx_slot_other [of e op repl] assms(2) e ht' by (auto simp: fx_get_table split: if_splits)
qed

lemma fx_step_get_self:
  assumes "fx_step hb repl op (Some ht) = Some ht'"
  shows "ht_kfs_fixSize_get hb (Some ht') (fx_op_key op) =
    (case fx_slot repl op (fx_table ht (fx_bin hb ht (fx_op_key op))) of
       None \<Rightarrow> None | Some e \<Rightarrow> if fx_key e = fx_op_key op then Some (fx_value e, fx_selected_level e) else None)"
  using fx_step_slot [of hb repl op ht] assms by (auto simp: fx_get_table split: option.split)

section \<open>Iteration\<close>

lemma fx_scan_spec:
  "- 1 \<le> cur \<Longrightarrow>
   case fx_scan t n cur of
     None \<Rightarrow> (\<forall>i. cur < i \<and> i < n \<longrightarrow> t (nat i) = None)
   | Some (b, e) \<Rightarrow> cur < b \<and> b < n \<and> t (nat b) = Some e \<and> (\<forall>i. cur < i \<and> i < b \<longrightarrow> t (nat i) = None)"
proof (induction t n cur rule: fx_scan.induct)
  case (1 t n cur)
  consider "n \<le> cur + 1" | e where "cur + 1 < n" "t (nat (cur + 1)) = Some e"
    | "cur + 1 < n" "t (nat (cur + 1)) = None" by fastforce
  then show ?case
  proof cases
    case 1
    then have "\<forall>i. cur < i \<and> i < n \<longrightarrow> t (nat i) = None" by auto
    then show ?thesis unfolding fx_scan.simps [of t n cur] using 1 by simp
  next
    case (2 e)
    then have "\<forall>i. cur < i \<and> i < cur + 1 \<longrightarrow> t (nat i) = None" by auto
    then show ?thesis unfolding fx_scan.simps [of t n cur] using 2 by simp
  next
    case 3
    have step: "cur < i \<longleftrightarrow> i = cur + 1 \<or> cur + 1 < i" for i by linarith
    have "fx_scan t n cur = fx_scan t n (cur + 1)"
      using 3 by (subst fx_scan.simps) (simp add: Let_def)
    moreover have "case fx_scan t n (cur + 1) of
        None \<Rightarrow> (\<forall>i. cur + 1 < i \<and> i < n \<longrightarrow> t (nat i) = None)
      | Some (b, e) \<Rightarrow> cur + 1 < b \<and> b < n \<and> t (nat b) = Some e \<and> (\<forall>i. cur + 1 < i \<and> i < b \<longrightarrow> t (nat i) = None)"
      using "1.IH" "1.prems" 3 by simp
    ultimately show ?thesis using 3 by (auto simp: step split: option.splits)
  qed
qed

section \<open>Properties\<close>

text \<open>
  C33: the invariant of the fixed-size table (every entry sits in the slot of its own bin) is
  established by \<^verbatim>\<open>create\<close> and kept by any sequence of the four updating operations.
\<close>

theorem fixSize_invariant:
  assumes "0 < sz" "sz < 2147483648" "ht_kfs_fixSize_create True sz = Some ht"
  shows "\<exists>ht'. fold (fx_step hb repl) ops (Some ht) = Some ht' \<and> fx_wf hb ht'"
proof -
  have "fx_wf hb ht" using assms by (auto simp: ht_kfs_fixSize_create_def fx_wf_def)
  then show ?thesis
  proof (induction ops arbitrary: ht)
    case (Cons op ops)
    then show ?case using fx_step_wf [OF Cons.prems, of repl op] by fastforce
  qed simp
qed

theorem fixSize_invariant_witness:
  "\<exists>ht'. fold (fx_step flow_src_hash_bin True)
      [FxSetLevel \<lparr>fs_srcip = 1, fs_dstip = 2\<rparr> 2, FxAdd \<lparr>fs_srcip = 1, fs_dstip = 2\<rparr> 100]
      (ht_kfs_fixSize_create True 8) = Some ht' \<and> fx_wf flow_src_hash_bin ht'"
  using fixSize_invariant [of 8 _ flow_src_hash_bin True
      "[FxSetLevel \<lparr>fs_srcip = 1, fs_dstip = 2\<rparr> 2, FxAdd \<lparr>fs_srcip = 1, fs_dstip = 2\<rparr> 100]"]
  by (auto simp: ht_kfs_fixSize_create_def)

text \<open>
  C31: who loses a slot.  An update on behalf of another flow takes the slot of the resident flow \<open>r\<close>
  exactly when both share a bin, replacement mode is on, and the update carries a strictly higher
  level (or, for a condition signal, the same non-zero level while \<open>r\<close> has no sampled volume yet);
  in every other case the volume and the level of \<open>r\<close> are untouched.
\<close>

theorem fixSize_eviction:
  assumes "ht_kfs_fixSize_get hb (Some ht) r = Some (v, l)" "k \<noteq> r"
  shows "ht_kfs_fixSize_get hb (ht_kfs_fixSize_add_value hb (Some ht) k d) r = Some (v, l) \<and>
    ht_kfs_fixSize_get hb (ht_kfs_fixSize_add_value_and_update_selected_level_info hb repl (Some ht) k d lvl) r =
      (if kfs_bin hb (fx_size ht) k = kfs_bin hb (fx_size ht) r \<and> repl \<and> l < lvl then None else Some (v, l)) \<and>
    ht_kfs_fixSize_get hb (ht_kfs_fixSize_set_selected_level hb repl (Some ht) k lvl) r =
      (if kfs_bin hb (fx_size ht) k = kfs_bin hb (fx_size ht) r \<and> repl \<and> lvl \<noteq> 0 \<and>
          (l < lvl \<or> l = lvl \<and> v = 0) then None else Some (v, l))"
  using fx_step_other [OF assms(1), of "FxAdd k d" repl] fx_step_other [OF assms(1), of "FxAddLevel k d lvl" repl]
    fx_step_other [OF assms(1), of "FxSetLevel k lvl" repl] assms(2)
  by simp

theorem fixSize_eviction_witness:
  "ht_kfs_fixSize_get (\<lambda>_ _. 0)
     (ht_kfs_fixSize_set_selected_level (\<lambda>_ _. 0) True
       (ht_kfs_fixSize_add_value (\<lambda>_ _. 0) (ht_kfs_fixSize_create True 1) \<lparr>fs_srcip = 1, fs_dstip = 1\<rparr> 100)
       \<lparr>fs_srcip = 2, fs_dstip = 2\<rparr> 2)
     \<lparr>fs_srcip = 1, fs_dstip = 1\<rparr> = None"
proof -
  let ?r = "\<lparr>fs_srcip = 1, fs_dstip = 1\<rparr>" and ?k = "\<lparr>fs_srcip = 2, fs_dstip = 2\<rparr>"
  obtain ht where ht: "ht_kfs_fixSize_add_value (\<lambda>_ _. 0) (ht_kfs_fixSize_create True 1) ?r 100 = Some ht"
    and r: "ht_kfs_fixSize_get (\<lambda>_ _. 0) (Some ht) ?r = Some (100, 0)"
    by (simp add: ht_kfs_fixSize_create_def fx_ops_def ht_kfs_fixSize_get_def)
  show ?thesis using fixSize_eviction [OF r, of ?k 0 True 2] ht by (simp add: kfs_bin_def)
qed

text \<open>
  C32: priority over any run.  A flow held with level \<open>l\<close> survives, unchanged, every sequence of
  updates on behalf of other flows whose levels stay below \<open>l\<close>.
\<close>

theorem fixSize_priority:
  assumes "ht_kfs_fixSize_get hb (Some ht) r = Some (v, l)" "fx_wf hb ht"
    and "\<forall>op \<in> set ops. fx_op_key op \<noteq> r \<and> fx_op_level op < l"
  shows "ht_kfs_fixSize_get hb (fold (fx_step hb repl) ops (Some ht)) r = Some (v, l)"
  using assms
proof (induction ops arbitrary: ht)
  case (Cons op ops)
  from fx_step_wf [OF Cons.prems(2), of repl op] obtain ht'
    where ht': "fx_step hb repl op (Some ht) = Some ht'" "fx_wf hb ht'" by blast
  have "\<not> fx_evicts repl op v l" using Cons.prems(3) by (cases op) auto
  then have "ht_kfs_fixSize_get hb (Some ht') r = Some (v, l)"
    using fx_step_other [OF Cons.prems(1), of op repl] Cons.prems(3) ht' by simp
  then show ?case using Cons.IH [of ht'] Cons.prems(3) ht' by simp
qed simp

theorem fixSize_priority_witness:
  "ht_kfs_fixSize_get (\<lambda>_ _. 0)
     (fold (fx_step (\<lambda>_ _. 0) True)
       [FxAdd \<lparr>fs_srcip = 2, fs_dstip = 2\<rparr> 7, FxSetLevel \<lparr>fs_srcip = 3, fs_dstip = 3\<rparr> 1]
       (Some \<lparr>fx_size = 1, fx_collision_times = 0, fx_table = (\<lambda>i. if i = 0 then
           Some \<lparr>fx_key = \<lparr>fs_srcip = 1, fs_dstip = 1\<rparr>, fx_selected_level = 2, fx_value = 5\<rparr> else None),
          fx_next_current_bin = - 1\<rparr>))
     \<lparr>fs_srcip = 1, fs_dstip = 1\<rparr> = Some (5, 2)"
  by (rule fixSize_priority) (auto simp: ht_kfs_fixSize_get_def kfs_bin_def fx_wf_def split: if_splits)

text \<open>
  \<^verbatim>\<open>ht_kfs_fixSize_next\<close> hands out the first occupied slot after its current bin and moves there;
  when there is none it reports the end and resets itself.  It always returns.
\<close>

lemma fixSize_next_spec:
  assumes "fx_wf hb ht"
  shows "(\<exists>b e. ht_kfs_fixSize_next (Some ht) =
        (Some (ht\<lparr>fx_next_current_bin := b\<rparr>), Some (fx_key e, fx_value e)) \<and>
      fx_next_current_bin ht < b \<and> b < fx_size ht \<and> fx_table ht (nat b) = Some e \<and>
      (\<forall>i. fx_next_current_bin ht < i \<and> i < b \<longrightarrow> fx_table ht (nat i) = None)) \<or>
    (ht_kfs_fixSize_next (Some ht) = (Some (ht\<lparr>fx_next_current_bin := - 1\<rparr>), None) \<and>
      (\<forall>i. fx_next_current_bin ht < i \<and> i < fx_size ht \<longrightarrow> fx_table ht (nat i) = None))"
  using assms fx_scan_spec [where cur = "fx_next_current_bin ht" and t = "fx_table ht" and n = "fx_size ht"]
  by (cases "fx_scan (fx_table ht) (fx_size ht) (fx_next_current_bin ht)")
    (auto simp: fx_wf_def ht_kfs_fixSize_next_def)

end
