(* ===== verification/General_Functions.thy ===== *)
theory General_Functions
  imports C_Float
begin

text \<open>
  \<^verbatim>\<open>public_lib/general_functions.c\<close> and the C library functions it and its callers use on strings:
  \<^verbatim>\<open>strtok\<close> over a whole string, \<^verbatim>\<open>strtol\<close>, \<^verbatim>\<open>strtof\<close>, \<^verbatim>\<open>atof\<close>, \<^verbatim>\<open>inet_ntoa\<close>.  A C string is the list of its
  characters before the terminating NUL.  A failed \<^verbatim>\<open>assert\<close>, the other run-time faults and the
  end of the program by \<^verbatim>\<open>errx\<close> (\<open>Exited\<close>) are values of the type \<open>c_fault\<close>, as is a call that never returns (\<open>Endless\<close>).
\<close>

datatype c_fault = Assertion | Null_dereference | Out_of_bounds | Divide_error | Exited | Endless

type_synonym 'a c_result = "c_fault + 'a"

section \<open>Splitting\<close>

text \<open>The tokens \<^verbatim>\<open>strtok\<close> delivers for a one-character delimiter: the maximal delimiter-free runs.\<close>

fun strtok_tokens :: "char \<Rightarrow> string \<Rightarrow> string \<Rightarrow> string list" where
  "strtok_tokens d acc [] = (if acc = [] then [] else [acc])"
| "strtok_tokens d acc (c # cs) =
    (if c = d then (if acc = [] then strtok_tokens d [] cs else acc # strtok_tokens d [] cs)
     else strtok_tokens d (acc @ [c]) cs)"

text \<open>The counting loop: the number of delimiters and the index of the last one.\<close>

fun count_delims :: "char \<Rightarrow> string \<Rightarrow> nat \<Rightarrow> nat \<Rightarrow> nat option \<Rightarrow> nat \<times> nat option" where
  "count_delims d [] pos count last_comma = (count, last_comma)"
| "count_delims d (c # cs) pos count last_comma =
    (if d = c then count_delims d cs (pos + 1) (count + 1) (Some pos)
     else count_delims d cs (pos + 1) count last_comma)"

text \<open>
  The copying loop with its assertion, the result array being the list of the stored tokens.  The
  comparison \<^verbatim>\<open>last_comma < (a_str + strlen(a_str) - 1)\<close> holds when there is no delimiter, because
  \<^verbatim>\<open>last_comma\<close> is then the null pointer.
\<close>

fun store_tokens :: "nat \<Rightarrow> nat \<Rightarrow> string list \<Rightarrow> nat c_result" where
  "store_tokens count idx [] = Inr idx"
| "store_tokens count idx (t # ts) =
    (if idx < count then store_tokens count (idx + 1) ts else Inl Assertion)"

definition str_split :: "string \<Rightarrow> char \<Rightarrow> string list c_result" where
  "str_split a_str a_delim =
    (let (count, last_comma) = count_delims a_delim a_str 0 0 None;
         count = count + (case last_comma of
                            None \<Rightarrow> 1
                          | Some p \<Rightarrow> if int p < int (length a_str) - 1 then 1 else 0);
         count = count + 1;
         tokens = strtok_tokens a_delim [] a_str
     in case store_tokens count 0 tokens of
          Inl e \<Rightarrow> Inl e
        | Inr idx \<Rightarrow> if idx = count - 1 then Inr tokens else Inl Assertion)"

section \<open>Numbers\<close>

definition is_space :: "char \<Rightarrow> bool" where
  "is_space c \<longleftrightarrow> c = CHR '' '' \<or> (9 \<le> (of_char c :: nat) \<and> (of_char c :: nat) \<le> 13)"

definition digit_val :: "char \<Rightarrow> nat option" where
  "digit_val c =
    (let n = of_char c :: nat in if 48 \<le> n \<and> n \<le> 57 then Some (n - 48) else None)"

definition xdigit_val :: "char \<Rightarrow> nat option" where
  "xdigit_val c =
    (let n = of_char c :: nat
     in if 48 \<le> n \<and> n \<le> 57 then Some (n - 48)
        else if 97 \<le> n \<and> n \<le> 102 then Some (n - 87)
        else if 65 \<le> n \<and> n \<le> 70 then Some (n - 55)
        else None)"

text \<open>Reads the longest run of digits: the value, the number of digits and the rest.\<close>

fun read_digits :: "(char \<Rightarrow> nat option) \<Rightarrow> nat \<Rightarrow> nat \<Rightarrow> nat \<Rightarrow> string \<Rightarrow> nat \<times> nat \<times> string" where
  "read_digits dv base acc n [] = (acc, n, [])"
| "read_digits dv base acc n (c # cs) =
    (case dv c of
       None \<Rightarrow> (acc, n, c # cs)
     | Some d \<Rightarrow> read_digits dv base (acc * base + d) (n + 1) cs)"

fun read_sign :: "string \<Rightarrow> int \<times> string" where
  "read_sign [] = (1, [])"
| "read_sign (c # cs) =
    (if c = CHR ''-'' then (- 1, cs) else if c = CHR ''+'' then (1, cs) else (1, c # cs))"

definition clamp_long :: "int \<Rightarrow> int" where
  "clamp_long x = max (- (2 ^ 63)) (min (2 ^ 63 - 1) x)"

text \<open>\<^verbatim>\<open>strtol(s, NULL, 10)\<close> with 64-bit \<^verbatim>\<open>long\<close>; \<^verbatim>\<open>strtoll\<close> is the same function.\<close>

definition strtol :: "string \<Rightarrow> int" where
  "strtol s =
    (let (sign, s) = read_sign (dropWhile is_space s);
         (v, n, rest) = read_digits digit_val 10 0 0 s
     in clamp_long (sign * int v))"

text \<open>\<^verbatim>\<open>int x = strtol(...)\<close> and \<^verbatim>\<open>atoi\<close>.\<close>

definition strtol_int :: "string \<Rightarrow> int" where
  "strtol_int s = c_int (strtol s)"

definition lower :: "char \<Rightarrow> char" where
  "lower c = (let n = of_char c :: nat in if 65 \<le> n \<and> n \<le> 90 then char_of (n + 32) else c)"

text \<open>The digits of a mantissa with an optional point, and an optional signed exponent.\<close>

definition read_mantissa :: "(char \<Rightarrow> nat option) \<Rightarrow> nat \<Rightarrow> string \<Rightarrow> (nat \<times> nat \<times> nat \<times> string)" where
  "read_mantissa dv base s =
    (let (v, n, rest) = read_digits dv base 0 0 s
     in case rest of
          c # cs \<Rightarrow> if c = CHR ''.'' then (let (v', m, rest') = read_digits dv base v 0 cs in (v', n + m, m, rest'))
                    else (v, n, 0, rest)
        | [] \<Rightarrow> (v, n, 0, rest))"

definition read_exponent :: "char \<Rightarrow> string \<Rightarrow> int" where
  "read_exponent mark s =
    (case s of
       [] \<Rightarrow> 0
     | c # cs \<Rightarrow>
         if lower c = mark then
           (let (sign, cs) = read_sign cs; (v, n, rest) = read_digits digit_val 10 0 0 cs
            in sign * int v)
         else 0)"

text \<open>The value of the text, rounded to the type.\<close>

definition str_to_fp :: "(rat \<Rightarrow> cfloat) \<Rightarrow> string \<Rightarrow> cfloat" where
  "str_to_fp rnd s =
    (let (sign, s) = read_sign (dropWhile is_space s)
     in if map lower (take 3 s) = ''inf'' then (if sign = 1 then PInf else NInf)
        else if map lower (take 3 s) = ''nan'' then NaN
        else if map lower (take 2 s) = ''0x'' \<and> fst (snd (read_mantissa xdigit_val 16 (drop 2 s))) > 0 then
          (let (v, n, frac, rest) = read_mantissa xdigit_val 16 (drop 2 s)
           in rnd (of_int sign * of_nat v * 2 powi (read_exponent (CHR ''p'') rest - 4 * int frac)))
        else
          (let (v, n, frac, rest) = read_mantissa digit_val 10 s
           in if n = 0 then Fin 0
              else rnd (of_int sign * of_nat v * 10 powi (read_exponent (CHR ''e'') rest - int frac))))"

definition strtof :: "string \<Rightarrow> cfloat" where
  "strtof = str_to_fp fl32"

definition atof :: "string \<Rightarrow> cfloat" where
  "atof = str_to_fp fl64"

section \<open>Addresses\<close>

text \<open>\<^verbatim>\<open>%u\<close> of \<^verbatim>\<open>printf\<close>.\<close>

fun show_nat :: "nat \<Rightarrow> string" where
  "show_nat n =
    (if n < 10 then [char_of (48 + n)] else show_nat (n div 10) @ [char_of (48 + n mod 10)])"

declare show_nat.simps [simp del]

text \<open>\<^verbatim>\<open>inet_ntoa(htonl(ip))\<close>: the four bytes from the most significant one.\<close>

definition ip_to_str :: "u32 \<Rightarrow> string" where
  "ip_to_str ip =
    show_nat (unat (ucast (drop_bit 24 ip) :: u8)) @ ''.'' @ show_nat (unat (ucast (drop_bit 16 ip) :: u8)) @ ''.'' @
    show_nat (unat (ucast (drop_bit 8 ip) :: u8)) @ ''.'' @ show_nat (unat (ucast ip :: u8))"

section \<open>When splitting succeeds\<close>

text \<open>The fields of a line joined by the delimiter.\<close>

fun join_with :: "char \<Rightarrow> string list \<Rightarrow> string" where
  "join_with d [] = []"
| "join_with d [x] = x"
| "join_with d (x # y # r) = x @ d # join_with d (y # r)"

definition fields_ok :: "char \<Rightarrow> string list \<Rightarrow> bool" where
  "fields_ok d fs \<longleftrightarrow> fs \<noteq> [] \<and> (\<forall>x \<in> set fs. d \<notin> set x)"

lemma fields_ok_Cons: "fields_ok d (x # y # r) \<longleftrightarrow> d \<notin> set x \<and> fields_ok d (y # r)"
  by (auto simp: fields_ok_def)

lemma fields_exist: "\<exists>fs. fields_ok d fs \<and> s = join_with d fs"
proof (induction s)
  case Nil
  then show ?case by (intro exI [of _ "[[]]"]) (simp add: fields_ok_def)
next
  case (Cons c s)
  then obtain x r where r: "fields_ok d (x # r)" "s = join_with d (x # r)"
    by (metis fields_ok_def neq_Nil_conv)
  show ?case
  proof (cases "c = d")
    case True
    with r show ?thesis by (intro exI [of _ "[] # x # r"]) (simp add: fields_ok_def)
  next
    case False
    with r show ?thesis
      by (intro exI [of _ "(c # x) # r"]) (cases r; auto simp: fields_ok_def)
  qed
qed

lemma strtok_free:
  "d \<notin> set x \<Longrightarrow> strtok_tokens d acc (x @ d # r) =
    (if acc @ x = [] then strtok_tokens d [] r else (acc @ x) # strtok_tokens d [] r)"
  "d \<notin> set x \<Longrightarrow> strtok_tokens d acc x = (if acc @ x = [] then [] else [acc @ x])"
  by (induction x arbitrary: acc) auto

lemma strtok_join: "fields_ok d fs \<Longrightarrow> strtok_tokens d [] (join_with d fs) = filter (\<lambda>x. x \<noteq> []) fs"
  by (induction d fs rule: join_with.induct) (auto simp: strtok_free fields_ok_Cons, auto simp: fields_ok_def strtok_free)

lemma count_free: "d \<notin> set x \<Longrightarrow> count_delims d (x @ s) pos n l = count_delims d s (pos + length x) n l"
  by (induction x arbitrary: pos) auto

lemma count_join:
  "fields_ok d fs \<Longrightarrow> count_delims d (join_with d fs) pos n l =
    (n + (length fs - 1),
     if length fs = 1 then l else Some (pos + length (join_with d fs) - length (last fs) - 1))"
proof (induction d fs arbitrary: pos n l rule: join_with.induct)
  case (2 d x)
  then show ?case using count_free [of d x "[]" pos n l] by (simp add: fields_ok_def)
next
  case (3 d x y r)
  then have "d \<notin> set x" "fields_ok d (y # r)" by (simp_all add: fields_ok_Cons)
  then show ?case using "3.IH" [of "pos + length x + 1" "Suc n" "Some (pos + length x)"]
    by (cases r) (simp_all add: count_free)
qed (simp add: fields_ok_def)

lemma store_tokens_spec:
  "idx \<le> count \<Longrightarrow> store_tokens count idx ts =
    (if idx + length ts \<le> count then Inr (idx + length ts) else Inl Assertion)"
  by (induction ts arbitrary: idx) auto

lemma last_le_join: "fs \<noteq> [] \<Longrightarrow> length (last fs) + (length fs - 1) \<le> length (join_with d fs)"
  by (induction d fs rule: join_with.induct) auto

text \<open>
  The number of slots that \<^const>\<open>str_split\<close> computes against the number of tokens: equality up to the
  terminating null pointer is what the assertions demand.
\<close>

lemma str_split_join:
  assumes "fields_ok d fs"
  shows "str_split (join_with d fs) d =
    (if length (filter (\<lambda>x. x \<noteq> []) fs) = length fs - 1 + (if length fs = 1 \<or> last fs \<noteq> [] then 1 else 0)
     then Inr (filter (\<lambda>x. x \<noteq> []) fs) else Inl Assertion)"
proof -
  let ?n = "length fs" and ?t = "filter (\<lambda>x. x \<noteq> []) fs" and ?s = "join_with d fs"
  have ne: "fs \<noteq> []" using assms by (simp add: fields_ok_def)
  have "int (length ?s - length (last fs) - 1) < int (length ?s) - 1 \<longleftrightarrow> last fs \<noteq> []" if "?n \<noteq> 1"
  proof -
    have "length (last fs) + 1 \<le> length ?s" using last_le_join [OF ne, of d] ne that
      by (cases fs; cases "tl fs") auto
    then show ?thesis by (cases "last fs") auto
  qed
  then show ?thesis
    unfolding str_split_def count_join [OF assms] strtok_join [OF assms]
    by (auto simp: Let_def store_tokens_spec)
qed

lemma filter_all_iff: "length (filter P xs) = length xs \<longleftrightarrow> (\<forall>x \<in> set xs. P x)"
  by (metis filter_True filter_id_conv length_filter_less less_irrefl)

lemma str_split_Inr:
  "str_split s d = Inr ts \<longleftrightarrow>
    fields_ok d ts \<and> [] \<notin> set ts \<and> (s = join_with d ts \<or> s = join_with d ts @ [d])"
proof
  assume r: "str_split s d = Inr ts"
  obtain fs where fs: "fields_ok d fs" "s = join_with d fs" using fields_exist by blast
  let ?t = "filter (\<lambda>x. x \<noteq> []) fs"
  have ts: "ts = ?t" and len: "length ?t = length fs - 1 + (if length fs = 1 \<or> last fs \<noteq> [] then 1 else 0)"
    using r str_split_join [OF fs(1)] fs(2) by (auto split: if_splits)
  have ne: "fs \<noteq> []" using fs(1) by (simp add: fields_ok_def)
  then have pos: "0 < length fs" by simp
  show "fields_ok d ts \<and> [] \<notin> set ts \<and> (s = join_with d ts \<or> s = join_with d ts @ [d])"
  proof (cases "length fs = 1 \<or> last fs \<noteq> []")
    case True
    then have "\<forall>x \<in> set fs. x \<noteq> []" using len pos filter_all_iff [of "\<lambda>x. x \<noteq> []" fs] by auto
    then have "ts = fs" using ts by (simp add: filter_id_conv)
    with fs \<open>\<forall>x \<in> set fs. x \<noteq> []\<close> show ?thesis by auto
  next
    case False
    then obtain gs where gs: "fs = gs @ [[]]" using append_butlast_last_id [OF ne] by metis
    with False have gs2: "gs \<noteq> []" by auto
    then have "\<forall>x \<in> set gs. x \<noteq> []" using len gs filter_all_iff [of "\<lambda>x. x \<noteq> []" gs] by auto
    then have t: "ts = gs" using ts gs by (simp add: filter_id_conv)
    have "join_with d (gs @ [[]]) = join_with d gs @ [d]" using gs2
      by (induction d gs rule: join_with.induct) auto
    with fs gs gs2 t \<open>\<forall>x \<in> set gs. x \<noteq> []\<close> show ?thesis by (auto simp: fields_ok_def)
  qed
next
  assume a: "fields_ok d ts \<and> [] \<notin> set ts \<and> (s = join_with d ts \<or> s = join_with d ts @ [d])"
  then have ok: "fields_ok d ts" "fields_ok d (ts @ [[]])" and ne: "ts \<noteq> []" by (auto simp: fields_ok_def)
  have f: "filter (\<lambda>x. x \<noteq> []) ts = ts" using a by (auto simp: filter_id_conv)
  have l: "last ts \<noteq> []" using a ne last_in_set by metis
  have "join_with d (ts @ [[]]) = join_with d ts @ [d]" using ne
    by (induction d ts rule: join_with.induct) auto
  then have 2: "str_split (join_with d ts @ [d]) d = Inr ts"
    using str_split_join [OF ok(2)] f ne by simp
  have 1: "str_split (join_with d ts) d = Inr ts"
    using str_split_join [OF ok(1)] f l ne by (cases ts) simp_all
  from a 1 2 show "str_split s d = Inr ts" by blast
qed

section \<open>Printing and reading decimal numbers\<close>

lemma of_char_digit: "n < 10 \<Longrightarrow> (of_char (char_of (48 + n) :: char) :: nat) = 48 + n"
  by simp

lemma digit_val_digit [simp]: "n < 10 \<Longrightarrow> digit_val (char_of (48 + n)) = Some n"
  unfolding digit_val_def by (simp add: of_char_digit Let_def)

lemma read_show_nat:
  "read_digits digit_val 10 a k (show_nat n @ rest) =
    read_digits digit_val 10 (a * 10 ^ length (show_nat n) + n) (k + length (show_nat n)) rest"
proof (induction n arbitrary: a k rest rule: show_nat.induct)
  case (1 n)
  show ?case
  proof (cases "n < 10")
    case True
    then show ?thesis by (simp add: show_nat.simps [of n])
  next
    case False
    let ?m = "length (show_nat (n div 10))"
    have "read_digits digit_val 10 a k (show_nat n @ rest) =
        read_digits digit_val 10 ((a * 10 ^ ?m + n div 10) * 10 + n mod 10) (k + ?m + 1) rest"
      using "1.IH" [OF False, of a k "char_of (48 + n mod 10) # rest"] False
      by (simp add: show_nat.simps [of n])
    moreover have "(a * 10 ^ ?m + n div 10) * 10 + n mod 10 = a * 10 ^ Suc ?m + n"
      by (simp add: algebra_simps)
    moreover have "length (show_nat n) = Suc ?m" using False by (simp add: show_nat.simps [of n])
    ultimately show ?thesis by (simp only: add_Suc_right add.assoc Suc_eq_plus1)
  qed
qed

lemma show_nat_hd: "\<exists>c cs. show_nat n = c # cs \<and> \<not> is_space c \<and> c \<noteq> CHR ''-'' \<and> c \<noteq> CHR ''+''"
proof (induction n rule: show_nat.induct)
  case (1 n)
  show ?case
  proof (cases "n < 10")
    case True
    have "(of_char (char_of (48 + n) :: char) :: nat) \<ge> 48" using True by (simp add: of_char_digit)
    moreover have "\<not> (48 \<le> (of_char (CHR '' '') :: nat))" "\<not> (48 \<le> (of_char (CHR ''-'') :: nat))"
      "\<not> (48 \<le> (of_char (CHR ''+'') :: nat))" by (simp_all add: of_char_def)
    ultimately have "char_of (48 + n) \<noteq> CHR '' ''" "char_of (48 + n) \<noteq> CHR ''-''" "char_of (48 + n) \<noteq> CHR ''+''"
      by metis+
    then show ?thesis using True by (simp add: show_nat.simps [of n] is_space_def of_char_digit)
  next
    case False
    with "1.IH" show ?thesis by (auto simp: show_nat.simps [of n])
  qed
qed

lemma digit_val_dash: "digit_val CHR ''-'' = None"
  by code_simp

lemma show_nat_no_dash: "CHR ''-'' \<notin> set (show_nat n)"
proof (induction n rule: show_nat.induct)
  case (1 n)
  have "CHR ''-'' \<noteq> char_of (48 + m)" if "m < 10" for m :: nat
    using digit_val_digit [OF that] digit_val_dash by (metis option.distinct(1))
  then show ?case using 1 by (cases "n < 10") (simp_all add: show_nat.simps [of n])
qed

lemma strtol_show_nat:
  assumes "rest = [] \<or> digit_val (hd rest) = None" "int n < 2 ^ 63"
  shows "strtol (show_nat n @ rest) = int n"
proof -
  obtain c cs where c: "show_nat n = c # cs" "\<not> is_space c" "c \<noteq> CHR ''-''" "c \<noteq> CHR ''+''"
    using show_nat_hd by blast
  have "read_digits digit_val 10 0 0 (show_nat n @ rest) = (n, length (show_nat n), rest)"
    using assms(1) read_show_nat [of 0 0 n rest] by (cases rest) simp_all
  moreover have "read_sign (dropWhile is_space (show_nat n @ rest)) = (1, show_nat n @ rest)"
    using c by simp
  ultimately show ?thesis using assms(2) by (simp add: strtol_def clamp_long_def)
qed

section \<open>Properties\<close>

text \<open>
  \<^verbatim>\<open>str_split\<close> returns exactly on the lines that consist of non-empty delimiter-free fields joined by
  the delimiter, with at most one delimiter at the end, and then it returns these fields (at least
  one); on every other line one of its assertions aborts the program.
\<close>

theorem str_split_returns:
  "str_split s d = Inr ts \<longleftrightarrow>
    ts \<noteq> [] \<and> list_all (\<lambda>x. x \<noteq> [] \<and> d \<notin> set x) ts \<and> (s = join_with d ts \<or> s = join_with d ts @ [d])"
  unfolding str_split_Inr fields_ok_def list_all_iff by auto

end
