(* ===== verification/Experiment_Setting.thy ===== *)
theory Experiment_Setting
  imports General_Functions
begin

text \<open>
  \<^verbatim>\<open>public_lib/cm_experiment_setting.c\<close> and \<^verbatim>\<open>.h\<close>: the global experiment setting, read from a text file
  of lines \<^verbatim>\<open>name:value\<close>, completed with derived values and checked.  The global variable is passed
  explicitly.  The enum-typed fields hold whatever number the file gives (the code casts it), so they
  are 32-bit words; their named values are constants.
\<close>

section \<open>The setting\<close>

definition NUM_SWITCHES :: nat where "NUM_SWITCHES = 12"
definition NUM_SENDERS :: nat where "NUM_SENDERS = 12"
definition OVER_SAMPLING_RATIO :: rat where "OVER_SAMPLING_RATIO = 8"
definition SENDER_LOSS_VOLUME_OVER_SAMPLING_RATE :: rat where
  "SENDER_LOSS_VOLUME_OVER_SAMPLING_RATE = 8"

definition UNIFORM :: u32 where "UNIFORM = 0"
definition DIVERSE :: u32 where "DIVERSE = 1"
definition INFINITE :: u32 where "INFINITE = 0"
definition FIXED :: u32 where "FIXED = 1"
definition HOST_SAMPLE :: u32 where "HOST_SAMPLE = 0"
definition SWITCH_SAMPLE :: u32 where "SWITCH_SAMPLE = 1"
definition INJECT_PKT_AS_CONDITION :: u32 where "INJECT_PKT_AS_CONDITION = 0"
definition TAG_PKT_AS_CONDITION :: u32 where "TAG_PKT_AS_CONDITION = 1"

record sample_hold_setting =
  target_flow_volume_in_sampling :: int
  switches_interval_volume :: "u64 list"
  max_switch_interval_volume :: u64
  uniform_mem_ratio_to_diverse_mem :: cfloat
  default_byte_sampling_rate :: cfloat

record target_flow_setting =
  volume_threshold :: int
  loss_rate_threshold :: cfloat
  loss_volume_threshold :: int
  selected_loss_volume_threshold :: int

record sender_setting =
  loss_map_mem_type :: u32
  fix_loss_map_bucket_size :: cfloat
  default_loss_byte_sampling_rate :: cfloat

record cm_experiment_setting =
  interval_msec_len :: int
  condition_msec_freq :: int
  replacement :: bool
  switch_mem_type :: u32
  switch_memory_times :: cfloat
  switch_drop_rate :: cfloat
  host_or_switch_sample :: u32
  inject_or_tag_packet :: u32
  sample_hold :: sample_hold_setting
  target_flow :: target_flow_setting
  sender :: sender_setting

text \<open>The zero-initialised global.\<close>

definition setting_zero :: cm_experiment_setting where
  "setting_zero = \<lparr>interval_msec_len = 0, condition_msec_freq = 0, replacement = False,
     switch_mem_type = 0, switch_memory_times = Fin 0, switch_drop_rate = Fin 0,
     host_or_switch_sample = 0, inject_or_tag_packet = 0,
     sample_hold = \<lparr>target_flow_volume_in_sampling = 0, switches_interval_volume = replicate 12 0,
       max_switch_interval_volume = 0, uniform_mem_ratio_to_diverse_mem = Fin 0,
       default_byte_sampling_rate = Fin 0\<rparr>,
     target_flow = \<lparr>volume_threshold = 0, loss_rate_threshold = Fin 0, loss_volume_threshold = 0,
       selected_loss_volume_threshold = 0\<rparr>,
     sender = \<lparr>loss_map_mem_type = 0, fix_loss_map_bucket_size = Fin 0,
       default_loss_byte_sampling_rate = Fin 0\<rparr>\<rparr>"

section \<open>Reading the file\<close>

text \<open>
  One line with name \<open>k\<close> and value \<open>v\<close>.  The names are pairwise different, so the sequence of
  comparisons in the code is a case distinction.
\<close>

definition set_enum :: "string \<Rightarrow> u32" where
  "set_enum v = word_of_int (strtol v)"

definition set_switch_volume :: "nat \<Rightarrow> string \<Rightarrow> cm_experiment_setting \<Rightarrow> cm_experiment_setting" where
  "set_switch_volume i v st = st\<lparr>sample_hold := (sample_hold st)\<lparr>switches_interval_volume :=
     (switches_interval_volume (sample_hold st))[i := word_of_int (strtol v)]\<rparr>\<rparr>"

definition apply_setting :: "string \<Rightarrow> string \<Rightarrow> cm_experiment_setting \<Rightarrow> cm_experiment_setting" where
  "apply_setting k v st =
    (if k = ''interval_msec_len'' then st\<lparr>interval_msec_len := strtol_int v\<rparr>
     else if k = ''condition_msec_freq'' then st\<lparr>condition_msec_freq := strtol_int v\<rparr>
     else if k = ''replacement'' then st\<lparr>replacement := strtol v \<noteq> 0\<rparr>
     else if k = ''switch_mem_type'' then st\<lparr>switch_mem_type := set_enum v\<rparr>
     else if k = ''switch_memory_times'' then st\<lparr>switch_memory_times := strtof v\<rparr>
     else if k = ''switch_drop_rate'' then st\<lparr>switch_drop_rate := strtof v\<rparr>
     else if k = ''host_or_switch_sample'' then st\<lparr>host_or_switch_sample := set_enum v\<rparr>
     else if k = ''inject_or_tag_packet'' then st\<lparr>inject_or_tag_packet := set_enum v\<rparr>
     else if k = ''target_flow_volume'' then
       st\<lparr>target_flow := (target_flow st)\<lparr>volume_threshold := strtol_int v\<rparr>\<rparr>
     else if k = ''target_flow_loss_rate'' then
       st\<lparr>target_flow := (target_flow st)\<lparr>loss_rate_threshold := strtof v\<rparr>\<rparr>
     else if k = ''target_flow_loss_volume'' then
       st\<lparr>target_flow := (target_flow st)\<lparr>loss_volume_threshold := strtol_int v\<rparr>\<rparr>
     else if k = ''selected_loss_volume_threshold'' then
       st\<lparr>target_flow := (target_flow st)\<lparr>selected_loss_volume_threshold := strtol_int v\<rparr>\<rparr>
     else if k = ''target_flow_volume_in_sampling'' then
       st\<lparr>sample_hold := (sample_hold st)\<lparr>target_flow_volume_in_sampling := strtol_int v\<rparr>\<rparr>
     else if k = ''sender_loss_map_mem_type'' then
       st\<lparr>sender := (sender st)\<lparr>loss_map_mem_type := set_enum v\<rparr>\<rparr>
     else if k = ''fix_loss_map_bucket_size'' then
       st\<lparr>sender := (sender st)\<lparr>fix_loss_map_bucket_size := to_float (Fin (of_int (strtol v)))\<rparr>\<rparr>
     else if k = ''switch1_interval_volume'' then set_switch_volume 0 v st
     else if k = ''switch2_interval_volume'' then set_switch_volume 1 v st
     else if k = ''switch3_interval_volume'' then set_switch_volume 2 v st
     else if k = ''switch4_interval_volume'' then set_switch_volume 3 v st
     else if k = ''switch5_interval_volume'' then set_switch_volume 4 v st
     else if k = ''switch6_interval_volume'' then set_switch_volume 5 v st
     else if k = ''switch7_interval_volume'' then set_switch_volume 6 v st
     else if k = ''switch8_interval_volume'' then set_switch_volume 7 v st
     else if k = ''switch9_interval_volume'' then set_switch_volume 8 v st
     else if k = ''switch10_interval_volume'' then set_switch_volume 9 v st
     else if k = ''switch11_interval_volume'' then set_switch_volume 10 v st
     else if k = ''switch12_interval_volume'' then set_switch_volume 11 v st
     else st)"

text \<open>
  The body of the \<^verbatim>\<open>getline\<close> loop.  Every comparison dereferences \<^verbatim>\<open>tokens[0]\<close>; a missing \<^verbatim>\<open>tokens[1]\<close>
  makes all of them fail.
\<close>

definition read_setting_line :: "string \<Rightarrow> cm_experiment_setting \<Rightarrow> cm_experiment_setting c_result" where
  "read_setting_line line_buffer st =
    (if line_buffer \<noteq> [] \<and> hd line_buffer = CHR ''#'' then Inr st
     else
       case str_split line_buffer (CHR '':'') of
         Inl e \<Rightarrow> Inl e
       | Inr [] \<Rightarrow> Inl Null_dereference
       | Inr [k] \<Rightarrow> Inr st
       | Inr (k # v # _) \<Rightarrow> Inr (apply_setting k v st))"

fun read_setting_lines :: "string list \<Rightarrow> cm_experiment_setting \<Rightarrow> cm_experiment_setting c_result" where
  "read_setting_lines [] st = Inr st"
| "read_setting_lines (l # ls) st =
    (case read_setting_line l st of Inl e \<Rightarrow> Inl e | Inr st' \<Rightarrow> read_setting_lines ls st')"

text \<open>The file is the list of its lines, \<open>None\<close> when it cannot be opened; the result is the return value.\<close>

definition read_cm_experiment_setting_from_file ::
    "string list option \<Rightarrow> cm_experiment_setting \<Rightarrow> (cm_experiment_setting \<times> int) c_result" where
  "read_cm_experiment_setting_from_file file st =
    (case file of
       None \<Rightarrow> Inr (st, - 1)
     | Some ls \<Rightarrow> (case read_setting_lines ls st of Inl e \<Rightarrow> Inl e | Inr st' \<Rightarrow> Inr (st', 0)))"

section \<open>Derived values and checks\<close>

definition u64_double :: "u64 \<Rightarrow> cfloat" where
  "u64_double w = fl64 (of_nat (unat w))"

text \<open>\<^verbatim>\<open>1.0 / i * r\<close>, computed in \<^verbatim>\<open>double\<close> and stored in a \<^verbatim>\<open>float\<close>.\<close>

definition rate_of :: "int \<Rightarrow> rat \<Rightarrow> cfloat" where
  "rate_of i r = to_float (cf_mul fl64 (cf_div fl64 (Fin 1) (Fin (of_int i))) (Fin r))"

definition init_other_experiment_setting :: "cm_experiment_setting \<Rightarrow> cm_experiment_setting \<times> int" where
  "init_other_experiment_setting st =
    (let st = st\<lparr>sample_hold := (sample_hold st)\<lparr>default_byte_sampling_rate :=
           rate_of (target_flow_volume_in_sampling (sample_hold st)) OVER_SAMPLING_RATIO\<rparr>\<rparr>;
         st = (if loss_volume_threshold (target_flow st) \<noteq> 0 then
           st\<lparr>sender := (sender st)\<lparr>default_loss_byte_sampling_rate :=
             rate_of (loss_volume_threshold (target_flow st)) SENDER_LOSS_VOLUME_OVER_SAMPLING_RATE\<rparr>\<rparr>
           else st);
         vols = take NUM_SWITCHES (switches_interval_volume (sample_hold st));
         (all_switches_volume, mx) = fold (\<lambda>v (a, m). (a + v, if v > m then v else m)) vols (0, 0);
         st = st\<lparr>sample_hold := (sample_hold st)\<lparr>max_switch_interval_volume := mx\<rparr>\<rparr>;
         st = (if mx > 0 then
           st\<lparr>sample_hold := (sample_hold st)\<lparr>uniform_mem_ratio_to_diverse_mem :=
             to_float (cf_div fl64 (cf_div fl64 (cf_mul fl64 (Fin 1) (u64_double all_switches_volume))
               (Fin (of_nat NUM_SWITCHES))) (u64_double mx))\<rparr>\<rparr>
           else st)
     in (st, 0))"

definition check_value_correct :: "cm_experiment_setting \<Rightarrow> int" where
  "check_value_correct st =
    (if interval_msec_len st = 0 then - 1
     else if condition_msec_freq st = 0 then - 1
     else if cf_eq0 (switch_memory_times st) then - 1
     else if volume_threshold (target_flow st) = 0 \<and> cf_eq0 (loss_rate_threshold (target_flow st)) \<and>
             loss_volume_threshold (target_flow st) = 0 then - 1
     else if list_ex (\<lambda>v. v = 0) (take NUM_SWITCHES (switches_interval_volume (sample_hold st))) then - 1
     else 0)"

definition init_cm_experiment_setting ::
    "string list option \<Rightarrow> cm_experiment_setting \<Rightarrow> (cm_experiment_setting \<times> int) c_result" where
  "init_cm_experiment_setting file st =
    (case read_cm_experiment_setting_from_file file st of
       Inl e \<Rightarrow> Inl e
     | Inr (st, ret) \<Rightarrow>
         if ret \<noteq> 0 then Inr (st, - 1)
         else
           let (st, ret) = init_other_experiment_setting st
           in if ret \<noteq> 0 then Inr (st, - 1)
              else if check_value_correct st \<noteq> 0 then Inr (st, - 1)
              else Inr (st, 0))"

section \<open>Lemmas\<close>

lemma read_setting_line_comment [simp]: "read_setting_line (CHR ''#'' # l) st = Inr st"
  by (simp add: read_setting_line_def)

text \<open>\<^verbatim>\<open>tokens[0]\<close> is never null: \<^const>\<open>str_split\<close> returns at least one token.\<close>

lemma read_setting_line_no_null: "read_setting_line l st \<noteq> Inl Null_dereference"
proof -
  have "str_split l d = Inr ts \<Longrightarrow> ts \<noteq> []" for d ts by (simp add: str_split_Inr fields_ok_def)
  moreover have "str_split l d \<noteq> Inl Null_dereference" for d
    using fields_exist [of d l] by (auto simp: str_split_join split: if_splits)
  ultimately show ?thesis
    by (auto simp: read_setting_line_def split: sum.splits list.splits)
qed

lemma read_setting_line_pair:
  assumes "k \<noteq> []" "v \<noteq> []" "CHR '':'' \<notin> set k" "CHR '':'' \<notin> set v" "hd k \<noteq> CHR ''#''"
  shows "read_setting_line (k @ CHR '':'' # v) st = Inr (apply_setting k v st)"
proof -
  have "str_split (k @ CHR '':'' # v) (CHR '':'') = Inr [k, v]"
    using assms by (auto simp: str_split_Inr fields_ok_def)
  then show ?thesis using assms by (simp add: read_setting_line_def)
qed

lemma fold_volumes:
  "fold (\<lambda>v (a, m). (a + v, if v > m then v else m)) vs (a, m) =
    (a + sum_list vs, Max (insert m (set vs)))" for m :: u64
proof (induction vs arbitrary: a m)
  case (Cons v vs)
  have "Max (insert (if v > m then v else m) (set vs)) = Max (insert m (insert v (set vs)))"
    by (cases "set vs = {}") (auto simp: max_def)
  then show ?case using Cons by (simp add: add.assoc)
qed simp

lemma length_apply_setting [simp]:
  "length (switches_interval_volume (sample_hold (apply_setting k v st))) =
    length (switches_interval_volume (sample_hold st))"
  by (simp add: apply_setting_def set_switch_volume_def)

lemma length_read_setting_lines:
  "read_setting_lines ls st = Inr st' \<Longrightarrow>
   length (switches_interval_volume (sample_hold st')) = length (switches_interval_volume (sample_hold st))"
proof (induction ls arbitrary: st)
  case (Cons l ls)
  from Cons.prems obtain s1 where s1: "read_setting_line l st = Inr s1" "read_setting_lines ls s1 = Inr st'"
    by (auto split: sum.splits)
  then have "length (switches_interval_volume (sample_hold s1)) = length (switches_interval_volume (sample_hold st))"
    by (auto simp: read_setting_line_def split: if_splits sum.splits list.splits)
  with Cons.IH [OF s1(2)] show ?case by simp
qed simp

lemma init_other_frame:
  assumes "init_other_experiment_setting st = (st', r)"
  shows "interval_msec_len st' = interval_msec_len st" "condition_msec_freq st' = condition_msec_freq st"
    "target_flow st' = target_flow st" "switch_memory_times st' = switch_memory_times st"
    "switches_interval_volume (sample_hold st') = switches_interval_volume (sample_hold st)"
    "max_switch_interval_volume (sample_hold st') =
      Max (insert 0 (set (take NUM_SWITCHES (switches_interval_volume (sample_hold st)))))"
    "default_byte_sampling_rate (sample_hold st') =
      rate_of (target_flow_volume_in_sampling (sample_hold st)) OVER_SAMPLING_RATIO"
  using assms
  by (auto simp: init_other_experiment_setting_def Let_def fold_volumes split: if_splits)

lemma check_init_other: "check_value_correct (fst (init_other_experiment_setting st)) = check_value_correct st"
  using init_other_frame [of st "fst (init_other_experiment_setting st)"]
  by (simp add: check_value_correct_def prod_eq_iff)

section \<open>Properties\<close>

text \<open>
  Reading the settings file never dereferences a null token, whatever the file contains; the only
  way it can stop the program is a failed assertion on a malformed line.
\<close>

theorem read_settings_safe:
  "read_cm_experiment_setting_from_file file st \<noteq> Inl Null_dereference"
proof -
  have "read_setting_lines ls st \<noteq> Inl Null_dereference" for ls
    by (induction ls arbitrary: st) (auto simp: read_setting_line_no_null split: sum.split)
  then show ?thesis
    by (auto simp: read_cm_experiment_setting_from_file_def split: option.splits sum.splits)
qed

text \<open>
  C39: a setting that \<^verbatim>\<open>init_cm_experiment_setting\<close> accepts has non-zero interval lengths (they are
  divisors in the timers), at least one target-flow criterion, twelve non-zero switch volumes, and
  \<^verbatim>\<open>max_switch_interval_volume\<close> is the largest of them.
\<close>

theorem init_setting_checked:
  assumes "init_cm_experiment_setting file setting_zero = Inr (st, 0)"
  shows "interval_msec_len st \<noteq> 0 \<and> condition_msec_freq st \<noteq> 0 \<and>
    \<not> (volume_threshold (target_flow st) = 0 \<and> cf_eq0 (loss_rate_threshold (target_flow st)) \<and>
       loss_volume_threshold (target_flow st) = 0) \<and>
    length (switches_interval_volume (sample_hold st)) = 12 \<and>
    0 \<notin> set (switches_interval_volume (sample_hold st)) \<and>
    max_switch_interval_volume (sample_hold st) = Max (set (switches_interval_volume (sample_hold st)))"
proof -
  from assms obtain s1 where s1: "read_cm_experiment_setting_from_file file setting_zero = Inr (s1, 0)"
    and st: "init_other_experiment_setting s1 = (st, 0)" and chk: "check_value_correct st = 0"
    by (auto simp: init_cm_experiment_setting_def Let_def split: sum.splits prod.splits if_splits)
  from s1 obtain ls where "read_setting_lines ls setting_zero = Inr s1"
    by (auto simp: read_cm_experiment_setting_from_file_def split: option.splits sum.splits)
  from length_read_setting_lines [OF this] have len: "length (switches_interval_volume (sample_hold st)) = 12"
    by (simp add: init_other_frame [OF st] setting_zero_def)
  then have ne: "set (switches_interval_volume (sample_hold st)) \<noteq> {}" by auto
  have "Max (insert 0 (set vs)) = Max (set vs)" if "vs \<noteq> []" for vs :: "u64 list"
    using that by (simp add: max_absorb2)
  then show ?thesis
    using chk len ne init_other_frame(5,6) [OF st]
    by (auto simp: check_value_correct_def NUM_SWITCHES_def list_ex_iff split: if_splits)
qed

text \<open>A minimal settings file that is accepted.\<close>

definition sample_setting_file :: "string list" where
  "sample_setting_file =
    [''#comment'', ''interval_msec_len:3750'', ''condition_msec_freq:500'', ''switch_memory_times:1'',
     ''target_flow_loss_volume:6000'',
     ''switch1_interval_volume:21'', ''switch2_interval_volume:22'', ''switch3_interval_volume:31'',
     ''switch4_interval_volume:37'', ''switch5_interval_volume:34'', ''switch6_interval_volume:42'',
     ''switch7_interval_volume:39'', ''switch8_interval_volume:42'', ''switch9_interval_volume:19'',
     ''switch10_interval_volume:37'', ''switch11_interval_volume:34'', ''switch12_interval_volume:20'']"

lemma sample_setting_read:
  "map_sum id check_value_correct (read_setting_lines sample_setting_file setting_zero) = Inr 0"
  by code_simp

lemma sample_setting_accepted:
  "\<exists>st. init_cm_experiment_setting (Some sample_setting_file) setting_zero = Inr (st, 0)"
proof -
  obtain s1 where s1: "read_setting_lines sample_setting_file setting_zero = Inr s1" "check_value_correct s1 = 0"
    using sample_setting_read by (cases "read_setting_lines sample_setting_file setting_zero") auto
  have "snd (init_other_experiment_setting s1) = 0"
    by (simp add: init_other_experiment_setting_def Let_def split_def)
  then obtain st where st: "init_other_experiment_setting s1 = (st, 0)" by (metis prod.collapse)
  then show ?thesis
    using s1 check_init_other [of s1]
    by (simp add: init_cm_experiment_setting_def read_cm_experiment_setting_from_file_def)
qed

theorem init_setting_checked_witness:
  "\<exists>st. init_cm_experiment_setting (Some sample_setting_file) setting_zero = Inr (st, 0) \<and>
    interval_msec_len st \<noteq> 0 \<and>
    max_switch_interval_volume (sample_hold st) = Max (set (switches_interval_volume (sample_hold st)))"
proof -
  obtain st where st: "init_cm_experiment_setting (Some sample_setting_file) setting_zero = Inr (st, 0)"
    using sample_setting_accepted by blast
  with init_setting_checked [OF st] show ?thesis by blast
qed

end
