(* ===== verification/Sampling.thy ===== *)
theory Sampling
  imports Ht_fixSize Experiment_Setting
begin

text \<open>
  \<^verbatim>\<open>public_lib/sample_model.c\<close> and \<^verbatim>\<open>sample_packet.c\<close>: byte sampling with sample-and-hold.  The
  generator \<^verbatim>\<open>drand48_r\<close> is the 48-bit linear congruential generator of the C library; its result is
  the exact quotient of the new state by \<open>2 ^ 48\<close>, which a \<^verbatim>\<open>double\<close> represents.
\<close>

section \<open>drand48\<close>

type_synonym drand48_data = "48 word"

definition srand48_r :: "int \<Rightarrow> drand48_data" where
  "srand48_r seedval = push_bit 16 (ucast (word_of_int seedval :: u32)) OR 0x330E"

definition drand48_step :: "drand48_data \<Rightarrow> drand48_data" where
  "drand48_step x = 0x5DEECE66D * x + 0xB"

definition drand48_r :: "drand48_data \<Rightarrow> drand48_data \<times> cfloat" where
  "drand48_r x = (let x' = drand48_step x in (x', Fin (of_nat (unat x') / 2 ^ 48)))"

section \<open>Sampling rates\<close>

text \<open>The product of a \<^verbatim>\<open>float\<close> and an \<^verbatim>\<open>int\<close> is computed in \<^verbatim>\<open>float\<close> and widened to \<^verbatim>\<open>double\<close>.\<close>

definition rate_times_len :: "cfloat \<Rightarrow> int \<Rightarrow> cfloat" where
  "rate_times_len rate total_pkt_len = to_double (cf_mul fl32 rate (fl32 (of_int total_pkt_len)))"

definition pkt_sample_rate_trad :: "cm_experiment_setting \<Rightarrow> int \<Rightarrow> cfloat" where
  "pkt_sample_rate_trad st total_pkt_len =
    (let rate = rate_times_len (default_byte_sampling_rate (sample_hold st)) total_pkt_len
     in if cf_less (Fin 1) rate then Fin 1 else rate)"

definition pkt_sample_rate_trad_sender :: "cm_experiment_setting \<Rightarrow> int \<Rightarrow> cfloat" where
  "pkt_sample_rate_trad_sender st total_pkt_len =
    (let rate = rate_times_len (default_loss_byte_sampling_rate (sender st)) total_pkt_len
     in if cf_less (Fin 1) rate then Fin 1 else rate)"

section \<open>Sample and hold\<close>

definition flow_src_already_sampled :: "(flow_src \<Rightarrow> u32 \<Rightarrow> u32) \<Rightarrow> flow_src \<Rightarrow> hashtable_kfs_vi option \<Rightarrow> int" where
  "flow_src_already_sampled hb p_flow_src flow_sample_map =
    (if ht_kfs_vi_get hb flow_sample_map p_flow_src \<ge> 0 then 1 else 0)"

text \<open>Result, generator state and map after the call.\<close>

definition sample_packet :: "(flow_src \<Rightarrow> u32 \<Rightarrow> u32) \<Rightarrow> cm_experiment_setting \<Rightarrow> packet \<Rightarrow> int \<Rightarrow>
    drand48_data \<Rightarrow> hashtable_kfs_vi option \<Rightarrow> int \<times> drand48_data \<times> hashtable_kfs_vi option" where
  "sample_packet hb st p_packet total_pkt_len p_rand_buffer flow_sample_map =
    (let flow_src = packet_flow_src p_packet
     in if flow_src_already_sampled hb flow_src flow_sample_map \<noteq> 0 then (1, p_rand_buffer, flow_sample_map)
        else
          let pkt_sample_rate = pkt_sample_rate_trad st total_pkt_len;
              (p_rand_buffer, rand_float) = drand48_r p_rand_buffer
          in if cf_less rand_float pkt_sample_rate then
               (1, p_rand_buffer, ht_kfs_vi_set hb flow_sample_map flow_src 1)
             else (0, p_rand_buffer, flow_sample_map))"

definition sample_packet_fixSize_map :: "(flow_src \<Rightarrow> u32 \<Rightarrow> u32) \<Rightarrow> cm_experiment_setting \<Rightarrow> packet \<Rightarrow> int \<Rightarrow>
    drand48_data \<Rightarrow> hashtable_kfs_fixSize option \<Rightarrow> int \<times> drand48_data" where
  "sample_packet_fixSize_map hb st p_packet total_pkt_len p_rand_buffer flow_sample_map =
    (if ht_kfs_fixSize_is_sampled hb flow_sample_map (packet_flow_src p_packet) then (1, p_rand_buffer)
     else
       let pkt_sample_rate = pkt_sample_rate_trad st total_pkt_len;
           (p_rand_buffer, rand_float) = drand48_r p_rand_buffer
       in (if cf_less rand_float pkt_sample_rate then 1 else 0, p_rand_buffer))"

definition sample_packet_fixSize_map_sender :: "(flow_src \<Rightarrow> u32 \<Rightarrow> u32) \<Rightarrow> cm_experiment_setting \<Rightarrow>
    flow_src \<Rightarrow> int \<Rightarrow> drand48_data \<Rightarrow> hashtable_kfs_fixSize option \<Rightarrow> int \<times> drand48_data" where
  "sample_packet_fixSize_map_sender hb st p_flow_src total_pkt_len p_rand_buffer flow_sample_map =
    (if ht_kfs_fixSize_is_sampled hb flow_sample_map p_flow_src then (1, p_rand_buffer)
     else
       let pkt_sample_rate = pkt_sample_rate_trad_sender st total_pkt_len;
           (p_rand_buffer, rand_float) = drand48_r p_rand_buffer
       in (if cf_less rand_float pkt_sample_rate then 1 else 0, p_rand_buffer))"

section \<open>Lemmas\<close>

lemma drand48_range: "\<exists>x. snd (drand48_r b) = Fin x \<and> 0 \<le> x \<and> x < 1"
proof -
  have "(of_nat (unat (drand48_step b)) :: rat) < of_nat (2 ^ 48)"
    using unsigned_less [where 'a = nat and w = "drand48_step b"] unfolding of_nat_less_iff by simp
  moreover have "(0 :: rat) \<le> of_nat (unat (drand48_step b))" by (rule of_nat_0_le_iff)
  ultimately show ?thesis
    by (intro exI [of _ "of_nat (unat (drand48_step b)) / 2 ^ 48"]) (simp add: drand48_r_def Let_def)
qed

lemma sample_packet_map:
  "snd (snd (sample_packet hb st p len b m)) =
    (if fst (sample_packet hb st p len b m) = 1 \<and> ht_kfs_vi_get hb m (packet_flow_src p) < 0
     then ht_kfs_vi_set hb m (packet_flow_src p) 1 else m)"
  by (auto simp: sample_packet_def flow_src_already_sampled_def Let_def split: prod.split)

section \<open>Properties\<close>

text \<open>
  A packet is sampled exactly when its flow is held already or the next number of the generator
  is below its sampling rate; that rate never exceeds one, and the number is in the half-open unit
  interval.
\<close>

lemma sample_rate_bounds:
  "\<not> cf_less (Fin 1) (pkt_sample_rate_trad st len) \<and> \<not> cf_less (Fin 1) (pkt_sample_rate_trad_sender st len) \<and>
   (\<exists>x. snd (drand48_r b) = Fin x \<and> 0 \<le> x \<and> x < 1) \<and>
   fst (sample_packet hb st p len b m) =
     of_bool (0 \<le> ht_kfs_vi_get hb m (packet_flow_src p) \<or> cf_less (snd (drand48_r b)) (pkt_sample_rate_trad st len))"
proof -
  have "\<not> cf_less (Fin 1) (pkt_sample_rate_trad st len)" "\<not> cf_less (Fin 1) (pkt_sample_rate_trad_sender st len)"
    by (auto simp: pkt_sample_rate_trad_def pkt_sample_rate_trad_sender_def Let_def)
  then show ?thesis using drand48_range [of b]
    by (simp add: sample_packet_def flow_src_already_sampled_def Let_def split: prod.split)
qed

text \<open>
  C36: sample and hold.  Once a packet of a monitored flow has been sampled, every later packet of that
  flow is sampled too, whatever its length and the state of the generator, and neither the generator
  nor the map changes any more for it; packets of other flows do not disturb this.
\<close>

theorem sample_and_hold:
  assumes "flow_src_hash hb" "kfs_wf hb ht" "sample_packet hb st p len b (Some ht) = (1, b', m)"
  shows "(packet_flow_src p' = packet_flow_src p \<longrightarrow> sample_packet hb st p' len' b'' m = (1, b'', m)) \<and>
    (\<exists>ht'. m = Some ht' \<and> kfs_wf hb ht' \<and>
      (\<forall>f. ht_kfs_vi_get hb (Some ht) f \<ge> 0 \<longrightarrow> ht_kfs_vi_get hb m f = ht_kfs_vi_get hb (Some ht) f))"
proof -
  have m: "m = (if ht_kfs_vi_get hb (Some ht) (packet_flow_src p) < 0
      then ht_kfs_vi_set hb (Some ht) (packet_flow_src p) 1 else Some ht)"
    using sample_packet_map [of hb st p len b "Some ht"] assms(3) by simp
  obtain ht1 where ht1: "ht_kfs_vi_set hb (Some ht) (packet_flow_src p) 1 = Some ht1" "kfs_wf hb ht1"
    "kfs_map hb ht1 = (kfs_map hb ht)(packet_flow_src p \<mapsto> 1)"
    using flow_src_hash.vi_set [OF assms(1,2), of "packet_flow_src p" 1] by blast
  have "0 \<le> ht_kfs_vi_get hb m (packet_flow_src p)"
    using m ht1 by (auto simp: kfs_vi_get_map)
  then have "sample_packet hb st p' len' b'' m = (1, b'', m)" if "packet_flow_src p' = packet_flow_src p"
    using that by (simp add: sample_packet_def flow_src_already_sampled_def)
  moreover have "\<exists>ht'. m = Some ht' \<and> kfs_wf hb ht' \<and>
      (\<forall>f. ht_kfs_vi_get hb (Some ht) f \<ge> 0 \<longrightarrow> ht_kfs_vi_get hb m f = ht_kfs_vi_get hb (Some ht) f)"
    using m ht1 assms(2) by (auto simp: kfs_vi_get_map)
  ultimately show ?thesis by blast
qed

theorem sample_and_hold_witness:
  "sample_packet (\<lambda>_ _. 0) setting_zero
     \<lparr>p_srcip = 1, p_dstip = 1, p_src_port = 9, p_dst_port = 9, p_protocol = 6, p_seqid = 2, p_len = 70,
       p_sampled = False, p_selected_level = 0\<rparr> 70 12345 (Some kfs_sample) = (1, 12345, Some kfs_sample)"
proof -
  let ?p = "\<lparr>p_srcip = 1, p_dstip = 1, p_src_port = 8, p_dst_port = 9, p_protocol = 6, p_seqid = 1, p_len = 60,
       p_sampled = False, p_selected_level = 0\<rparr>"
  have "sample_packet (\<lambda>_ _. 0) setting_zero ?p 60 7 (Some kfs_sample) = (1, 7, Some kfs_sample)"
    by (simp add: sample_packet_def flow_src_already_sampled_def packet_flow_src_def ht_kfs_vi_get_def
        ct_get_def kfs_sample_def kfs_bin_def flow_src_compare_def)
  from sample_and_hold [OF kfs_sample_ok this] show ?thesis by (simp add: packet_flow_src_def)
qed

end
