(* ===== verification/Ht_vLinklist.thy ===== *)
theory Ht_vLinklist
  imports Ht_kFlow
begin

text \<open>
  \<^verbatim>\<open>public_lib/mt_hashtable_kFlow_vLinklist.c\<close>: for every flow the queue of packets that were sent and
  not yet accounted for.  \<^verbatim>\<open>ht_vl_set\<close> appends a sent packet, \<^verbatim>\<open>ht_vl_get_rece_lost_volume\<close> processes
  the report that packet \<^verbatim>\<open>seqid\<close> arrived: the packets before it count as lost.

  The value of an entry is the list from \<^verbatim>\<open>oldest_pkt\<close> along the \<^verbatim>\<open>next\<close> pointers; \<^verbatim>\<open>newest_pkt\<close> is its
  last element and \<^verbatim>\<open>NULL\<close> when it is empty, which both operations maintain.
\<close>

section \<open>State and operations\<close>

record receV_lostV =
  received_volume :: u32
  lost_volume :: u32
  lost_pkt_num :: u32

record pkt_volume =
  pv_seqid :: u32
  pv_volume :: u32

type_synonym entry_vl = "(flow_s, pkt_volume list) entry"

record hashtable_vl =
  vl_size :: int
  vl_table :: "nat \<Rightarrow> entry_vl list"

definition new_pkt_volume :: "u32 \<Rightarrow> u32 \<Rightarrow> pkt_volume" where
  "new_pkt_volume seqid volume = \<lparr>pv_seqid = seqid, pv_volume = volume\<rparr>"

definition ht_vl_create :: "bool \<Rightarrow> hashtable_vl option" where
  "ht_vl_create malloc_ok =
    (if malloc_ok then Some \<lparr>vl_size = HASH_MAP_SIZE, vl_table = (\<lambda>_. [])\<rparr> else None)"

text \<open>What is passed to \<^verbatim>\<open>free\<close>, in order: for each entry its packets, then the entry.\<close>

definition ht_vl_destory :: "hashtable_vl option \<Rightarrow> (pkt_volume + entry_vl) list" where
  "ht_vl_destory hashtable =
    (case hashtable of
       None \<Rightarrow> []
     | Some ht \<Rightarrow>
         concat (map (\<lambda>i. concat (map (\<lambda>e. map Inl (e_value e) @ [Inr e]) (vl_table ht i))) [0..<nat (vl_size ht)]))"

definition ht_vl_hash :: "hashtable_vl \<Rightarrow> flow_s \<Rightarrow> nat" where
  "ht_vl_hash hashtable key =
    (let hashval = ucast (f_srcip key) :: u64;
         hashval = ((push_bit 32 hashval OR ucast (f_dstip key)) XOR ucast (f_src_port key))
                     XOR ucast (f_dst_port key)
     in unat (hashval mod word_of_int (vl_size hashtable)))"

definition ht_vl_newpair :: "flow_s \<Rightarrow> pkt_volume \<Rightarrow> entry_vl" where
  "ht_vl_newpair key pkt_volume = \<lparr>e_key = key, e_value = [pkt_volume]\<rparr>"

text \<open>The loop over the packets older than the reported one.\<close>

fun vl_lost_loop :: "u32 \<Rightarrow> pkt_volume list \<Rightarrow> receV_lostV \<Rightarrow> pkt_volume list \<times> receV_lostV" where
  "vl_lost_loop seqid [] ans = ([], ans)"
| "vl_lost_loop seqid (it # rest) ans =
    (if pv_seqid it < seqid then
       vl_lost_loop seqid rest
         (ans\<lparr>lost_volume := lost_volume ans + pv_volume it, lost_pkt_num := lost_pkt_num ans + 1\<rparr>)
     else (it # rest, ans))"

definition vl_account :: "u32 \<Rightarrow> pkt_volume list \<Rightarrow> receV_lostV \<Rightarrow> pkt_volume list \<times> receV_lostV" where
  "vl_account seqid pkts ans =
    (case vl_lost_loop seqid pkts ans of
       ([], ans) \<Rightarrow> ([], ans)
     | (it # rest, ans) \<Rightarrow>
         if pv_seqid it = seqid then (rest, ans\<lparr>received_volume := received_volume ans + pv_volume it\<rparr>)
         else (it # rest, ans))"

definition no_volume :: receV_lostV where
  "no_volume = \<lparr>received_volume = 0, lost_volume = 0, lost_pkt_num = 0\<rparr>"

definition ht_vl_get_rece_lost_volume :: "hashtable_vl option \<Rightarrow> flow_s \<Rightarrow> u32 \<Rightarrow>
    hashtable_vl option \<times> receV_lostV" where
  "ht_vl_get_rece_lost_volume hashtable key seqid =
    (case hashtable of
       None \<Rightarrow> (None, no_volume)
     | Some ht \<Rightarrow>
         let bin = ht_vl_hash ht key; es = vl_table ht bin
         in case chain_seek flow_compare key es of
              [] \<Rightarrow> (Some ht, no_volume)
            | pair # rest \<Rightarrow>
                if flow_compare key (e_key pair) \<noteq> 0 then (Some ht, no_volume)
                else
                  case vl_account seqid (e_value pair) no_volume of
                    (left, ans) \<Rightarrow>
                      (Some (ht\<lparr>vl_table := (vl_table ht)(bin :=
                         chain_before flow_compare key es @ pair\<lparr>e_value := left\<rparr> # rest)\<rparr>), ans))"

definition ht_vl_set :: "hashtable_vl option \<Rightarrow> flow_s \<Rightarrow> u32 \<Rightarrow> u32 \<Rightarrow> hashtable_vl option" where
  "ht_vl_set hashtable key seqid volume =
    (case hashtable of
       None \<Rightarrow> None
     | Some ht \<Rightarrow>
         let bin = ht_vl_hash ht key;
             pkt_volume = new_pkt_volume seqid volume
         in Some (ht\<lparr>vl_table := (vl_table ht)(bin :=
              chain_upsert flow_compare key (\<lambda>pkts. pkts @ [pkt_volume]) (ht_vl_newpair key pkt_volume)
                (vl_table ht bin))\<rparr>))"

section \<open>The table as a map from flows to queues\<close>

definition vl_chained :: "hashtable_vl \<Rightarrow> (flow_s, pkt_volume list) chained" where
  "vl_chained ht = \<lparr>ct_size = vl_size ht, ct_table = vl_table ht, ct_cur = - 1, ct_last = None\<rparr>"

definition vl_wf :: "hashtable_vl \<Rightarrow> bool" where
  "vl_wf ht \<longleftrightarrow> ct_wf flow_compare flow_hash (vl_chained ht)"

text \<open>The packets of a flow in flight; a flow that is not in the table has none.\<close>

definition vl_pending :: "hashtable_vl \<Rightarrow> flow_s \<Rightarrow> pkt_volume list" where
  "vl_pending ht key =
    (case ct_lookup flow_compare flow_hash (vl_chained ht) key of None \<Rightarrow> [] | Some pkts \<Rightarrow> pkts)"

lemma vl_hash_flow_hash: "ht_vl_hash ht key = flow_hash (vl_size ht) key"
  by (simp add: ht_vl_hash_def flow_hash_def)

lemma vl_create_wf: "ht_vl_create True = Some ht \<Longrightarrow> vl_wf ht \<and> vl_pending ht key = []"
  by (auto simp: ht_vl_create_def vl_wf_def vl_chained_def ct_wf_def ct_iter_ok_def HASH_MAP_SIZE_def
      vl_pending_def ct_lookup_def ct_get_def)

lemma vl_set_chained:
  "ht_vl_set (Some ht) key s v = Some ht' \<Longrightarrow>
   vl_chained ht' = ct_upsert flow_compare flow_hash (\<lambda>pkts. pkts @ [new_pkt_volume s v])
     (ht_vl_newpair key (new_pkt_volume s v)) (vl_chained ht) key"
  by (auto simp: ht_vl_set_def vl_chained_def ct_upsert_def Let_def vl_hash_flow_hash)

text \<open>An accounting step is an in-place update of an existing pair.\<close>

lemma vl_get_chained:
  "ht_vl_get_rece_lost_volume (Some ht) key s = (Some ht', ans) \<Longrightarrow>
   vl_wf ht \<Longrightarrow>
   (if ct_lookup flow_compare flow_hash (vl_chained ht) key = None then ht' = ht \<and> ans = no_volume
    else vl_chained ht' = ct_upsert flow_compare flow_hash (\<lambda>pkts. fst (vl_account s pkts no_volume))
           n (vl_chained ht) key \<and>
         ans = snd (vl_account s (vl_pending ht key) no_volume))"
  by (auto simp: ht_vl_get_rece_lost_volume_def vl_chained_def ct_upsert_def ct_lookup_def ct_get_def
      chain_get_def chain_upsert_def vl_pending_def Let_def vl_hash_flow_hash
      split: list.splits if_splits prod.splits)

lemma vl_pending_cong: "flow_tuple k = flow_tuple k' \<Longrightarrow> vl_pending ht k = vl_pending ht k'"
  by (simp add: vl_pending_def flow_tab.lookup_cong [of k k'])

lemma vl_set_spec:
  assumes "vl_wf ht"
  shows "\<exists>ht'. ht_vl_set (Some ht) key s v = Some ht' \<and> vl_wf ht' \<and>
    vl_pending ht' k = (if flow_tuple key = flow_tuple k then vl_pending ht key @ [new_pkt_volume s v]
                        else vl_pending ht k)"
proof -
  obtain ht' where ht': "ht_vl_set (Some ht) key s v = Some ht'" by (simp add: ht_vl_set_def Let_def)
  note ch = vl_set_chained [OF ht']
  have "vl_wf ht'" using assms by (simp add: vl_wf_def ch flow_tab.wf_upsert ht_vl_newpair_def)
  moreover have "vl_pending ht' k = (if flow_tuple key = flow_tuple k then vl_pending ht key @ [new_pkt_volume s v]
      else vl_pending ht k)"
    using assms by (simp add: vl_wf_def vl_pending_def ch flow_tab.lookup_upsert ht_vl_newpair_def split: option.split)
  ultimately show ?thesis using ht' by blast
qed

lemma vl_get_spec:
  assumes "vl_wf ht"
  shows "\<exists>ht'. ht_vl_get_rece_lost_volume (Some ht) key s =
      (Some ht', snd (vl_account s (vl_pending ht key) no_volume)) \<and> vl_wf ht' \<and>
    vl_pending ht' k = (if flow_tuple key = flow_tuple k then fst (vl_account s (vl_pending ht key) no_volume)
                        else vl_pending ht k)"
proof -
  obtain ht' ans where r: "ht_vl_get_rece_lost_volume (Some ht) key s = (Some ht', ans)"
    by (cases "ht_vl_get_rece_lost_volume (Some ht) key s")
      (fastforce simp: ht_vl_get_rece_lost_volume_def Let_def split: list.splits prod.splits if_splits)
  show ?thesis
  proof (cases "ct_lookup flow_compare flow_hash (vl_chained ht) key")
    case None
    then have "ht' = ht" "ans = no_volume" using vl_get_chained [OF r assms] by auto
    moreover have p: "vl_pending ht key = []" using None by (simp add: vl_pending_def)
    moreover have "flow_tuple key = flow_tuple k \<Longrightarrow> vl_pending ht k = []" using p vl_pending_cong by metis
    ultimately show ?thesis using r assms by (simp add: vl_account_def)
  next
    case (Some pkts)
    let ?n = "\<lparr>e_key = key, e_value = []\<rparr>"
    have ch: "vl_chained ht' = ct_upsert flow_compare flow_hash (\<lambda>pkts. fst (vl_account s pkts no_volume)) ?n (vl_chained ht) key"
      and ans: "ans = snd (vl_account s (vl_pending ht key) no_volume)"
      using vl_get_chained [OF r assms, of ?n] Some by auto
    have "vl_wf ht'" using assms by (simp add: vl_wf_def ch flow_tab.wf_upsert)
    moreover have "vl_pending ht' k = (if flow_tuple key = flow_tuple k
        then fst (vl_account s (vl_pending ht key) no_volume) else vl_pending ht k)"
      using assms Some by (simp add: vl_wf_def vl_pending_def ch flow_tab.lookup_upsert)
    ultimately show ?thesis using r ans by blast
  qed
qed

section \<open>The ledger interface\<close>

text \<open>
  What the users of the table (the packet handler and the report thread) rely on: sending appends to
  the flow's pending packets, a report replaces them by what the accounting leaves.
\<close>

definition vol :: "pkt_volume list \<Rightarrow> u32" where
  "vol ps = sum_list (map pv_volume ps)"

locale packet_ledger =
  fixes ok :: "'h \<Rightarrow> bool"
    and pending :: "'h \<Rightarrow> flow_s \<Rightarrow> pkt_volume list"
    and send :: "'h \<Rightarrow> flow_s \<Rightarrow> u32 \<Rightarrow> u32 \<Rightarrow> 'h"
    and report :: "'h \<Rightarrow> flow_s \<Rightarrow> u32 \<Rightarrow> 'h \<times> receV_lostV"
  assumes send_ok: "ok h \<Longrightarrow> ok (send h f s v)"
    and pending_send: "ok h \<Longrightarrow> pending (send h f s v) g =
      (if flow_tuple f = flow_tuple g then pending h f @ [new_pkt_volume s v] else pending h g)"
    and report_ok: "ok h \<Longrightarrow> ok (fst (report h f s))"
    and pending_report: "ok h \<Longrightarrow> pending (fst (report h f s)) g =
      (if flow_tuple f = flow_tuple g then fst (vl_account s (pending h f) no_volume) else pending h g)"
    and report_ans: "ok h \<Longrightarrow> snd (report h f s) = snd (vl_account s (pending h f) no_volume)"

text \<open>Sending a list of packets of one flow, and processing a list of reports with running totals.\<close>

fun send_all :: "('h \<Rightarrow> flow_s \<Rightarrow> u32 \<Rightarrow> u32 \<Rightarrow> 'h) \<Rightarrow> flow_s \<Rightarrow> pkt_volume list \<Rightarrow> 'h \<Rightarrow> 'h" where
  "send_all send f [] h = h"
| "send_all send f (p # ps) h = send_all send f ps (send h f (pv_seqid p) (pv_volume p))"

fun report_all :: "('h \<Rightarrow> flow_s \<Rightarrow> u32 \<Rightarrow> 'h \<times> receV_lostV) \<Rightarrow> flow_s \<Rightarrow> u32 list \<Rightarrow> 'h \<Rightarrow> u32 \<times> u32" where
  "report_all report f [] h = (0, 0)"
| "report_all report f (s # ss) h =
    (case report h f s of (h', a) \<Rightarrow>
       case report_all report f ss h' of (r, l) \<Rightarrow> (received_volume a + r, lost_volume a + l))"

section \<open>Accounting on a sorted queue\<close>

abbreviation seq_sorted :: "pkt_volume list \<Rightarrow> bool" where
  "seq_sorted ps \<equiv> sorted_wrt (\<lambda>p q. pv_seqid p < pv_seqid q) ps"

lemma vol_simps [simp]: "vol [] = 0" "vol (p # ps) = pv_volume p + vol ps" "vol (ps @ qs) = vol ps + vol qs"
  by (simp_all add: vol_def)

lemma vl_lost_loop_spec:
  "vl_lost_loop s ps ans = (dropWhile (\<lambda>p. pv_seqid p < s) ps,
    ans\<lparr>lost_volume := lost_volume ans + vol (takeWhile (\<lambda>p. pv_seqid p < s) ps),
        lost_pkt_num := lost_pkt_num ans + of_nat (length (takeWhile (\<lambda>p. pv_seqid p < s) ps))\<rparr>)"
  by (induction s ps ans rule: vl_lost_loop.induct) (simp_all add: algebra_simps)

lemma sorted_takeWhile_filter:
  "seq_sorted ps \<Longrightarrow> takeWhile (\<lambda>p. pv_seqid p < s) ps = filter (\<lambda>p. pv_seqid p < s) ps"
proof (induction ps)
  case (Cons p ps)
  have "filter (\<lambda>p. pv_seqid p < s) ps = []" if "\<not> pv_seqid p < s"
    using Cons.prems that by (fastforce simp: filter_empty_conv)
  then show ?case using Cons by auto
qed simp

lemma sorted_dropWhile_filter:
  "seq_sorted ps \<Longrightarrow> dropWhile (\<lambda>p. pv_seqid p < s) ps = filter (\<lambda>p. s \<le> pv_seqid p) ps"
proof (induction ps)
  case (Cons p ps)
  have "filter (\<lambda>p. s \<le> pv_seqid p) ps = ps" if "\<not> pv_seqid p < s"
    using Cons.prems that by (fastforce simp: filter_id_conv)
  then show ?case using Cons by auto
qed simp

lemma sorted_ge_split:
  "seq_sorted ps \<Longrightarrow> filter (\<lambda>p. s \<le> pv_seqid p) ps =
    filter (\<lambda>p. pv_seqid p = s) ps @ filter (\<lambda>p. s < pv_seqid p) ps"
proof (induction ps)
  case (Cons p ps)
  have "filter (\<lambda>p. pv_seqid p = s) ps = []" if "s < pv_seqid p"
    using Cons.prems that by (auto simp: filter_empty_conv)
  then show ?case using Cons by (auto simp: less_le)
qed simp

lemma sorted_eq_single:
  "seq_sorted ps \<Longrightarrow> filter (\<lambda>p. pv_seqid p = s) ps = [] \<or> (\<exists>p. filter (\<lambda>p. pv_seqid p = s) ps = [p] \<and> pv_seqid p = s)"
proof (induction ps)
  case (Cons p ps)
  then have "filter (\<lambda>q. pv_seqid q = pv_seqid p) ps = []" by (auto simp: filter_empty_conv)
  then show ?case using Cons by auto
qed simp

lemma vl_account_sorted:
  assumes "seq_sorted ps"
  shows "vl_account s ps no_volume =
    (filter (\<lambda>p. s < pv_seqid p) ps,
     \<lparr>received_volume = vol (filter (\<lambda>p. pv_seqid p = s) ps),
      lost_volume = vol (filter (\<lambda>p. pv_seqid p < s) ps),
      lost_pkt_num = of_nat (length (filter (\<lambda>p. pv_seqid p < s) ps))\<rparr>)"
proof -
  have dw: "dropWhile (\<lambda>p. pv_seqid p < s) ps =
      filter (\<lambda>p. pv_seqid p = s) ps @ filter (\<lambda>p. s < pv_seqid p) ps"
    using assms by (simp add: sorted_dropWhile_filter sorted_ge_split)
  have gt: "pv_seqid q \<noteq> s" if "filter (\<lambda>p. s < pv_seqid p) ps = q # r" for q r
    using that by (auto simp: filter_eq_Cons_iff)
  have loop: "vl_lost_loop s ps no_volume =
      (filter (\<lambda>p. pv_seqid p = s) ps @ filter (\<lambda>p. s < pv_seqid p) ps,
       \<lparr>received_volume = 0, lost_volume = vol (filter (\<lambda>p. pv_seqid p < s) ps),
        lost_pkt_num = of_nat (length (filter (\<lambda>p. pv_seqid p < s) ps))\<rparr>)"
    by (simp add: vl_lost_loop_spec dw sorted_takeWhile_filter [OF assms] no_volume_def)
  from sorted_eq_single [OF assms, of s] show ?thesis
  proof
    assume "filter (\<lambda>p. pv_seqid p = s) ps = []"
    then show ?thesis
      using loop gt by (cases "filter (\<lambda>p. s < pv_seqid p) ps") (simp_all add: vl_account_def)
  next
    assume "\<exists>p. filter (\<lambda>p. pv_seqid p = s) ps = [p] \<and> pv_seqid p = s"
    then show ?thesis using loop by (auto simp: vl_account_def)
  qed
qed

lemma vol_filter_disjoint:
  "(\<And>p. p \<in> set ps \<Longrightarrow> \<not> (P p \<and> Q p)) \<Longrightarrow> vol (filter P ps) + vol (filter Q ps) = vol (filter (\<lambda>p. P p \<or> Q p) ps)"
  by (induction ps) (auto simp: algebra_simps)

context packet_ledger
begin

lemma report_all_totals:
  "ok h \<Longrightarrow> seq_sorted (pending h f) \<Longrightarrow> sorted_wrt (<) as \<Longrightarrow>
   report_all report f as h =
    (vol (filter (\<lambda>p. pv_seqid p \<in> set as) (pending h f)),
     vol (filter (\<lambda>p. pv_seqid p \<notin> set as \<and> (\<exists>a \<in> set as. pv_seqid p < a)) (pending h f)))"
proof (induction as arbitrary: h)
  case (Cons a as)
  let ?P = "pending h f" and ?h = "fst (report h f a)"
  have P: "pending ?h f = filter (\<lambda>p. a < pv_seqid p) ?P"
    using Cons.prems by (simp add: pending_report vl_account_sorted)
  have ans: "snd (report h f a) = \<lparr>received_volume = vol (filter (\<lambda>p. pv_seqid p = a) ?P),
      lost_volume = vol (filter (\<lambda>p. pv_seqid p < a) ?P),
      lost_pkt_num = of_nat (length (filter (\<lambda>p. pv_seqid p < a) ?P))\<rparr>"
    using Cons.prems by (simp add: report_ans vl_account_sorted)
  have "seq_sorted (pending ?h f)" using Cons.prems by (simp add: P sorted_wrt_filter)
  with Cons.IH [of ?h] Cons.prems have IH: "report_all report f as ?h =
      (vol (filter (\<lambda>p. a < pv_seqid p \<and> pv_seqid p \<in> set as) ?P),
       vol (filter (\<lambda>p. a < pv_seqid p \<and> pv_seqid p \<notin> set as \<and> (\<exists>b \<in> set as. pv_seqid p < b)) ?P))"
    by (simp add: report_ok P conj_ac)
  have r: "vol (filter (\<lambda>p. pv_seqid p = a) ?P) + vol (filter (\<lambda>p. a < pv_seqid p \<and> pv_seqid p \<in> set as) ?P) =
      vol (filter (\<lambda>p. pv_seqid p \<in> set (a # as)) ?P)"
    using Cons.prems by (subst vol_filter_disjoint) (auto intro!: arg_cong [where f = vol] filter_cong)
  have l: "vol (filter (\<lambda>p. pv_seqid p < a) ?P) +
      vol (filter (\<lambda>p. a < pv_seqid p \<and> pv_seqid p \<notin> set as \<and> (\<exists>b \<in> set as. pv_seqid p < b)) ?P) =
      vol (filter (\<lambda>p. pv_seqid p \<notin> set (a # as) \<and> (\<exists>b \<in> set (a # as). pv_seqid p < b)) ?P)"
    using Cons.prems
    by (subst vol_filter_disjoint) (auto intro!: arg_cong [where f = vol] filter_cong simp: less_le)
  show ?case using IH ans r l by (cases "report h f a") simp
qed simp

lemma send_all_pending:
  "ok h \<Longrightarrow> ok (send_all send f ps h) \<and> pending (send_all send f ps h) f = pending h f @ ps"
  by (induction ps arbitrary: h) (auto simp: send_ok pending_send new_pkt_volume_def)

end

text \<open>The hash table is a ledger; a \<^verbatim>\<open>NULL\<close> table is excluded by the invariant.\<close>

definition vl_ok :: "hashtable_vl option \<Rightarrow> bool" where
  "vl_ok h \<longleftrightarrow> (case h of None \<Rightarrow> False | Some ht \<Rightarrow> vl_wf ht)"

definition vl_queue :: "hashtable_vl option \<Rightarrow> flow_s \<Rightarrow> pkt_volume list" where
  "vl_queue h f = (case h of None \<Rightarrow> [] | Some ht \<Rightarrow> vl_pending ht f)"

interpretation vl: packet_ledger vl_ok vl_queue ht_vl_set ht_vl_get_rece_lost_volume
proof
  fix h f s v g
  assume "vl_ok h"
  then obtain ht where h: "h = Some ht" "vl_wf ht" by (auto simp: vl_ok_def split: option.splits)
  show "vl_ok (ht_vl_set h f s v)" "vl_queue (ht_vl_set h f s v) g =
      (if flow_tuple f = flow_tuple g then vl_queue h f @ [new_pkt_volume s v] else vl_queue h g)"
    using vl_set_spec [OF h(2), of f s v g] h(1) by (auto simp: vl_ok_def vl_queue_def)
  show "vl_ok (fst (ht_vl_get_rece_lost_volume h f s))"
    "vl_queue (fst (ht_vl_get_rece_lost_volume h f s)) g =
      (if flow_tuple f = flow_tuple g then fst (vl_account s (vl_queue h f) no_volume) else vl_queue h g)"
    "snd (ht_vl_get_rece_lost_volume h f s) = snd (vl_account s (vl_queue h f) no_volume)"
    using vl_get_spec [OF h(2), of f s g] h(1) by (auto simp: vl_ok_def vl_queue_def)
qed

section \<open>Properties\<close>

text \<open>
  One report.  When the packets of a flow are pending in the order of their sequence numbers,
  the report of packet \<open>s\<close> returns the volume of packet \<open>s\<close> as received, the volume and the number of
  the pending packets before \<open>s\<close> as lost, and leaves exactly the packets after \<open>s\<close> pending; the
  packets of every other flow stay as they were.
\<close>

lemma vl_report_accounting:
  assumes "vl_wf ht" "seq_sorted (vl_pending ht f)"
    and "ht_vl_get_rece_lost_volume (Some ht) f s = (Some ht', ans)"
  shows "received_volume ans = vol (filter (\<lambda>p. pv_seqid p = s) (vl_pending ht f)) \<and>
    lost_volume ans = vol (filter (\<lambda>p. pv_seqid p < s) (vl_pending ht f)) \<and>
    unat (lost_pkt_num ans) = length (filter (\<lambda>p. pv_seqid p < s) (vl_pending ht f)) mod 2 ^ 32 \<and>
    vl_pending ht' g = (if flow_tuple g = flow_tuple f then filter (\<lambda>p. s < pv_seqid p) (vl_pending ht f)
                        else vl_pending ht g) \<and> vl_wf ht'"
  using vl_get_spec [OF assms(1), of f s g] assms(3)
  by (auto simp: vl_account_sorted [OF assms(2)] unat_of_nat)

text \<open>
  C25: the whole life of a flow.  Send packets with increasing sequence numbers into a new table, then
  process reports with increasing sequence numbers: the received volumes add up to the volume of the
  reported packets, and the lost volumes to the volume of the unreported packets that some later
  report overtook.
\<close>

theorem vl_total_accounting:
  assumes "seq_sorted pkts" "sorted_wrt (<) reports"
  shows "report_all ht_vl_get_rece_lost_volume f reports (send_all ht_vl_set f pkts (ht_vl_create True)) =
    (vol (filter (\<lambda>p. pv_seqid p \<in> set reports) pkts),
     vol (filter (\<lambda>p. pv_seqid p \<notin> set reports \<and> (\<exists>a \<in> set reports. pv_seqid p < a)) pkts))"
proof -
  obtain ht where ht: "ht_vl_create True = Some ht" by (simp add: ht_vl_create_def)
  have "vl_ok (Some ht)" "vl_queue (Some ht) f = []"
    using vl_create_wf [OF ht] by (simp_all add: vl_ok_def vl_queue_def)
  with vl.send_all_pending [of "Some ht" f pkts]
  have "vl_ok (send_all ht_vl_set f pkts (Some ht))" "vl_queue (send_all ht_vl_set f pkts (Some ht)) f = pkts"
    by simp_all
  with vl.report_all_totals [of "send_all ht_vl_set f pkts (Some ht)" f reports] assms ht
  show ?thesis by simp
qed

theorem vl_total_accounting_witness:
  "report_all ht_vl_get_rece_lost_volume
     \<lparr>f_srcip = 1, f_dstip = 2, f_src_port = 3, f_dst_port = 4, f_protocol = 6\<rparr> [2, 4]
     (send_all ht_vl_set \<lparr>f_srcip = 1, f_dstip = 2, f_src_port = 3, f_dst_port = 4, f_protocol = 6\<rparr>
       [new_pkt_volume 1 100, new_pkt_volume 2 200, new_pkt_volume 3 50, new_pkt_volume 4 25]
       (ht_vl_create True)) = (225, 150)"
  by (subst vl_total_accounting) (simp_all add: new_pkt_volume_def)

end
