(* ===== verification/Task_Manager.thy ===== *)
theory Task_Manager
  imports Flow General_Functions
begin

text \<open>
  \<^verbatim>\<open>tcpreplay/src/task_manager.c\<close> with \<^verbatim>\<open>public_lib/get_mininet_host_name.c\<close>: the monitoring tasks of a
  host, read from a text file, and the lookup of the task a flow belongs to.  The device name comes
  from \<^verbatim>\<open>pcap_lookupdev\<close> of libpcap and is an argument (\<open>None\<close> is its failure); the task file is the
  list of its lines (\<open>None\<close> when it cannot be opened).  A store outside one of the fixed-size arrays
  is the fault \<^const>\<open>Out_of_bounds\<close>.
\<close>

section \<open>Data\<close>

definition MAX_TASK_NUM :: nat where "MAX_TASK_NUM = 200"
definition MAX_MONITORS :: nat where "MAX_MONITORS = 12"
definition IP_MASK :: u32 where "IP_MASK = 0xFF000000"

record task =
  taskid :: int
  sender_host :: int
  receiver_host :: int
  num_monitors :: nat
  monitor_switch_ids :: "int list"
  srcip_prefix :: u32
  dstip_prefix :: u32

text \<open>The first \<^verbatim>\<open>num_tasks\<close> elements of the array \<^verbatim>\<open>tasks\<close>; the code never reads the others.\<close>

record task_manager =
  tasks :: "task list"

definition ITH_SENDER_START_IP :: "int \<Rightarrow> u32" where
  "ITH_SENDER_START_IP i = word_of_int (0x0A000000 + 0x01000000 * i)"

section \<open>Reading the tasks\<close>

definition get_mininet_host_name :: "string option \<Rightarrow> string option" where
  "get_mininet_host_name dev =
    (case dev of
       None \<Rightarrow> None
     | Some d \<Rightarrow> if CHR ''-'' \<in> set d then Some (takeWhile (\<lambda>c. c \<noteq> CHR ''-'') d) else None)"

definition task_zero :: task where
  "task_zero = \<lparr>taskid = 0, sender_host = 0, receiver_host = 0, num_monitors = 0,
     monitor_switch_ids = replicate MAX_MONITORS 0, srcip_prefix = 0, dstip_prefix = 0\<rparr>"

fun read_task_tokens :: "nat \<Rightarrow> string list \<Rightarrow> task \<Rightarrow> task c_result" where
  "read_task_tokens i [] t = Inr t"
| "read_task_tokens i (tok # toks) t =
    (if i = 0 then read_task_tokens (i + 1) toks (t\<lparr>taskid := strtol_int tok\<rparr>)
     else if i = 1 then read_task_tokens (i + 1) toks (t\<lparr>sender_host := strtol_int tok\<rparr>)
     else if i = 2 then read_task_tokens (i + 1) toks (t\<lparr>receiver_host := strtol_int tok\<rparr>)
     else if num_monitors t < MAX_MONITORS then
       read_task_tokens (i + 1) toks
         (t\<lparr>monitor_switch_ids := (monitor_switch_ids t)[num_monitors t := strtol_int tok],
            num_monitors := num_monitors t + 1\<rparr>)
     else Inl Out_of_bounds)"

text \<open>\<open>None\<close> is the return value \<open>-1\<close>.\<close>

definition read_one_task_from_one_line :: "string \<Rightarrow> task option c_result" where
  "read_one_task_from_one_line line_buffer =
    (case str_split line_buffer (CHR '' '') of
       Inl e \<Rightarrow> Inl e
     | Inr tokens \<Rightarrow>
         (case read_task_tokens 0 tokens task_zero of
            Inl e \<Rightarrow> Inl e
          | Inr t \<Rightarrow> Inr (if num_monitors t = 0 then None else Some t)))"

fun read_task_lines :: "int \<Rightarrow> string list \<Rightarrow> task list \<Rightarrow> task list option c_result" where
  "read_task_lines hostid [] acc = Inr (Some acc)"
| "read_task_lines hostid (l # ls) acc =
    (if l \<noteq> [] \<and> hd l = CHR ''#'' then read_task_lines hostid ls acc
     else
       case read_one_task_from_one_line l of
         Inl e \<Rightarrow> Inl e
       | Inr None \<Rightarrow> Inr None
       | Inr (Some t) \<Rightarrow>
           if sender_host t = hostid then
             (if length acc < MAX_TASK_NUM then read_task_lines hostid ls (acc @ [t]) else Inl Out_of_bounds)
           else read_task_lines hostid ls acc)"

definition read_tasks_from_file :: "string list option \<Rightarrow> int \<Rightarrow> task_manager option c_result" where
  "read_tasks_from_file file hostid =
    (case file of
       None \<Rightarrow> Inr None
     | Some ls \<Rightarrow>
         (case read_task_lines hostid ls [] of
            Inl e \<Rightarrow> Inl e
          | Inr None \<Rightarrow> Inr None
          | Inr (Some ts) \<Rightarrow> Inr (Some \<lparr>tasks = ts\<rparr>)))"

definition init_task_srcip_dstip_prefixes :: "task_manager \<Rightarrow> task_manager" where
  "init_task_srcip_dstip_prefixes tm =
    tm\<lparr>tasks := map (\<lambda>t. t\<lparr>srcip_prefix := ITH_SENDER_START_IP (sender_host t - 1),
      dstip_prefix := ITH_SENDER_START_IP (receiver_host t - 1)\<rparr>) (tasks tm)\<rparr>"

definition init_tasks_info :: "string option \<Rightarrow> string list option \<Rightarrow> task_manager option c_result" where
  "init_tasks_info dev file =
    (case get_mininet_host_name dev of
       None \<Rightarrow> Inr None
     | Some hostname \<Rightarrow>
         let hostid = strtol_int (drop 1 hostname)
         in case read_tasks_from_file file hostid of
              Inl e \<Rightarrow> Inl e
            | Inr None \<Rightarrow> Inr None
            | Inr (Some tm) \<Rightarrow> Inr (Some (init_task_srcip_dstip_prefixes tm)))"

section \<open>Lookup\<close>

definition get_task_of_traffic :: "task_manager \<Rightarrow> flow_src \<Rightarrow> task option" where
  "get_task_of_traffic tm p_flow =
    (let sp = fs_srcip p_flow AND IP_MASK;
         dp = fs_dstip p_flow AND IP_MASK
     in find (\<lambda>t. sp = srcip_prefix t \<and> dp = dstip_prefix t) (tasks tm))"

section \<open>Lemmas\<close>

lemma read_task_tokens_monitors:
  "read_task_tokens i toks t = Inr t' \<Longrightarrow>
   num_monitors t \<le> MAX_MONITORS \<Longrightarrow> length (monitor_switch_ids t) = MAX_MONITORS \<Longrightarrow>
   num_monitors t' \<le> MAX_MONITORS \<and> length (monitor_switch_ids t') = MAX_MONITORS"
  by (induction i toks t rule: read_task_tokens.induct) (auto split: if_splits)

definition task_ok :: "int \<Rightarrow> task \<Rightarrow> bool" where
  "task_ok hostid t \<longleftrightarrow> sender_host t = hostid \<and> 0 < num_monitors t \<and> num_monitors t \<le> MAX_MONITORS \<and>
    length (monitor_switch_ids t) = MAX_MONITORS"

lemma read_one_task_ok: "read_one_task_from_one_line l = Inr (Some t) \<Longrightarrow> task_ok (sender_host t) t"
proof -
  assume a: "read_one_task_from_one_line l = Inr (Some t)"
  then obtain toks where "read_task_tokens 0 toks task_zero = Inr t" "num_monitors t \<noteq> 0"
    by (auto simp: read_one_task_from_one_line_def split: sum.splits if_splits)
  with read_task_tokens_monitors [OF this(1)] show ?thesis by (simp add: task_ok_def task_zero_def)
qed

lemma read_task_lines_ok:
  "read_task_lines h ls acc = Inr (Some ts) \<Longrightarrow> list_all (task_ok h) acc \<Longrightarrow> length acc \<le> MAX_TASK_NUM \<Longrightarrow>
   list_all (task_ok h) ts \<and> length ts \<le> MAX_TASK_NUM"
proof (induction h ls acc rule: read_task_lines.induct)
  case (2 hostid l ls acc)
  show ?case
  proof (cases "l \<noteq> [] \<and> hd l = CHR ''#''")
    case True
    then show ?thesis using 2 by simp
  next
    case False
    with "2.prems"(1) obtain t where t: "read_one_task_from_one_line l = Inr (Some t)"
      by (auto split: sum.splits option.splits simp del: read_task_lines.simps(1))
    from read_one_task_ok [OF t] show ?thesis
      using "2.IH"(2,3) [OF False t refl] "2.prems" False t
      by (auto split: if_splits)
  qed
qed simp

text \<open>The tasks in a file, and the host id in the name of a device.\<close>

definition line_tasks :: "string \<Rightarrow> task list" where
  "line_tasks l = (if take 1 l = ''#'' then [] else case read_one_task_from_one_line l of Inr (Some t) \<Rightarrow> [t] | _ \<Rightarrow> [])"

lemma read_task_lines_result:
  "read_task_lines h ls acc = Inr (Some ts) \<Longrightarrow> ts = acc @ filter (\<lambda>t. sender_host t = h) (concat (map line_tasks ls))"
proof (induction ls arbitrary: acc)
  case (Cons l ls)
  show ?case
  proof (cases "take 1 l = ''#''")
    case True
    then have "l \<noteq> [] \<and> hd l = CHR ''#''" by (cases l) auto
    then show ?thesis using Cons.prems Cons.IH True by (simp add: line_tasks_def)
  next
    case False
    then have no: "\<not> (l \<noteq> [] \<and> hd l = CHR ''#'')" by (cases l) auto
    then obtain t where t: "read_one_task_from_one_line l = Inr (Some t)" using Cons.prems by (auto split: sum.splits option.splits)
    then have "line_tasks l = [t]" using False by (simp add: line_tasks_def)
    then show ?thesis using Cons.prems Cons.IH [of acc] Cons.IH [of "acc @ [t]"] no t by (cases "sender_host t = h") (auto split: if_splits)
  qed
qed simp

lemma host_id:
  assumes "n < 2 ^ 31"
  shows "get_mininet_host_name (Some (CHR ''h'' # show_nat n @ CHR ''-'' # rest)) = Some (CHR ''h'' # show_nat n)" "strtol_int (show_nat n) = int n"
proof -
  have "takeWhile (\<lambda>c. c \<noteq> CHR ''-'') (show_nat n @ CHR ''-'' # rest) = show_nat n"
    using show_nat_no_dash by (subst takeWhile_append2) auto
  then show "get_mininet_host_name (Some (CHR ''h'' # show_nat n @ CHR ''-'' # rest)) = Some (CHR ''h'' # show_nat n)"
    by (simp add: get_mininet_host_name_def)
  have "strtol (show_nat n) = int n" using strtol_show_nat [of "[]" n] assms by simp
  then show "strtol_int (show_nat n) = int n" using assms by (simp add: strtol_int_def int_range_def)
qed

text \<open>The eight high bits of an address against the start address of a host.\<close>

lemma mask_top_byte: "a AND IP_MASK = push_bit 24 (drop_bit 24 a)"
proof -
  have m: "IP_MASK = push_bit 24 (mask 8)" by (simp add: IP_MASK_def mask_eq_exp_minus_1)
  show ?thesis unfolding m by (rule bit_word_eqI) (auto simp: bit_simps)
qed

lemma drop_push_byte: "uint w < 2 ^ 8 \<Longrightarrow> drop_bit 24 (push_bit 24 w) = (w :: u32)"
proof (rule bit_word_eqI)
  fix n
  assume w: "uint w < 2 ^ 8" and n: "n < LENGTH(32)"
  then have "w AND mask 8 = w" by (simp add: mask_eq_iff)
  then have "bit w n = (n < 8 \<and> bit w n)" by (metis bit_and_iff bit_mask_iff)
  then show "bit (drop_bit 24 (push_bit 24 w)) n = bit w n" by (auto simp: bit_simps)
qed

lemma mask_start_ip:
  assumes "0 \<le> i" "i < 246"
  shows "a AND IP_MASK = ITH_SENDER_START_IP i \<longleftrightarrow> unat (drop_bit 24 a) = nat (i + 10)"
proof -
  define w where "w = (word_of_int (i + 10) :: u32)"
  have "0x0A000000 + 0x01000000 * i = (i + 10) * 2 ^ 24" by simp
  then have start: "ITH_SENDER_START_IP i = push_bit 24 w"
    unfolding ITH_SENDER_START_IP_def push_bit_eq_mult w_def
    by (metis of_int_mult of_int_power of_int_numeral)
  have u: "uint w = i + 10"
    using assms unfolding w_def uint_word_of_int_eq by (intro take_bit_int_eq_self) simp_all
  then have w: "uint w < 2 ^ 8" using assms by simp
  have a: "uint (drop_bit 24 a) < 2 ^ 8"
    using unsigned_less [where 'a = int and w = a] by (simp add: drop_bit_eq_div uint_div)
  have "a AND IP_MASK = ITH_SENDER_START_IP i \<longleftrightarrow> drop_bit 24 a = w"
    unfolding mask_top_byte start using drop_push_byte [OF w] drop_push_byte [OF a] by metis
  also have "\<dots> \<longleftrightarrow> unat (drop_bit 24 a) = nat (i + 10)"
    unfolding word_unat_eq_iff u [symmetric] by simp
  finally show ?thesis .
qed

section \<open>Properties\<close>

text \<open>
  C37: the tasks a host loads are its own.  On the host with device \<open>h<n>-...\<close>, a successful \<^verbatim>\<open>init_tasks_info\<close> loads exactly the tasks of the
  file with sender \<open>n\<close>, in their order, with the address prefixes of sender and receiver; every one has between 1 and 12 monitors,
  and there are at most 200.
\<close>

theorem init_tasks_invariant:
  assumes "init_tasks_info (Some (CHR ''h'' # show_nat n @ CHR ''-'' # rest)) (Some ls) = Inr (Some tm)" "n < 2 ^ 31"
  shows "tasks tm = map (\<lambda>t. t\<lparr>srcip_prefix := ITH_SENDER_START_IP (int n - 1), dstip_prefix := ITH_SENDER_START_IP (receiver_host t - 1)\<rparr>)
      (filter (\<lambda>t. sender_host t = int n) (concat (map line_tasks ls))) \<and>
    list_all (\<lambda>t. 1 \<le> num_monitors t \<and> num_monitors t \<le> 12 \<and> length (monitor_switch_ids t) = 12) (tasks tm) \<and> length (tasks tm) \<le> 200"
proof -
  from assms(1) obtain ts where ts: "read_task_lines (int n) ls [] = Inr (Some ts)" and tm: "tm = init_task_srcip_dstip_prefixes \<lparr>tasks = ts\<rparr>"
    by (auto simp: init_tasks_info_def read_tasks_from_file_def host_id [OF assms(2)] Let_def split: option.splits sum.splits)
  from read_task_lines_ok [OF ts] have ok: "list_all (task_ok (int n)) ts" "length ts \<le> MAX_TASK_NUM" by simp_all
  have "tasks tm = map (\<lambda>t. t\<lparr>srcip_prefix := ITH_SENDER_START_IP (int n - 1), dstip_prefix := ITH_SENDER_START_IP (receiver_host t - 1)\<rparr>) ts"
    using ok(1) by (simp add: tm init_task_srcip_dstip_prefixes_def list_all_iff task_ok_def)
  moreover have "ts = filter (\<lambda>t. sender_host t = int n) (concat (map line_tasks ls))" using read_task_lines_result [OF ts] by simp
  ultimately show ?thesis using ok by (auto simp: list_all_iff task_ok_def MAX_MONITORS_def MAX_TASK_NUM_def Suc_le_eq)
qed

theorem init_tasks_invariant_witness:
  "\<exists>tm. init_tasks_info (Some ''h3-eth0'') (Some [''#id s r sw'', ''1 3 5 7 8'', ''2 4 5 7'']) = Inr (Some tm) \<and>
    map (\<lambda>t. (taskid t, srcip_prefix t, dstip_prefix t)) (tasks tm) = [(1, 0x0C000000, 0x0E000000)]"
proof -
  let ?ls = "[''#id s r sw'', ''1 3 5 7 8'', ''2 4 5 7'']"
  have n: "''h3-eth0'' = CHR ''h'' # show_nat 3 @ CHR ''-'' # ''eth0''" by code_simp
  have "map_sum id (\<lambda>x. x \<noteq> None) (init_tasks_info (Some ''h3-eth0'') (Some ?ls)) = Inr True" by code_simp
  then obtain tm where tm: "init_tasks_info (Some ''h3-eth0'') (Some ?ls) = Inr (Some tm)"
    by (cases "init_tasks_info (Some ''h3-eth0'') (Some ?ls)") auto
  define own where "own = filter (\<lambda>t. sender_host t = int 3) (concat (map line_tasks ?ls))"
  have "map (\<lambda>t. (taskid t, receiver_host t)) own = [(1, 5)]" unfolding own_def by code_simp
  then obtain t where t: "own = [t]" "taskid t = 1" "receiver_host t = 5" by (auto simp: map_eq_Cons_conv)
  from init_tasks_invariant [OF tm [unfolded n]] t(1,3) have "tasks tm = [t\<lparr>srcip_prefix := ITH_SENDER_START_IP 2, dstip_prefix := ITH_SENDER_START_IP 4\<rparr>]"
    unfolding own_def [symmetric] by simp
  then show ?thesis using tm t(2) by (simp add: ITH_SENDER_START_IP_def)
qed

text \<open>
  The task of a flow.  With host ids from 1 to 246, \<^verbatim>\<open>get_task_of_traffic\<close> returns the first task whose
  sender and receiver own the source and destination address (the high byte of an address of host
  \<open>h\<close> is \<open>h + 9\<close>), and \<^verbatim>\<open>NULL\<close> exactly when no task does.
\<close>

theorem task_of_traffic_spec:
  assumes "tm = init_task_srcip_dstip_prefixes tm0"
    and "\<forall>t \<in> set (tasks tm0). 1 \<le> sender_host t \<and> sender_host t \<le> 246 \<and> 1 \<le> receiver_host t \<and> receiver_host t \<le> 246"
  shows "get_task_of_traffic tm f =
    find (\<lambda>t. unat (drop_bit 24 (fs_srcip f)) = nat (sender_host t + 9) \<and>
              unat (drop_bit 24 (fs_dstip f)) = nat (receiver_host t + 9)) (tasks tm)"
proof -
  have find_cong: "find P xs = find Q xs" if "\<And>x. x \<in> set xs \<Longrightarrow> P x = Q x" for P Q and xs :: "task list"
    using that by (induction xs) auto
  show ?thesis
    unfolding get_task_of_traffic_def Let_def
  proof (rule find_cong)
    fix t
    assume "t \<in> set (tasks tm)"
    then obtain t0 where t0: "t0 \<in> set (tasks tm0)" "sender_host t = sender_host t0" "receiver_host t = receiver_host t0"
      and p: "srcip_prefix t = ITH_SENDER_START_IP (sender_host t0 - 1)"
        "dstip_prefix t = ITH_SENDER_START_IP (receiver_host t0 - 1)"
      by (auto simp: assms(1) init_task_srcip_dstip_prefixes_def)
    have "1 \<le> sender_host t0" "sender_host t0 \<le> 246" "1 \<le> receiver_host t0" "receiver_host t0 \<le> 246"
      using assms(2) t0(1) by auto
    then show "(fs_srcip f AND IP_MASK = srcip_prefix t \<and> fs_dstip f AND IP_MASK = dstip_prefix t) =
        (unat (drop_bit 24 (fs_srcip f)) = nat (sender_host t + 9) \<and>
         unat (drop_bit 24 (fs_dstip f)) = nat (receiver_host t + 9))"
      unfolding p t0(2,3) by (simp add: mask_start_ip add.commute)
  qed
qed

theorem task_of_traffic_spec_witness:
  "get_task_of_traffic (init_task_srcip_dstip_prefixes \<lparr>tasks = [task_zero\<lparr>sender_host := 3, receiver_host := 5\<rparr>]\<rparr>)
     \<lparr>fs_srcip = 0x0C000007, fs_dstip = 0x0E010203\<rparr> \<noteq> None"
  by (subst task_of_traffic_spec [OF refl]) (simp_all add: init_task_srcip_dstip_prefixes_def drop_bit_eq_div)

end
