(* ===== verification/Data_Warehouse.thy ===== *)
theory Data_Warehouse
  imports Sampling Ht_vLinklist Task_Manager
begin

text \<open>
  \<^verbatim>\<open>tcpreplay/src/data_warehouse.c\<close>: the sender's per-interval statistics, double-buffered, and the
  classification of flows into selected levels.  The global \<^verbatim>\<open>data_warehouse\<close> and the generator
  \<^verbatim>\<open>g_rand_buffer\<close> are one record; an array over \<^verbatim>\<open>BUFFER_NUM\<close> is a function of the index.  The update
  functions hold the mutex of the flow's lock bin from beginning to end, so each is one atomic step.

  Conversions: the maps store 32-bit words, the code computes with \<^verbatim>\<open>int\<close>; \<^const>\<open>sint\<close> reads a stored
  value and \<open>word_of_int\<close> stores one.
\<close>

section \<open>State\<close>

definition BUFFER_NUM :: nat where "BUFFER_NUM = 2"

record data_warehouse =
  dw_task_manager :: task_manager
  dw_flow_recePktList_map :: "hashtable_vl option"
  dw_active_idx :: nat
  dw_flow_volume_map :: "nat \<Rightarrow> hashtable_kfs_vi option"
  dw_fixed_flow_loss_volume_map :: "nat \<Rightarrow> hashtable_kfs_fixSize option"
  dw_flow_loss_volume_map :: "nat \<Rightarrow> hashtable_kfs_vi option"
  dw_flow_loss_rate_map :: "nat \<Rightarrow> hashtable_kfs_vf option"
  dw_flow_selected_level_map :: "nat \<Rightarrow> hashtable_kfs_vi option"
  dw_last_sent_flow_selected_level_map :: "hashtable_kfs_vi option"
  dw_flow_sample_map :: "nat \<Rightarrow> hashtable_kfs_vi option"
  dw_flow_not_sampled_volume_map :: "nat \<Rightarrow> hashtable_kfs_vi option"
  dw_pkt_num_sent :: "nat \<Rightarrow> u64"
  dw_volume_sent :: "nat \<Rightarrow> u64"
  dw_condition_pkt_num_sent :: "nat \<Rightarrow> u64"
  dw_volume_lost :: "nat \<Rightarrow> u64"
  dw_rand_buffer :: drand48_data

text \<open>The static storage before initialisation.\<close>

definition dw_zero :: data_warehouse where
  "dw_zero = \<lparr>dw_task_manager = \<lparr>tasks = []\<rparr>, dw_flow_recePktList_map = None, dw_active_idx = 0,
     dw_flow_volume_map = (\<lambda>_. None), dw_fixed_flow_loss_volume_map = (\<lambda>_. None), dw_flow_loss_volume_map = (\<lambda>_. None),
     dw_flow_loss_rate_map = (\<lambda>_. None), dw_flow_selected_level_map = (\<lambda>_. None),
     dw_last_sent_flow_selected_level_map = None, dw_flow_sample_map = (\<lambda>_. None),
     dw_flow_not_sampled_volume_map = (\<lambda>_. None), dw_pkt_num_sent = (\<lambda>_. 0), dw_volume_sent = (\<lambda>_. 0),
     dw_condition_pkt_num_sent = (\<lambda>_. 0), dw_volume_lost = (\<lambda>_. 0), dw_rand_buffer = 0\<rparr>"

section \<open>Getters\<close>

definition na_idx :: "data_warehouse \<Rightarrow> nat" where
  "na_idx dw = (dw_active_idx dw + 1) mod BUFFER_NUM"

definition data_warehouse_get_flow_recePktList_map :: "data_warehouse \<Rightarrow> hashtable_vl option" where
  "data_warehouse_get_flow_recePktList_map dw = dw_flow_recePktList_map dw"
definition data_warehouse_get_flow_volume_map :: "data_warehouse \<Rightarrow> hashtable_kfs_vi option" where
  "data_warehouse_get_flow_volume_map dw = dw_flow_volume_map dw (dw_active_idx dw)"
definition data_warehouse_get_fixed_flow_loss_volume_map :: "data_warehouse \<Rightarrow> hashtable_kfs_fixSize option" where
  "data_warehouse_get_fixed_flow_loss_volume_map dw = dw_fixed_flow_loss_volume_map dw (dw_active_idx dw)"
definition data_warehouse_get_flow_loss_volume_map :: "data_warehouse \<Rightarrow> hashtable_kfs_vi option" where
  "data_warehouse_get_flow_loss_volume_map dw = dw_flow_loss_volume_map dw (dw_active_idx dw)"
definition data_warehouse_get_flow_loss_rate_map :: "data_warehouse \<Rightarrow> hashtable_kfs_vf option" where
  "data_warehouse_get_flow_loss_rate_map dw = dw_flow_loss_rate_map dw (dw_active_idx dw)"
definition data_warehouse_get_flow_selected_level_map :: "data_warehouse \<Rightarrow> hashtable_kfs_vi option" where
  "data_warehouse_get_flow_selected_level_map dw = dw_flow_selected_level_map dw (dw_active_idx dw)"
definition data_warehouse_get_flow_sample_map :: "data_warehouse \<Rightarrow> hashtable_kfs_vi option" where
  "data_warehouse_get_flow_sample_map dw = dw_flow_sample_map dw (dw_active_idx dw)"
definition data_warehouse_get_flow_not_sampled_volume_map :: "data_warehouse \<Rightarrow> hashtable_kfs_vi option" where
  "data_warehouse_get_flow_not_sampled_volume_map dw = dw_flow_not_sampled_volume_map dw (dw_active_idx dw)"
definition data_warehouse_get_unactive_flow_selected_level_map :: "data_warehouse \<Rightarrow> hashtable_kfs_vi option" where
  "data_warehouse_get_unactive_flow_selected_level_map dw = dw_flow_selected_level_map dw (na_idx dw)"
definition data_warehouse_get_unactive_flow_volume_map :: "data_warehouse \<Rightarrow> hashtable_kfs_vi option" where
  "data_warehouse_get_unactive_flow_volume_map dw = dw_flow_volume_map dw (na_idx dw)"
definition data_warehouse_get_unactive_fixed_flow_loss_volume_map :: "data_warehouse \<Rightarrow> hashtable_kfs_fixSize option" where
  "data_warehouse_get_unactive_fixed_flow_loss_volume_map dw = dw_fixed_flow_loss_volume_map dw (na_idx dw)"
definition data_warehouse_get_unactive_flow_loss_volume_map :: "data_warehouse \<Rightarrow> hashtable_kfs_vi option" where
  "data_warehouse_get_unactive_flow_loss_volume_map dw = dw_flow_loss_volume_map dw (na_idx dw)"
definition data_warehouse_get_unactive_flow_loss_rate_map :: "data_warehouse \<Rightarrow> hashtable_kfs_vf option" where
  "data_warehouse_get_unactive_flow_loss_rate_map dw = dw_flow_loss_rate_map dw (na_idx dw)"
definition data_warehouse_get_unactive_flow_not_sampled_volume_map :: "data_warehouse \<Rightarrow> hashtable_kfs_vi option" where
  "data_warehouse_get_unactive_flow_not_sampled_volume_map dw = dw_flow_not_sampled_volume_map dw (na_idx dw)"

lemmas dw_get_defs = data_warehouse_get_flow_recePktList_map_def data_warehouse_get_flow_volume_map_def
  data_warehouse_get_fixed_flow_loss_volume_map_def data_warehouse_get_flow_loss_volume_map_def
  data_warehouse_get_flow_loss_rate_map_def data_warehouse_get_flow_selected_level_map_def
  data_warehouse_get_flow_sample_map_def data_warehouse_get_flow_not_sampled_volume_map_def
  data_warehouse_get_unactive_flow_selected_level_map_def data_warehouse_get_unactive_flow_volume_map_def
  data_warehouse_get_unactive_fixed_flow_loss_volume_map_def data_warehouse_get_unactive_flow_loss_volume_map_def
  data_warehouse_get_unactive_flow_loss_rate_map_def data_warehouse_get_unactive_flow_not_sampled_volume_map_def

section \<open>Creation and destruction\<close>

text \<open>
  The allocations in program order; \<open>ok n\<close> says whether the \<open>n\<close>-th one succeeds.  A failed allocation
  stores \<^verbatim>\<open>NULL\<close> and ends the function with \<open>-1\<close>.
\<close>

type_synonym alloc_step = "data_warehouse \<Rightarrow> data_warehouse \<times> bool"

fun run_allocs :: "alloc_step list \<Rightarrow> data_warehouse \<Rightarrow> data_warehouse \<times> bool" where
  "run_allocs [] dw = (dw, True)"
| "run_allocs (s # ss) dw = (case s dw of (dw', r) \<Rightarrow> if r then run_allocs ss dw' else (dw', False))"

definition buffer_allocs :: "cm_experiment_setting \<Rightarrow> (nat \<Rightarrow> bool) \<Rightarrow> nat \<Rightarrow> nat \<Rightarrow> alloc_step list" where
  "buffer_allocs st ok n i =
    [\<lambda>dw. (dw\<lparr>dw_flow_volume_map := (dw_flow_volume_map dw)(i := ht_kfs_vi_create (ok n))\<rparr>, ok n),
     \<lambda>dw. (dw\<lparr>dw_fixed_flow_loss_volume_map := (dw_fixed_flow_loss_volume_map dw)
            (i := ht_kfs_fixSize_create (ok (n + 1)) (float_to_int (fix_loss_map_bucket_size (sender st))))\<rparr>, ok (n + 1)),
     \<lambda>dw. (dw\<lparr>dw_flow_loss_volume_map := (dw_flow_loss_volume_map dw)(i := ht_kfs_vi_create (ok (n + 2)))\<rparr>, ok (n + 2)),
     \<lambda>dw. (dw\<lparr>dw_flow_loss_rate_map := (dw_flow_loss_rate_map dw)(i := ht_kfs_vf_create (ok (n + 3)))\<rparr>, ok (n + 3)),
     \<lambda>dw. (dw\<lparr>dw_flow_selected_level_map := (dw_flow_selected_level_map dw)(i := ht_kfs_vi_create (ok (n + 4)))\<rparr>, ok (n + 4)),
     \<lambda>dw. (dw\<lparr>dw_flow_sample_map := (dw_flow_sample_map dw)(i := ht_kfs_vi_create (ok (n + 5)))\<rparr>, ok (n + 5)),
     \<lambda>dw. (dw\<lparr>dw_flow_not_sampled_volume_map := (dw_flow_not_sampled_volume_map dw)(i := ht_kfs_vi_create (ok (n + 6)))\<rparr>, ok (n + 6))]"

definition last_sent_alloc :: "bool \<Rightarrow> alloc_step" where
  "last_sent_alloc r dw = (dw\<lparr>dw_last_sent_flow_selected_level_map := ht_kfs_vi_create r\<rparr>, r)"

definition zero_counters :: "nat \<Rightarrow> data_warehouse \<Rightarrow> data_warehouse" where
  "zero_counters i dw = dw\<lparr>dw_pkt_num_sent := (dw_pkt_num_sent dw)(i := 0), dw_volume_sent := (dw_volume_sent dw)(i := 0),
     dw_condition_pkt_num_sent := (dw_condition_pkt_num_sent dw)(i := 0), dw_volume_lost := (dw_volume_lost dw)(i := 0)\<rparr>"

definition data_warehouse_init :: "cm_experiment_setting \<Rightarrow> (nat \<Rightarrow> bool) \<Rightarrow> string option \<Rightarrow> string list option \<Rightarrow>
    data_warehouse \<Rightarrow> (data_warehouse \<times> int) c_result" where
  "data_warehouse_init st ok dev file dw =
    (case init_tasks_info dev file of
       Inl e \<Rightarrow> Inl e
     | Inr None \<Rightarrow> Inr (dw, - 1)
     | Inr (Some tm) \<Rightarrow>
         let dw = dw\<lparr>dw_task_manager := tm\<rparr>;
             (dw, r) = run_allocs
               ([\<lambda>dw. (dw\<lparr>dw_flow_recePktList_map := ht_vl_create (ok 0)\<rparr>, ok 0), last_sent_alloc (ok 1)] @
                buffer_allocs st ok 2 0 @ [\<lambda>dw. (zero_counters 0 dw, True)] @
                buffer_allocs st ok 9 1 @ [\<lambda>dw. (zero_counters 1 dw, True)]) dw
         in if r then Inr (dw\<lparr>dw_active_idx := 0\<rparr>, 0) else Inr (dw, - 1))"

text \<open>What \<^verbatim>\<open>data_warehouse_destroy\<close> frees: the entries of every table.\<close>

definition destroy_buffer :: "data_warehouse \<Rightarrow> nat \<Rightarrow>
    entry_kfs_vi list \<times> entry_kfs_fixSize list \<times> entry_kfs_vf list" where
  "destroy_buffer dw i =
    (ht_kfs_vi_destory (dw_flow_volume_map dw i) @ ht_kfs_vi_destory (dw_flow_loss_volume_map dw i) @
       ht_kfs_vi_destory (dw_flow_selected_level_map dw i) @ ht_kfs_vi_destory (dw_flow_sample_map dw i) @
       ht_kfs_vi_destory (dw_flow_not_sampled_volume_map dw i),
     ht_kfs_fixSize_destory (dw_fixed_flow_loss_volume_map dw i),
     ht_kfs_vf_destory (dw_flow_loss_rate_map dw i))"

definition data_warehouse_destroy :: "data_warehouse \<Rightarrow>
    (pkt_volume + entry_vl) list \<times> entry_kfs_vi list \<times>
    (entry_kfs_vi list \<times> entry_kfs_fixSize list \<times> entry_kfs_vf list) list" where
  "data_warehouse_destroy dw =
    (ht_vl_destory (dw_flow_recePktList_map dw),
     ht_kfs_vi_destory (dw_last_sent_flow_selected_level_map dw),
     map (destroy_buffer dw) [0..<BUFFER_NUM])"

section \<open>Updates\<close>

text \<open>\<^verbatim>\<open>if (x < 0) { x = 0; }\<close>.\<close>

definition clamp0 :: "int \<Rightarrow> int" where
  "clamp0 x = (if x < 0 then 0 else x)"

text \<open>\<^verbatim>\<open>float loss_rate = 1.0 * loss_volume / volume\<close>.\<close>

definition loss_rate_of :: "int \<Rightarrow> int \<Rightarrow> cfloat" where
  "loss_rate_of loss_volume volume =
    to_float (cf_div fl64 (cf_mul fl64 (Fin 1) (fl64 (of_int loss_volume))) (fl64 (of_int volume)))"

definition set_active_level :: "hashtable_kfs_vi option \<Rightarrow> data_warehouse \<Rightarrow> data_warehouse" where
  "set_active_level m dw =
    dw\<lparr>dw_flow_selected_level_map := (dw_flow_selected_level_map dw)(dw_active_idx dw := m)\<rparr>"

definition update_flow_selected_level_map :: "(flow_src \<Rightarrow> u32 \<Rightarrow> u32) \<Rightarrow> cm_experiment_setting \<Rightarrow>
    flow_src \<Rightarrow> int \<Rightarrow> int \<Rightarrow> cfloat \<Rightarrow> data_warehouse \<Rightarrow> data_warehouse" where
  "update_flow_selected_level_map hb st p_flow volume loss_volume loss_rate dw =
    (let flow_selected_level_map = data_warehouse_get_flow_selected_level_map dw
     in if volume \<ge> volume_threshold (target_flow st) \<and> cf_ge loss_rate (loss_rate_threshold (target_flow st)) then
          if loss_volume \<ge> loss_volume_threshold (target_flow st) then
            set_active_level (ht_kfs_vi_set hb flow_selected_level_map p_flow (level_val TARGET_LEVEL)) dw
          else if loss_volume \<ge> selected_loss_volume_threshold (target_flow st) then
            set_active_level (ht_kfs_vi_set hb flow_selected_level_map p_flow (level_val SELECTED_LEVEL)) dw
          else set_active_level (ht_kfs_vi_del hb flow_selected_level_map p_flow) dw
        else set_active_level (ht_kfs_vi_del hb flow_selected_level_map p_flow) dw)"

text \<open>\<^verbatim>\<open>loss_volume\<close> as read back from the fixed-size map.\<close>

definition fixed_loss_volume :: "(flow_src \<Rightarrow> u32 \<Rightarrow> u32) \<Rightarrow> hashtable_kfs_fixSize option \<Rightarrow> flow_src \<Rightarrow> int" where
  "fixed_loss_volume hb m p_flow =
    (case ht_kfs_fixSize_get hb m p_flow of Some (value, level) \<Rightarrow> sint value | None \<Rightarrow> 0)"

definition set_rate_and_level :: "(flow_src \<Rightarrow> u32 \<Rightarrow> u32) \<Rightarrow> cm_experiment_setting \<Rightarrow> flow_src \<Rightarrow> int \<Rightarrow> int \<Rightarrow>
    data_warehouse \<Rightarrow> data_warehouse" where
  "set_rate_and_level hb st p_flow volume loss_volume dw =
    (let loss_rate = loss_rate_of loss_volume volume;
         dw = dw\<lparr>dw_flow_loss_rate_map := (dw_flow_loss_rate_map dw)(dw_active_idx dw :=
           ht_kfs_vf_set hb (data_warehouse_get_flow_loss_rate_map dw) p_flow loss_rate)\<rparr>
     in update_flow_selected_level_map hb st p_flow volume loss_volume loss_rate dw)"

definition update_flow_loss_volume :: "(flow_src \<Rightarrow> u32 \<Rightarrow> u32) \<Rightarrow> cm_experiment_setting \<Rightarrow> flow_src \<Rightarrow> int \<Rightarrow>
    data_warehouse \<Rightarrow> data_warehouse" where
  "update_flow_loss_volume hb st p_flow added_loss_volume dw =
    (let a = dw_active_idx dw;
         dw = dw\<lparr>dw_volume_lost := (dw_volume_lost dw)(a := dw_volume_lost dw a + word_of_int added_loss_volume)\<rparr>
     in if added_loss_volume > 0 then
          let volume = ht_kfs_vi_get hb (data_warehouse_get_flow_volume_map dw) p_flow
          in if volume < 0 then dw
             else
               let loss_volume = ht_kfs_vi_get hb (data_warehouse_get_flow_loss_volume_map dw) p_flow;
                   loss_volume = clamp0 loss_volume;
                   loss_volume = c_int (loss_volume + added_loss_volume);
                   dw = dw\<lparr>dw_flow_loss_volume_map := (dw_flow_loss_volume_map dw)(a :=
                     ht_kfs_vi_set hb (data_warehouse_get_flow_loss_volume_map dw) p_flow (word_of_int loss_volume))\<rparr>;
                   (dw, loss_volume) =
                     (if loss_map_mem_type (sender st) = FIXED then
                        let (sampled, rb) = sample_packet_fixSize_map_sender hb st p_flow loss_volume (dw_rand_buffer dw)
                              (data_warehouse_get_fixed_flow_loss_volume_map dw);
                            dw = dw\<lparr>dw_rand_buffer := rb\<rparr>;
                            dw = (if sampled \<noteq> 0 then
                              dw\<lparr>dw_fixed_flow_loss_volume_map := (dw_fixed_flow_loss_volume_map dw)(a :=
                                ht_kfs_fixSize_add_value hb (data_warehouse_get_fixed_flow_loss_volume_map dw) p_flow
                                  (word_of_int added_loss_volume))\<rparr>
                              else dw)
                        in (dw, fixed_loss_volume hb (data_warehouse_get_fixed_flow_loss_volume_map dw) p_flow)
                      else (dw, loss_volume))
               in set_rate_and_level hb st p_flow volume loss_volume dw
        else dw)"

definition update_flow_normal_volume :: "(flow_src \<Rightarrow> u32 \<Rightarrow> u32) \<Rightarrow> cm_experiment_setting \<Rightarrow> flow_src \<Rightarrow> int \<Rightarrow>
    data_warehouse \<Rightarrow> data_warehouse" where
  "update_flow_normal_volume hb st p_flow added_volume dw =
    (let a = dw_active_idx dw
     in if added_volume > 0 then
          let volume = ht_kfs_vi_get hb (data_warehouse_get_flow_volume_map dw) p_flow;
              volume = clamp0 volume;
              volume = c_int (volume + added_volume);
              dw = dw\<lparr>dw_flow_volume_map := (dw_flow_volume_map dw)(a :=
                ht_kfs_vi_set hb (data_warehouse_get_flow_volume_map dw) p_flow (word_of_int volume))\<rparr>;
              loss_volume = ht_kfs_vi_get hb (data_warehouse_get_flow_loss_volume_map dw) p_flow;
              loss_volume = clamp0 loss_volume;
              loss_volume = (if loss_map_mem_type (sender st) = FIXED
                             then fixed_loss_volume hb (data_warehouse_get_fixed_flow_loss_volume_map dw) p_flow
                             else loss_volume)
          in set_rate_and_level hb st p_flow volume loss_volume dw
        else dw)"

definition update_flow_not_sampled_volume :: "(flow_src \<Rightarrow> u32 \<Rightarrow> u32) \<Rightarrow> flow_src \<Rightarrow> data_warehouse \<Rightarrow> data_warehouse" where
  "update_flow_not_sampled_volume hb p_flow dw =
    (if ht_kfs_vi_get hb (data_warehouse_get_flow_not_sampled_volume_map dw) p_flow < 0 then
       let volume = ht_kfs_vi_get hb (data_warehouse_get_flow_volume_map dw) p_flow;
           volume = clamp0 volume
       in dw\<lparr>dw_flow_not_sampled_volume_map := (dw_flow_not_sampled_volume_map dw)(dw_active_idx dw :=
            ht_kfs_vi_set hb (data_warehouse_get_flow_not_sampled_volume_map dw) p_flow (word_of_int volume))\<rparr>
     else dw)"

section \<open>Buffer rotation\<close>

definition data_ware_rotate_buffer :: "data_warehouse \<Rightarrow> data_warehouse" where
  "data_ware_rotate_buffer dw = dw\<lparr>dw_active_idx := (dw_active_idx dw + 1) mod BUFFER_NUM\<rparr>"

text \<open>The tables of the other buffer and the last-sent map are freed and created again.\<close>

text \<open>
  The tables that the reset destroys before it creates new ones.  Until then a pointer to one cannot be used: it is \<open>None\<close> here, and stays so if an
  allocation before its own fails.
\<close>

definition destroyed_tables :: "nat \<Rightarrow> data_warehouse \<Rightarrow> data_warehouse" where
  "destroyed_tables i dw = dw\<lparr>dw_flow_volume_map := (dw_flow_volume_map dw)(i := None),
     dw_fixed_flow_loss_volume_map := (dw_fixed_flow_loss_volume_map dw)(i := None),
     dw_flow_loss_volume_map := (dw_flow_loss_volume_map dw)(i := None), dw_flow_loss_rate_map := (dw_flow_loss_rate_map dw)(i := None),
     dw_flow_selected_level_map := (dw_flow_selected_level_map dw)(i := None), dw_flow_sample_map := (dw_flow_sample_map dw)(i := None),
     dw_flow_not_sampled_volume_map := (dw_flow_not_sampled_volume_map dw)(i := None), dw_last_sent_flow_selected_level_map := None\<rparr>"

definition data_warehouse_reset_noactive_buf :: "cm_experiment_setting \<Rightarrow> (nat \<Rightarrow> bool) \<Rightarrow> data_warehouse \<Rightarrow>
    data_warehouse \<times> int" where
  "data_warehouse_reset_noactive_buf st ok dw =
    (let i = na_idx dw;
         (dw, r) = run_allocs (buffer_allocs st ok 0 i @ [last_sent_alloc (ok 7)]) (destroyed_tables i dw)
     in if r then (zero_counters i dw, 0) else (dw, - 1))"

section \<open>Tables as partial functions\<close>

text \<open>A table pointer that is not \<^verbatim>\<open>NULL\<close>, well-formed, with its iterator at rest; and its contents.\<close>

definition tab_ok :: "(flow_src \<Rightarrow> u32 \<Rightarrow> u32) \<Rightarrow> (flow_src, 'v) chained option \<Rightarrow> bool" where
  "tab_ok hb t \<longleftrightarrow> (\<exists>ht. t = Some ht \<and> kfs_wf hb ht \<and> ct_cur ht = - 1 \<and> ct_last ht = None)"

definition tab_map :: "(flow_src \<Rightarrow> u32 \<Rightarrow> u32) \<Rightarrow> (flow_src, 'v) chained option \<Rightarrow> flow_src \<rightharpoonup> 'v" where
  "tab_map hb t = (case t of None \<Rightarrow> Map.empty | Some ht \<Rightarrow> kfs_map hb ht)"

definition fx_ok :: "(flow_src \<Rightarrow> u32 \<Rightarrow> u32) \<Rightarrow> hashtable_kfs_fixSize option \<Rightarrow> bool" where
  "fx_ok hb t \<longleftrightarrow> (\<exists>ht. t = Some ht \<and> fx_wf hb ht)"

definition tab_entries :: "(flow_src, 'v) chained option \<Rightarrow> (flow_src, 'v) entry list" where
  "tab_entries t = (case t of None \<Rightarrow> [] | Some ht \<Rightarrow> ct_entries ht)"

lemma tab_get [ht_ops]:
  "ht_kfs_vi_get hb t k = (case tab_map hb t k of None \<Rightarrow> - 1 | Some v \<Rightarrow> sint v)"
  by (cases t) (simp add: tab_map_def ht_kfs_vi_get_def, simp add: tab_map_def kfs_vi_get_map)

lemma tab_get_vf:
  "ht_kfs_vf_get hb t k = (case tab_map hb t k of None \<Rightarrow> Fin (- 1) | Some v \<Rightarrow> v)"
  by (cases t) (simp add: tab_map_def ht_kfs_vf_get_def, simp add: tab_map_def kfs_vf_get_map)

context flow_src_hash
begin

lemma tab_create:
  "tab_ok hb (ht_kfs_vi_create True)" "tab_map hb (ht_kfs_vi_create r) = Map.empty"
  "tab_ok hb (ht_kfs_vf_create True)" "tab_map hb (ht_kfs_vf_create r) = Map.empty"
  by (simp_all add: tab_ok_def tab_map_def ht_kfs_vi_create_def ht_kfs_vf_create_def wf_new map_create)
    (simp_all add: ct_create_def)

lemma tab_set:
  assumes "tab_ok hb t"
  shows "tab_ok hb (ht_kfs_vi_set hb t k v)" "tab_map hb (ht_kfs_vi_set hb t k v) = (tab_map hb t)(k \<mapsto> v)"
proof -
  from assms obtain ht where t: "t = Some ht" "kfs_wf hb ht" "ct_cur ht = - 1" "ct_last ht = None"
    by (auto simp: tab_ok_def)
  from vi_set [OF t(2), of k v] show "tab_ok hb (ht_kfs_vi_set hb t k v)"
    "tab_map hb (ht_kfs_vi_set hb t k v) = (tab_map hb t)(k \<mapsto> v)"
    using t by (auto simp: tab_ok_def tab_map_def)
qed

lemma tab_del:
  assumes "tab_ok hb t"
  shows "tab_ok hb (ht_kfs_vi_del hb t k)" "tab_map hb (ht_kfs_vi_del hb t k) = (tab_map hb t)(k := None)"
proof -
  from assms obtain ht where t: "t = Some ht" "kfs_wf hb ht" "ct_cur ht = - 1" "ct_last ht = None"
    by (auto simp: tab_ok_def)
  have "ct_cur (ct_del flow_src_compare (kfs_bin hb) ht k) = - 1" "ct_last (ct_del flow_src_compare (kfs_bin hb) ht k) = None"
    using t by (simp_all add: ct_del_def Let_def split: list.split)
  with vi_del [OF t(2), of k] show "tab_ok hb (ht_kfs_vi_del hb t k)"
    "tab_map hb (ht_kfs_vi_del hb t k) = (tab_map hb t)(k := None)"
    using t by (auto simp: tab_ok_def tab_map_def ht_kfs_vi_del_def)
qed

lemma tab_set_vf:
  assumes "tab_ok hb t"
  shows "tab_ok hb (ht_kfs_vf_set hb t k v)" "tab_map hb (ht_kfs_vf_set hb t k v) = (tab_map hb t)(k \<mapsto> v)"
proof -
  from assms obtain ht where t: "t = Some ht" "kfs_wf hb ht" "ct_cur ht = - 1" "ct_last ht = None"
    by (auto simp: tab_ok_def)
  from vf_set [OF t(2), of k v] show "tab_ok hb (ht_kfs_vf_set hb t k v)"
    "tab_map hb (ht_kfs_vf_set hb t k v) = (tab_map hb t)(k \<mapsto> v)"
    using t by (auto simp: tab_ok_def tab_map_def ht_kfs_vf_set_def ct_upsert_def Let_def)
qed

text \<open>A loop over a table at rest visits each pair of its contents once, in the order of \<open>tab_entries\<close>.\<close>

lemma tab_foreach: "tab_ok hb t \<Longrightarrow> ht_kfs_vi_foreach body t s = Some (t, fold body (tab_entries t) s)"
  by (auto simp: tab_ok_def tab_entries_def foreach_entries)

lemma tab_entries_distinct: "tab_ok hb t \<Longrightarrow> distinct (map e_key (tab_entries t))"
  by (auto simp: tab_ok_def tab_entries_def kfs.entries_distinct)

lemma tab_entries_iff: "tab_ok hb t \<Longrightarrow> \<lparr>e_key = k, e_value = v\<rparr> \<in> set (tab_entries t) \<longleftrightarrow> tab_map hb t k = Some v"
  by (auto simp: tab_ok_def tab_entries_def tab_map_def entry_iff)

lemma tab_entries_map:
  "tab_ok hb t \<Longrightarrow> map_of (rev (map (\<lambda>e. (e_key e, e_value e)) (tab_entries t))) = tab_map hb t"
  by (auto simp: tab_ok_def tab_entries_def tab_map_def entries_map)

lemma tab_entry_map: "tab_ok hb t \<Longrightarrow> e \<in> set (tab_entries t) \<Longrightarrow> tab_map hb t (e_key e) = Some (e_value e)"
  using tab_entries_iff [of t "e_key e" "e_value e"] by (cases e) auto

end

lemma fx_add_ok: "fx_ok hb t \<Longrightarrow> fx_ok hb (ht_kfs_fixSize_add_value hb t k d)"
  using fx_step_wf [of hb _ False "FxAdd k d"] by (fastforce simp: fx_ok_def)

lemma fx_add_other: "g \<noteq> k \<Longrightarrow> ht_kfs_fixSize_get hb (ht_kfs_fixSize_add_value hb t k d) g = ht_kfs_fixSize_get hb t g"
proof (cases t)
  case (Some ht)
  assume "g \<noteq> k"
  moreover obtain ht' where ht': "ht_kfs_fixSize_add_value hb (Some ht) k d = Some ht'"
    "fx_table ht' = (fx_table ht)(fx_bin hb ht k := fx_slot False (FxAdd k d) (fx_table ht (fx_bin hb ht k)))"
    "fx_size ht' = fx_size ht"
    using fx_step_slot [of hb False "FxAdd k d" ht] by auto
  ultimately show ?thesis
    by (cases "fx_table ht (fx_bin hb ht k)")
      (auto simp: Some fx_get_table ht_kfs_fixSize_newpair_def split: option.split)
qed (simp add: ht_kfs_fixSize_add_value_def)

section \<open>Classification\<close>

text \<open>The level a flow should have; \<open>None\<close> stands for not being in the level map.\<close>

definition level_of :: "cm_experiment_setting \<Rightarrow> int \<Rightarrow> int \<Rightarrow> u32 option" where
  "level_of st volume loss =
    (if volume \<ge> volume_threshold (target_flow st) \<and>
        cf_ge (loss_rate_of loss volume) (loss_rate_threshold (target_flow st)) then
       if loss \<ge> loss_volume_threshold (target_flow st) then Some 2
       else if loss \<ge> selected_loss_volume_threshold (target_flow st) then Some 1 else None
     else None)"

text \<open>The loss volume the classification uses: from the fixed-size map in \<^verbatim>\<open>FIXED\<close> mode.\<close>

definition loss_seen :: "(flow_src \<Rightarrow> u32 \<Rightarrow> u32) \<Rightarrow> cm_experiment_setting \<Rightarrow> data_warehouse \<Rightarrow> nat \<Rightarrow> flow_src \<Rightarrow> int" where
  "loss_seen hb st dw i f =
    (if loss_map_mem_type (sender st) = FIXED then fixed_loss_volume hb (dw_fixed_flow_loss_volume_map dw i) f
     else case tab_map hb (dw_flow_loss_volume_map dw i) f of None \<Rightarrow> 0 | Some l \<Rightarrow> sint l)"

definition buf_ok :: "(flow_src \<Rightarrow> u32 \<Rightarrow> u32) \<Rightarrow> data_warehouse \<Rightarrow> nat \<Rightarrow> bool" where
  "buf_ok hb dw i \<longleftrightarrow> tab_ok hb (dw_flow_volume_map dw i) \<and> fx_ok hb (dw_fixed_flow_loss_volume_map dw i) \<and>
    tab_ok hb (dw_flow_loss_volume_map dw i) \<and> tab_ok hb (dw_flow_loss_rate_map dw i) \<and>
    tab_ok hb (dw_flow_selected_level_map dw i) \<and> tab_ok hb (dw_flow_sample_map dw i) \<and>
    tab_ok hb (dw_flow_not_sampled_volume_map dw i)"

text \<open>
  The statistics of a flow agree with each other: its rate and its level are those of its volume and
  its loss, stored volumes are not negative as \<^verbatim>\<open>int\<close>, and a flow without volume has no level.
\<close>

definition flow_consistent :: "(flow_src \<Rightarrow> u32 \<Rightarrow> u32) \<Rightarrow> cm_experiment_setting \<Rightarrow> data_warehouse \<Rightarrow> nat \<Rightarrow> flow_src \<Rightarrow> bool" where
  "flow_consistent hb st dw i f \<longleftrightarrow>
    (case tab_map hb (dw_flow_volume_map dw i) f of
       None \<Rightarrow> tab_map hb (dw_flow_selected_level_map dw i) f = None \<and> tab_map hb (dw_flow_loss_volume_map dw i) f = None
     | Some v \<Rightarrow> 0 \<le> sint v \<and>
         tab_map hb (dw_flow_loss_rate_map dw i) f = Some (loss_rate_of (loss_seen hb st dw i f) (sint v)) \<and>
         tab_map hb (dw_flow_selected_level_map dw i) f = level_of st (sint v) (loss_seen hb st dw i f)) \<and>
    (case tab_map hb (dw_flow_loss_volume_map dw i) f of None \<Rightarrow> True | Some l \<Rightarrow> 0 \<le> sint l)"

definition dw_inv :: "(flow_src \<Rightarrow> u32 \<Rightarrow> u32) \<Rightarrow> cm_experiment_setting \<Rightarrow> data_warehouse \<Rightarrow> bool" where
  "dw_inv hb st dw \<longleftrightarrow> dw_active_idx dw < BUFFER_NUM \<and> buf_ok hb dw 0 \<and> buf_ok hb dw 1 \<and>
    (\<forall>f. flow_consistent hb st dw 0 f) \<and> (\<forall>f. flow_consistent hb st dw 1 f) \<and>
    tab_ok hb (dw_last_sent_flow_selected_level_map dw) \<and> vl_ok (dw_flow_recePktList_map dw)"

context flow_src_hash
begin

lemma update_level_spec:
  assumes "tab_ok hb (dw_flow_selected_level_map dw (dw_active_idx dw))"
  shows "\<exists>m. update_flow_selected_level_map hb st f volume loss (loss_rate_of loss volume) dw = set_active_level m dw \<and>
    tab_ok hb m \<and> tab_map hb m = (tab_map hb (dw_flow_selected_level_map dw (dw_active_idx dw)))(f := level_of st volume loss)"
  using tab_set [OF assms] tab_del [OF assms]
  by (auto simp: update_flow_selected_level_map_def Let_def dw_get_defs level_of_def)

text \<open>The common tail of both updates.\<close>

lemma set_rate_and_level_spec:
  assumes "tab_ok hb (dw_flow_selected_level_map dw (dw_active_idx dw))"
    "tab_ok hb (dw_flow_loss_rate_map dw (dw_active_idx dw))"
  shows "\<exists>m r. set_rate_and_level hb st f volume loss dw =
      dw\<lparr>dw_flow_loss_rate_map := (dw_flow_loss_rate_map dw)(dw_active_idx dw := r),
         dw_flow_selected_level_map := (dw_flow_selected_level_map dw)(dw_active_idx dw := m)\<rparr> \<and>
    tab_ok hb m \<and> tab_map hb m = (tab_map hb (dw_flow_selected_level_map dw (dw_active_idx dw)))(f := level_of st volume loss) \<and>
    tab_ok hb r \<and> tab_map hb r = (tab_map hb (dw_flow_loss_rate_map dw (dw_active_idx dw)))(f \<mapsto> loss_rate_of loss volume)"
proof -
  let ?r = "ht_kfs_vf_set hb (dw_flow_loss_rate_map dw (dw_active_idx dw)) f (loss_rate_of loss volume)"
  let ?dw = "dw\<lparr>dw_flow_loss_rate_map := (dw_flow_loss_rate_map dw)(dw_active_idx dw := ?r)\<rparr>"
  have "tab_ok hb (dw_flow_selected_level_map ?dw (dw_active_idx ?dw))" using assms(1) by simp
  from update_level_spec [OF this, of st f volume loss] tab_set_vf [OF assms(2), of f "loss_rate_of loss volume"]
  show ?thesis by (auto simp: set_rate_and_level_def Let_def dw_get_defs set_active_level_def)
qed

end

text \<open>What an update on behalf of flow \<open>f\<close> may touch: the statistics of \<open>f\<close> in the active buffer.\<close>

definition only_flow :: "(flow_src \<Rightarrow> u32 \<Rightarrow> u32) \<Rightarrow> flow_src \<Rightarrow> data_warehouse \<Rightarrow> data_warehouse \<Rightarrow> bool" where
  "only_flow hb f dw dw' \<longleftrightarrow>
    dw_active_idx dw' = dw_active_idx dw \<and> dw_task_manager dw' = dw_task_manager dw \<and>
    dw_flow_recePktList_map dw' = dw_flow_recePktList_map dw \<and>
    dw_last_sent_flow_selected_level_map dw' = dw_last_sent_flow_selected_level_map dw \<and>
    dw_flow_sample_map dw' = dw_flow_sample_map dw \<and>
    dw_flow_not_sampled_volume_map dw' = dw_flow_not_sampled_volume_map dw \<and>
    (\<forall>i g. i \<noteq> dw_active_idx dw \<or> g \<noteq> f \<longrightarrow>
      tab_map hb (dw_flow_volume_map dw' i) g = tab_map hb (dw_flow_volume_map dw i) g \<and>
      tab_map hb (dw_flow_loss_volume_map dw' i) g = tab_map hb (dw_flow_loss_volume_map dw i) g \<and>
      tab_map hb (dw_flow_loss_rate_map dw' i) g = tab_map hb (dw_flow_loss_rate_map dw i) g \<and>
      tab_map hb (dw_flow_selected_level_map dw' i) g = tab_map hb (dw_flow_selected_level_map dw i) g \<and>
      ht_kfs_fixSize_get hb (dw_fixed_flow_loss_volume_map dw' i) g = ht_kfs_fixSize_get hb (dw_fixed_flow_loss_volume_map dw i) g)"

lemma dw_inv_only_flow:
  assumes "dw_inv hb st dw" "only_flow hb f dw dw'" "\<And>i. buf_ok hb dw i \<Longrightarrow> buf_ok hb dw' i"
    and "flow_consistent hb st dw' (dw_active_idx dw) f"
  shows "dw_inv hb st dw'"
proof -
  have "flow_consistent hb st dw' i g" if "flow_consistent hb st dw i g" for i g
  proof (cases "i \<noteq> dw_active_idx dw \<or> g \<noteq> f")
    case True
    with assms(2) have eqs: "tab_map hb (dw_flow_volume_map dw' i) g = tab_map hb (dw_flow_volume_map dw i) g"
      "tab_map hb (dw_flow_loss_volume_map dw' i) g = tab_map hb (dw_flow_loss_volume_map dw i) g"
      "tab_map hb (dw_flow_loss_rate_map dw' i) g = tab_map hb (dw_flow_loss_rate_map dw i) g"
      "tab_map hb (dw_flow_selected_level_map dw' i) g = tab_map hb (dw_flow_selected_level_map dw i) g"
      "loss_seen hb st dw' i g = loss_seen hb st dw i g"
      unfolding only_flow_def loss_seen_def fixed_loss_volume_def by metis+
    show ?thesis using that unfolding flow_consistent_def eqs .
  qed (use assms(4) in simp)
  then show ?thesis using assms(1-3) by (simp add: dw_inv_def only_flow_def)
qed

abbreviation stored :: "u32 option \<Rightarrow> int" where
  "stored x \<equiv> (case x of None \<Rightarrow> 0 | Some v \<Rightarrow> sint v)"

abbreviation flow_volume :: "(flow_src \<Rightarrow> u32 \<Rightarrow> u32) \<Rightarrow> data_warehouse \<Rightarrow> flow_src \<Rightarrow> int" where
  "flow_volume hb dw f \<equiv> stored (tab_map hb (dw_flow_volume_map dw (dw_active_idx dw)) f)"

abbreviation flow_loss :: "(flow_src \<Rightarrow> u32 \<Rightarrow> u32) \<Rightarrow> data_warehouse \<Rightarrow> flow_src \<Rightarrow> int" where
  "flow_loss hb dw f \<equiv> stored (tab_map hb (dw_flow_loss_volume_map dw (dw_active_idx dw)) f)"

lemma dw_inv_active:
  assumes "dw_inv hb st dw"
  shows "buf_ok hb dw (dw_active_idx dw)" "flow_consistent hb st dw (dw_active_idx dw) g"
proof -
  have "dw_active_idx dw = 0 \<or> dw_active_idx dw = 1" using assms by (auto simp: dw_inv_def BUFFER_NUM_def)
  then show "buf_ok hb dw (dw_active_idx dw)" "flow_consistent hb st dw (dw_active_idx dw) g"
    using assms by (auto simp: dw_inv_def)
qed

lemma dw_inv_nonneg:
  assumes "dw_inv hb st dw"
  shows "0 \<le> flow_volume hb dw f" "0 \<le> flow_loss hb dw f"
  using dw_inv_active(2) [OF assms, of f] by (auto simp: flow_consistent_def split: option.splits)

lemma clamp_volume:
  assumes "dw_inv hb st dw"
  shows "clamp0 (ht_kfs_vi_get hb (dw_flow_volume_map dw (dw_active_idx dw)) f) = flow_volume hb dw f"
    "clamp0 (ht_kfs_vi_get hb (dw_flow_loss_volume_map dw (dw_active_idx dw)) f) = flow_loss hb dw f"
  using dw_inv_active(2) [OF assms, of f]
  by (auto simp: clamp0_def tab_get flow_consistent_def split: option.splits)

text \<open>New tables for the active buffer, as both volume updates produce them.\<close>

definition new_stats :: "data_warehouse \<Rightarrow> hashtable_kfs_vi option \<Rightarrow> hashtable_kfs_fixSize option \<Rightarrow>
    hashtable_kfs_vi option \<Rightarrow> hashtable_kfs_vf option \<Rightarrow> hashtable_kfs_vi option \<Rightarrow>
    (nat \<Rightarrow> u64) \<Rightarrow> drand48_data \<Rightarrow> data_warehouse" where
  "new_stats dw V X L R M lost rb = (let a = dw_active_idx dw in
     dw\<lparr>dw_flow_volume_map := (dw_flow_volume_map dw)(a := V),
       dw_fixed_flow_loss_volume_map := (dw_fixed_flow_loss_volume_map dw)(a := X),
       dw_flow_loss_volume_map := (dw_flow_loss_volume_map dw)(a := L),
       dw_flow_loss_rate_map := (dw_flow_loss_rate_map dw)(a := R),
       dw_flow_selected_level_map := (dw_flow_selected_level_map dw)(a := M),
       dw_volume_lost := lost, dw_rand_buffer := rb\<rparr>)"

lemma new_stats_simps [simp]:
  "dw_active_idx (new_stats dw V X L R M lost rb) = dw_active_idx dw"
  "dw_task_manager (new_stats dw V X L R M lost rb) = dw_task_manager dw"
  "dw_flow_recePktList_map (new_stats dw V X L R M lost rb) = dw_flow_recePktList_map dw"
  "dw_last_sent_flow_selected_level_map (new_stats dw V X L R M lost rb) = dw_last_sent_flow_selected_level_map dw"
  "dw_flow_sample_map (new_stats dw V X L R M lost rb) = dw_flow_sample_map dw"
  "dw_flow_not_sampled_volume_map (new_stats dw V X L R M lost rb) = dw_flow_not_sampled_volume_map dw"
  "dw_flow_volume_map (new_stats dw V X L R M lost rb) = (dw_flow_volume_map dw)(dw_active_idx dw := V)"
  "dw_fixed_flow_loss_volume_map (new_stats dw V X L R M lost rb) = (dw_fixed_flow_loss_volume_map dw)(dw_active_idx dw := X)"
  "dw_flow_loss_volume_map (new_stats dw V X L R M lost rb) = (dw_flow_loss_volume_map dw)(dw_active_idx dw := L)"
  "dw_flow_loss_rate_map (new_stats dw V X L R M lost rb) = (dw_flow_loss_rate_map dw)(dw_active_idx dw := R)"
  "dw_flow_selected_level_map (new_stats dw V X L R M lost rb) = (dw_flow_selected_level_map dw)(dw_active_idx dw := M)"
  "dw_volume_lost (new_stats dw V X L R M lost rb) = lost"
  by (simp_all add: new_stats_def Let_def)

lemma new_stats_loss:
  "dw\<lparr>dw_volume_lost := lost, dw_flow_loss_volume_map := (dw_flow_loss_volume_map dw)(dw_active_idx dw := L)\<rparr> =
    new_stats dw (dw_flow_volume_map dw (dw_active_idx dw)) (dw_fixed_flow_loss_volume_map dw (dw_active_idx dw)) L
      (dw_flow_loss_rate_map dw (dw_active_idx dw)) (dw_flow_selected_level_map dw (dw_active_idx dw)) lost (dw_rand_buffer dw)"
  "(new_stats dw V X L R M lost rb)\<lparr>dw_rand_buffer := rb'\<rparr> = new_stats dw V X L R M lost rb'"
  "(new_stats dw V X L R M lost rb)\<lparr>dw_fixed_flow_loss_volume_map :=
      (dw_fixed_flow_loss_volume_map dw)(dw_active_idx dw := X')\<rparr> = new_stats dw V X' L R M lost rb"
  unfolding new_stats_def Let_def by (cases dw; simp)+

lemma new_stats_inv:
  assumes inv: "dw_inv hb st dw"
    and ok: "tab_ok hb V" "fx_ok hb X" "tab_ok hb L" "tab_ok hb R" "tab_ok hb M"
    and V: "tab_map hb V = (tab_map hb (dw_flow_volume_map dw (dw_active_idx dw)))(f \<mapsto> v)" "0 \<le> sint v"
    and X: "\<And>g. g \<noteq> f \<Longrightarrow> ht_kfs_fixSize_get hb X g = ht_kfs_fixSize_get hb (dw_fixed_flow_loss_volume_map dw (dw_active_idx dw)) g"
    and L: "tab_map hb L = (tab_map hb (dw_flow_loss_volume_map dw (dw_active_idx dw)))(f := l)" "0 \<le> stored l"
    and ls: "ls = (if loss_map_mem_type (sender st) = FIXED then fixed_loss_volume hb X f else stored l)"
    and R: "tab_map hb R = (tab_map hb (dw_flow_loss_rate_map dw (dw_active_idx dw)))(f \<mapsto> loss_rate_of ls (sint v))"
    and M: "tab_map hb M = (tab_map hb (dw_flow_selected_level_map dw (dw_active_idx dw)))(f := level_of st (sint v) ls)"
  shows "dw_inv hb st (new_stats dw V X L R M lost rb) \<and> only_flow hb f dw (new_stats dw V X L R M lost rb)"
proof -
  let ?dw = "new_stats dw V X L R M lost rb"
  have only: "only_flow hb f dw ?dw" by (simp add: only_flow_def V L R M X)
  have seen: "loss_seen hb st ?dw (dw_active_idx dw) f = ls" by (simp add: loss_seen_def ls L)
  have "flow_consistent hb st ?dw (dw_active_idx dw) f"
    unfolding flow_consistent_def seen using V L R M by (simp split: option.splits)
  with dw_inv_only_flow [OF inv only] ok show ?thesis
    by (simp add: only buf_ok_def)
qed

context flow_src_hash
begin

lemma rate_and_level_stats:
  assumes "tab_ok hb (dw_flow_selected_level_map dw (dw_active_idx dw))"
    "tab_ok hb (dw_flow_loss_rate_map dw (dw_active_idx dw))"
  shows "\<exists>M R. set_rate_and_level hb st f volume loss (new_stats dw V X L (dw_flow_loss_rate_map dw (dw_active_idx dw))
        (dw_flow_selected_level_map dw (dw_active_idx dw)) lost rb) = new_stats dw V X L R M lost rb \<and>
    tab_ok hb M \<and> tab_map hb M = (tab_map hb (dw_flow_selected_level_map dw (dw_active_idx dw)))(f := level_of st volume loss) \<and>
    tab_ok hb R \<and> tab_map hb R = (tab_map hb (dw_flow_loss_rate_map dw (dw_active_idx dw)))(f \<mapsto> loss_rate_of loss volume)"
proof -
  let ?dw = "new_stats dw V X L (dw_flow_loss_rate_map dw (dw_active_idx dw))
        (dw_flow_selected_level_map dw (dw_active_idx dw)) lost rb"
  have "tab_ok hb (dw_flow_selected_level_map ?dw (dw_active_idx ?dw))" "tab_ok hb (dw_flow_loss_rate_map ?dw (dw_active_idx ?dw))"
    using assms by simp_all
  from set_rate_and_level_spec [OF this, of st f volume loss] obtain M R where
    eq: "set_rate_and_level hb st f volume loss ?dw =
      ?dw\<lparr>dw_flow_loss_rate_map := (dw_flow_loss_rate_map ?dw)(dw_active_idx ?dw := R),
         dw_flow_selected_level_map := (dw_flow_selected_level_map ?dw)(dw_active_idx ?dw := M)\<rparr>"
    and r: "tab_ok hb M" "tab_map hb M = (tab_map hb (dw_flow_selected_level_map dw (dw_active_idx dw)))(f := level_of st volume loss)"
      "tab_ok hb R" "tab_map hb R = (tab_map hb (dw_flow_loss_rate_map dw (dw_active_idx dw)))(f \<mapsto> loss_rate_of loss volume)"
    by auto
  have "set_rate_and_level hb st f volume loss ?dw = new_stats dw V X L R M lost rb"
    unfolding eq by (simp add: new_stats_def Let_def)
  with r show ?thesis by blast
qed

lemma normal_volume_spec:
  assumes inv: "dw_inv hb st dw" and d: "0 < d" and fit: "flow_volume hb dw f + d < 2147483648"
  shows "dw_inv hb st (update_flow_normal_volume hb st f d dw) \<and> only_flow hb f dw (update_flow_normal_volume hb st f d dw) \<and>
    flow_volume hb (update_flow_normal_volume hb st f d dw) f = flow_volume hb dw f + d \<and>
    flow_loss hb (update_flow_normal_volume hb st f d dw) f = flow_loss hb dw f"
proof -
  let ?a = "dw_active_idx dw"
  define w where "w = (word_of_int (flow_volume hb dw f + d) :: u32)"
  have r: "int_range (flow_volume hb dw f + d)"
    using dw_inv_nonneg(1) [OF inv, of f] fit d by (simp add: int_range_def)
  have w: "sint w = flow_volume hb dw f + d" unfolding w_def by (rule sint_word_of_int_range [OF r])
  have w0: "0 \<le> sint w" using w d dw_inv_nonneg(1) [OF inv, of f] by linarith
  have ok: "buf_ok hb dw ?a" using dw_inv_active [OF inv] by simp
  let ?V = "ht_kfs_vi_set hb (dw_flow_volume_map dw ?a) f w" and ?X = "dw_fixed_flow_loss_volume_map dw ?a"
  let ?L = "dw_flow_loss_volume_map dw ?a" and ?rb = "dw_rand_buffer dw" and ?lost = "dw_volume_lost dw"
  let ?ls = "if loss_map_mem_type (sender st) = FIXED then fixed_loss_volume hb ?X f else flow_loss hb dw f"
  have "update_flow_normal_volume hb st f d dw = set_rate_and_level hb st f (sint w) ?ls
      (new_stats dw ?V ?X ?L (dw_flow_loss_rate_map dw ?a) (dw_flow_selected_level_map dw ?a) ?lost ?rb)"
    using d clamp_volume [OF inv, of f] c_int_id [OF r]
    by (simp add: update_flow_normal_volume_def Let_def dw_get_defs new_stats_def w_def [symmetric] w
        del: of_int_add)
  moreover obtain M R where "set_rate_and_level hb st f (sint w) ?ls
      (new_stats dw ?V ?X ?L (dw_flow_loss_rate_map dw ?a) (dw_flow_selected_level_map dw ?a) ?lost ?rb) =
        new_stats dw ?V ?X ?L R M ?lost ?rb"
    and M: "tab_ok hb M" "tab_map hb M = (tab_map hb (dw_flow_selected_level_map dw ?a))(f := level_of st (sint w) ?ls)"
    and R: "tab_ok hb R" "tab_map hb R = (tab_map hb (dw_flow_loss_rate_map dw ?a))(f \<mapsto> loss_rate_of ?ls (sint w))"
    using rate_and_level_stats [of dw st f "sint w" ?ls ?V ?X ?L ?lost ?rb] ok unfolding buf_ok_def by blast
  ultimately have eq: "update_flow_normal_volume hb st f d dw = new_stats dw ?V ?X ?L R M ?lost ?rb" by simp
  have V: "tab_ok hb ?V" "tab_map hb ?V = (tab_map hb (dw_flow_volume_map dw ?a))(f \<mapsto> w)"
    using tab_set ok by (simp_all add: buf_ok_def)
  have L: "tab_map hb ?L = (tab_map hb ?L)(f := tab_map hb ?L f)" by simp
  have "dw_inv hb st (new_stats dw ?V ?X ?L R M ?lost ?rb) \<and> only_flow hb f dw (new_stats dw ?V ?X ?L R M ?lost ?rb)"
    using ok unfolding buf_ok_def
    by (intro new_stats_inv [OF inv V(1) _ _ R(1) M(1) V(2) w0 _ L dw_inv_nonneg(2) [OF inv] refl R(2) M(2)]) simp_all
  then show ?thesis using V w by (simp add: eq)
qed

text \<open>
  The result of \<^verbatim>\<open>update_flow_loss_volume\<close> on a flow with volume: the loss is added, in
  \<^verbatim>\<open>FIXED\<close> mode only a sampled flow is counted in the fixed-size map.
\<close>

lemma loss_volume_spec:
  assumes inv: "dw_inv hb st dw" and d: "0 < d" and fit: "flow_loss hb dw f + d < 2147483648"
    and vol: "tab_map hb (dw_flow_volume_map dw (dw_active_idx dw)) f = Some v"
  shows "dw_inv hb st (update_flow_loss_volume hb st f d dw) \<and> only_flow hb f dw (update_flow_loss_volume hb st f d dw) \<and>
    flow_loss hb (update_flow_loss_volume hb st f d dw) f = flow_loss hb dw f + d \<and>
    flow_volume hb (update_flow_loss_volume hb st f d dw) f = flow_volume hb dw f"
proof -
  let ?a = "dw_active_idx dw"
  define w where "w = (word_of_int (flow_loss hb dw f + d) :: u32)"
  have r: "int_range (flow_loss hb dw f + d)"
    using dw_inv_nonneg(2) [OF inv, of f] fit d by (simp add: int_range_def)
  have w: "sint w = flow_loss hb dw f + d" unfolding w_def by (rule sint_word_of_int_range [OF r])
  have w0: "0 \<le> sint w" using w d dw_inv_nonneg(2) [OF inv, of f] by linarith
  have v0: "0 \<le> sint v" using dw_inv_nonneg(1) [OF inv, of f] vol by simp
  have ok: "buf_ok hb dw ?a" using dw_inv_active [OF inv] by simp
  define smp where "smp = sample_packet_fixSize_map_sender hb st f (sint w) (dw_rand_buffer dw) (dw_fixed_flow_loss_volume_map dw ?a)"
  define fixed where "fixed \<longleftrightarrow> loss_map_mem_type (sender st) = FIXED"
  define X where "X = (if fixed \<and> fst smp \<noteq> 0
    then ht_kfs_fixSize_add_value hb (dw_fixed_flow_loss_volume_map dw ?a) f (word_of_int d)
    else dw_fixed_flow_loss_volume_map dw ?a)"
  define rb where "rb = (if fixed then snd smp else dw_rand_buffer dw)"
  define lost where "lost = (dw_volume_lost dw)(?a := dw_volume_lost dw ?a + word_of_int d)"
  define ls where "ls = (if fixed then fixed_loss_volume hb X f else sint w)"
  let ?V = "dw_flow_volume_map dw ?a" and ?L = "ht_kfs_vi_set hb (dw_flow_loss_volume_map dw ?a) f w"
  have "update_flow_loss_volume hb st f d dw = set_rate_and_level hb st f (sint v) ls
      (new_stats dw ?V X ?L (dw_flow_loss_rate_map dw ?a) (dw_flow_selected_level_map dw ?a) lost rb)"
    using d clamp_volume [OF inv, of f] c_int_id [OF r] v0 vol
    by (cases smp) (simp add: update_flow_loss_volume_def Let_def dw_get_defs w_def [symmetric] w
        smp_def ls_def X_def rb_def lost_def fixed_def tab_get del: of_int_add,
      simp add: new_stats_loss)
  moreover obtain M R where "set_rate_and_level hb st f (sint v) ls
      (new_stats dw ?V X ?L (dw_flow_loss_rate_map dw ?a) (dw_flow_selected_level_map dw ?a) lost rb) =
        new_stats dw ?V X ?L R M lost rb"
    and M: "tab_ok hb M" "tab_map hb M = (tab_map hb (dw_flow_selected_level_map dw ?a))(f := level_of st (sint v) ls)"
    and R: "tab_ok hb R" "tab_map hb R = (tab_map hb (dw_flow_loss_rate_map dw ?a))(f \<mapsto> loss_rate_of ls (sint v))"
    using rate_and_level_stats [of dw st f "sint v" ls ?V X ?L lost rb] ok unfolding buf_ok_def by blast
  ultimately have eq: "update_flow_loss_volume hb st f d dw = new_stats dw ?V X ?L R M lost rb" by simp
  have L: "tab_ok hb ?L" "tab_map hb ?L = (tab_map hb (dw_flow_loss_volume_map dw ?a))(f := Some w)"
    using tab_set ok by (simp_all add: buf_ok_def)
  have X: "fx_ok hb X" "\<And>g. g \<noteq> f \<Longrightarrow> ht_kfs_fixSize_get hb X g = ht_kfs_fixSize_get hb (dw_fixed_flow_loss_volume_map dw ?a) g"
    using ok by (simp_all add: X_def buf_ok_def fx_add_ok fx_add_other)
  have V: "tab_ok hb ?V" "tab_map hb ?V = (tab_map hb ?V)(f \<mapsto> v)" using ok vol by (auto simp: buf_ok_def)
  have ls: "ls = (if loss_map_mem_type (sender st) = FIXED then fixed_loss_volume hb X f else stored (Some w))"
    by (simp add: ls_def fixed_def)
  have "dw_inv hb st (new_stats dw ?V X ?L R M lost rb) \<and> only_flow hb f dw (new_stats dw ?V X ?L R M lost rb)"
    using w0 X(2) by (intro new_stats_inv [OF inv V(1) X(1) L(1) R(1) M(1) V(2) v0 _ L(2) _ ls R(2) M(2)]) simp_all
  then show ?thesis using L w by (simp add: eq)
qed

end

text \<open>The remaining cases of the updates: nothing is counted for the flow.\<close>

lemma normal_volume_nonpos: "d \<le> 0 \<Longrightarrow> update_flow_normal_volume hb st f d dw = dw"
  by (simp add: update_flow_normal_volume_def)

lemma loss_volume_ignored:
  assumes "d \<le> 0 \<or> tab_map hb (dw_flow_volume_map dw (dw_active_idx dw)) f = None"
  shows "update_flow_loss_volume hb st f d dw =
    dw\<lparr>dw_volume_lost := (dw_volume_lost dw)(dw_active_idx dw := dw_volume_lost dw (dw_active_idx dw) + word_of_int d)\<rparr>"
  using assms by (auto simp: update_flow_loss_volume_def Let_def dw_get_defs tab_get)

lemma flow_consistent_cong:
  assumes "dw_flow_volume_map dw' i = dw_flow_volume_map dw i"
    "dw_fixed_flow_loss_volume_map dw' i = dw_fixed_flow_loss_volume_map dw i"
    "dw_flow_loss_volume_map dw' i = dw_flow_loss_volume_map dw i"
    "dw_flow_loss_rate_map dw' i = dw_flow_loss_rate_map dw i"
    "dw_flow_selected_level_map dw' i = dw_flow_selected_level_map dw i"
  shows "flow_consistent hb st dw' i g = flow_consistent hb st dw i g"
proof -
  have seen: "loss_seen hb st dw' i g = loss_seen hb st dw i g" by (simp add: loss_seen_def assms)
  show ?thesis unfolding flow_consistent_def assms seen by (rule refl)
qed

text \<open>Fields that the invariant does not read, or of which it only asks that the table is well-formed.\<close>

lemma dw_inv_frame:
  assumes "dw_inv hb st dw"
    and "dw_active_idx dw' < BUFFER_NUM" "dw_flow_volume_map dw' = dw_flow_volume_map dw"
    "dw_fixed_flow_loss_volume_map dw' = dw_fixed_flow_loss_volume_map dw"
    "dw_flow_loss_volume_map dw' = dw_flow_loss_volume_map dw" "dw_flow_loss_rate_map dw' = dw_flow_loss_rate_map dw"
    "dw_flow_selected_level_map dw' = dw_flow_selected_level_map dw"
    "\<And>i. i < 2 \<Longrightarrow> tab_ok hb (dw_flow_sample_map dw' i)" "\<And>i. i < 2 \<Longrightarrow> tab_ok hb (dw_flow_not_sampled_volume_map dw' i)"
    "tab_ok hb (dw_last_sent_flow_selected_level_map dw')" "vl_ok (dw_flow_recePktList_map dw')"
  shows "dw_inv hb st dw'"
proof -
  have "flow_consistent hb st dw' i g = flow_consistent hb st dw i g" for i g
    by (rule flow_consistent_cong) (simp_all add: assms)
  then show ?thesis using assms by (simp add: dw_inv_def buf_ok_def)
qed

lemma dw_inv_tables:
  assumes "dw_inv hb st dw" "i < 2"
  shows "tab_ok hb (dw_flow_volume_map dw i)" "tab_ok hb (dw_flow_selected_level_map dw i)"
    "tab_ok hb (dw_flow_sample_map dw i)" "tab_ok hb (dw_flow_not_sampled_volume_map dw i)"
  using assms less_2_cases [OF assms(2)] by (auto simp: dw_inv_def buf_ok_def)

lemma dw_inv_shared:
  assumes "dw_inv hb st dw"
  shows "tab_ok hb (dw_last_sent_flow_selected_level_map dw)" "vl_ok (dw_flow_recePktList_map dw)"
    "dw_active_idx dw < 2" "dw_active_idx dw < BUFFER_NUM"
  using assms by (auto simp: dw_inv_def BUFFER_NUM_def)

lemma dw_inv_volume_lost: "dw_inv hb st dw \<Longrightarrow> dw_inv hb st (dw\<lparr>dw_volume_lost := c\<rparr>)"
  by (rule dw_inv_frame) (simp_all add: dw_inv_tables dw_inv_shared)

lemma rotate_inv: "dw_inv hb st dw \<Longrightarrow> dw_inv hb st (data_ware_rotate_buffer dw)"
  by (rule dw_inv_frame) (simp_all add: dw_inv_tables dw_inv_shared data_ware_rotate_buffer_def BUFFER_NUM_def)

text \<open>The tables of buffer \<open>i\<close> are new and empty, and its counters are zero.\<close>

definition buffer_fresh :: "(flow_src \<Rightarrow> u32 \<Rightarrow> u32) \<Rightarrow> data_warehouse \<Rightarrow> nat \<Rightarrow> bool" where
  "buffer_fresh hb dw i \<longleftrightarrow> buf_ok hb dw i \<and>
    tab_map hb (dw_flow_volume_map dw i) = Map.empty \<and> tab_map hb (dw_flow_loss_volume_map dw i) = Map.empty \<and>
    tab_map hb (dw_flow_selected_level_map dw i) = Map.empty \<and> tab_map hb (dw_flow_loss_rate_map dw i) = Map.empty \<and>
    tab_map hb (dw_flow_sample_map dw i) = Map.empty \<and> tab_map hb (dw_flow_not_sampled_volume_map dw i) = Map.empty \<and>
    dw_pkt_num_sent dw i = 0 \<and> dw_volume_sent dw i = 0 \<and> dw_condition_pkt_num_sent dw i = 0 \<and> dw_volume_lost dw i = 0"

definition fresh_tables :: "cm_experiment_setting \<Rightarrow> nat \<Rightarrow> data_warehouse \<Rightarrow> data_warehouse" where
  "fresh_tables st i dw = dw\<lparr>
     dw_flow_volume_map := (dw_flow_volume_map dw)(i := ht_kfs_vi_create True),
     dw_fixed_flow_loss_volume_map := (dw_fixed_flow_loss_volume_map dw)
       (i := ht_kfs_fixSize_create True (float_to_int (fix_loss_map_bucket_size (sender st)))),
     dw_flow_loss_volume_map := (dw_flow_loss_volume_map dw)(i := ht_kfs_vi_create True),
     dw_flow_loss_rate_map := (dw_flow_loss_rate_map dw)(i := ht_kfs_vf_create True),
     dw_flow_selected_level_map := (dw_flow_selected_level_map dw)(i := ht_kfs_vi_create True),
     dw_flow_sample_map := (dw_flow_sample_map dw)(i := ht_kfs_vi_create True),
     dw_flow_not_sampled_volume_map := (dw_flow_not_sampled_volume_map dw)(i := ht_kfs_vi_create True)\<rparr>"

lemma run_allocs_append:
  "run_allocs (ss @ ts) dw = (case run_allocs ss dw of (dw', r) \<Rightarrow> if r then run_allocs ts dw' else (dw', False))"
  by (induction ss arbitrary: dw) (auto split: prod.split)

lemma run_buffer_allocs: "run_allocs (buffer_allocs st ok n i) dw = (dw', True) \<Longrightarrow> dw' = fresh_tables st i dw"
  by (simp add: buffer_allocs_def fresh_tables_def split: if_splits)

context flow_src_hash
begin

lemma normal_volume_inv:
  assumes "dw_inv hb st dw" "flow_volume hb dw f + d < 2147483648"
  shows "dw_inv hb st (update_flow_normal_volume hb st f d dw)"
  using normal_volume_spec [OF assms(1) _ assms(2)] assms(1) by (cases "0 < d") (auto simp: normal_volume_nonpos)

lemma loss_volume_inv:
  assumes "dw_inv hb st dw" "flow_loss hb dw f + d < 2147483648"
  shows "dw_inv hb st (update_flow_loss_volume hb st f d dw)"
proof (cases "d \<le> 0 \<or> tab_map hb (dw_flow_volume_map dw (dw_active_idx dw)) f = None")
  case False
  then show ?thesis using loss_volume_spec [OF assms(1) _ assms(2)] by auto
qed (use assms in \<open>simp add: loss_volume_ignored dw_inv_volume_lost\<close>)

lemma not_sampled_spec:
  fixes f :: flow_src
  assumes inv: "dw_inv hb st dw"
  defines "dw' \<equiv> update_flow_not_sampled_volume hb f dw" and "a \<equiv> dw_active_idx dw"
  shows "dw_inv hb st dw' \<and> dw_flow_volume_map dw' = dw_flow_volume_map dw \<and>
    (\<forall>i. i \<noteq> a \<longrightarrow> dw_flow_not_sampled_volume_map dw' i = dw_flow_not_sampled_volume_map dw i) \<and>
    tab_map hb (dw_flow_not_sampled_volume_map dw' a) =
      (case tab_map hb (dw_flow_not_sampled_volume_map dw a) f of
         Some v \<Rightarrow> if 0 \<le> sint v then tab_map hb (dw_flow_not_sampled_volume_map dw a)
           else (tab_map hb (dw_flow_not_sampled_volume_map dw a))(f \<mapsto> word_of_int (flow_volume hb dw f))
       | None \<Rightarrow> (tab_map hb (dw_flow_not_sampled_volume_map dw a))(f \<mapsto> word_of_int (flow_volume hb dw f)))"
proof -
  have a: "a < 2" using dw_inv_shared(3) [OF inv] by (simp add: a_def)
  have "dw_inv hb st dw'" unfolding dw'_def update_flow_not_sampled_volume_def
    using inv dw_inv_tables [OF inv] dw_inv_shared [OF inv] tab_set(1) [OF dw_inv_tables(4) [OF inv a]]
    by (auto simp: dw_get_defs a_def intro!: dw_inv_frame [OF inv])
  then show ?thesis
    using clamp_volume(1) [OF inv, of f] tab_set(2) [OF dw_inv_tables(4) [OF inv a]]
    by (auto simp: dw'_def update_flow_not_sampled_volume_def dw_get_defs a_def tab_get split: option.splits)
qed

text \<open>Fresh tables.\<close>

lemma fresh_buffer:
  assumes "tab_map hb (dw_flow_volume_map dw i) = Map.empty" "tab_map hb (dw_flow_loss_volume_map dw i) = Map.empty"
    "tab_map hb (dw_flow_selected_level_map dw i) = Map.empty"
  shows "flow_consistent hb st dw i f"
  using assms by (simp add: flow_consistent_def)

lemma fx_create:
  assumes "0 < float_to_int x"
  shows "fx_ok hb (ht_kfs_fixSize_create True (float_to_int x))"
proof -
  have "float_to_int x < 2147483648" by (cases x) (auto simp: Let_def int_range_def)
  with assms show ?thesis by (auto simp: fx_ok_def ht_kfs_fixSize_create_def fx_wf_def)
qed

lemma fresh_tables_fresh:
  assumes "0 < float_to_int (fix_loss_map_bucket_size (sender st))"
  shows "buffer_fresh hb (zero_counters i (fresh_tables st i dw)) i"
  using fx_create [OF assms] by (simp add: buffer_fresh_def buf_ok_def zero_counters_def fresh_tables_def tab_create)

lemma reset_spec:
  assumes inv: "dw_inv hb st dw" and sz: "0 < float_to_int (fix_loss_map_bucket_size (sender st))"
    and r: "data_warehouse_reset_noactive_buf st ok dw = (dw', 0)"
  shows "dw_inv hb st dw' \<and> buffer_fresh hb dw' (na_idx dw) \<and> dw_active_idx dw' = dw_active_idx dw \<and>
    tab_map hb (dw_last_sent_flow_selected_level_map dw') = Map.empty \<and>
    dw_flow_recePktList_map dw' = dw_flow_recePktList_map dw"
proof -
  let ?n = "na_idx dw" and ?a = "dw_active_idx dw"
  let ?d = "fresh_tables st ?n dw\<lparr>dw_last_sent_flow_selected_level_map := ht_kfs_vi_create True\<rparr>"
  have dw': "dw' = zero_counters ?n ?d"
    using r by (auto simp: data_warehouse_reset_noactive_buf_def Let_def run_allocs_append last_sent_alloc_def
        fresh_tables_def destroyed_tables_def split: prod.splits if_splits dest!: run_buffer_allocs)
  then have act: "dw_active_idx dw' = ?a" by (simp add: zero_counters_def fresh_tables_def)
  have fr: "buffer_fresh hb dw' ?n"
    using fresh_tables_fresh [OF sz, of ?n dw]
    by (simp add: dw' buffer_fresh_def buf_ok_def zero_counters_def fresh_tables_def)
  have sent: "tab_map hb (dw_last_sent_flow_selected_level_map dw') = Map.empty"
    "tab_ok hb (dw_last_sent_flow_selected_level_map dw')" "vl_ok (dw_flow_recePktList_map dw')"
    using dw_inv_shared [OF inv] by (simp_all add: dw' zero_counters_def fresh_tables_def tab_create)
  have "?a = 0 \<and> ?n = 1 \<or> ?a = 1 \<and> ?n = 0" using less_2_cases [OF dw_inv_shared(3) [OF inv]] by (auto simp: na_idx_def BUFFER_NUM_def)
  moreover have "flow_consistent hb st dw' ?n f" for f using fr by (intro fresh_buffer) (simp_all add: buffer_fresh_def)
  moreover have ne: "?a \<noteq> ?n" using calculation(1) by auto
  have "flow_consistent hb st dw' ?a f = flow_consistent hb st dw ?a f" for f
    by (rule flow_consistent_cong) (simp_all add: ne dw' zero_counters_def fresh_tables_def)
  then have "flow_consistent hb st dw' ?a f" "buf_ok hb dw' ?a" for f
    using dw_inv_active(1) [OF inv] dw_inv_active(2) [OF inv, of f] ne
    by (simp_all add: dw' zero_counters_def fresh_tables_def buf_ok_def)
  ultimately have "dw_inv hb st dw'" using fr sent act by (auto simp: dw_inv_def buffer_fresh_def BUFFER_NUM_def)
  moreover have "dw_flow_recePktList_map dw' = dw_flow_recePktList_map dw"
    by (simp add: dw' zero_counters_def fresh_tables_def)
  ultimately show ?thesis using fr act sent by simp
qed

lemma init_spec:
  assumes sz: "0 < float_to_int (fix_loss_map_bucket_size (sender st))"
    and r: "data_warehouse_init st ok dev file dw0 = Inr (dw, 0)"
  shows "dw_inv hb st dw \<and> buffer_fresh hb dw 0 \<and> buffer_fresh hb dw 1 \<and> dw_active_idx dw = 0 \<and>
    tab_map hb (dw_last_sent_flow_selected_level_map dw) = Map.empty \<and> dw_flow_recePktList_map dw = ht_vl_create True"
proof -
  obtain tm where dw: "dw = (zero_counters 1 (fresh_tables st 1 (zero_counters 0 (fresh_tables st 0
      (dw0\<lparr>dw_task_manager := tm, dw_flow_recePktList_map := ht_vl_create True,
        dw_last_sent_flow_selected_level_map := ht_kfs_vi_create True\<rparr>)))))\<lparr>dw_active_idx := 0\<rparr>"
    using r by (auto simp: data_warehouse_init_def Let_def run_allocs_append last_sent_alloc_def
        split: sum.splits option.splits prod.splits if_splits dest!: run_buffer_allocs)
  have fr: "buffer_fresh hb dw i" if "i < 2" for i
    using that less_2_cases [OF that] fresh_tables_fresh [OF sz, of i]
    by (auto simp: dw buffer_fresh_def buf_ok_def zero_counters_def fresh_tables_def)
  then have "flow_consistent hb st dw i f" if "i < 2" for i f using that by (intro fresh_buffer) (simp_all add: buffer_fresh_def)
  moreover have "vl_ok (ht_vl_create True)"
    using vl_create_wf by (auto simp: vl_ok_def ht_vl_create_def)
  ultimately show ?thesis using fr [of 0] fr [of 1]
    by (simp add: dw_inv_def) (simp add: buffer_fresh_def dw BUFFER_NUM_def zero_counters_def fresh_tables_def tab_create)
qed

end

section \<open>Sequences of updates\<close>

text \<open>The updates the threads of the sender issue between two rotations.\<close>

datatype dw_update = Normal_volume flow_src int | Loss_volume flow_src int | Not_sampled flow_src

primrec dw_apply :: "(flow_src \<Rightarrow> u32 \<Rightarrow> u32) \<Rightarrow> cm_experiment_setting \<Rightarrow> dw_update \<Rightarrow> data_warehouse \<Rightarrow> data_warehouse" where
  "dw_apply hb st (Normal_volume f d) dw = update_flow_normal_volume hb st f d dw"
| "dw_apply hb st (Loss_volume f d) dw = update_flow_loss_volume hb st f d dw"
| "dw_apply hb st (Not_sampled f) dw = update_flow_not_sampled_volume hb f dw"

text \<open>An update leaves everything outside the active buffer alone.\<close>

definition other_buffers :: "data_warehouse \<Rightarrow> data_warehouse \<Rightarrow> bool" where
  "other_buffers dw dw' \<longleftrightarrow> dw_active_idx dw' = dw_active_idx dw \<and>
    (\<forall>i. i \<noteq> dw_active_idx dw \<longrightarrow>
      dw_flow_volume_map dw' i = dw_flow_volume_map dw i \<and>
      dw_fixed_flow_loss_volume_map dw' i = dw_fixed_flow_loss_volume_map dw i \<and>
      dw_flow_loss_volume_map dw' i = dw_flow_loss_volume_map dw i \<and>
      dw_flow_loss_rate_map dw' i = dw_flow_loss_rate_map dw i \<and>
      dw_flow_selected_level_map dw' i = dw_flow_selected_level_map dw i \<and>
      dw_flow_not_sampled_volume_map dw' i = dw_flow_not_sampled_volume_map dw i \<and>
      dw_volume_lost dw' i = dw_volume_lost dw i)"

lemma rate_level_other: "other_buffers dw (set_rate_and_level hb st f v l dw)"
  by (simp add: set_rate_and_level_def update_flow_selected_level_map_def set_active_level_def Let_def other_buffers_def)

lemma other_buffers_trans: "other_buffers dw dw' \<Longrightarrow> other_buffers dw' dw'' \<Longrightarrow> other_buffers dw dw''"
  by (simp add: other_buffers_def)

lemma dw_apply_other: "other_buffers dw (dw_apply hb st u dw)"
proof (cases u)
  case (Loss_volume f d)
  then show ?thesis
    by (auto simp: update_flow_loss_volume_def Let_def split: prod.split intro!: other_buffers_trans [OF _ rate_level_other])
      (simp_all add: other_buffers_def)
next
  case (Normal_volume f d)
  then show ?thesis
    by (auto simp: update_flow_normal_volume_def Let_def intro!: other_buffers_trans [OF _ rate_level_other])
      (simp_all add: other_buffers_def)
qed (simp add: update_flow_not_sampled_volume_def Let_def other_buffers_def)

lemma rate_level_not_sampled [simp]:
  "dw_flow_not_sampled_volume_map (set_rate_and_level hb st f v l dw) = dw_flow_not_sampled_volume_map dw"
  by (simp add: set_rate_and_level_def update_flow_selected_level_map_def set_active_level_def Let_def)

lemma volume_updates_not_sampled [simp]:
  "dw_flow_not_sampled_volume_map (update_flow_normal_volume hb st f d dw) = dw_flow_not_sampled_volume_map dw"
  "dw_flow_not_sampled_volume_map (update_flow_loss_volume hb st f d dw) = dw_flow_not_sampled_volume_map dw"
  by (simp_all add: update_flow_normal_volume_def update_flow_loss_volume_def Let_def split: prod.split)

context flow_src_hash
begin

text \<open>A recorded not-sampled volume stays, whatever updates follow.\<close>

lemma not_sampled_step:
  assumes "tab_ok hb (data_warehouse_get_flow_not_sampled_volume_map dw)"
    "tab_map hb (data_warehouse_get_flow_not_sampled_volume_map dw) f = Some v" "0 \<le> sint v"
  shows "tab_ok hb (data_warehouse_get_flow_not_sampled_volume_map (dw_apply hb st u dw)) \<and>
    tab_map hb (data_warehouse_get_flow_not_sampled_volume_map (dw_apply hb st u dw)) f = Some v"
proof (cases u)
  case (Not_sampled g)
  then show ?thesis using assms tab_set [OF assms(1)]
    by (cases "g = f") (simp_all add: update_flow_not_sampled_volume_def Let_def dw_get_defs tab_get)
qed (use assms dw_apply_other [of dw hb st u] in \<open>simp_all add: dw_get_defs other_buffers_def\<close>)

lemma not_sampled_run:
  assumes "tab_ok hb (data_warehouse_get_flow_not_sampled_volume_map dw)"
    "tab_map hb (data_warehouse_get_flow_not_sampled_volume_map dw) f = Some v" "0 \<le> sint v"
  shows "tab_map hb (data_warehouse_get_flow_not_sampled_volume_map (fold (dw_apply hb st) us dw)) f = Some v"
  using assms(1,2)
proof (induction us arbitrary: dw)
  case (Cons u us)
  from not_sampled_step [OF Cons.prems assms(3), of st u] Cons.IH show ?case by simp
qed simp

end

text \<open>Bytes added for flow \<open>f\<close> by a list of packets.\<close>

definition bytes_of :: "flow_src \<Rightarrow> (flow_src \<times> int) list \<Rightarrow> int" where
  "bytes_of f ps = sum_list (map snd (filter (\<lambda>p. fst p = f) ps))"

lemma bytes_of_Cons [simp]: "bytes_of f ((g, d) # ps) = (if g = f then d + bytes_of f ps else bytes_of f ps)"
  by (simp add: bytes_of_def)

lemma bytes_of_Nil [simp]: "bytes_of f [] = 0"
  by (simp add: bytes_of_def)

lemma bytes_of_nonneg: "list_all (\<lambda>p. 0 < snd p) ps \<Longrightarrow> 0 \<le> bytes_of f ps"
  by (induction ps) auto

context flow_src_hash
begin

lemma volume_run:
  assumes "dw_inv hb st dw" "list_all (\<lambda>p. 0 < snd p) ps" "\<forall>f. flow_volume hb dw f + bytes_of f ps < 2147483648"
  shows "dw_inv hb st (fold (\<lambda>(f, d). update_flow_normal_volume hb st f d) ps dw) \<and>
    (\<forall>f. flow_volume hb (fold (\<lambda>(f, d). update_flow_normal_volume hb st f d) ps dw) f = flow_volume hb dw f + bytes_of f ps)"
  using assms
proof (induction ps arbitrary: dw)
  case (Cons p ps)
  obtain g d where p: "p = (g, d)" by fastforce
  have ps: "list_all (\<lambda>p. 0 < snd p) ps" and d: "0 < d" using Cons.prems(2) p by simp_all
  have "flow_volume hb dw g + d < 2147483648"
    using Cons.prems(3) bytes_of_nonneg [OF ps, of g] by (auto simp: p dest: spec [of _ g])
  note u = normal_volume_spec [OF Cons.prems(1) d this]
  define dw1 where "dw1 = update_flow_normal_volume hb st g d dw"
  have eq: "flow_volume hb dw1 f = flow_volume hb dw f + (if g = f then d else 0)" for f
    using u by (auto simp: dw1_def [symmetric] only_flow_def)
  have "\<forall>f. flow_volume hb dw1 f + bytes_of f ps < 2147483648"
  proof
    fix f
    show "flow_volume hb dw1 f + bytes_of f ps < 2147483648"
      using spec [OF Cons.prems(3), of f] unfolding eq by (auto simp: p add.assoc split: if_splits)
  qed
  from Cons.IH [OF _ ps this] u eq show ?case by (simp add: p dw1_def [symmetric])
qed simp

end

section \<open>Properties\<close>

text \<open>A configuration for the witnesses.\<close>

definition dw_setting :: cm_experiment_setting where
  "dw_setting = setting_zero\<lparr>sender := (sender setting_zero)\<lparr>fix_loss_map_bucket_size := Fin 100\<rparr>\<rparr>"

lemma dw_setting_bucket: "0 < float_to_int (fix_loss_map_bucket_size (sender dw_setting))"
  by (simp add: dw_setting_def int_range_def)

lemma dw_sample_init:
  "\<exists>dw. data_warehouse_init st (\<lambda>_. True) (Some ''h3-eth0'') (Some [''#id s r sw'', ''1 3 5 7 8'']) dw0 = Inr (dw, 0)"
proof -
  have "map_sum id (\<lambda>x. x \<noteq> None) (init_tasks_info (Some ''h3-eth0'') (Some [''#id s r sw'', ''1 3 5 7 8''])) = Inr True"
    by code_simp
  then obtain tm where "init_tasks_info (Some ''h3-eth0'') (Some [''#id s r sw'', ''1 3 5 7 8'']) = Inr (Some tm)"
    by (cases "init_tasks_info (Some ''h3-eth0'') (Some [''#id s r sw'', ''1 3 5 7 8''])") auto
  then show ?thesis by (simp add: data_warehouse_init_def Let_def last_sent_alloc_def buffer_allocs_def)
qed

lemma dw_sample_empty:
  "\<exists>dw. dw_inv flow_src_hash_bin dw_setting dw \<and>
    tab_map flow_src_hash_bin (dw_flow_volume_map dw (dw_active_idx dw)) = Map.empty \<and>
    tab_map flow_src_hash_bin (dw_flow_loss_volume_map dw (dw_active_idx dw)) = Map.empty"
proof -
  obtain dw where "data_warehouse_init dw_setting (\<lambda>_. True) (Some ''h3-eth0'') (Some [''#id s r sw'', ''1 3 5 7 8'']) dw_zero = Inr (dw, 0)"
    using dw_sample_init by blast
  from murmur.init_spec [OF dw_setting_bucket this] show ?thesis
    by (intro exI [of _ dw]) (auto simp: buffer_fresh_def)
qed

text \<open>
  C10: volume accounting and classification.  After any sequence of packets (flow, length), the stored
  volume of every flow is its old volume plus the bytes of its own packets, provided no flow passes
  \<open>2 ^ 31\<close> bytes in the interval; the stored level of every flow with volume is the level that the
  thresholds give for its volume, its loss and their quotient as a \<^verbatim>\<open>float\<close>, and its stored loss
  rate is that quotient.
\<close>

theorem volume_accounting:
  assumes "flow_src_hash hb" "dw_inv hb st dw" "list_all (\<lambda>p. 0 < snd p) ps"
    and "\<forall>f. flow_volume hb dw f + bytes_of f ps < 2147483648"
  defines "dw' \<equiv> fold (\<lambda>(f, d). update_flow_normal_volume hb st f d) ps dw"
  shows "flow_volume hb dw' f = flow_volume hb dw f + bytes_of f ps \<and>
    (\<forall>v. tab_map hb (data_warehouse_get_flow_volume_map dw') f = Some v \<longrightarrow>
      tab_map hb (data_warehouse_get_flow_selected_level_map dw') f =
        level_of st (sint v) (loss_seen hb st dw' (dw_active_idx dw') f) \<and>
      tab_map hb (data_warehouse_get_flow_loss_rate_map dw') f =
        Some (loss_rate_of (loss_seen hb st dw' (dw_active_idx dw') f) (sint v)))"
proof -
  note r = flow_src_hash.volume_run [OF assms(1-4)]
  then have inv: "dw_inv hb st dw'" and vol: "flow_volume hb dw' f = flow_volume hb dw f + bytes_of f ps"
    by (simp_all add: dw'_def)
  from dw_inv_active(2) [OF inv, of f] vol show ?thesis by (auto simp: dw_get_defs flow_consistent_def)
qed

theorem volume_accounting_witness:
  "\<exists>dw. dw_inv flow_src_hash_bin dw_setting dw \<and>
    flow_volume flow_src_hash_bin (fold (\<lambda>(f, d). update_flow_normal_volume flow_src_hash_bin dw_setting f d)
      [(\<lparr>fs_srcip = 1, fs_dstip = 2\<rparr>, 60), (\<lparr>fs_srcip = 7, fs_dstip = 2\<rparr>, 1500), (\<lparr>fs_srcip = 1, fs_dstip = 2\<rparr>, 40)] dw)
      \<lparr>fs_srcip = 1, fs_dstip = 2\<rparr> = 100"
proof -
  obtain dw where dw: "dw_inv flow_src_hash_bin dw_setting dw"
    "tab_map flow_src_hash_bin (dw_flow_volume_map dw (dw_active_idx dw)) = Map.empty"
    using dw_sample_empty by blast
  show ?thesis
    using volume_accounting [OF murmur.flow_src_hash_axioms dw(1),
        of "[(\<lparr>fs_srcip = 1, fs_dstip = 2\<rparr>, 60), (\<lparr>fs_srcip = 7, fs_dstip = 2\<rparr>, 1500), (\<lparr>fs_srcip = 1, fs_dstip = 2\<rparr>, 40)]"
          "\<lparr>fs_srcip = 1, fs_dstip = 2\<rparr>"] dw
    by (intro exI [of _ dw]) simp
qed

text \<open>
  Loss accounting.  A loss report of a positive number of bytes for a flow with volume adds them
  to the stored loss of that flow, keeps its volume, changes the statistics of no other flow, and keeps
  level and rate in agreement with the new loss.
\<close>

lemma loss_accounting:
  assumes "flow_src_hash hb" "dw_inv hb st dw" "0 < d" "flow_loss hb dw f + d < 2147483648"
    and "ht_kfs_vi_get hb (data_warehouse_get_flow_volume_map dw) f \<ge> 0"
  defines "dw' \<equiv> update_flow_loss_volume hb st f d dw"
  shows "dw_inv hb st dw' \<and> only_flow hb f dw dw' \<and> flow_loss hb dw' f = flow_loss hb dw f + d \<and>
    flow_volume hb dw' f = flow_volume hb dw f"
proof -
  obtain v where "tab_map hb (dw_flow_volume_map dw (dw_active_idx dw)) f = Some v"
    using assms(5) by (auto simp: dw_get_defs tab_get split: option.splits)
  from flow_src_hash.loss_volume_spec [OF assms(1-4) this] show ?thesis by (simp add: dw'_def)
qed

text \<open>
  The not-sampled volume of a flow is its volume at the first time it is selected: it is recorded
  once in an interval, and no later update changes it.
\<close>

theorem not_sampled_once:
  assumes "flow_src_hash hb" "dw_inv hb st dw"
    and "ht_kfs_vi_get hb (data_warehouse_get_flow_not_sampled_volume_map dw) f < 0"
  shows "ht_kfs_vi_get hb (data_warehouse_get_flow_not_sampled_volume_map
      (fold (dw_apply hb st) us (update_flow_not_sampled_volume hb f dw))) f = flow_volume hb dw f"
proof -
  let ?dw = "update_flow_not_sampled_volume hb f dw"
  note n = flow_src_hash.not_sampled_spec [OF assms(1,2), of f]
  have act: "dw_active_idx ?dw = dw_active_idx dw" by (simp add: update_flow_not_sampled_volume_def Let_def)
  have v0: "0 \<le> flow_volume hb dw f" using dw_inv_nonneg(1) [OF assms(2)] .
  have "int_range (flow_volume hb dw f)"
    using sint_ge [where 'a = 32] sint_lt [where 'a = 32] by (simp add: int_range_def split: option.split)
  then have v: "sint (word_of_int (flow_volume hb dw f) :: u32) = flow_volume hb dw f" by (rule sint_word_of_int_range)
  have "tab_ok hb (data_warehouse_get_flow_not_sampled_volume_map ?dw)"
    using dw_inv_tables(4) [OF conjunct1 [OF n]] dw_inv_shared(3) [OF assms(2)] by (simp add: dw_get_defs act)
  moreover have "tab_map hb (data_warehouse_get_flow_not_sampled_volume_map ?dw) f = Some (word_of_int (flow_volume hb dw f))"
    using n assms(3) by (auto simp: dw_get_defs act tab_get split: option.splits)
  ultimately show ?thesis
    using flow_src_hash.not_sampled_run [OF assms(1)] v0 v by (simp add: tab_get)
qed

theorem not_sampled_once_witness:
  "\<exists>dw. dw_inv flow_src_hash_bin dw_setting dw \<and>
    ht_kfs_vi_get flow_src_hash_bin (data_warehouse_get_flow_not_sampled_volume_map
      (fold (dw_apply flow_src_hash_bin dw_setting) [Normal_volume \<lparr>fs_srcip = 1, fs_dstip = 2\<rparr> 60, Not_sampled \<lparr>fs_srcip = 1, fs_dstip = 2\<rparr>]
        (update_flow_not_sampled_volume flow_src_hash_bin \<lparr>fs_srcip = 1, fs_dstip = 2\<rparr> dw))) \<lparr>fs_srcip = 1, fs_dstip = 2\<rparr> = 0"
proof -
  obtain dw where "data_warehouse_init dw_setting (\<lambda>_. True) (Some ''h3-eth0'') (Some [''#id s r sw'', ''1 3 5 7 8'']) dw_zero = Inr (dw, 0)"
    using dw_sample_init by blast
  from murmur.init_spec [OF dw_setting_bucket this]
  have dw: "dw_inv flow_src_hash_bin dw_setting dw" "buffer_fresh flow_src_hash_bin dw (dw_active_idx dw)" by auto
  then have "ht_kfs_vi_get flow_src_hash_bin (data_warehouse_get_flow_not_sampled_volume_map dw) \<lparr>fs_srcip = 1, fs_dstip = 2\<rparr> < 0"
    by (simp add: buffer_fresh_def dw_get_defs tab_get)
  note n = not_sampled_once [OF murmur.flow_src_hash_axioms dw(1) this]
  have "flow_volume flow_src_hash_bin dw \<lparr>fs_srcip = 1, fs_dstip = 2\<rparr> = 0" using dw(2) by (simp add: buffer_fresh_def)
  with n dw(1) show ?thesis by metis
qed

end
