(* ===== verification/Bytes.thy ===== *)
theory Bytes
  imports CM_Prelude "HOL-Library.Monad_Syntax"
begin

text \<open>
  Byte buffers.  A packet buffer is the list of its bytes; a load or store outside it has the value
  \<open>None\<close> (in C: undefined behaviour).  \<open>ld16\<close> and \<open>ld32\<close> load in host (little-endian) order;
  \<^verbatim>\<open>ntohs\<close> and \<^verbatim>\<open>ntohl\<close> swap to network order and are their own inverses.
\<close>

definition ld8 :: "u8 list \<Rightarrow> nat \<Rightarrow> u8 option" where
  "ld8 b i = (if i < length b then Some (b ! i) else None)"

definition pack16 :: "u8 \<Rightarrow> u8 \<Rightarrow> u16" where
  "pack16 lo hi = ucast lo OR push_bit 8 (ucast hi)"

definition pack32 :: "u16 \<Rightarrow> u16 \<Rightarrow> u32" where
  "pack32 lo hi = ucast lo OR push_bit 16 (ucast hi)"

definition ld16 :: "u8 list \<Rightarrow> nat \<Rightarrow> u16 option" where
  "ld16 b i = do { x \<leftarrow> ld8 b i; y \<leftarrow> ld8 b (i + 1); Some (pack16 x y) }"

definition ld32 :: "u8 list \<Rightarrow> nat \<Rightarrow> u32 option" where
  "ld32 b i = do { x \<leftarrow> ld16 b i; y \<leftarrow> ld16 b (i + 2); Some (pack32 x y) }"

definition st16 :: "u8 list \<Rightarrow> nat \<Rightarrow> u16 \<Rightarrow> u8 list option" where
  "st16 b i w = (if i + 1 < length b then Some (b[i := ucast w, i + 1 := ucast (drop_bit 8 w)]) else None)"

text \<open>The bytes of a word in memory.\<close>

definition bytes16 :: "u16 \<Rightarrow> u8 list" where
  "bytes16 w = [ucast w, ucast (drop_bit 8 w)]"

definition bytes_of_32 :: "u32 \<Rightarrow> u8 list" where
  "bytes_of_32 w = bytes16 (ucast w) @ bytes16 (ucast (drop_bit 16 w))"

definition ntohs :: "u16 \<Rightarrow> u16" where
  "ntohs w = pack16 (ucast (drop_bit 8 w)) (ucast w)"

definition ntohl :: "u32 \<Rightarrow> u32" where
  "ntohl w = pack32 (ntohs (ucast (drop_bit 16 w))) (ntohs (ucast w))"

abbreviation htons :: "u16 \<Rightarrow> u16" where "htons \<equiv> ntohs"
abbreviation htonl :: "u32 \<Rightarrow> u32" where "htonl \<equiv> ntohl"

section \<open>Lemmas\<close>

lemma bit_pack16 [bit_simps]: "bit (pack16 lo hi) n \<longleftrightarrow> n < 16 \<and> (if n < 8 then bit lo n else bit hi (n - 8))"
  unfolding pack16_def using bit_imp_le_length [of lo n] by (auto simp: bit_simps)

lemma bit_pack32 [bit_simps]: "bit (pack32 lo hi) n \<longleftrightarrow> n < 32 \<and> (if n < 16 then bit lo n else bit hi (n - 16))"
  unfolding pack32_def using bit_imp_le_length [of lo n] by (auto simp: bit_simps)

lemma pack16_split [simp]: "pack16 (ucast w) (ucast (drop_bit 8 w)) = w"
  by (rule bit_word_eqI) (auto simp: bit_simps)

lemma pack32_split [simp]: "pack32 (ucast w) (ucast (drop_bit 16 w)) = w"
  by (rule bit_word_eqI) (auto simp: bit_simps)

lemma ucast_pack16 [simp]: "ucast (pack16 lo hi) = lo" "ucast (drop_bit 8 (pack16 lo hi)) = hi"
  by (rule bit_word_eqI; auto simp: bit_simps)+

lemma ucast_pack32 [simp]: "ucast (pack32 lo hi) = lo" "ucast (drop_bit 16 (pack32 lo hi)) = hi"
  by (rule bit_word_eqI; auto simp: bit_simps)+

lemma ntohs_ntohs [simp]: "ntohs (ntohs w) = w"
  by (simp add: ntohs_def)

lemma ntohl_ntohl [simp]: "ntohl (ntohl w) = w"
  by (simp add: ntohl_def)

lemma ntohs_inj [simp]: "ntohs v = ntohs w \<longleftrightarrow> v = w"
  by (metis ntohs_ntohs)

lemma ld16_Some: "ld16 b i = Some w \<longleftrightarrow> i + 1 < length b \<and> w = pack16 (b ! i) (b ! (i + 1))"
  by (auto simp: ld16_def ld8_def split: if_splits)

lemma ld16_st16:
  assumes "st16 b i w = Some b'"
  shows "ld16 b' i = Some w" "length b' = length b"
    "j + 1 < i \<or> i + 1 < j \<Longrightarrow> ld16 b' j = ld16 b j"
    "j \<noteq> i \<Longrightarrow> j \<noteq> i + 1 \<Longrightarrow> b' ! j = b ! j"
  using assms by (auto simp: st16_def ld16_def ld8_def nth_list_update split: if_splits)

lemma ld8_st16:
  "st16 b i w = Some b' \<Longrightarrow> j < i \<or> i + 1 < j \<Longrightarrow> ld8 b' j = ld8 b j"
  by (auto simp: st16_def ld8_def nth_list_update split: if_splits)

text \<open>Loads from a concatenation of blocks.\<close>

lemma ld8_append: "ld8 (xs @ ys) i = (if i < length xs then ld8 xs i else ld8 ys (i - length xs))"
  by (auto simp: ld8_def nth_append)

lemma ld16_skip: "length xs \<le> i \<Longrightarrow> ld16 (xs @ ys) i = ld16 ys (i - length xs)"
  by (simp add: ld16_def ld8_append Suc_diff_le)

lemma ld32_skip: "length xs \<le> i \<Longrightarrow> ld32 (xs @ ys) i = ld32 ys (i - length xs)"
  by (simp add: ld32_def ld16_skip Suc_diff_le)

lemma ld16_Cons: "0 < i \<Longrightarrow> ld16 (x # xs) i = ld16 xs (i - 1)"
  using ld16_skip [of "[x]" i xs] by simp

lemma ld32_Cons: "0 < i \<Longrightarrow> ld32 (x # xs) i = ld32 xs (i - 1)"
  using ld32_skip [of "[x]" i xs] by simp

lemma ld16_bytes16 [simp]: "ld16 (bytes16 w @ ys) 0 = Some w"
  by (simp add: ld16_def ld8_def bytes16_def)

lemma ld32_bytes [simp]: "ld32 (bytes_of_32 w @ ys) 0 = Some w"
  by (simp add: ld32_def ld16_def ld8_def bytes_of_32_def bytes16_def)

lemma length_bytes [simp]: "length (bytes16 w) = 2" "length (bytes_of_32 v) = 4"
  by (simp_all add: bytes16_def bytes_of_32_def)

end
