(* ===== verification/Vlan_Tag.thy ===== *)
theory Vlan_Tag
  imports Bytes Flow
begin

text \<open>
  \<^verbatim>\<open>tcpreplay/src/vlan_tag.c\<close> and the tag macros of \<^verbatim>\<open>public_lib/packet.h\<close>: the 16 bits of the VLAN
  tag carry the sampled mark (bit 0), the selected level (bits 1 and 2) and one bit per switch (bit 3
  for the first, bits 5 to 15 for the others).  The field is read and written in host byte order.

  The offsets are those of \<^verbatim>\<open>tcpr_ethernet_hdr\<close> and \<^verbatim>\<open>tcpr_802_1q_hdr\<close>: the type at byte 12, the tag at
  byte 14, the inner type at byte 16.
\<close>

section \<open>Constants and macros\<close>

definition DLT_JUNIPER_ETHER :: int where "DLT_JUNIPER_ETHER = 178"
definition ETHERTYPE_VLAN :: u16 where "ETHERTYPE_VLAN = 0x8100"
definition ETHERTYPE_IP :: u16 where "ETHERTYPE_IP = 0x0800"

definition TAG_VLAN_PACKET_SAMPLED_VAL :: u16 where "TAG_VLAN_PACKET_SAMPLED_VAL = 1"
definition SELECTED_FLOW_VAL_MASK :: u32 where "SELECTED_FLOW_VAL_MASK = 6"

definition TAG_VLAN_SELECTED_FLOW_VAL :: "int \<Rightarrow> u16" where
  "TAG_VLAN_SELECTED_FLOW_VAL selected_level =
    ucast (push_bit 1 (word_of_int selected_level :: u32) AND SELECTED_FLOW_VAL_MASK)"

definition GET_VLAN_SELECTED_FLOW_VAL :: "u16 \<Rightarrow> u32" where
  "GET_VLAN_SELECTED_FLOW_VAL vlan_val = drop_bit 1 (ucast vlan_val AND SELECTED_FLOW_VAL_MASK)"

definition TAG_VLAN_FOR_SWITCH_I :: "int \<Rightarrow> u16" where
  "TAG_VLAN_FOR_SWITCH_I i =
    ucast (if i < 1 then push_bit (nat (i + 3)) (1 :: u32) else push_bit (nat (i + 4)) 1)"

section \<open>The functions\<close>

text \<open>The offset of the Ethernet header behind a Juniper header.\<close>

definition l2_start :: "u8 list \<Rightarrow> int \<Rightarrow> nat option" where
  "l2_start packet_buf datalink =
    (if datalink = DLT_JUNIPER_ETHER then do {
       x \<leftarrow> ld8 packet_buf 3;
       if x AND 0x80 = 0x80 then do { l \<leftarrow> ld16 packet_buf 4; Some (unat (ntohs l) + 6) } else Some 4
     } else Some 0)"

definition is_vlan_frame :: "u8 list \<Rightarrow> int \<Rightarrow> (nat \<times> bool) option" where
  "is_vlan_frame packet_buf datalink = do {
     l2_len \<leftarrow> l2_start packet_buf datalink;
     t \<leftarrow> ld16 packet_buf (l2_len + 12);
     Some (l2_len, ntohs t = ETHERTYPE_VLAN)
   }"

text \<open>Read-modify-write of the tag of a VLAN frame; any other frame is left alone.\<close>

definition update_tag :: "u8 list \<Rightarrow> int \<Rightarrow> (u16 \<Rightarrow> u16) \<Rightarrow> u8 list option" where
  "update_tag packet_buf datalink f = do {
     (l2_len, vlan) \<leftarrow> is_vlan_frame packet_buf datalink;
     if vlan then do { v \<leftarrow> ld16 packet_buf (l2_len + 14); st16 packet_buf (l2_len + 14) (f v) }
     else Some packet_buf
   }"

definition tag_packet_as_sampled :: "u8 list \<Rightarrow> int \<Rightarrow> u8 list option" where
  "tag_packet_as_sampled packet_buf datalink =
    update_tag packet_buf datalink (\<lambda>v. v OR TAG_VLAN_PACKET_SAMPLED_VAL)"

definition check_packet_tagged_as_sampled :: "u8 list \<Rightarrow> int \<Rightarrow> bool option" where
  "check_packet_tagged_as_sampled packet_buf datalink = do {
     (l2_len, vlan) \<leftarrow> is_vlan_frame packet_buf datalink;
     if vlan then do { v \<leftarrow> ld16 packet_buf (l2_len + 14); Some (v AND TAG_VLAN_PACKET_SAMPLED_VAL \<noteq> 0) }
     else Some False
   }"

definition tag_selected_flow_level_in_normal_packet :: "u8 list \<Rightarrow> int \<Rightarrow> int \<Rightarrow> u8 list option" where
  "tag_selected_flow_level_in_normal_packet packet_buf datalink selected_level =
    update_tag packet_buf datalink (\<lambda>v. v OR TAG_VLAN_SELECTED_FLOW_VAL selected_level)"

definition switch_bits :: "int list \<Rightarrow> u16 \<Rightarrow> u16" where
  "switch_bits switchides v = fold (\<lambda>switchid v. v OR TAG_VLAN_FOR_SWITCH_I (switchid - 1)) switchides v"

definition tag_packet_for_switches :: "u8 list \<Rightarrow> int \<Rightarrow> int list \<Rightarrow> nat \<Rightarrow> u8 list option" where
  "tag_packet_for_switches packet_buf datalink switchides num_switch =
    update_tag packet_buf datalink (switch_bits (take num_switch switchides))"

text \<open>The field \<^verbatim>\<open>vlan_priority_c_vid\<close> of the header of a condition packet.\<close>

definition tag_packet_selected_level :: "int \<Rightarrow> u16" where
  "tag_packet_selected_level selected_level = TAG_VLAN_SELECTED_FLOW_VAL selected_level"

definition tag_packet_as_unselected :: u16 where
  "tag_packet_as_unselected = TAG_VLAN_SELECTED_FLOW_VAL 0"

section \<open>Which bits are which\<close>

text \<open>The bit a switch id (from 1) is mapped to.\<close>

definition switch_bit :: "int \<Rightarrow> nat" where
  "switch_bit sid = (if sid \<le> 1 then nat (sid + 2) else nat (sid + 3))"

lemma bit_switch_tag:
  assumes "1 \<le> sid" "sid \<le> 12"
  shows "bit (TAG_VLAN_FOR_SWITCH_I (sid - 1)) n \<longleftrightarrow> n = switch_bit sid"
proof -
  have "bit (ucast (push_bit k (1 :: u32)) :: u16) n \<longleftrightarrow> n = k" if "k < 16" for k
    using that by (auto simp: bit_simps)
  moreover have "TAG_VLAN_FOR_SWITCH_I (sid - 1) = ucast (push_bit (switch_bit sid) (1 :: u32))"
    using assms unfolding TAG_VLAN_FOR_SWITCH_I_def switch_bit_def by (simp add: algebra_simps)
  moreover have "switch_bit sid < 16" using assms unfolding switch_bit_def by (simp add: nat_less_iff)
  ultimately show ?thesis by simp
qed

lemma bit_level_tag:
  "bit (TAG_VLAN_SELECTED_FLOW_VAL l) n \<longleftrightarrow> (n = 1 \<or> n = 2) \<and> bit l (n - 1)"
proof -
  have "bit (ucast (push_bit k w AND push_bit k (mask m)) :: u16) n \<longleftrightarrow> k \<le> n \<and> n < k + m \<and> bit w (n - k)"
    if "k + m \<le> 16" for k m and w :: u32
    using that by (auto simp: bit_simps)
  from this [of 1 2] have "bit (TAG_VLAN_SELECTED_FLOW_VAL l) n \<longleftrightarrow>
      1 \<le> n \<and> n < 3 \<and> bit (word_of_int l :: u32) (n - 1)"
    by (simp add: TAG_VLAN_SELECTED_FLOW_VAL_def SELECTED_FLOW_VAL_MASK_def mask_eq_exp_minus_1 numeral_3_eq_3)
  then show ?thesis by (auto simp: bit_simps)
qed

lemma bit_switch_bits:
  "(\<forall>s \<in> set ss. 1 \<le> s \<and> s \<le> 12) \<Longrightarrow>
   bit (switch_bits ss v) n \<longleftrightarrow> bit v n \<or> (\<exists>s \<in> set ss. n = switch_bit s)"
proof (induction ss arbitrary: v)
  case (Cons s ss)
  then show ?case by (auto simp: switch_bits_def bit_switch_tag bit_simps)
qed (simp add: switch_bits_def)

lemma switch_bit_range: "1 \<le> s \<Longrightarrow> s \<le> 12 \<Longrightarrow> 3 \<le> switch_bit s \<and> switch_bit s < 16 \<and> switch_bit s \<noteq> 4"
  by (auto simp: switch_bit_def)

lemma switch_bit_inj: "1 \<le> s \<Longrightarrow> s \<le> 12 \<Longrightarrow> 1 \<le> t \<Longrightarrow> t \<le> 12 \<Longrightarrow> switch_bit s = switch_bit t \<longleftrightarrow> s = t"
  by (auto simp: switch_bit_def split: if_splits)

lemma and_single_bit: "(\<And>n. bit x n \<longleftrightarrow> n = k) \<Longrightarrow> w AND x \<noteq> 0 \<longleftrightarrow> bit w k" for w x :: u16
proof -
  assume x: "\<And>n. bit x n \<longleftrightarrow> n = k"
  then have "bit (w AND x) n \<longleftrightarrow> n = k \<and> bit w k" for n by (auto simp: bit_and_iff)
  moreover have "w AND x = 0 \<longleftrightarrow> (\<forall>n. \<not> bit (w AND x) n)" 
    using bit_imp_le_length [of "w AND x"] by (subst bit_eq_iff) auto
  ultimately show ?thesis by blast
qed

lemma bit_tag_value:
  assumes "\<forall>s \<in> set ss. 1 \<le> s \<and> s \<le> 12"
  shows "bit ((switch_bits ss 0 OR (if sampled then TAG_VLAN_PACKET_SAMPLED_VAL else 0)) OR TAG_VLAN_SELECTED_FLOW_VAL l) n \<longleftrightarrow>
    (\<exists>s \<in> set ss. n = switch_bit s) \<or> (sampled \<and> n = 0) \<or> ((n = 1 \<or> n = 2) \<and> bit l (n - 1))"
proof -
  have "bit (if sampled then TAG_VLAN_PACKET_SAMPLED_VAL else 0) n \<longleftrightarrow> sampled \<and> n = 0"
    by (simp add: TAG_VLAN_PACKET_SAMPLED_VAL_def bit_1_iff)
  then show ?thesis unfolding bit_or_iff bit_switch_bits [OF assms] bit_level_tag by simp
qed

lemma get_level_eq:
  assumes "0 \<le> l" "l \<le> 3" "\<And>n. n < 2 \<Longrightarrow> bit v (n + 1) \<longleftrightarrow> bit l n"
  shows "GET_VLAN_SELECTED_FLOW_VAL v = word_of_int l"
proof (rule bit_word_eqI)
  fix n
  assume n: "n < LENGTH(32)"
  have "take_bit 2 l = l" using assms(1,2) by (simp add: take_bit_int_eq_self)
  then have l2: "n < 2" if "bit l n" using that by (metis bit_take_bit_iff)
  have "bit (drop_bit k (ucast v AND push_bit k (mask m) :: u32)) n \<longleftrightarrow> n < m \<and> bit v (n + k)" if "k + m \<le> 16" for k m
    using that by (auto simp: bit_drop_bit_eq bit_and_iff bit_push_bit_iff bit_mask_iff bit_unsigned_iff add.commute
        dest: bit_imp_le_length)
  from this [of 1 2] have "bit (GET_VLAN_SELECTED_FLOW_VAL v) n \<longleftrightarrow> n < 2 \<and> bit v (n + 1)"
    by (simp add: GET_VLAN_SELECTED_FLOW_VAL_def SELECTED_FLOW_VAL_MASK_def mask_eq_exp_minus_1)
  also have "\<dots> \<longleftrightarrow> n < 2 \<and> bit l n" using assms(3) by blast
  also have "\<dots> \<longleftrightarrow> bit (word_of_int l :: u32) n" using l2 n by (auto simp: bit_word_of_int_iff)
  finally show "bit (GET_VLAN_SELECTED_FLOW_VAL v) n \<longleftrightarrow> bit (word_of_int l :: u32) n" .
qed

text \<open>The three pieces of information of a tag, read back.\<close>

lemma tag_fields:
  assumes "\<forall>s \<in> set ss. 1 \<le> s \<and> s \<le> 12" "0 \<le> l" "l \<le> 3" "1 \<le> i" "i \<le> 12"
    and "v = (switch_bits ss 0 OR (if sampled then TAG_VLAN_PACKET_SAMPLED_VAL else 0)) OR TAG_VLAN_SELECTED_FLOW_VAL l"
  shows "(v AND TAG_VLAN_PACKET_SAMPLED_VAL \<noteq> 0 \<longleftrightarrow> sampled) \<and>
    uint (GET_VLAN_SELECTED_FLOW_VAL v) = l \<and>
    (v AND TAG_VLAN_FOR_SWITCH_I (i - 1) \<noteq> 0 \<longleftrightarrow> i \<in> set ss)"
proof -
  have v: "bit v n \<longleftrightarrow> (\<exists>s \<in> set ss. n = switch_bit s) \<or> (sampled \<and> n = 0) \<or> ((n = 1 \<or> n = 2) \<and> bit l (n - 1))" for n
    unfolding assms(6) by (rule bit_tag_value [OF assms(1)])
  have low: "\<not> (\<exists>s \<in> set ss. n = switch_bit s)" if "n < 3" for n
    using assms(1) that switch_bit_range by fastforce
  have "v AND TAG_VLAN_PACKET_SAMPLED_VAL \<noteq> 0 \<longleftrightarrow> bit v 0"
    by (rule and_single_bit) (simp add: TAG_VLAN_PACKET_SAMPLED_VAL_def bit_1_iff)
  also have "\<dots> \<longleftrightarrow> sampled" using low [of 0] by (auto simp: v)
  finally have 1: "v AND TAG_VLAN_PACKET_SAMPLED_VAL \<noteq> 0 \<longleftrightarrow> sampled" .
  have "v AND TAG_VLAN_FOR_SWITCH_I (i - 1) \<noteq> 0 \<longleftrightarrow> bit v (switch_bit i)"
    using assms(4,5) by (intro and_single_bit) (rule bit_switch_tag)
  also have "\<dots> \<longleftrightarrow> (\<exists>s \<in> set ss. switch_bit i = switch_bit s)"
    unfolding v using switch_bit_range [OF assms(4,5)] by auto
  also have "\<dots> \<longleftrightarrow> i \<in> set ss"
    using assms(1) switch_bit_inj [OF assms(4,5)] by auto
  finally have 3: "v AND TAG_VLAN_FOR_SWITCH_I (i - 1) \<noteq> 0 \<longleftrightarrow> i \<in> set ss" .
  have "bit v (n + 1) \<longleftrightarrow> bit l n" if "n < 2" for n
    using low [of "n + 1"] that by (simp add: v less_2_cases_iff)
  then have "GET_VLAN_SELECTED_FLOW_VAL v = word_of_int l"
    using assms(2,3) by (intro get_level_eq)
  then have 2: "uint (GET_VLAN_SELECTED_FLOW_VAL v) = l"
    using assms(2,3) by (simp add: uint_word_of_int_eq take_bit_int_eq_self)
  from 1 2 3 show ?thesis by blast
qed

section \<open>The buffer\<close>

definition vlan_tag :: "u8 list \<Rightarrow> int \<Rightarrow> u16 option" where
  "vlan_tag packet_buf datalink = do {
     (l2_len, vlan) \<leftarrow> is_vlan_frame packet_buf datalink;
     if vlan then ld16 packet_buf (l2_len + 14) else None
   }"

text \<open>An update changes nothing but the two bytes of the tag.\<close>

lemma update_tag_plain:
  assumes "datalink \<noteq> DLT_JUNIPER_ETHER" "vlan_tag b datalink = Some v"
  shows "\<exists>b'. update_tag b datalink f = Some b' \<and> length b' = length b \<and> vlan_tag b' datalink = Some (f v) \<and>
    (\<forall>j. j \<noteq> 14 \<and> j \<noteq> 15 \<longrightarrow> b' ! j = b ! j)"
proof -
  have v: "is_vlan_frame b datalink = Some (0, True)" "ld16 b 14 = Some v"
    using assms by (auto simp: vlan_tag_def is_vlan_frame_def l2_start_def split: bind_splits if_splits)
  then obtain b' where b': "st16 b 14 (f v) = Some b'" by (auto simp: st16_def ld16_Some)
  have "ld16 b' 12 = ld16 b 12" using ld16_st16(3) [OF b', of 12] by simp
  then have "is_vlan_frame b' datalink = Some (0, True)"
    using v(1) assms(1) by (simp add: is_vlan_frame_def l2_start_def)
  with b' v ld16_st16 [OF b'] show ?thesis
    by (intro exI [of _ b']) (simp add: update_tag_def vlan_tag_def)
qed

section \<open>Properties\<close>

text \<open>
  The tag carries three independent pieces of information.  Tagging a zero tag for a set of switches
  (ids 1 to 12), optionally as sampled, and with a level from 0 to 3 can be read back exactly: the
  sampled bit, the level, and for every switch id whether it was named.
\<close>

theorem vlan_tag_roundtrip:
  assumes "\<forall>s \<in> set ss. 1 \<le> s \<and> s \<le> 12" "0 \<le> l" "l \<le> 3" "1 \<le> i" "i \<le> 12"
    and "v = (switch_bits ss 0 OR (if sampled then TAG_VLAN_PACKET_SAMPLED_VAL else 0)) OR TAG_VLAN_SELECTED_FLOW_VAL l"
  shows "(v AND TAG_VLAN_PACKET_SAMPLED_VAL \<noteq> 0 \<longleftrightarrow> sampled) \<and>
    uint (GET_VLAN_SELECTED_FLOW_VAL v) = l \<and>
    (v AND TAG_VLAN_FOR_SWITCH_I (i - 1) \<noteq> 0 \<longleftrightarrow> i \<in> set ss)"
  using tag_fields [OF assms] .

theorem vlan_tag_roundtrip_witness:
  "uint (GET_VLAN_SELECTED_FLOW_VAL ((switch_bits [1, 7, 12] 0 OR (if True then TAG_VLAN_PACKET_SAMPLED_VAL else 0))
     OR TAG_VLAN_SELECTED_FLOW_VAL 2)) = 2"
  using vlan_tag_roundtrip [of "[1, 7, 12]" 2 7 _ True] by simp

text \<open>
  Tagging a buffer.  On a VLAN frame with a plain Ethernet header, each tagging function succeeds,
  keeps the length of the buffer and every byte except the two of the tag, and updates the tag as
  stated; a packet tagged as sampled is recognised as such.
\<close>

lemma vlan_tag_frame:
  assumes "datalink \<noteq> DLT_JUNIPER_ETHER" "vlan_tag b datalink = Some v"
  shows "(\<exists>b'. tag_packet_as_sampled b datalink = Some b' \<and> length b' = length b \<and>
      vlan_tag b' datalink = Some (v OR TAG_VLAN_PACKET_SAMPLED_VAL) \<and>
      check_packet_tagged_as_sampled b' datalink = Some True \<and> (\<forall>j. j \<noteq> 14 \<and> j \<noteq> 15 \<longrightarrow> b' ! j = b ! j)) \<and>
    (\<exists>b'. tag_selected_flow_level_in_normal_packet b datalink l = Some b' \<and> length b' = length b \<and>
      vlan_tag b' datalink = Some (v OR TAG_VLAN_SELECTED_FLOW_VAL l) \<and> (\<forall>j. j \<noteq> 14 \<and> j \<noteq> 15 \<longrightarrow> b' ! j = b ! j)) \<and>
    (\<exists>b'. tag_packet_for_switches b datalink ids n = Some b' \<and> length b' = length b \<and>
      vlan_tag b' datalink = Some (switch_bits (take n ids) v) \<and> (\<forall>j. j \<noteq> 14 \<and> j \<noteq> 15 \<longrightarrow> b' ! j = b ! j))"
proof -
  have "bit ((v OR TAG_VLAN_PACKET_SAMPLED_VAL) AND TAG_VLAN_PACKET_SAMPLED_VAL) 0"
    by (simp add: TAG_VLAN_PACKET_SAMPLED_VAL_def bit_and_iff bit_or_iff bit_1_iff)
  then have "(v OR TAG_VLAN_PACKET_SAMPLED_VAL) AND TAG_VLAN_PACKET_SAMPLED_VAL \<noteq> 0" by (metis bit_0_eq bot_apply bot_bool_def)
  then have "check_packet_tagged_as_sampled b' datalink = Some True"
    if "vlan_tag b' datalink = Some (v OR TAG_VLAN_PACKET_SAMPLED_VAL)" for b'
    using that by (auto simp: check_packet_tagged_as_sampled_def vlan_tag_def split: bind_splits if_splits)
  then show ?thesis
    using update_tag_plain [OF assms]
    unfolding tag_packet_as_sampled_def tag_selected_flow_level_in_normal_packet_def tag_packet_for_switches_def
    by meson
qed

text \<open>
  \<^verbatim>\<open>tag_selected_flow_level_in_normal_packet\<close> only sets bits.  A packet that already carries level 1 and
  is tagged with level 2 is read as level 3, a level that no flow has.
\<close>

lemma vlan_level_or:
  "GET_VLAN_SELECTED_FLOW_VAL (TAG_VLAN_SELECTED_FLOW_VAL 1 OR TAG_VLAN_SELECTED_FLOW_VAL 2) = 3"
  by (simp add: GET_VLAN_SELECTED_FLOW_VAL_def TAG_VLAN_SELECTED_FLOW_VAL_def SELECTED_FLOW_VAL_MASK_def)

end
