(* ===== verification/Packet_Handler.thy ===== *)
theory Packet_Handler
  imports Data_Warehouse Vlan_Tag
begin

text \<open>
  \<^verbatim>\<open>cm_handle_ipv4_packet\<close> of \<^verbatim>\<open>tcpreplay/src/send_packets.c\<close>: what the sender does with every packet before it
  goes out.  The packet is parsed, recorded as sent, sampled and tagged if a task of the host covers
  its flow, and counted.  The result is the tagged buffer and the new warehouse; \<open>None\<close> stands for an
  access outside the packet buffer.
\<close>

section \<open>Parsing\<close>

definition TCPR_IPV4_H :: u32 where "TCPR_IPV4_H = 20"

text \<open>
  The loop over stacked VLAN tags: the type behind the tag at \<open>l2_len\<close> is at offset 16.  It ends
  because every round reads two bytes further in the buffer.
\<close>

function skip_vlan :: "u8 list \<Rightarrow> u16 \<Rightarrow> nat \<Rightarrow> (u16 \<times> nat) option" where
  "skip_vlan packet_buf ether_type l2_len =
    (if ether_type = ETHERTYPE_VLAN then
       (case ld16 packet_buf (l2_len + 16) of
          None \<Rightarrow> None
        | Some t \<Rightarrow> skip_vlan packet_buf (ntohs t) (l2_len + 4))
     else Some (ether_type, l2_len))"
  by pat_completeness auto
termination
  by (relation "measure (\<lambda>(b, _, l). length b - l)") (auto simp: ld16_Some)

declare skip_vlan.simps [simp del]

text \<open>
  The packet with its sequence number.  \<open>Some None\<close>: not an IPv4 packet.  Of \<^verbatim>\<open>packet\<close> the fields \<^verbatim>\<open>seqid\<close>,
  \<^verbatim>\<open>sampled\<close> and \<^verbatim>\<open>selected_level\<close> are neither set nor read.
\<close>

definition parse_ipv4 :: "u8 list \<Rightarrow> int \<Rightarrow> int \<Rightarrow> (packet \<times> u32) option option" where
  "parse_ipv4 packet_buf total_pkt_len datalink = do {
     l2_len \<leftarrow> l2_start packet_buf datalink;
     t \<leftarrow> ld16 packet_buf (l2_len + 12);
     (ether_type, l2_len) \<leftarrow> skip_vlan packet_buf (ntohs t) l2_len;
     let l2_len = l2_len + 14;
     if ether_type = ETHERTYPE_IP then do {
       src \<leftarrow> ld32 packet_buf (l2_len + 12);
       dst \<leftarrow> ld32 packet_buf (l2_len + 16);
       p \<leftarrow> ld8 packet_buf (l2_len + 9);
       let l4 = l2_len + 20;
       sp \<leftarrow> ld16 packet_buf l4;
       dp \<leftarrow> ld16 packet_buf (l4 + 2);
       sq \<leftarrow> ld32 packet_buf (l4 + 4);
       Some (Some (\<lparr>p_srcip = ntohl src, p_dstip = ntohl dst, p_src_port = ntohs sp, p_dst_port = ntohs dp, p_protocol = p,
         p_seqid = 0, p_len = word_of_int total_pkt_len, p_sampled = False, p_selected_level = 0\<rparr>, ntohl sq))
     } else Some None
   }"

section \<open>Handling\<close>

text \<open>Sampling at the host: sampled or not, and the warehouse with its sample map and generator.\<close>

definition host_sample :: "(flow_src \<Rightarrow> u32 \<Rightarrow> u32) \<Rightarrow> cm_experiment_setting \<Rightarrow> packet \<Rightarrow> int \<Rightarrow> data_warehouse \<Rightarrow>
    int \<times> data_warehouse" where
  "host_sample hb st packet total_pkt_len dw =
    (if ht_kfs_vi_get hb (data_warehouse_get_flow_selected_level_map dw) (packet_flow_src packet) > 0 then (1, dw)
     else
       let (sampled, rb, m) = sample_packet hb st packet total_pkt_len (dw_rand_buffer dw) (data_warehouse_get_flow_sample_map dw)
       in (sampled, dw\<lparr>dw_rand_buffer := rb, dw_flow_sample_map := (dw_flow_sample_map dw)(dw_active_idx dw := m)\<rparr>))"

definition handle_task :: "(flow_src \<Rightarrow> u32 \<Rightarrow> u32) \<Rightarrow> cm_experiment_setting \<Rightarrow> task \<Rightarrow> packet \<Rightarrow> int \<Rightarrow> int \<Rightarrow>
    u8 list \<Rightarrow> data_warehouse \<Rightarrow> (u8 list \<times> data_warehouse) option" where
  "handle_task hb st p_task packet total_pkt_len datalink packet_buf dw = do {
     packet_buf \<leftarrow> tag_packet_for_switches packet_buf datalink (monitor_switch_ids p_task) (num_monitors p_task);
     (packet_buf, dw) \<leftarrow>
       (if host_or_switch_sample st = HOST_SAMPLE then
          let (sampled, dw) = host_sample hb st packet total_pkt_len dw
          in if sampled \<noteq> 0 then do {
               packet_buf \<leftarrow> tag_packet_as_sampled packet_buf datalink;
               Some (packet_buf, update_flow_not_sampled_volume hb (packet_flow_src packet) dw)
             } else Some (packet_buf, dw)
        else Some (packet_buf, dw));
     let selected_level = ht_kfs_vi_get hb (data_warehouse_get_flow_selected_level_map dw) (packet_flow_src packet);
     if host_or_switch_sample st = HOST_SAMPLE \<and> inject_or_tag_packet st = TAG_PKT_AS_CONDITION \<and> selected_level > 0 then do {
       packet_buf \<leftarrow> tag_selected_flow_level_in_normal_packet packet_buf datalink selected_level;
       Some (packet_buf, dw)
     } else Some (packet_buf, dw)
   }"

definition count_packet :: "packet \<Rightarrow> data_warehouse \<Rightarrow> data_warehouse" where
  "count_packet packet dw =
    dw\<lparr>dw_pkt_num_sent := (dw_pkt_num_sent dw)(dw_active_idx dw := dw_pkt_num_sent dw (dw_active_idx dw) + 1),
       dw_volume_sent := (dw_volume_sent dw)(dw_active_idx dw := dw_volume_sent dw (dw_active_idx dw) + ucast (p_len packet))\<rparr>"

definition cm_handle_ipv4_packet :: "(flow_src \<Rightarrow> u32 \<Rightarrow> u32) \<Rightarrow> cm_experiment_setting \<Rightarrow> u8 list \<Rightarrow> int \<Rightarrow> int \<Rightarrow>
    data_warehouse \<Rightarrow> (u8 list \<times> data_warehouse) option" where
  "cm_handle_ipv4_packet hb st packet_buf total_pkt_len datalink dw =
    (if word_of_int total_pkt_len < TCPR_IPV4_H then Some (packet_buf, dw)
     else do {
       r \<leftarrow> parse_ipv4 packet_buf total_pkt_len datalink;
       case r of
         None \<Rightarrow> Some (packet_buf, dw)
       | Some (packet, seqid) \<Rightarrow> do {
           let dw = dw\<lparr>dw_flow_recePktList_map :=
             ht_vl_set (data_warehouse_get_flow_recePktList_map dw) (packet_flow packet) seqid (ucast (p_len packet))\<rparr>;
           (packet_buf, dw) \<leftarrow>
             (case get_task_of_traffic (dw_task_manager dw) (packet_flow_src packet) of
                None \<Rightarrow> Some (packet_buf, dw)
              | Some p_task \<Rightarrow> handle_task hb st p_task packet total_pkt_len datalink packet_buf dw);
           let dw = update_flow_normal_volume hb st (packet_flow_src packet) total_pkt_len dw;
           Some (packet_buf, count_packet packet dw)
         }
     })"

section \<open>The buffer\<close>

lemma l2_start_frame:
  assumes "l2_start b dl = Some l2" "length b' = length b" "\<And>j. j \<noteq> l2 + 14 \<Longrightarrow> j \<noteq> l2 + 15 \<Longrightarrow> b' ! j = b ! j"
  shows "l2_start b' dl = Some l2"
  using assms by (auto simp: l2_start_def ld8_def ld16_def split: if_splits bind_splits)

lemma update_tag_frame:
  assumes "is_vlan_frame b dl = Some (l2, vl)" "vl \<Longrightarrow> l2 + 15 < length b"
  shows "\<exists>b'. update_tag b dl f = Some b' \<and> length b' = length b \<and> is_vlan_frame b' dl = Some (l2, vl) \<and>
    (\<forall>j. j \<noteq> l2 + 14 \<and> j \<noteq> l2 + 15 \<longrightarrow> b' ! j = b ! j) \<and> (\<not> vl \<longrightarrow> b' = b) \<and>
    (vl \<longrightarrow> vlan_tag b' dl = map_option f (vlan_tag b dl))"
proof (cases vl)
  case True
  obtain v where v: "ld16 b (l2 + 14) = Some v" using assms(2) [OF True] by (auto simp: ld16_def ld8_def)
  obtain b' where b': "st16 b (l2 + 14) (f v) = Some b'" using assms(2) [OF True] by (auto simp: st16_def)
  note s = ld16_st16 [OF b']
  obtain t where st: "l2_start b dl = Some l2" and ty: "ld16 b (l2 + 12) = Some t" "ntohs t = ETHERTYPE_VLAN"
    using assms(1) True by (auto simp: is_vlan_frame_def split: bind_splits)
  have "l2_start b' dl = Some l2" using l2_start_frame [OF st s(2)] s(4) by simp
  then have fr: "is_vlan_frame b' dl = Some (l2, True)" using ty s(3) [of "l2 + 12"] by (simp add: is_vlan_frame_def)
  with assms(1) True v b' s show ?thesis
    by (intro exI [of _ b']) (simp add: update_tag_def vlan_tag_def)
qed (use assms in \<open>simp add: update_tag_def\<close>)

lemma normal_volume_counters:
  "dw_pkt_num_sent (update_flow_normal_volume hb st f d dw) = dw_pkt_num_sent dw"
  "dw_volume_sent (update_flow_normal_volume hb st f d dw) = dw_volume_sent dw"
  by (simp_all add: update_flow_normal_volume_def set_rate_and_level_def update_flow_selected_level_map_def
      set_active_level_def Let_def)

text \<open>The tag a packet of task \<open>t\<close> ends up with.\<close>

definition task_tag :: "cm_experiment_setting \<Rightarrow> task \<Rightarrow> bool \<Rightarrow> int \<Rightarrow> u16 \<Rightarrow> u16" where
  "task_tag st t sampled level v =
    (let v = switch_bits (take (num_monitors t) (monitor_switch_ids t)) v;
         v = (if host_or_switch_sample st = HOST_SAMPLE \<and> sampled then v OR TAG_VLAN_PACKET_SAMPLED_VAL else v)
     in if host_or_switch_sample st = HOST_SAMPLE \<and> inject_or_tag_packet st = TAG_PKT_AS_CONDITION \<and> level > 0
        then v OR TAG_VLAN_SELECTED_FLOW_VAL level else v)"

text \<open>\<open>b'\<close> is \<open>b\<close> with its VLAN tag, if it has one, mapped by \<open>g\<close>.\<close>

definition retagged :: "int \<Rightarrow> nat \<Rightarrow> bool \<Rightarrow> (u16 \<Rightarrow> u16) \<Rightarrow> u8 list \<Rightarrow> u8 list \<Rightarrow> bool" where
  "retagged dl l2 vl g b b' \<longleftrightarrow> length b' = length b \<and> is_vlan_frame b' dl = Some (l2, vl) \<and>
    (\<forall>j. j \<noteq> l2 + 14 \<and> j \<noteq> l2 + 15 \<longrightarrow> b' ! j = b ! j) \<and> (\<not> vl \<longrightarrow> b' = b) \<and>
    (vl \<longrightarrow> vlan_tag b' dl = map_option g (vlan_tag b dl))"

lemma retagged_step:
  assumes "retagged dl l2 vl g b b'" "vl \<Longrightarrow> l2 + 15 < length b"
  shows "\<exists>b''. update_tag b' dl f = Some b'' \<and> retagged dl l2 vl (f \<circ> g) b b''"
proof -
  have "is_vlan_frame b' dl = Some (l2, vl)" "vl \<Longrightarrow> l2 + 15 < length b'" using assms by (auto simp: retagged_def)
  from update_tag_frame [OF this, of f] assms(1) show ?thesis
    by (auto simp: retagged_def option.map_comp)
qed

text \<open>A parsed packet has its VLAN tag, if any, inside the buffer.\<close>

lemma skip_vlan_bound:
  "skip_vlan b ETHERTYPE_VLAN l2 = Some r \<Longrightarrow> l2 + 17 < length b"
  by (subst (asm) skip_vlan.simps) (auto simp: ld16_Some split: option.splits)

lemma parse_frame:
  assumes "parse_ipv4 b len dl = Some r"
  shows "\<exists>l2 vl. is_vlan_frame b dl = Some (l2, vl) \<and> (vl \<longrightarrow> l2 + 15 < length b)"
  using assms
  by (auto simp: parse_ipv4_def is_vlan_frame_def Let_def split: bind_splits dest!: skip_vlan_bound)

section \<open>The warehouse\<close>

definition task_frame :: "data_warehouse \<Rightarrow> data_warehouse \<Rightarrow> bool" where
  "task_frame dw dw' \<longleftrightarrow> dw_flow_volume_map dw' = dw_flow_volume_map dw \<and> dw_flow_loss_volume_map dw' = dw_flow_loss_volume_map dw \<and> dw_active_idx dw' = dw_active_idx dw \<and>
    dw_flow_selected_level_map dw' = dw_flow_selected_level_map dw \<and> dw_flow_recePktList_map dw' = dw_flow_recePktList_map dw \<and>
    dw_pkt_num_sent dw' = dw_pkt_num_sent dw \<and> dw_volume_sent dw' = dw_volume_sent dw"

context flow_src_hash
begin

lemma host_sample_inv:
  assumes inv: "dw_inv hb st dw" and r: "host_sample hb st p len dw = (sampled, dw')"
  shows "dw_inv hb st dw' \<and> dw_flow_volume_map dw' = dw_flow_volume_map dw \<and> dw_flow_loss_volume_map dw' = dw_flow_loss_volume_map dw \<and> dw_active_idx dw' = dw_active_idx dw \<and>
    dw_flow_selected_level_map dw' = dw_flow_selected_level_map dw \<and>
    dw_flow_recePktList_map dw' = dw_flow_recePktList_map dw \<and> dw_task_manager dw' = dw_task_manager dw \<and>
    dw_pkt_num_sent dw' = dw_pkt_num_sent dw \<and> dw_volume_sent dw' = dw_volume_sent dw"
proof -
  let ?m = "dw_flow_sample_map dw (dw_active_idx dw)"
  have "tab_ok hb ?m" using dw_inv_tables(3) [OF inv] dw_inv_shared(3) [OF inv] by simp
  then have "tab_ok hb (snd (snd (sample_packet hb st p len (dw_rand_buffer dw) ?m)))"
    by (simp add: sample_packet_map tab_set)
  then show ?thesis
    using r inv dw_inv_tables [OF inv] dw_inv_shared [OF inv]
    by (auto simp: host_sample_def dw_get_defs Let_def split: if_splits prod.splits intro!: dw_inv_frame [OF inv])
qed

lemma not_sampled_frame:
  assumes inv: "dw_inv hb st dw"
  shows "dw_inv hb st (update_flow_not_sampled_volume hb f dw) \<and>
    dw_flow_volume_map (update_flow_not_sampled_volume hb f dw) = dw_flow_volume_map dw \<and>
    dw_flow_loss_volume_map (update_flow_not_sampled_volume hb f dw) = dw_flow_loss_volume_map dw \<and>
    dw_active_idx (update_flow_not_sampled_volume hb f dw) = dw_active_idx dw \<and>
    dw_flow_selected_level_map (update_flow_not_sampled_volume hb f dw) = dw_flow_selected_level_map dw \<and>
    dw_flow_recePktList_map (update_flow_not_sampled_volume hb f dw) = dw_flow_recePktList_map dw \<and>
    dw_pkt_num_sent (update_flow_not_sampled_volume hb f dw) = dw_pkt_num_sent dw \<and>
    dw_volume_sent (update_flow_not_sampled_volume hb f dw) = dw_volume_sent dw"
  using not_sampled_spec [OF inv, of f] by (simp add: update_flow_not_sampled_volume_def Let_def)

lemma handle_task_spec:
  fixes p :: packet
  assumes inv: "dw_inv hb st dw" and fr: "is_vlan_frame b dl = Some (l2, vl)" and bd: "vl \<Longrightarrow> l2 + 15 < length b"
  defines "lev \<equiv> ht_kfs_vi_get hb (data_warehouse_get_flow_selected_level_map dw) (packet_flow_src p)"
  shows "\<exists>b' dw' sampled. handle_task hb st t p len dl b dw = Some (b', dw') \<and>
    retagged dl l2 vl (task_tag st t sampled lev) b b' \<and> (lev > 0 \<longrightarrow> sampled) \<and> dw_inv hb st dw' \<and> task_frame dw dw'"
proof -
  obtain smp dw1 where hs: "host_sample hb st p len dw = (smp, dw1)" by fastforce
  note h = host_sample_inv [OF inv hs]
  define dw2 where "dw2 = (if smp \<noteq> 0 then update_flow_not_sampled_volume hb (packet_flow_src p) dw1 else dw1)"
  have dw2: "dw_inv hb st dw2" "task_frame dw dw2"
    using h not_sampled_frame [OF conjunct1 [OF h]] by (simp_all add: dw2_def task_frame_def)
  have lev2: "ht_kfs_vi_get hb (data_warehouse_get_flow_selected_level_map dw2) (packet_flow_src p) = lev"
    using dw2(2) by (simp add: task_frame_def lev_def dw_get_defs)
  have smp: "lev > 0 \<longrightarrow> smp \<noteq> 0" using hs by (auto simp: host_sample_def lev_def)
  have "retagged dl l2 vl id b b" using fr by (simp add: retagged_def option.map_id)
  from retagged_step [OF this bd] obtain b1 where
    b1: "tag_packet_for_switches b dl (monitor_switch_ids t) (num_monitors t) = Some b1"
    "retagged dl l2 vl (switch_bits (take (num_monitors t) (monitor_switch_ids t))) b b1"
    by (auto simp: tag_packet_for_switches_def)
  from retagged_step [OF b1(2) bd] obtain b2 where
    b2: "tag_packet_as_sampled b1 dl = Some b2"
    "retagged dl l2 vl (\<lambda>v. switch_bits (take (num_monitors t) (monitor_switch_ids t)) v OR TAG_VLAN_PACKET_SAMPLED_VAL) b b2"
    by (auto simp: tag_packet_as_sampled_def comp_def)
  define sw where "sw = switch_bits (take (num_monitors t) (monitor_switch_ids t))"
  define host where "host \<longleftrightarrow> host_or_switch_sample st = HOST_SAMPLE"
  define tagl where "tagl \<longleftrightarrow> host \<and> inject_or_tag_packet st = TAG_PKT_AS_CONDITION \<and> lev > 0"
  define b3 where "b3 = (if host \<and> smp \<noteq> 0 then b2 else b1)"
  define dw3 where "dw3 = (if host then dw2 else dw)"
  define g where "g = (if host \<and> smp \<noteq> 0 then \<lambda>v. sw v OR TAG_VLAN_PACKET_SAMPLED_VAL else sw)"
  have g: "retagged dl l2 vl g b b3" using b1(2) b2(2) by (simp add: b3_def g_def sw_def)
  from retagged_step [OF g bd] obtain b4 where
    b4: "tag_selected_flow_level_in_normal_packet b3 dl lev = Some b4"
    "retagged dl l2 vl (\<lambda>v. g v OR TAG_VLAN_SELECTED_FLOW_VAL lev) b b4"
    by (auto simp: tag_selected_flow_level_in_normal_packet_def comp_def)
  have "handle_task hb st t p len dl b dw = Some (if tagl then b4 else b3, dw3)"
    using b1(1) b2(1) b4(1) hs lev2
    by (auto simp: handle_task_def Let_def b3_def dw3_def dw2_def tagl_def host_def lev_def)
  moreover have "retagged dl l2 vl (task_tag st t (smp \<noteq> 0) lev) b (if tagl then b4 else b3)"
  proof -
    have "task_tag st t (smp \<noteq> 0) lev = (if tagl then \<lambda>v. g v OR TAG_VLAN_SELECTED_FLOW_VAL lev else g)"
      by (auto simp: fun_eq_iff task_tag_def Let_def tagl_def host_def g_def sw_def)
    then show ?thesis using g b4(2) by simp
  qed
  moreover have "dw_inv hb st dw3" "task_frame dw dw3" using inv dw2 by (simp_all add: dw3_def task_frame_def)
  ultimately show ?thesis using smp by blast
qed

lemma task_part_spec:
  fixes p :: packet
  assumes inv: "dw_inv hb st dw" and fr: "is_vlan_frame b dl = Some (l2, vl)" "vl \<Longrightarrow> l2 + 15 < length b"
  defines "f \<equiv> packet_flow_src p"
  shows "\<exists>b' dw' sampled. (case get_task_of_traffic (dw_task_manager dw) f of None \<Rightarrow> Some (b, dw)
      | Some t \<Rightarrow> handle_task hb st t p len dl b dw) = Some (b', dw') \<and>
    retagged dl l2 vl (case get_task_of_traffic (dw_task_manager dw) f of None \<Rightarrow> id
      | Some t \<Rightarrow> task_tag st t sampled (ht_kfs_vi_get hb (data_warehouse_get_flow_selected_level_map dw) f)) b b' \<and>
    (0 < ht_kfs_vi_get hb (data_warehouse_get_flow_selected_level_map dw) f \<longrightarrow> sampled) \<and>
    dw_inv hb st dw' \<and> task_frame dw dw'"
proof (cases "get_task_of_traffic (dw_task_manager dw) f")
  case None
  have "retagged dl l2 vl id b b" using fr by (simp add: retagged_def option.map_id)
  with None inv show ?thesis
    by (intro exI [of _ b] exI [of _ dw] exI [of _ True]) (simp add: task_frame_def)
next
  case (Some t)
  from handle_task_spec [OF inv fr, where p = p and t = t and len = len] Some show ?thesis by (auto simp: f_def)
qed

text \<open>The whole handler on an IPv4 packet.\<close>

lemma handle_packet_spec:
  assumes inv: "dw_inv hb st dw" and len: "20 \<le> len" "len < 65536"
    and p: "parse_ipv4 b len dl = Some (Some (p, seqid))" and fit: "flow_volume hb dw (packet_flow_src p) + len < 2147483648"
  defines "a \<equiv> dw_active_idx dw" and "f \<equiv> packet_flow_src p"
  shows "\<exists>b' dw' l2 vl sampled. cm_handle_ipv4_packet hb st b len dl dw = Some (b', dw') \<and>
    retagged dl l2 vl (case get_task_of_traffic (dw_task_manager dw) f of None \<Rightarrow> id
      | Some t \<Rightarrow> task_tag st t sampled (ht_kfs_vi_get hb (data_warehouse_get_flow_selected_level_map dw) f)) b b' \<and>
    (0 < ht_kfs_vi_get hb (data_warehouse_get_flow_selected_level_map dw) f \<longrightarrow> sampled) \<and>
    dw_inv hb st dw' \<and> dw_active_idx dw' = a \<and>
    dw_flow_recePktList_map dw' = ht_vl_set (dw_flow_recePktList_map dw) (packet_flow p) seqid (word_of_int len) \<and>
    flow_volume hb dw' f = flow_volume hb dw f + len \<and>
    (\<forall>g. g \<noteq> f \<longrightarrow> flow_volume hb dw' g = flow_volume hb dw g) \<and> (\<forall>g. flow_loss hb dw' g = flow_loss hb dw g) \<and>
    dw_pkt_num_sent dw' = (dw_pkt_num_sent dw)(a := dw_pkt_num_sent dw a + 1) \<and>
    dw_volume_sent dw' = (dw_volume_sent dw)(a := dw_volume_sent dw a + word_of_int len)"
proof -
  have guard: "\<not> (word_of_int len < TCPR_IPV4_H)"
    using len by (simp add: TCPR_IPV4_H_def word_less_def uint_word_of_int_eq take_bit_int_eq_self)
  have plen: "p_len p = word_of_int len" using p by (auto simp: parse_ipv4_def Let_def split: bind_splits if_splits)
  have ulen: "(ucast (p_len p) :: u32) = word_of_int len" "(ucast (p_len p) :: u64) = word_of_int len"
    using len by (simp_all add: plen unsigned_of_int take_bit_int_eq_self)
  obtain l2 vl where fr: "is_vlan_frame b dl = Some (l2, vl)" "vl \<Longrightarrow> l2 + 15 < length b" using parse_frame [OF p] by blast
  define dw1 where "dw1 = dw\<lparr>dw_flow_recePktList_map := ht_vl_set (dw_flow_recePktList_map dw) (packet_flow p) seqid (word_of_int len)\<rparr>"
  have inv1: "dw_inv hb st dw1" unfolding dw1_def
    using dw_inv_tables [OF inv] dw_inv_shared [OF inv] vl.send_ok by (intro dw_inv_frame [OF inv]) simp_all
  have same: "dw_task_manager dw1 = dw_task_manager dw"
    "data_warehouse_get_flow_selected_level_map dw1 = data_warehouse_get_flow_selected_level_map dw"
    by (simp_all add: dw1_def dw_get_defs)
  obtain b' dw2 sampled where
    r: "(case get_task_of_traffic (dw_task_manager dw) f of None \<Rightarrow> Some (b, dw1)
        | Some t \<Rightarrow> handle_task hb st t p len dl b dw1) = Some (b', dw2)"
      "retagged dl l2 vl (case get_task_of_traffic (dw_task_manager dw) f of None \<Rightarrow> id
        | Some t \<Rightarrow> task_tag st t sampled (ht_kfs_vi_get hb (data_warehouse_get_flow_selected_level_map dw) f)) b b'"
      "0 < ht_kfs_vi_get hb (data_warehouse_get_flow_selected_level_map dw) f \<longrightarrow> sampled"
      and inv2: "dw_inv hb st dw2" and fr2: "task_frame dw1 dw2"
    using task_part_spec [OF inv1 fr, where p = p and len = len, folded f_def, unfolded same] by blast
  have vol2: "flow_volume hb dw2 g = flow_volume hb dw g" for g using fr2 by (simp add: task_frame_def dw1_def)
  have loss2: "flow_loss hb dw2 g = flow_loss hb dw g" for g using fr2 by (simp add: task_frame_def dw1_def)
  define dw3 where "dw3 = update_flow_normal_volume hb st f len dw2"
  have "0 < len" "flow_volume hb dw2 f + len < 2147483648" using len fit by (simp_all add: vol2 f_def)
  from normal_volume_spec [OF inv2 this]
  have n: "dw_inv hb st dw3" "only_flow hb f dw2 dw3" "flow_volume hb dw3 f = flow_volume hb dw f + len"
    "flow_loss hb dw3 f = flow_loss hb dw f"
    by (simp_all add: dw3_def vol2 loss2)
  have inv': "dw_inv hb st (count_packet p dw3)"
    using dw_inv_tables [OF n(1)] dw_inv_shared [OF n(1)] by (intro dw_inv_frame [OF n(1)]) (simp_all add: count_packet_def)
  have cnt: "dw_pkt_num_sent dw3 = dw_pkt_num_sent dw" "dw_volume_sent dw3 = dw_volume_sent dw"
    using fr2 normal_volume_counters by (simp_all add: dw3_def task_frame_def dw1_def)
  have act: "dw_active_idx dw3 = a" using n(2) fr2 by (simp add: only_flow_def task_frame_def dw1_def a_def)
  have run: "cm_handle_ipv4_packet hb st b len dl dw = Some (b', count_packet p dw3)"
    using guard p r(1)
    by (cases "get_task_of_traffic (dw_task_manager dw) f")
      (simp_all add: cm_handle_ipv4_packet_def Let_def dw_get_defs ulen dw1_def dw3_def f_def)
  have "dw_flow_recePktList_map dw3 = ht_vl_set (dw_flow_recePktList_map dw) (packet_flow p) seqid (word_of_int len)"
    using n(2) fr2 by (simp add: only_flow_def task_frame_def dw1_def)
  moreover have "flow_volume hb dw3 g = flow_volume hb dw g" if "g \<noteq> f" for g
    using n(2) vol2 [of g] that by (simp add: only_flow_def)
  moreover have "flow_loss hb dw3 g = flow_loss hb dw g" for g
    using n(2,4) loss2 [of g] by (cases "g = f") (simp_all add: only_flow_def)
  ultimately show ?thesis
    using run r(2,3) inv' n(3) cnt act
    by (intro exI [of _ b'] exI [of _ "count_packet p dw3"] exI [of _ l2] exI [of _ vl] exI [of _ sampled])
      (simp add: count_packet_def ulen)
qed

end

section \<open>Properties\<close>

text \<open>A tagged TCP packet from host 3 to host 5, its flow, and a warehouse with a task for it.\<close>

definition sample_frame :: "u8 list" where
  "sample_frame = replicate 12 0 @ [0x81, 0x00, 0, 0, 0x08, 0x00] @
    [0x45, 0, 0, 40, 0, 0, 0, 0, 64, 6, 0, 0, 0x0C, 0, 0, 1, 0x0E, 0, 0, 2] @
    [0x1F, 0x90, 0, 80, 0, 0, 0, 7, 0, 0, 0, 0, 0x50, 0, 0, 0, 0, 0, 0, 0]"

definition sample_packet_t :: packet where
  "sample_packet_t = \<lparr>p_srcip = 0x0C000001, p_dstip = 0x0E000002, p_src_port = 8080, p_dst_port = 80, p_protocol = 6,
     p_seqid = 0, p_len = 58, p_sampled = False, p_selected_level = 0\<rparr>"

lemma sample_frame_parse: "parse_ipv4 sample_frame 58 1 = Some (Some (sample_packet_t, 7))"
  by code_simp

definition sample_task :: task where
  "sample_task = task_zero\<lparr>sender_host := 3, receiver_host := 5, num_monitors := 2,
     monitor_switch_ids := [7, 8, 0, 0, 0, 0, 0, 0, 0, 0, 0, 0], srcip_prefix := 0x0C000000, dstip_prefix := 0x0E000000\<rparr>"

lemma dw_sample_task:
  "\<exists>dw. dw_inv flow_src_hash_bin dw_setting dw \<and> dw_task_manager dw = \<lparr>tasks = [sample_task]\<rparr> \<and>
    tab_map flow_src_hash_bin (dw_flow_volume_map dw (dw_active_idx dw)) = Map.empty \<and>
    tab_map flow_src_hash_bin (dw_flow_loss_volume_map dw (dw_active_idx dw)) = Map.empty"
proof -
  obtain dw where dw: "dw_inv flow_src_hash_bin dw_setting dw"
    "tab_map flow_src_hash_bin (dw_flow_volume_map dw (dw_active_idx dw)) = Map.empty"
    "tab_map flow_src_hash_bin (dw_flow_loss_volume_map dw (dw_active_idx dw)) = Map.empty"
    using dw_sample_empty by blast
  then have "dw_inv flow_src_hash_bin dw_setting (dw\<lparr>dw_task_manager := \<lparr>tasks = [sample_task]\<rparr>\<rparr>)"
    using dw_inv_tables [OF dw(1)] dw_inv_shared [OF dw(1)] by (intro dw_inv_frame [OF dw(1)]) simp_all
  with dw show ?thesis by (intro exI [of _ "dw\<lparr>dw_task_manager := \<lparr>tasks = [sample_task]\<rparr>\<rparr>"]) simp
qed

text \<open>
  C7: every IPv4 packet that parses is handled: no access leaves the buffer, only the two bytes of the
  VLAN tag can change, the packet is appended to the pending packets of its 5-tuple, its length is
  added to the volume of its flow and of no other, the counters of the interval grow by one packet
  and its length, and the warehouse invariant is kept.
\<close>

theorem packet_handled:
  assumes "flow_src_hash hb" "dw_inv hb st dw" "20 \<le> len" "len < 65536"
    and "parse_ipv4 b len dl = Some (Some (p, seqid))" "flow_volume hb dw (packet_flow_src p) + len < 2147483648"
  shows "\<exists>b' dw' l2. cm_handle_ipv4_packet hb st b len dl dw = Some (b', dw') \<and> length b' = length b \<and>
    (\<forall>j. j \<noteq> l2 + 14 \<and> j \<noteq> l2 + 15 \<longrightarrow> b' ! j = b ! j) \<and> dw_inv hb st dw' \<and>
    vl_queue (dw_flow_recePktList_map dw') (packet_flow p) =
      vl_queue (dw_flow_recePktList_map dw) (packet_flow p) @ [new_pkt_volume seqid (word_of_int len)] \<and>
    flow_volume hb dw' (packet_flow_src p) = flow_volume hb dw (packet_flow_src p) + len \<and>
    (\<forall>g. g \<noteq> packet_flow_src p \<longrightarrow> flow_volume hb dw' g = flow_volume hb dw g) \<and>
    dw_pkt_num_sent dw' = (dw_pkt_num_sent dw)(dw_active_idx dw := dw_pkt_num_sent dw (dw_active_idx dw) + 1) \<and>
    dw_volume_sent dw' = (dw_volume_sent dw)(dw_active_idx dw := dw_volume_sent dw (dw_active_idx dw) + word_of_int len)"
proof -
  have "vl_ok (dw_flow_recePktList_map dw)" using dw_inv_shared(2) [OF assms(2)] .
  note q = vl.pending_send [OF this, of "packet_flow p" seqid "word_of_int len" "packet_flow p"]
  from flow_src_hash.handle_packet_spec [OF assms] show ?thesis
    unfolding retagged_def by (elim exE conjE) (intro exI conjI, assumption+, simp add: q, simp_all)
qed

theorem packet_handled_witness:
  "\<exists>dw b' dw'. cm_handle_ipv4_packet flow_src_hash_bin dw_setting sample_frame 58 1 dw = Some (b', dw') \<and>
    flow_volume flow_src_hash_bin dw' \<lparr>fs_srcip = 0x0C000001, fs_dstip = 0x0E000002\<rparr> = 58"
proof -
  obtain dw where dw: "dw_inv flow_src_hash_bin dw_setting dw"
    "tab_map flow_src_hash_bin (dw_flow_volume_map dw (dw_active_idx dw)) = Map.empty" using dw_sample_task by blast
  then have fit: "flow_volume flow_src_hash_bin dw (packet_flow_src sample_packet_t) + 58 < 2147483648" by simp
  have "packet_flow_src sample_packet_t = \<lparr>fs_srcip = 0x0C000001, fs_dstip = 0x0E000002\<rparr>"
    by (simp add: sample_packet_t_def packet_flow_src_def)
  with packet_handled [OF murmur.flow_src_hash_axioms dw(1) _ _ sample_frame_parse fit] dw(2) show ?thesis by force
qed

text \<open>
  C12: what a switch reads from a packet of a selected flow.  When the host samples and conditions are
  carried by tags, a packet with a zero VLAN tag whose flow has a level and a task leaves with a tag
  that is marked as sampled, carries exactly the level of the flow, and names exactly the monitors of
  the task.
\<close>

theorem selected_packet_tag:
  assumes "flow_src_hash hb" "dw_inv hb st dw" "20 \<le> len" "len < 65536"
    and "parse_ipv4 b len dl = Some (Some (p, seqid))" "flow_volume hb dw (packet_flow_src p) + len < 2147483648"
    and "host_or_switch_sample st = HOST_SAMPLE" "inject_or_tag_packet st = TAG_PKT_AS_CONDITION"
    and "vlan_tag b dl = Some 0" "get_task_of_traffic (dw_task_manager dw) (packet_flow_src p) = Some t"
    and "\<forall>s \<in> set (take (num_monitors t) (monitor_switch_ids t)). 1 \<le> s \<and> s \<le> 12"
    and "lev = ht_kfs_vi_get hb (data_warehouse_get_flow_selected_level_map dw) (packet_flow_src p)" "0 < lev"
  shows "\<exists>b' dw' v. cm_handle_ipv4_packet hb st b len dl dw = Some (b', dw') \<and> vlan_tag b' dl = Some v \<and>
    v AND TAG_VLAN_PACKET_SAMPLED_VAL \<noteq> 0 \<and> uint (GET_VLAN_SELECTED_FLOW_VAL v) = lev \<and>
    (\<forall>i. 1 \<le> i \<and> i \<le> 12 \<longrightarrow> (v AND TAG_VLAN_FOR_SWITCH_I (i - 1) \<noteq> 0 \<longleftrightarrow> i \<in> set (take (num_monitors t) (monitor_switch_ids t))))"
proof -
  from flow_src_hash.handle_packet_spec [OF assms(1-6)] assms(10,12,13) obtain b' dw' l2 vl where
    run: "cm_handle_ipv4_packet hb st b len dl dw = Some (b', dw')" and rt: "retagged dl l2 vl (task_tag st t True lev) b b'"
    by auto
  let ?ss = "take (num_monitors t) (monitor_switch_ids t)"
  define v where "v = (switch_bits ?ss 0 OR TAG_VLAN_PACKET_SAMPLED_VAL) OR TAG_VLAN_SELECTED_FLOW_VAL lev"
  have "vl" using rt assms(9) by (auto simp: retagged_def vlan_tag_def split: bind_splits if_splits)
  then have tag: "vlan_tag b' dl = Some v"
    using rt assms(7-9,13) by (simp add: retagged_def task_tag_def Let_def v_def)
  have "lev = 1 \<or> lev = 2"
    using assms(12,13) dw_inv_active(2) [OF assms(2), of "packet_flow_src p"]
    by (auto simp: dw_get_defs tab_get flow_consistent_def level_of_def split: option.splits if_splits)
  then have "0 \<le> lev" "lev \<le> 3" by auto
  note tf = tag_fields [OF assms(11) this, where v = v and sampled = True]
  have "v AND TAG_VLAN_PACKET_SAMPLED_VAL \<noteq> 0" "uint (GET_VLAN_SELECTED_FLOW_VAL v) = lev"
    using tf [of 1] by (simp_all add: v_def)
  moreover have "v AND TAG_VLAN_FOR_SWITCH_I (i - 1) \<noteq> 0 \<longleftrightarrow> i \<in> set ?ss" if "1 \<le> i" "i \<le> 12" for i
    using tf [OF that] by (simp add: v_def)
  ultimately show ?thesis using run tag by blast
qed

definition tag_setting :: cm_experiment_setting where
  "tag_setting = dw_setting\<lparr>inject_or_tag_packet := TAG_PKT_AS_CONDITION\<rparr>"

text \<open>With the zero thresholds of the setting, a flow with any volume is a target flow.\<close>

lemma tag_setting_level: "level_of tag_setting 58 0 = Some 2"
proof -
  have "cf_ge (loss_rate_of 0 58) (Fin 0)" by code_simp
  then show ?thesis by (simp add: level_of_def tag_setting_def dw_setting_def setting_zero_def)
qed

lemma dw_inv_setting:
  assumes "target_flow st' = target_flow st" "sender st' = sender st"
  shows "dw_inv hb st' dw = dw_inv hb st dw"
proof -
  have eq: "level_of st' = level_of st" "loss_seen hb st' = loss_seen hb st"
    by (simp_all add: fun_eq_iff level_of_def loss_seen_def assms)
  show ?thesis unfolding dw_inv_def flow_consistent_def eq by (rule refl)
qed

lemma dw_sample_selected:
  "\<exists>dw. dw_inv flow_src_hash_bin tag_setting dw \<and> dw_task_manager dw = \<lparr>tasks = [sample_task]\<rparr> \<and>
    flow_volume flow_src_hash_bin dw (packet_flow_src sample_packet_t) = 58 \<and>
    tab_map flow_src_hash_bin (data_warehouse_get_flow_selected_level_map dw) (packet_flow_src sample_packet_t) = Some 2"
proof -
  let ?hb = flow_src_hash_bin and ?f = "packet_flow_src sample_packet_t"
  obtain dw0 where "dw_inv ?hb dw_setting dw0" and tm: "dw_task_manager dw0 = \<lparr>tasks = [sample_task]\<rparr>"
    and empty: "tab_map ?hb (dw_flow_volume_map dw0 (dw_active_idx dw0)) = Map.empty"
      "tab_map ?hb (dw_flow_loss_volume_map dw0 (dw_active_idx dw0)) = Map.empty" using dw_sample_task by blast
  then have inv: "dw_inv ?hb tag_setting dw0"
    using dw_inv_setting [of tag_setting dw_setting ?hb dw0] by (simp add: tag_setting_def)
  define dw where "dw = update_flow_normal_volume ?hb tag_setting ?f 58 dw0"
  have n: "dw_inv ?hb tag_setting dw" "only_flow ?hb ?f dw0 dw" "flow_volume ?hb dw ?f = 58" "flow_loss ?hb dw ?f = 0"
    using murmur.normal_volume_spec [OF inv, of 58 ?f] empty by (simp_all add: dw_def)
  then obtain v where v: "tab_map ?hb (dw_flow_volume_map dw (dw_active_idx dw)) ?f = Some v" "sint v = 58"
    by (auto split: option.splits)
  have "loss_map_mem_type (sender tag_setting) \<noteq> FIXED" by (simp add: tag_setting_def dw_setting_def setting_zero_def FIXED_def)
  then have "loss_seen ?hb tag_setting dw (dw_active_idx dw) ?f = 0" using n(4) by (simp add: loss_seen_def)
  with dw_inv_active(2) [OF n(1), of ?f] v
  have "tab_map ?hb (data_warehouse_get_flow_selected_level_map dw) ?f = Some 2"
    by (simp add: flow_consistent_def dw_get_defs tag_setting_level)
  moreover have "dw_task_manager dw = \<lparr>tasks = [sample_task]\<rparr>" using n(2) tm by (simp add: only_flow_def)
  ultimately show ?thesis using n by blast
qed

theorem selected_packet_tag_witness:
  "\<exists>dw b' dw' v. cm_handle_ipv4_packet flow_src_hash_bin tag_setting sample_frame 58 1 dw = Some (b', dw') \<and>
    vlan_tag b' 1 = Some v \<and> uint (GET_VLAN_SELECTED_FLOW_VAL v) = 2"
proof -
  let ?hb = flow_src_hash_bin and ?f = "packet_flow_src sample_packet_t"
  obtain dw where dw: "dw_inv ?hb tag_setting dw" "dw_task_manager dw = \<lparr>tasks = [sample_task]\<rparr>"
    "flow_volume ?hb dw ?f = 58" "tab_map ?hb (data_warehouse_get_flow_selected_level_map dw) ?f = Some 2"
    using dw_sample_selected by blast
  have fit: "flow_volume ?hb dw ?f + 58 < 2147483648" using dw(3) by simp
  have mode: "host_or_switch_sample tag_setting = HOST_SAMPLE" "inject_or_tag_packet tag_setting = TAG_PKT_AS_CONDITION"
    by (simp_all add: tag_setting_def dw_setting_def setting_zero_def HOST_SAMPLE_def)
  have tag: "vlan_tag sample_frame 1 = Some 0" by code_simp
  have task: "get_task_of_traffic (dw_task_manager dw) ?f = Some sample_task"
    unfolding dw(2) by code_simp
  have mon: "\<forall>s \<in> set (take (num_monitors sample_task) (monitor_switch_ids sample_task)). 1 \<le> s \<and> s \<le> 12"
    by (simp add: sample_task_def)
  have lev: "2 = ht_kfs_vi_get ?hb (data_warehouse_get_flow_selected_level_map dw) ?f" using dw(4) by (simp add: tab_get)
  from selected_packet_tag [OF murmur.flow_src_hash_axioms dw(1) _ _ sample_frame_parse fit mode tag task mon lev]
  show ?thesis by force
qed

end
