(* ===== verification/C_Memory.thy ===== *)
theory C_Memory
  imports Bytes General_Functions
begin

text \<open>
  Computations on packet buffers that can end in one of several faults.  A load or store outside the
  buffer (\<open>None\<close> in \<open>Bytes\<close>) becomes the fault \<open>Out_of_bounds\<close>; \<open>c_bind\<close> runs the rest of a
  computation unless it has ended.
\<close>

definition c_bind :: "'a c_result \<Rightarrow> ('a \<Rightarrow> 'b c_result) \<Rightarrow> 'b c_result" where
  "c_bind r f = (case r of Inl e \<Rightarrow> Inl e | Inr x \<Rightarrow> f x)"

definition c_mem :: "'a option \<Rightarrow> 'a c_result" where
  "c_mem x = (case x of None \<Rightarrow> Inl Out_of_bounds | Some v \<Rightarrow> Inr v)"

definition st32 :: "u8 list \<Rightarrow> nat \<Rightarrow> u32 \<Rightarrow> u8 list option" where
  "st32 b i w = do { b \<leftarrow> st16 b i (ucast w); st16 b (i + 2) (ucast (drop_bit 16 w)) }"

text \<open>The data link types of libpcap and the Ethernet types that the code distinguishes.\<close>

definition DLT_EN10MB :: int where "DLT_EN10MB = 1"
definition DLT_RAW :: int where "DLT_RAW = 12"
definition DLT_PPP_SERIAL :: int where "DLT_PPP_SERIAL = 50"
definition DLT_C_HDLC :: int where "DLT_C_HDLC = 104"
definition DLT_LINUX_SLL :: int where "DLT_LINUX_SLL = 113"

definition ETHERTYPE_IP6 :: u16 where "ETHERTYPE_IP6 = 0x86dd"

definition DEFAULT_MTU :: int where "DEFAULT_MTU = 1500"

text \<open>\<^verbatim>\<open>struct timeval\<close>, and \<^verbatim>\<open>struct pcap_pkthdr\<close> of libpcap.\<close>

record timeval =
  tv_sec :: int
  tv_usec :: int

record pcap_pkthdr =
  pkt_ts :: timeval
  pkt_caplen :: u32
  pkt_len :: u32

definition ld_bytes :: "u8 list \<Rightarrow> nat \<Rightarrow> nat \<Rightarrow> u8 list option" where
  "ld_bytes b i n = (if i + n \<le> length b then Some (take n (drop i b)) else None)"

lemmas dlt_defs = DLT_EN10MB_def DLT_RAW_def DLT_PPP_SERIAL_def DLT_C_HDLC_def DLT_LINUX_SLL_def

section \<open>Lemmas\<close>

lemma c_bind_simps [simp]: "c_bind (Inl e) f = Inl e" "c_bind (Inr x) f = f x"
  by (simp_all add: c_bind_def)

lemma c_mem_simps [simp]: "c_mem None = Inl Out_of_bounds" "c_mem (Some x) = Inr x"
  by (simp_all add: c_mem_def)

lemma c_mem_Inr [simp]: "c_mem x = Inr v \<longleftrightarrow> x = Some v"
  by (cases x) simp_all

lemma c_bind_Inr: "c_bind r f = Inr y \<longleftrightarrow> (\<exists>x. r = Inr x \<and> f x = Inr y)"
  by (cases r) simp_all

lemma c_bind_cong [fundef_cong]: "r = r' \<Longrightarrow> (\<And>x. r' = Inr x \<Longrightarrow> f x = g x) \<Longrightarrow> c_bind r f = c_bind r' g"
  by (cases r') simp_all

lemma ld32_Some: "ld32 b i = Some w \<longleftrightarrow> (\<exists>x y. ld16 b i = Some x \<and> ld16 b (i + 2) = Some y \<and> w = pack32 x y)"
  by (auto simp: ld32_def split: bind_splits)

lemma st16_exists: "i + 1 < length b \<Longrightarrow> \<exists>b'. st16 b i w = Some b'"
  by (simp add: st16_def)

lemma update_two: "(xs @ x # y # ys)[length xs := p, Suc (length xs) := q] = xs @ p # q # ys"
  by (simp add: list_update_append)

lemma st16_shape:
  assumes "st16 b i w = Some b'"
  shows "b' = take i b @ bytes16 w @ drop (i + 2) b \<and> i + 1 < length b"
proof -
  from assms have l: "Suc i < length b" and b': "b' = b[i := ucast w, Suc i := ucast (drop_bit 8 w)]"
    by (auto simp: st16_def split: if_splits)
  have split: "b = take i b @ b ! i # b ! Suc i # drop (i + 2) b"
    using l by (simp add: Cons_nth_drop_Suc)
  have "length (take i b) = i" using l by simp
  with split update_two [of "take i b" "b ! i" "b ! Suc i" "drop (i + 2) b" "ucast w" "ucast (drop_bit 8 w)"]
  have "b[i := ucast w, Suc i := ucast (drop_bit 8 w)] = take i b @ ucast w # ucast (drop_bit 8 w) # drop (i + 2) b"
    by simp
  with l b' show ?thesis by (simp add: bytes16_def)
qed

lemma st32_shape:
  assumes "st32 b i w = Some b'"
  shows "b' = take i b @ bytes_of_32 w @ drop (i + 4) b" "i + 3 < length b"
proof -
  from assms obtain b1 where 1: "st16 b i (ucast w) = Some b1" and 2: "st16 b1 (i + 2) (ucast (drop_bit 16 w)) = Some b'"
    by (auto simp: st32_def split: bind_splits)
  from st16_shape [OF 1] st16_shape [OF 2] show "b' = take i b @ bytes_of_32 w @ drop (i + 4) b" "i + 3 < length b"
    by (auto simp: bytes_of_32_def bytes16_def eval_nat_numeral)
qed

lemma st32_exists: "i + 3 < length b \<Longrightarrow> \<exists>b'. st32 b i w = Some b'"
  by (auto simp: st32_def st16_def split: bind_splits)

end
