(* ===== verification/Checksum.thy ===== *)
theory Checksum
  imports C_Memory
begin

text \<open>
  \<^verbatim>\<open>tcpreplay/src/tcpedit/checksum.c\<close>: the Internet checksums of IPv4, TCP, UDP and ICMP headers, with the functions
  of \<^verbatim>\<open>common/get.c\<close> that find the layer 4 header of an IPv6 packet.  The buffer starts at the IP header; a
  pointer into it is an offset.  The words are summed as the little-endian machine loads them, which does
  not matter for the ones' complement sum.
\<close>

section \<open>The sum\<close>

fun checksum_loop :: "u8 list \<Rightarrow> nat \<Rightarrow> nat \<Rightarrow> int \<Rightarrow> int option" where
  "checksum_loop data i (Suc (Suc len)) s =
    (case ld16 data i of None \<Rightarrow> None | Some w \<Rightarrow> checksum_loop data (i + 2) len (c_int (s + uint w)))"
| "checksum_loop data i (Suc 0) s = (case ld8 data i of None \<Rightarrow> None | Some b \<Rightarrow> Some (c_int (s + uint b)))"
| "checksum_loop data i 0 s = Some s"

definition do_checksum_math :: "u8 list \<Rightarrow> nat \<Rightarrow> int \<Rightarrow> int c_result" where
  "do_checksum_math data i len = c_mem (checksum_loop data i (nat len) 0)"

text \<open>The macro assigns to its argument: the new value of the argument, and the checksum.\<close>

definition CHECKSUM_CARRY :: "int \<Rightarrow> int \<times> u16" where
  "CHECKSUM_CARRY x =
    (let x = drop_bit 16 x + (x AND 0xffff)
     in (x, word_of_int (NOT (x + drop_bit 16 x) AND 0xffff)))"

section \<open>The layer 4 header of an IPv6 packet\<close>

definition TCPR_IPV6_H :: nat where "TCPR_IPV6_H = 40"
definition TCPR_IPV6_NH_HBH :: u8 where "TCPR_IPV6_NH_HBH = 0"
definition TCPR_IPV6_NH_IPV6 :: u8 where "TCPR_IPV6_NH_IPV6 = 41"
definition TCPR_IPV6_NH_ROUTING :: u8 where "TCPR_IPV6_NH_ROUTING = 43"
definition TCPR_IPV6_NH_FRAGMENT :: u8 where "TCPR_IPV6_NH_FRAGMENT = 44"
definition TCPR_IPV6_NH_ESP :: u8 where "TCPR_IPV6_NH_ESP = 50"
definition TCPR_IPV6_NH_AH :: u8 where "TCPR_IPV6_NH_AH = 51"
definition TCPR_IPV6_NH_NO_NEXT :: u8 where "TCPR_IPV6_NH_NO_NEXT = 59"
definition TCPR_IPV6_NH_DESTOPTS :: u8 where "TCPR_IPV6_NH_DESTOPTS = 60"

lemmas ipv6_nh_defs = TCPR_IPV6_NH_HBH_def TCPR_IPV6_NH_IPV6_def TCPR_IPV6_NH_ROUTING_def TCPR_IPV6_NH_FRAGMENT_def
  TCPR_IPV6_NH_ESP_def TCPR_IPV6_NH_AH_def TCPR_IPV6_NH_NO_NEXT_def TCPR_IPV6_NH_DESTOPTS_def

definition IPV6_EXTLEN_TO_BYTES :: "u8 \<Rightarrow> nat" where "IPV6_EXTLEN_TO_BYTES x = unat x * 4 + 8"

definition ld_int :: "u8 list \<Rightarrow> int \<Rightarrow> int c_result" where
  "ld_int b i = (if i < 0 then Inl Out_of_bounds else c_bind (c_mem (ld32 b (nat i))) (\<lambda>w. Inr (sint w)))"

text \<open>\<open>Inr None\<close> is the null pointer.  The limit is read from the packet, \<^verbatim>\<open>len\<close> bytes behind the header.\<close>

definition get_ipv6_next :: "u8 list \<Rightarrow> nat \<Rightarrow> int \<Rightarrow> nat option c_result" where
  "get_ipv6_next b exthdr len =
    c_bind (ld_int b (int exthdr + len)) (\<lambda>maxlen.
    c_bind (c_mem (ld8 b exthdr)) (\<lambda>ip_nh.
      if ip_nh = TCPR_IPV6_NH_NO_NEXT \<or> ip_nh = TCPR_IPV6_NH_ESP then Inr None
      else if ip_nh = TCPR_IPV6_NH_FRAGMENT then
        c_bind (ld_int b (int (exthdr + 8))) (\<lambda>v. Inr (if v > maxlen then None else Some (exthdr + 8)))
      else if ip_nh = TCPR_IPV6_NH_IPV6 \<or> ip_nh = TCPR_IPV6_NH_ROUTING \<or> ip_nh = TCPR_IPV6_NH_DESTOPTS \<or>
          ip_nh = TCPR_IPV6_NH_HBH \<or> ip_nh = TCPR_IPV6_NH_AH then
        c_bind (c_mem (ld8 b (exthdr + 1))) (\<lambda>l.
        let ptr = exthdr + IPV6_EXTLEN_TO_BYTES l
        in c_bind (ld_int b (int ptr)) (\<lambda>v. Inr (if v > maxlen then None else Some ptr)))
      else Inr (Some exthdr)))"

definition is_ext_header :: "u8 \<Rightarrow> bool" where
  "is_ext_header proto \<longleftrightarrow> proto = TCPR_IPV6_NH_AH \<or> proto = TCPR_IPV6_NH_ROUTING \<or> proto = TCPR_IPV6_NH_DESTOPTS \<or>
    proto = TCPR_IPV6_NH_HBH"

text \<open>Both walks advance in the packet, except for one last step on the same header.\<close>

lemma get_ipv6_next_progress:
  assumes "get_ipv6_next b e len = Inr (Some e')" "ld8 b e' = Some nh"
  shows "e < e' \<and> e' < length b \<or> e' = e \<and> \<not> is_ext_header nh \<and> nh \<noteq> TCPR_IPV6_NH_IPV6"
  using assms
  by (auto simp: get_ipv6_next_def c_bind_Inr is_ext_header_def IPV6_EXTLEN_TO_BYTES_def Let_def ld8_def split: if_splits)

function l4proto_loop :: "u8 list \<Rightarrow> int \<Rightarrow> nat \<Rightarrow> u8 \<Rightarrow> u8 c_result" where
  "l4proto_loop b len ptr proto =
    (if proto = TCPR_IPV6_NH_FRAGMENT \<or> proto = TCPR_IPV6_NH_ESP then Inr proto
     else if proto = TCPR_IPV6_NH_IPV6 then
       c_bind (c_mem (ld8 b (ptr + 6))) (\<lambda>ip_nh. l4proto_loop b len (ptr + TCPR_IPV6_H) ip_nh)
     else if is_ext_header proto then
       c_bind (get_ipv6_next b ptr len) (\<lambda>n.
         case n of
           None \<Rightarrow> Inl Null_dereference
         | Some exthdr \<Rightarrow> c_bind (c_mem (ld8 b exthdr)) (\<lambda>ip_nh. l4proto_loop b len exthdr ip_nh))
     else Inr proto)"
  by pat_completeness auto
termination
  by (relation "(\<lambda>(b, len, ptr, proto). length b - ptr) <*mlex*>
      measure (\<lambda>(b, len, ptr, proto). if is_ext_header proto \<or> proto = TCPR_IPV6_NH_IPV6 then 1 else 0)")
    (auto simp: wf_mlex mlex_prod_def ld8_def TCPR_IPV6_H_def split: if_splits dest!: get_ipv6_next_progress)

definition get_ipv6_l4proto :: "u8 list \<Rightarrow> nat \<Rightarrow> int \<Rightarrow> u8 c_result" where
  "get_ipv6_l4proto b ip6_hdr len =
    c_bind (c_mem (ld8 b (ip6_hdr + 6))) (\<lambda>ip_nh. l4proto_loop b len (ip6_hdr + TCPR_IPV6_H) ip_nh)"

function layer4_loop :: "u8 list \<Rightarrow> int \<Rightarrow> nat \<Rightarrow> nat \<Rightarrow> u8 \<Rightarrow> nat option c_result" where
  "layer4_loop b len ip6_hdr nxt proto =
    (if proto = TCPR_IPV6_NH_IPV6 then
       c_bind (c_mem (ld8 b (nxt + 6))) (\<lambda>ip_nh. layer4_loop b len nxt (nxt + TCPR_IPV6_H) ip_nh)
     else if is_ext_header proto then
       c_bind (get_ipv6_next b nxt (len - (int ip6_hdr - int nxt))) (\<lambda>n.
         case n of
           None \<Rightarrow> Inl Null_dereference
         | Some exthdr \<Rightarrow> c_bind (c_mem (ld8 b exthdr)) (\<lambda>ip_nh. layer4_loop b len ip6_hdr exthdr ip_nh))
     else if proto = TCPR_IPV6_NH_FRAGMENT \<or> proto = TCPR_IPV6_NH_ESP then Inr None
     else
       c_bind (c_mem (ld8 b (ip6_hdr + 6))) (\<lambda>ip_nh.
         if proto \<noteq> ip_nh then c_bind (c_mem (ld8 b (nxt + 1))) (\<lambda>l. Inr (Some (nxt + IPV6_EXTLEN_TO_BYTES l)))
         else Inr (Some nxt)))"
  by pat_completeness auto
termination
  by (relation "(\<lambda>(b, len, h, nxt, proto). length b - nxt) <*mlex*>
      measure (\<lambda>(b, len, h, nxt, proto). if is_ext_header proto \<or> proto = TCPR_IPV6_NH_IPV6 then 1 else 0)")
    (auto simp: wf_mlex mlex_prod_def ld8_def TCPR_IPV6_H_def split: if_splits dest!: get_ipv6_next_progress)

declare l4proto_loop.simps [simp del] layer4_loop.simps [simp del]

definition get_layer4_v6 :: "u8 list \<Rightarrow> nat \<Rightarrow> int \<Rightarrow> nat option c_result" where
  "get_layer4_v6 b ip6_hdr len =
    c_bind (c_mem (ld8 b (ip6_hdr + 6))) (\<lambda>ip_nh. layer4_loop b len ip6_hdr (ip6_hdr + TCPR_IPV6_H) ip_nh)"

section \<open>Writing a checksum\<close>

definition TCPEDIT_OK :: int where "TCPEDIT_OK = 0"
definition TCPEDIT_WARN :: int where "TCPEDIT_WARN = 1"
definition IPPROTO_IP :: int where "IPPROTO_IP = 0"
definition IPPROTO_ICMP :: int where "IPPROTO_ICMP = 1"
definition IPPROTO_TCP :: int where "IPPROTO_TCP = 6"
definition IPPROTO_UDP :: int where "IPPROTO_UDP = 17"
definition IPPROTO_ICMP6 :: int where "IPPROTO_ICMP6 = 58"

lemmas ipproto_defs = IPPROTO_IP_def IPPROTO_ICMP_def IPPROTO_TCP_def IPPROTO_UDP_def IPPROTO_ICMP6_def

definition addresses_sum :: "bool \<Rightarrow> u8 list \<Rightarrow> int c_result" where
  "addresses_sum v6 data = (if v6 then do_checksum_math data 8 32 else do_checksum_math data 12 8)"

definition put_checksum :: "u8 list \<Rightarrow> nat \<Rightarrow> int \<Rightarrow> u8 list c_result" where
  "put_checksum data i s = c_mem (st16 data i (snd (CHECKSUM_CARRY s)))"

text \<open>The common part of TCP and UDP: \<open>l4\<close> is the header, \<open>field\<close> the offset of the checksum in it.\<close>

definition transport_checksum :: "bool \<Rightarrow> u8 list \<Rightarrow> nat \<Rightarrow> nat \<Rightarrow> int \<Rightarrow> int \<Rightarrow> u8 list c_result" where
  "transport_checksum v6 data l4 field proto len =
    c_bind (c_mem (st16 data (l4 + field) 0)) (\<lambda>data.
    c_bind (addresses_sum v6 data) (\<lambda>s.
    let s = c_int (s + uint (ntohs (word_of_int (proto + len))))
    in c_bind (do_checksum_math data l4 len) (\<lambda>t. put_checksum data (l4 + field) (c_int (s + t)))))"

definition icmp_checksum :: "bool \<Rightarrow> u8 list \<Rightarrow> nat \<Rightarrow> int \<Rightarrow> u8 list c_result" where
  "icmp_checksum v6 data l4 len =
    c_bind (c_mem (st16 data (l4 + 2) 0)) (\<lambda>data.
    c_bind (if v6
            then c_bind (addresses_sum v6 data) (\<lambda>s. c_bind (put_checksum data (l4 + 2) s) (\<lambda>data. Inr (data, fst (CHECKSUM_CARRY s))))
            else Inr (data, 0)) (\<lambda>(data, s).
    c_bind (do_checksum_math data l4 len) (\<lambda>t. put_checksum data (l4 + 2) (c_int (s + t)))))"

definition icmp6_checksum :: "bool \<Rightarrow> u8 list \<Rightarrow> nat \<Rightarrow> int \<Rightarrow> u8 list c_result" where
  "icmp6_checksum v6 data l4 len =
    c_bind (c_mem (st16 data (l4 + 2) 0)) (\<lambda>data.
    c_bind (if v6 then addresses_sum v6 data else Inr 0) (\<lambda>s.
    let s = c_int (s + uint (ntohs (word_of_int (IPPROTO_ICMP6 + len))))
    in c_bind (do_checksum_math data l4 len) (\<lambda>t. put_checksum data (l4 + 2) (c_int (s + t)))))"

definition ip_checksum :: "u8 list \<Rightarrow> nat \<Rightarrow> u8 list c_result" where
  "ip_checksum data ip_hl =
    c_bind (c_mem (st16 data 10 0)) (\<lambda>data.
    c_bind (do_checksum_math data 0 (int ip_hl)) (\<lambda>s. put_checksum data 10 s))"

text \<open>The branches of the switch; \<open>ip_hl\<close> is \<open>None\<close> when the IPv6 packet has no layer 4 header.\<close>

definition checksum_switch :: "bool \<Rightarrow> u8 list \<Rightarrow> nat option \<Rightarrow> int \<Rightarrow> int \<Rightarrow> (u8 list \<times> int) c_result" where
  "checksum_switch v6 data ip_hl proto len =
    (let ok = (\<lambda>r. c_bind r (\<lambda>data. Inr (data, TCPEDIT_OK)))
     in if proto \<notin> {IPPROTO_TCP, IPPROTO_UDP, IPPROTO_ICMP, IPPROTO_ICMP6, IPPROTO_IP} then Inr (data, TCPEDIT_WARN)
        else case ip_hl of
               None \<Rightarrow> Inl Null_dereference
             | Some l4 \<Rightarrow>
                 if proto = IPPROTO_TCP then ok (transport_checksum v6 data l4 16 IPPROTO_TCP len)
                 else if proto = IPPROTO_UDP then
                   c_bind (c_mem (ld16 data (l4 + 6))) (\<lambda>uh_sum.
                     if uh_sum = 0 then Inr (data, TCPEDIT_OK) else ok (transport_checksum v6 data l4 6 IPPROTO_UDP len))
                 else if proto = IPPROTO_ICMP then ok (icmp_checksum v6 data l4 len)
                 else if proto = IPPROTO_ICMP6 then ok (icmp6_checksum v6 data l4 len)
                 else if v6 then Inl Null_dereference
                 else ok (ip_checksum data l4))"

definition do_checksum :: "u8 list \<Rightarrow> int \<Rightarrow> int \<Rightarrow> (u8 list \<times> int) c_result" where
  "do_checksum data proto len =
    (if len \<le> 0 then Inr (data, TCPEDIT_WARN)
     else c_bind (c_mem (ld8 data 0)) (\<lambda>v.
       if drop_bit 4 v = 6 then
         c_bind (get_ipv6_l4proto data 0 len) (\<lambda>proto.
         c_bind (get_layer4_v6 data 0 len) (\<lambda>l4.
           checksum_switch True data l4 (uint proto)
             (case l4 of None \<Rightarrow> len | Some l4 \<Rightarrow> c_int (len - (int l4 - int TCPR_IPV6_H)))))
       else checksum_switch False data (Some (unat (v AND 0xf) * 4)) proto len))"

section \<open>Ones' complement arithmetic\<close>

text \<open>The reference: the sum of the little-endian 16-bit words of a byte list.\<close>

fun wsum :: "u8 list \<Rightarrow> int" where
  "wsum (x # y # r) = uint x + 256 * uint y + wsum r"
| "wsum [x] = uint x"
| "wsum [] = 0"

lemma wsum_append: "even (length xs) \<Longrightarrow> wsum (xs @ ys) = wsum xs + wsum ys"
  by (induction xs rule: wsum.induct) auto

lemma uint_u8: "0 \<le> uint (x :: u8)" "uint (x :: u8) \<le> 255"
  using unsigned_less [where 'a = int and w = x] by auto

lemma wsum_bounds: "0 \<le> wsum xs \<and> wsum xs \<le> 65535 * ((int (length xs) + 1) div 2)"
proof (induction xs rule: wsum.induct)
  case (1 x y r)
  have "(int (length (x # y # r)) + 1) div 2 = (int (length r) + 1) div 2 + 1" by simp
  with 1 uint_u8 [of x] uint_u8 [of y] show ?case by (simp add: algebra_simps)
next
  case (2 x)
  then show ?case using uint_u8 [of x] by simp
qed simp

lemma uint_pack16: "uint (pack16 x y) = uint x + 256 * uint y"
proof -
  have "(ucast x :: u16) AND push_bit 8 (ucast y) = 0" by (rule bit_word_eqI) (auto simp: bit_simps dest: bit_imp_le_length)
  then have "pack16 x y = ucast x + push_bit 8 (ucast y)" unfolding pack16_def by (simp add: disjunctive_add_eq_or)
  moreover have "uint (push_bit 8 (ucast y :: u16)) = 256 * uint y" using uint_u8 [of y]
    by (simp add: push_bit_eq_mult uint_word_ariths(3) unsigned_ucast_eq take_bit_eq_mod)
  ultimately show ?thesis using uint_u8 [of x] uint_u8 [of y]
    by (simp add: uint_plus_simple_iff uint_word_ariths(1) unsigned_ucast_eq take_bit_eq_mod)
qed

lemma wsum_bytes16: "wsum (bytes16 w) = uint w"
  using uint_pack16 [of "ucast w" "ucast (drop_bit 8 w)"] by (simp add: bytes16_def)

lemma checksum_loop_sum:
  assumes "i + len \<le> length data" "0 \<le> s" "s + 65535 * ((int len + 1) div 2) < 2147483648"
  shows "checksum_loop data i len s = Some (s + wsum (take len (drop i data)))"
  using assms
proof (induction data i len s rule: checksum_loop.induct)
  case (1 data i len s)
  have w: "ld16 data i = Some (pack16 (data ! i) (data ! (i + 1)))" using 1(2) by (simp add: ld16_Some)
  have d: "drop i data = data ! i # data ! (i + 1) # drop (i + 2) data" using 1(2) by (simp add: Cons_nth_drop_Suc)
  have b: "(int (Suc (Suc len)) + 1) div 2 = (int len + 1) div 2 + 1" by simp
  let ?w = "uint (data ! i) + 256 * uint (data ! (i + 1))"
  have u: "0 \<le> ?w" "?w \<le> 65535" using uint_u8 [of "data ! i"] uint_u8 [of "data ! (i + 1)"] by linarith+
  have c: "c_int (s + ?w) = s + ?w" using 1(3,4) b u by (intro c_int_id, unfold int_range_def) linarith
  have "checksum_loop data (i + 2) len (s + ?w) = Some (s + ?w + wsum (take len (drop (i + 2) data)))"
    using 1(1) [OF w] 1(2-4) u b unfolding uint_pack16 c by simp
  then show ?case using w c d by (simp add: uint_pack16)
next
  case (2 data i s)
  then have d: "drop i data = data ! i # drop (i + 1) data" by (simp add: Cons_nth_drop_Suc)
  have "c_int (s + uint (data ! i)) = s + uint (data ! i)"
    using 2(2,3) uint_u8 [of "data ! i"] by (intro c_int_id, unfold int_range_def) linarith
  then show ?case using 2(1) d by (simp add: ld8_def)
qed simp

lemma do_checksum_math_sum:
  assumes "i + n \<le> length data" "n \<le> 65534"
  shows "do_checksum_math data i (int n) = Inr (wsum (take n (drop i data)))"
proof -
  have "(int n + 1) div 2 \<le> 32767" using assms(2) by simp
  then show ?thesis using checksum_loop_sum [OF assms(1), of 0] by (simp add: do_checksum_math_def)
qed

lemma wsum_less: "length xs \<le> n \<Longrightarrow> wsum xs \<le> 65535 * ((int n + 1) div 2)"
  using wsum_bounds [of xs] by (smt (verit) of_nat_mono zdiv_mono1)

text \<open>The carry makes the checksum the negative of the sum modulo 65535.\<close>

lemma checksum_carry:
  assumes "0 \<le> s" "s < 2147483648"
  shows "(s + uint (snd (CHECKSUM_CARRY s))) mod 65535 = 0"
proof -
  define x where "x = s div 65536 + s mod 65536"
  have "0 \<le> s div 65536" "s div 65536 \<le> 32767" using assms zdiv_mono1 [of s 2147483647 65536] by simp_all
  moreover have "0 \<le> s mod 65536" "s mod 65536 < 65536" by simp_all
  ultimately have x: "0 \<le> x" "x < 131071" unfolding x_def by linarith+
  have m: "y AND 65535 = y mod 65536" for y :: int
    using take_bit_eq_mask [of 16 y] by (simp add: take_bit_eq_mod mask_eq_exp_minus_1)
  have "NOT y AND 65535 = 65535 - y mod 65536" for y :: int
  proof -
    have "- y - 1 = (65535 - y mod 65536) + 65536 * (- (y div 65536) - 1)"
      using div_mult_mod_eq [of y 65536] by (simp add: algebra_simps)
    then have "(- y - 1) mod 65536 = (65535 - y mod 65536) mod 65536" by (metis mod_mult_self2)
    moreover have "0 \<le> y mod 65536" "y mod 65536 < 65536" by simp_all
    ultimately have "(- y - 1) mod 65536 = 65535 - y mod 65536" by simp
    then show ?thesis unfolding m not_int_def by simp
  qed
  then have "snd (CHECKSUM_CARRY s) = word_of_int (65535 - (x + x div 65536) mod 65536)"
    by (simp add: CHECKSUM_CARRY_def x_def m drop_bit_eq_div Let_def)
  moreover have "0 \<le> (x + x div 65536) mod 65536" "(x + x div 65536) mod 65536 < 65536" by simp_all
  ultimately have u: "uint (snd (CHECKSUM_CARRY s)) = 65535 - (x + x div 65536) mod 65536"
    by (simp add: uint_word_of_int del: of_int_diff)
  have "s = s div 65536 * 65536 + s mod 65536" by (rule div_mult_mod_eq [symmetric])
  then have s: "s = x + 65535 * (s div 65536)" unfolding x_def by linarith
  show ?thesis
  proof (cases "x < 65536")
    case True
    then have "x div 65536 = 0" "x mod 65536 = x" using x by simp_all
    then have "s + uint (snd (CHECKSUM_CARRY s)) = 65535 * (s div 65536 + 1)" unfolding u using s by simp
    then show ?thesis by simp
  next
    case False
    have "x div 65536 = (x - 65536) div 65536 + 1" using div_add_self2 [of 65536 "x - 65536"] by simp
    with False x have "x div 65536 = 1" by simp
    moreover have "(x + 1) mod 65536 = (x + 1 - 65536) mod 65536" by (rule minus_mod_self2 [symmetric])
    with False x have "(x + 1) mod 65536 = x + 1 - 65536" by simp
    ultimately have "s + uint (snd (CHECKSUM_CARRY s)) = 65535 * (s div 65536 + 2)" unfolding u using s by simp
    then show ?thesis by simp
  qed
qed

lemma wsum_patch:
  assumes "length A = i + f" "even f" "f + 2 \<le> n"
  shows "wsum (take n (drop i (A @ bytes16 c @ B))) = wsum (drop i A) + uint c + wsum (take (n - f - 2) B)"
proof -
  have "take n (drop i (A @ bytes16 c @ B)) = drop i A @ bytes16 c @ take (n - f - 2) B"
    using assms by (simp add: bytes16_def take_Cons' numeral_2_eq_2)
  then show ?thesis using assms by (simp add: wsum_append wsum_bytes16)
qed

text \<open>Storing a checksum in a zeroed field of a segment, and what is kept.\<close>

lemma put_checksum_patch:
  assumes z: "st16 data (i + f) 0 = Some d0" and p: "st16 d0 (i + f) c = Some d'" and f: "even f" "f + 2 \<le> n"
  shows "wsum (take n (drop i d')) = wsum (take n (drop i d0)) + uint c" "length d' = length data" "length d0 = length data"
    "j \<noteq> i + f \<Longrightarrow> j \<noteq> i + f + 1 \<Longrightarrow> d' ! j = data ! j \<and> d0 ! j = data ! j"
proof -
  have d0: "d0 = take (i + f) data @ bytes16 0 @ drop (i + f + 2) data" "i + f + 1 < length data" using st16_shape [OF z] by auto
  have "take (i + f) d0 = take (i + f) data" "drop (i + f + 2) d0 = drop (i + f + 2) data"
    using d0 by (simp_all add: bytes16_def)
  then have d': "d' = take (i + f) data @ bytes16 c @ drop (i + f + 2) data" using st16_shape [OF p] by simp
  have "length (take (i + f) data) = i + f" using d0(2) by simp
  note w = wsum_patch [OF this f]
  show "wsum (take n (drop i d')) = wsum (take n (drop i d0)) + uint c"
    unfolding d' d0(1) w by simp
  show "length d' = length data" "length d0 = length data" using ld16_st16(2) [OF z] ld16_st16(2) [OF p] by simp_all
  show "d' ! j = data ! j \<and> d0 ! j = data ! j" if "j \<noteq> i + f" "j \<noteq> i + f + 1"
    using ld16_st16(4) [OF z that] ld16_st16(4) [OF p that] by simp
qed

lemma wsum_frame:
  assumes "length d' = length d" "\<And>j. i \<le> j \<Longrightarrow> j < i + n \<Longrightarrow> d' ! j = d ! j"
  shows "take n (drop i d') = take n (drop i d)"
  using assms by (intro nth_equalityI) auto

lemma ip_checksum_ok:
  assumes "20 \<le> hl" "hl \<le> length data" "hl \<le> 60"
  shows "\<exists>d'. ip_checksum data hl = Inr d' \<and> length d' = length data \<and> wsum (take hl d') mod 65535 = 0 \<and>
    (\<forall>j. j \<noteq> 10 \<and> j \<noteq> 11 \<longrightarrow> d' ! j = data ! j)"
proof -
  from st16_exists [of 10 data 0] assms obtain d0 where d0: "st16 data 10 0 = Some d0" by auto
  have l0: "length d0 = length data" using ld16_st16(2) [OF d0] .
  define c where "c = snd (CHECKSUM_CARRY (wsum (take hl d0)))"
  from st16_exists [of 10 d0 c] assms l0 obtain d' where d': "st16 d0 10 c = Some d'" by auto
  note p = put_checksum_patch [where i = 0 and f = 10 and n = hl, simplified, OF d0 d']
  have "do_checksum_math d0 0 (int hl) = Inr (wsum (take hl d0))"
    using do_checksum_math_sum [of 0 hl d0] assms l0 by simp
  then have "ip_checksum data hl = Inr d'" by (simp add: ip_checksum_def d0 put_checksum_def d' c_def [symmetric])
  moreover have "wsum (take hl d0) < 2147483648" using wsum_less [of "take hl d0" 60] assms by (simp add: min_le_iff_disj)
  then have "wsum (take hl d') mod 65535 = 0"
    using checksum_carry [of "wsum (take hl d0)"] wsum_bounds [of "take hl d0"] p(1) assms by (simp add: c_def)
  ultimately show ?thesis using p(2,4) assms by auto
qed

lemma transport_checksum_ok:
  assumes "20 \<le> l4" "even f" "f + 2 \<le> n" "n \<le> 65000" "l4 + n \<le> length data"
  shows "\<exists>d'. transport_checksum False data l4 f proto (int n) = Inr d' \<and> length d' = length data \<and>
    (wsum (take 8 (drop 12 d')) + uint (ntohs (word_of_int (proto + int n))) + wsum (take n (drop l4 d'))) mod 65535 = 0 \<and>
    (\<forall>j. j \<noteq> l4 + f \<and> j \<noteq> l4 + f + 1 \<longrightarrow> d' ! j = data ! j)"
proof -
  from st16_exists [of "l4 + f" data 0] assms obtain d0 where d0: "st16 data (l4 + f) 0 = Some d0" by auto
  have l0: "length d0 = length data" using ld16_st16(2) [OF d0] .
  let ?a = "wsum (take 8 (drop 12 d0))" and ?h = "uint (ntohs (word_of_int (proto + int n)))" and ?t = "wsum (take n (drop l4 d0))"
  define c where "c = snd (CHECKSUM_CARRY (?a + ?h + ?t))"
  from st16_exists [of "l4 + f" d0 c] assms l0 obtain d' where d': "st16 d0 (l4 + f) c = Some d'" by auto
  note p = put_checksum_patch [OF d0 d' assms(2,3)]
  have b: "0 \<le> ?a" "?a \<le> 65535 * 4" "0 \<le> ?t" "?t \<le> 65535 * 32500" "0 \<le> ?h" "?h \<le> 65535"
    using wsum_bounds wsum_less [of "take 8 (drop 12 d0)" 8] wsum_less [of "take n (drop l4 d0)" 65000] assms(4)
      unsigned_less [where 'a = int and w = "ntohs (word_of_int (proto + int n))"] by simp_all
  have c1: "c_int (?a + ?h) = ?a + ?h" "c_int (?a + ?h + ?t) = ?a + ?h + ?t"
    using b by (intro c_int_id, unfold int_range_def, linarith)+
  have "do_checksum_math d0 12 8 = Inr ?a" "do_checksum_math d0 l4 (int n) = Inr ?t"
    using do_checksum_math_sum [of 12 8 d0] do_checksum_math_sum [of l4 n d0] assms l0 by simp_all
  then have run: "transport_checksum False data l4 f proto (int n) = Inr d'"
    by (simp add: transport_checksum_def d0 addresses_sum_def c1 put_checksum_def c_def [symmetric] d' del: of_int_add)
  have "take 8 (drop 12 d') = take 8 (drop 12 d0)" using p(2-4) assms(1) by (intro wsum_frame) auto
  moreover have "(?a + ?h + ?t + uint c) mod 65535 = 0" unfolding c_def using b by (intro checksum_carry) linarith+
  ultimately show ?thesis using run p by (auto simp: add.assoc)
qed

section \<open>Properties\<close>

text \<open>
  C20: the checksums verify.  On an IPv4 packet \<^verbatim>\<open>do_checksum\<close> returns, the header sum is then 0 in ones' complement
  arithmetic, and so is the TCP sum with its pseudo header; only the two bytes of the checksum change.
\<close>

theorem checksum_valid:
  assumes "data \<noteq> []" "drop_bit 4 (hd data) = (4 :: u8)" "hl = unat (hd data AND 0xf) * 4" "20 \<le> hl" "hl \<le> length data"
    and "18 \<le> n" "n \<le> 65000"
  shows "(\<exists>d'. do_checksum data IPPROTO_IP (int n) = Inr (d', TCPEDIT_OK) \<and> length d' = length data \<and>
      wsum (take hl d') mod 65535 = 0 \<and> (\<forall>j. j \<noteq> 10 \<and> j \<noteq> 11 \<longrightarrow> d' ! j = data ! j)) \<and>
    (hl + n \<le> length data \<longrightarrow>
      (\<exists>d'. do_checksum data IPPROTO_TCP (int n) = Inr (d', TCPEDIT_OK) \<and> length d' = length data \<and>
        (wsum (take 8 (drop 12 d')) + uint (ntohs (word_of_int (6 + int n))) + wsum (take n (drop hl d'))) mod 65535 = 0 \<and>
        (\<forall>j. j \<noteq> hl + 16 \<and> j \<noteq> hl + 17 \<longrightarrow> d' ! j = data ! j)))"
proof -
  have h: "ld8 data 0 = Some (hd data)" "\<not> drop_bit 4 (hd data) = 6" using assms(1,2) by (simp_all add: ld8_def hd_conv_nth)
  have "hd data AND 0xf \<le> 0xf" by (rule word_and_le1)
  then have hl: "hl \<le> 60" using assms(3) by (simp add: word_le_nat_alt)
  have sw: "do_checksum data proto (int n) = checksum_switch False data (Some hl) proto (int n)" for proto
    using h assms(3,6) by (simp add: do_checksum_def)
  from ip_checksum_ok [OF assms(4,5) hl] obtain d1 where d1: "ip_checksum data hl = Inr d1" "length d1 = length data"
    "wsum (take hl d1) mod 65535 = 0" "\<forall>j. j \<noteq> 10 \<and> j \<noteq> 11 \<longrightarrow> d1 ! j = data ! j" by (elim exE conjE)
  have 1: "do_checksum data IPPROTO_IP (int n) = Inr (d1, TCPEDIT_OK)"
    by (simp add: sw checksum_switch_def ipproto_defs d1(1) Let_def)
  have 2: "\<exists>d'. do_checksum data IPPROTO_TCP (int n) = Inr (d', TCPEDIT_OK) \<and> length d' = length data \<and>
        (wsum (take 8 (drop 12 d')) + uint (ntohs (word_of_int (6 + int n))) + wsum (take n (drop hl d'))) mod 65535 = 0 \<and>
        (\<forall>j. j \<noteq> hl + 16 \<and> j \<noteq> hl + 17 \<longrightarrow> d' ! j = data ! j)" if "hl + n \<le> length data"
  proof -
    from transport_checksum_ok [of hl 16 n data IPPROTO_TCP] that assms(4,6,7) obtain d2 where
      d2: "transport_checksum False data hl 16 IPPROTO_TCP (int n) = Inr d2" "length d2 = length data"
        "(wsum (take 8 (drop 12 d2)) + uint (ntohs (word_of_int (IPPROTO_TCP + int n))) + wsum (take n (drop hl d2))) mod 65535 = 0"
        "\<forall>j. j \<noteq> hl + 16 \<and> j \<noteq> hl + 16 + 1 \<longrightarrow> d2 ! j = data ! j" by auto
    have "do_checksum data IPPROTO_TCP (int n) = Inr (d2, TCPEDIT_OK)"
      by (simp add: sw checksum_switch_def d2(1) Let_def)
    with d2(2-4) show ?thesis by (intro exI [of _ d2]) (simp add: IPPROTO_TCP_def)
  qed
  show ?thesis using 1 d1(2-4) 2 by (intro conjI impI) (rule exI [of _ d1], simp_all)
qed

theorem checksum_valid_witness:
  "\<exists>d'. do_checksum (0x45 # replicate 39 7) IPPROTO_TCP 20 = Inr (d', TCPEDIT_OK) \<and>
    (wsum (take 8 (drop 12 d')) + uint (ntohs (word_of_int (6 + 20))) + wsum (take 20 (drop 20 d'))) mod 65535 = 0"
proof -
  have "drop_bit 4 (hd (0x45 # replicate 39 7)) = (4 :: u8)" "20 = unat (hd (0x45 # replicate 39 7) AND (0xf :: u8)) * 4" by simp_all
  from checksum_valid [OF _ this, of 20] show ?thesis by auto
qed

text \<open>
  An IPv6 packet whose first header is an extension header makes \<^verbatim>\<open>do_checksum\<close> read outside the packet,
  because \<^verbatim>\<open>get_ipv6_next\<close> reads its limit from the bytes \<^verbatim>\<open>len\<close> behind the extension header.
\<close>

theorem ipv6_extension_out_of_bounds:
  assumes "data \<noteq> []" "drop_bit 4 (hd data) = (6 :: u8)" "ld8 data 6 = Some ip_nh" "is_ext_header ip_nh"
  shows "do_checksum data proto (int (length data)) = Inl Out_of_bounds"
proof -
  have "ld8 data 0 = Some (hd data)" using assms(1) by (simp add: ld8_def hd_conv_nth)
  moreover have "get_ipv6_next data TCPR_IPV6_H (int (length data)) = Inl Out_of_bounds"
    by (simp add: get_ipv6_next_def ld_int_def ld32_def ld16_def ld8_def nat_add_distrib)
  then have "l4proto_loop data (int (length data)) TCPR_IPV6_H ip_nh = Inl Out_of_bounds"
    using assms(4) by (subst l4proto_loop.simps) (auto simp: is_ext_header_def ipv6_nh_defs)
  ultimately show ?thesis using assms by (simp add: do_checksum_def get_ipv6_l4proto_def)
qed

theorem ipv6_extension_out_of_bounds_witness:
  "do_checksum (0x60 # replicate 59 0) IPPROTO_TCP 60 = Inl Out_of_bounds"
  using ipv6_extension_out_of_bounds [of "0x60 # replicate 59 0" 0] by (simp add: ld8_def is_ext_header_def ipv6_nh_defs)

end
