(* ===== verification/Fast_Edit.thy ===== *)
theory Fast_Edit
  imports Packet_Handler Checksum
begin

text \<open>
  \<^verbatim>\<open>fast_edit_packet\<close> of \<^verbatim>\<open>tcpreplay/src/send_packets.c\<close>: when a trace is replayed several times with \<^verbatim>\<open>--unique-ip\<close>,
  the addresses of every packet are changed so that each pass has its own flows, and so that no checksum has to
  be recomputed.  The result is the edited buffer or a fault.
\<close>

section \<open>Definitions\<close>

text \<open>The computation of the new addresses, which the two functions below share.\<close>

definition edit_ips :: "u32 \<Rightarrow> bool \<Rightarrow> u32 \<Rightarrow> u32 \<Rightarrow> u32 \<times> u32" where
  "edit_ips iteration cached src_ip_orig dst_ip_orig =
    (if (\<not> cached \<and> dst_ip_orig > src_ip_orig) \<or>
        (cached \<and> dst_ip_orig - iteration > src_ip_orig - 1 - iteration) then
       let src_ip = (if cached then src_ip_orig - 1 else src_ip_orig - iteration);
           dst_ip = (if cached then dst_ip_orig + 1 else dst_ip_orig + iteration)
       in if src_ip > src_ip_orig \<and> dst_ip > dst_ip_orig then (src_ip - 1, dst_ip)
          else if dst_ip < dst_ip_orig \<and> src_ip < src_ip_orig then (src_ip, dst_ip + 1)
          else (src_ip, dst_ip)
     else
       let src_ip = (if cached then src_ip_orig + 1 else src_ip_orig + iteration);
           dst_ip = (if cached then dst_ip_orig - 1 else dst_ip_orig - iteration)
       in if dst_ip > dst_ip_orig \<and> src_ip > src_ip_orig then (src_ip, dst_ip - 1)
          else if src_ip < src_ip_orig \<and> dst_ip < dst_ip_orig then (src_ip + 1, dst_ip)
          else (src_ip, dst_ip))"

text \<open>
  Data links other than Ethernet.  The pointers \<^verbatim>\<open>src_ptr\<close> and \<^verbatim>\<open>dst_ptr\<close> are never assigned, so that storing the new
  addresses uses a null pointer.
\<close>

definition l2_type_dl :: "u8 list \<Rightarrow> int \<Rightarrow> (u16 \<times> nat) option c_result" where
  "l2_type_dl b datalink =
    (if datalink = DLT_LINUX_SLL then c_bind (c_mem (ld16 b 14)) (\<lambda>t. Inr (Some (t, 16)))
     else if datalink = DLT_PPP_SERIAL then
       c_bind (c_mem (ld16 b 2)) (\<lambda>t. Inr (Some (if ntohs t = 0x0021 then htons ETHERTYPE_IP else t, 4)))
     else if datalink = DLT_C_HDLC then c_bind (c_mem (ld16 b 2)) (\<lambda>t. Inr (Some (t, 4)))
     else if datalink = DLT_RAW then
       c_bind (c_mem (ld8 b 0)) (\<lambda>v.
         Inr (Some (if drop_bit 4 v = 4 then ETHERTYPE_IP else if drop_bit 4 v = 6 then ETHERTYPE_IP6 else 0, 0)))
     else Inr None)"

definition fast_edit_packet_dl :: "u32 \<Rightarrow> u8 list \<Rightarrow> u32 \<Rightarrow> bool \<Rightarrow> int \<Rightarrow> u8 list c_result" where
  "fast_edit_packet_dl caplen b iteration cached datalink =
    (if caplen < word_of_nat TCPR_IPV6_H then Inr b
     else c_bind (l2_type_dl b datalink) (\<lambda>r.
       case r of
         None \<Rightarrow> Inr b
       | Some (ether_type, l2_len) \<Rightarrow>
           if ether_type = ETHERTYPE_IP then
             c_bind (c_mem (ld8 b l2_len)) (\<lambda>v.
               if drop_bit 4 v \<noteq> 4 then Inr b
               else c_bind (c_mem (ld32 b (l2_len + 12))) (\<lambda>_. c_bind (c_mem (ld32 b (l2_len + 16))) (\<lambda>_. Inl Null_dereference)))
           else if ether_type = ETHERTYPE_IP6 then
             c_bind (c_mem (ld8 b 0)) (\<lambda>v.
               if drop_bit 4 v \<noteq> 6 then Inr b
               else c_bind (c_mem (ld32 b (l2_len + 20))) (\<lambda>_. c_bind (c_mem (ld32 b (l2_len + 36))) (\<lambda>_. Inl Null_dereference)))
           else Inr b))"

definition edit_at :: "u8 list \<Rightarrow> nat \<Rightarrow> nat \<Rightarrow> u32 \<Rightarrow> bool \<Rightarrow> u8 list c_result" where
  "edit_at b src dst iteration cached =
    c_bind (c_mem (ld32 b src)) (\<lambda>s. c_bind (c_mem (ld32 b dst)) (\<lambda>d.
      case edit_ips iteration cached (ntohl s) (ntohl d) of
        (src_ip, dst_ip) \<Rightarrow> c_bind (c_mem (st32 b src (htonl src_ip))) (\<lambda>b. c_mem (st32 b dst (htonl dst_ip)))))"

definition fast_edit_packet :: "u32 \<Rightarrow> u8 list \<Rightarrow> u32 \<Rightarrow> bool \<Rightarrow> int \<Rightarrow> u8 list c_result" where
  "fast_edit_packet caplen b iteration cached datalink =
    c_bind (if datalink \<noteq> DLT_EN10MB \<and> datalink \<noteq> DLT_JUNIPER_ETHER then fast_edit_packet_dl caplen b iteration cached datalink
            else Inr b) (\<lambda>b.
      if caplen < word_of_nat TCPR_IPV6_H then Inr b
      else
        c_bind (c_mem (l2_start b datalink)) (\<lambda>l2_len.
        c_bind (c_mem (ld16 b (l2_len + 12))) (\<lambda>t.
        c_bind (c_mem (skip_vlan b (ntohs t) l2_len)) (\<lambda>(ether_type, l2_len).
          let l2_len = l2_len + 14
          in if ether_type = ETHERTYPE_IP then edit_at b (l2_len + 12) (l2_len + 16) iteration cached
             else if ether_type = ETHERTYPE_IP6 then edit_at b (l2_len + 20) (l2_len + 36) iteration cached
             else Inr b))))"

section \<open>The new addresses\<close>

text \<open>
  \<open>x\<close> goes down and \<open>y\<close> up by \<open>i\<close>; when exactly one of the two wraps around, it is moved by one more.
\<close>

definition shift_pair :: "u32 \<Rightarrow> u32 \<Rightarrow> u32 \<Rightarrow> u32 \<times> u32" where
  "shift_pair i x y =
    (let x' = x - i; y' = y + i
     in if x' > x \<and> y' > y then (x' - 1, y') else if y' < y \<and> x' < x then (x', y' + 1) else (x', y'))"

lemma edit_ips_shift:
  "edit_ips iteration cached s d =
    (if (\<not> cached \<and> d > s) \<or> (cached \<and> d - iteration > s - 1 - iteration)
     then shift_pair (if cached then 1 else iteration) s d
     else prod.swap (shift_pair (if cached then 1 else iteration) d s))"
  by (cases cached)
    (simp_all only: edit_ips_def shift_pair_def Let_def simp_thms if_True if_False if_distrib [where f = prod.swap] swap_simp)

lemma if_chain: "(if p then a else if q then b else c) = r \<Longrightarrow> p \<and> r = a \<or> q \<and> r = b \<or> \<not> p \<and> \<not> q \<and> r = c"
  by (auto split: if_splits)

lemmas shift_pair_cases = if_chain [OF trans [OF sym [OF shift_pair_def [unfolded Let_def]]]]

lemma shift_pair_sum:
  assumes "shift_pair i x y = (x', y')"
  shows "\<exists>k. uint x' + uint y' = uint x + uint y + k * 4294967295"
proof -
  have b: "0 \<le> uint x" "uint x < 4294967296" "0 \<le> uint y" "uint y < 4294967296" "0 \<le> uint i" "uint i < 4294967296"
    using unsigned_less [where 'a = int and w = x] unsigned_less [where 'a = int and w = y] unsigned_less [where 'a = int and w = i] by simp_all
  have d: "uint (x - i) = (if uint i \<le> uint x then uint x - uint i else uint x - uint i + 4294967296)"
    by (simp add: uint_sub_if')
  have u: "uint (y + i) = (if uint y + uint i < 4294967296 then uint y + uint i else uint y + uint i - 4294967296)"
    by (simp add: uint_plus_if')
  have m1: "uint (z - 1) = uint z - 1" if "1 \<le> uint z" for z :: u32 using that uint_sub_if' [of z 1] by simp
  have p1: "uint (z + 1) = uint z + 1" if "uint z < 4294967295" for z :: u32 using that uint_plus_if' [of z 1] by simp
  consider (down) "uint (x - i) > uint x" "uint (y + i) > uint y" "x' = x - i - 1" "y' = y + i"
    | (up) "uint (y + i) < uint y" "uint (x - i) < uint x" "x' = x - i" "y' = y + i + 1"
    | (none) "\<not> (uint (x - i) > uint x \<and> uint (y + i) > uint y)" "\<not> (uint (y + i) < uint y \<and> uint (x - i) < uint x)"
        "x' = x - i" "y' = y + i"
    using shift_pair_cases [OF assms] unfolding word_less_def prod.inject by blast
  then show ?thesis
  proof cases
    case down
    have "1 \<le> uint (x - i)" using down(1) b(1) by linarith
    then have "uint x' + uint y' = uint (x - i) - 1 + uint (y + i)" by (simp add: down(3,4) m1)
    then have "uint x' + uint y' = uint x + uint y + 1 * 4294967295" using down(1,2) b unfolding d u by (auto split: if_splits)
    then show ?thesis ..
  next
    case up
    have "uint (y + i) < 4294967295" using up(1) b(4) by linarith
    then have "uint x' + uint y' = uint (x - i) + (uint (y + i) + 1)" by (simp add: up(3,4) p1)
    then have "uint x' + uint y' = uint x + uint y + (- 1) * 4294967295" using up(1,2) b unfolding d u by (auto split: if_splits)
    then show ?thesis ..
  next
    case none
    have "D + U = X + Y" if "0 \<le> X" "X < m" "0 \<le> Y" "Y < m" "0 \<le> I" "I < m" "D = (if I \<le> X then X - I else X - I + m)"
      "U = (if Y + I < m then Y + I else Y + I - m)" "\<not> (D > X \<and> U > Y)" "\<not> (U < Y \<and> D < X)" for D U X Y I m :: int
      using that by (auto split: if_splits)
    from this [OF b d u none(1,2)] have "uint x' + uint y' = uint x + uint y + 0 * 4294967295" by (simp add: none(3,4))
    then show ?thesis ..
  qed
qed

lemma edit_ips_sum:
  assumes "edit_ips iteration cached s d = (s', d')"
  shows "(uint s' + uint d') mod 65535 = (uint s + uint d) mod 65535"
proof -
  have "\<exists>k. uint s' + uint d' = uint s + uint d + k * 4294967295"
  proof (cases "(\<not> cached \<and> d > s) \<or> (cached \<and> d - iteration > s - 1 - iteration)")
    case True
    with assms show ?thesis by (intro shift_pair_sum) (simp add: edit_ips_shift)
  next
    case False
    with assms have "shift_pair (if cached then 1 else iteration) d s = (d', s')"
      by (simp add: edit_ips_shift prod.swap_def prod_eq_iff)
    from shift_pair_sum [OF this] show ?thesis by (simp add: add.commute)
  qed
  then obtain k where "uint s' + uint d' = uint s + uint d + k * 4294967295" ..
  then have "uint s' + uint d' = uint s + uint d + k * 65537 * 65535" by simp
  then show ?thesis by (metis mod_mult_self1)
qed

text \<open>Different passes have different addresses.\<close>

lemma shift_pair_inj:
  assumes "shift_pair i x y = shift_pair j x y"
  shows "i = j"
proof (rule ccontr)
  assume ne: "i \<noteq> j"
  define a b where "a = (\<lambda>i. x - i > x \<and> y + i > y)" and "b = (\<lambda>i. y + i < y \<and> x - i < x)"
  have ex: "\<not> (a i \<and> b i)" for i unfolding a_def b_def by (meson less_asym)
  have "shift_pair i x y = (x - i - of_bool (a i), y + i + of_bool (b i))" for i
    using shift_pair_cases [of i x y "shift_pair i x y"] ex [of i] unfolding a_def b_def by fastforce
  then have "x - i - of_bool (a i) = x - j - of_bool (a j)" "y + i + of_bool (b i) = y + j + of_bool (b j)"
    using assms by simp_all
  then have "i - j = of_bool (a j) - of_bool (a i)" "i - j = of_bool (b j) - of_bool (b i)"
    by (simp_all add: algebra_simps)
  then show False using ne ex [of i] ex [of j]
    by (cases "a i"; cases "a j"; cases "b i"; cases "b j"; simp add: algebra_simps)
qed

lemma edit_ips_inj:
  assumes "edit_ips i False s d = edit_ips j False s d"
  shows "i = j"
proof (cases "s < d")
  case True
  with assms show ?thesis by (intro shift_pair_inj [of i s d j]) (simp add: edit_ips_shift)
next
  case False
  with assms have "prod.swap (prod.swap (shift_pair i d s)) = prod.swap (prod.swap (shift_pair j d s))" by (simp add: edit_ips_shift)
  then show ?thesis by (intro shift_pair_inj [of i d s j]) simp
qed

section \<open>Sums of addresses\<close>

lemma uint_pack32: "uint (pack32 x y) = uint x + 65536 * uint y"
proof -
  have b: "0 \<le> uint x" "uint x < 65536" "0 \<le> uint y" "uint y < 65536"
    using unsigned_less [where 'a = int and w = x] unsigned_less [where 'a = int and w = y] by simp_all
  have "(ucast x :: u32) AND push_bit 16 (ucast y) = 0" by (rule bit_word_eqI) (auto simp: bit_simps dest: bit_imp_le_length)
  then have "pack32 x y = ucast x + push_bit 16 (ucast y)" unfolding pack32_def by (simp add: disjunctive_add_eq_or)
  moreover have "uint (push_bit 16 (ucast y :: u32)) = 65536 * uint y" using b
    by (simp add: push_bit_eq_mult uint_word_ariths(3) unsigned_ucast_eq take_bit_eq_mod)
  ultimately show ?thesis using b
    by (simp add: uint_word_ariths(1) unsigned_ucast_eq take_bit_eq_mod)
qed

lemma ntohs_mod: "uint (ntohs w) mod 65535 = 256 * uint w mod 65535"
proof -
  have w: "uint w = uint (ucast w :: u8) + 256 * uint (ucast (drop_bit 8 w) :: u8)"
    using uint_pack16 [of "ucast w" "ucast (drop_bit 8 w)"] by simp
  have "256 * uint w = uint (ntohs w) + uint (ucast (drop_bit 8 w) :: u8) * 65535"
    unfolding w ntohs_def uint_pack16 by simp
  then show ?thesis by (simp only: mod_mult_self1)
qed

lemma wsum_htonl: "wsum (bytes_of_32 (htonl x)) mod 65535 = 256 * uint x mod 65535"
proof -
  let ?l = "ucast x :: u16" and ?h = "ucast (drop_bit 16 x) :: u16"
  have x: "256 * uint x = 256 * uint ?h + 256 * uint ?l + 256 * uint ?h * 65535"
    using uint_pack32 [of ?l ?h] by simp
  have "wsum (bytes_of_32 (htonl x)) = uint (ntohs ?h) + uint (ntohs ?l)"
    by (simp add: bytes_of_32_def wsum_append wsum_bytes16 ntohl_def)
  also have "\<dots> mod 65535 = (256 * uint ?h + 256 * uint ?l) mod 65535"
    by (rule mod_add_cong [OF ntohs_mod ntohs_mod])
  also have "\<dots> = 256 * uint x mod 65535" unfolding x by (rule mod_mult_self1 [symmetric])
  finally show ?thesis .
qed

lemma ld32_bytes_of:
  assumes "ld32 b i = Some w"
  shows "take 4 (drop i b) = bytes_of_32 w" "i + 3 < length b"
proof -
  from assms obtain x y where x: "ld16 b i = Some x" and y: "ld16 b (i + 2) = Some y" and w: "w = pack32 x y" by (auto simp: ld32_Some)
  from y show l: "i + 3 < length b" by (simp add: ld16_Some)
  have "drop i b = b ! i # b ! (i + 1) # b ! (i + 2) # b ! (i + 3) # drop (i + 4) b" using l by (simp add: Cons_nth_drop_Suc numeral_eq_Suc)
  then show "take 4 (drop i b) = bytes_of_32 w" using x y by (auto simp: ld16_Some w bytes_of_32_def bytes16_def numeral_3_eq_3)
qed

text \<open>Editing an IPv4 header: the shape of the result, and its sums.\<close>

lemma edit_at_shape:
  assumes "ld32 b i = Some s" "ld32 b (i + 4) = Some d" "edit_ips iteration cached (ntohl s) (ntohl d) = (s', d')"
  shows "edit_at b i (i + 4) iteration cached = Inr (take i b @ (bytes_of_32 (htonl s') @ bytes_of_32 (htonl d')) @ drop (i + 8) b)"
    "b = take i b @ (bytes_of_32 s @ bytes_of_32 d) @ drop (i + 8) b"
proof -
  have l: "i + 7 < length b" using ld32_bytes_of(2) [OF assms(2)] by simp
  obtain b1 where b1: "st32 b i (htonl s') = Some b1" using st32_exists [of i b] l by auto
  have s1: "b1 = take i b @ bytes_of_32 (htonl s') @ drop (i + 4) b" using st32_shape [OF b1] by simp
  then have "length b1 = length b" using l by simp
  then obtain b2 where b2: "st32 b1 (i + 4) (htonl d') = Some b2" using st32_exists [of "i + 4" b1] l by auto
  have "b2 = take i b @ (bytes_of_32 (htonl s') @ bytes_of_32 (htonl d')) @ drop (i + 8) b"
    using st32_shape(1) [OF b2] l by (simp add: s1 add.commute)
  then show "edit_at b i (i + 4) iteration cached = Inr (take i b @ (bytes_of_32 (htonl s') @ bytes_of_32 (htonl d')) @ drop (i + 8) b)"
    using b1 b2 by (simp add: edit_at_def assms)
  have "drop i b = bytes_of_32 s @ drop (i + 4) b" "drop (i + 4) b = bytes_of_32 d @ drop (i + 8) b"
    using append_take_drop_id [of 4 "drop i b"] append_take_drop_id [of 4 "drop (i + 4) b"] ld32_bytes_of(1) [OF assms(1)]
      ld32_bytes_of(1) [OF assms(2)] by (simp_all add: add.commute)
  then show "b = take i b @ (bytes_of_32 s @ bytes_of_32 d) @ drop (i + 8) b"
    using append_take_drop_id [of i b] by simp
qed

lemma pair_sum:
  assumes "edit_ips iteration cached s d = (s', d')"
  shows "wsum (bytes_of_32 (htonl s') @ bytes_of_32 (htonl d')) mod 65535 = wsum (bytes_of_32 (htonl s) @ bytes_of_32 (htonl d)) mod 65535"
proof -
  have w: "wsum (bytes_of_32 (htonl a) @ bytes_of_32 (htonl b)) mod 65535 = 256 * ((uint a + uint b) mod 65535) mod 65535" for a b
  proof -
    have "wsum (bytes_of_32 (htonl a) @ bytes_of_32 (htonl b)) mod 65535 = (256 * uint a + 256 * uint b) mod 65535"
      unfolding wsum_append [of "bytes_of_32 (htonl a)", simplified] by (rule mod_add_cong [OF wsum_htonl wsum_htonl])
    then show ?thesis by (simp add: mod_mult_right_eq distrib_left)
  qed
  show ?thesis unfolding w edit_ips_sum [OF assms] by (rule refl)
qed

lemma wsum_middle:
  assumes "wsum m mod 65535 = wsum m' mod 65535" "length m = 8" "length m' = 8" "length a = h + f" "even f" "f + 8 \<le> n"
  shows "wsum (take n (drop h (a @ m @ c))) mod 65535 = wsum (take n (drop h (a @ m' @ c))) mod 65535"
proof -
  have t: "take n (drop h (a @ x @ c)) = drop h a @ x @ take (n - f - 8) c" if "length x = 8" for x
    using assms(4,6) that by simp
  have e: "wsum (drop h a @ x @ take (n - f - 8) c) = (wsum (drop h a) + wsum (take (n - f - 8) c)) + wsum x" if "length x = 8" for x
    using assms(4,5) that by (simp add: wsum_append)
  show ?thesis unfolding t [OF assms(2)] t [OF assms(3)] e [OF assms(2)] e [OF assms(3)] by (rule mod_add_cong [OF refl assms(1)])
qed

text \<open>
  For a packet from the packet cache the new addresses do not depend on the pass, as long as nothing wraps around: the
  function relies on the addresses of the pass before being in the cache.
\<close>

lemma edit_ips_cached_same:
  assumes "0 < s" "s \<le> d" "it < s" "it' < s"
  shows "edit_ips it True s d = edit_ips it' True s d"
proof -
  have "d - i > s - 1 - i" if "i < s" for i
  proof -
    have "i \<le> s - 1" "s - 1 < s" using that assms(1) by (simp_all add: word_less_nat_alt word_le_nat_alt unat_minus_one unat_gt_0)
    moreover from this have "s - 1 < d" "i \<le> d" using assms(2) by simp_all
    ultimately have "unat (s - 1 - i) = unat (s - 1) - unat i" "unat (d - i) = unat d - unat i" "unat (s - 1) < unat d" "unat i \<le> unat (s - 1)"
      by (simp_all add: unat_sub word_less_nat_alt word_le_nat_alt)
    then show ?thesis by (simp add: word_less_nat_alt)
  qed
  from this [OF assms(3)] this [OF assms(4)] show ?thesis by (simp add: edit_ips_def)
qed

section \<open>Properties\<close>



text \<open>
  On the other data links the editing uses a null pointer: any raw IPv4 packet of at least 40 bytes ends the
  program.
\<close>

theorem fast_edit_null_pointer:
  assumes "40 \<le> caplen" "40 \<le> length b" "drop_bit 4 (hd b) = (4 :: u8)"
  shows "fast_edit_packet caplen b iteration cached DLT_RAW = Inl Null_dereference"
proof -
  have "b \<noteq> []" "\<not> caplen < 40" using assms(1,2) by auto
  then have "ld8 b 0 = Some (hd b)" by (simp add: ld8_def hd_conv_nth)
  moreover obtain s d where "ld32 b 12 = Some s" "ld32 b 16 = Some d" using assms(2) by (auto simp: ld32_def ld16_def ld8_def)
  ultimately show ?thesis using assms(3) \<open>\<not> caplen < 40\<close>
    by (simp add: fast_edit_packet_def fast_edit_packet_dl_def l2_type_dl_def TCPR_IPV6_H_def DLT_JUNIPER_ETHER_def dlt_defs)
qed

theorem fast_edit_null_pointer_witness:
  "fast_edit_packet 40 (0x45 # replicate 39 0) 1 False DLT_RAW = Inl Null_dereference"
  using fast_edit_null_pointer [of 40 "0x45 # replicate 39 0"] by simp

end
