(* ===== verification/Flow_Stats.thy ===== *)
theory Flow_Stats
  imports Packet_Handler Checksum
begin

text \<open>
  The flow statistics of tcpreplay: \<^verbatim>\<open>tcpreplay/src/common/flows.c\<close> decodes a packet to its flow (addresses, ports,
  VLAN, protocol) and looks the flow up in a chained hash table, \<^verbatim>\<open>update_flow_stats\<close> of \<^verbatim>\<open>send_packets.c\<close> counts
  the result.  Shown here: the table refines a map from flows to the time they were last seen, and the
  counters are the numbers of distinct flows and of packets.
\<close>

section \<open>Data\<close>

text \<open>
  The union of an IPv4 and an IPv6 address has 16 bytes, and the structure 40, the last one being
  padding that \<^verbatim>\<open>memset\<close> clears.
\<close>

record flow_entry_data =
  fe_src_ip :: "u8 list"
  fe_dst_ip :: "u8 list"
  fe_src_port :: u16
  fe_dst_port :: u16
  fe_vlan :: u16
  fe_protocol :: u8

definition entry_bytes :: "flow_entry_data \<Rightarrow> u8 list" where
  "entry_bytes d = fe_src_ip d @ fe_dst_ip d @ bytes16 (fe_src_port d) @ bytes16 (fe_dst_port d) @ bytes16 (fe_vlan d) @
    [fe_protocol d, 0]"

record flow_hash_entry =
  he_key :: u32
  he_data :: flow_entry_data
  ts_last_seen :: timeval

record flow_hash_table =
  num_buckets :: u64
  buckets :: "flow_hash_entry list list"

datatype flow_entry_type = FLOW_ENTRY_INVALID | FLOW_ENTRY_NON_IP | FLOW_ENTRY_NEW | FLOW_ENTRY_EXISTING | FLOW_ENTRY_EXPIRED

record flow_counters =
  c_flows :: u64
  c_flows_unique :: u64
  c_flow_packets :: u64
  c_flows_expired :: u64
  c_flow_non_flow_packets :: u64
  c_flows_invalid_packets :: u64

section \<open>The hash table\<close>

definition is_power_of_2 :: "u64 \<Rightarrow> bool" where
  "is_power_of_2 n \<longleftrightarrow> n \<noteq> 0 \<and> n AND (n - 1) = 0"

definition hash_step :: "u32 \<Rightarrow> u8 \<Rightarrow> u32" where
  "hash_step hv c =
    (let hv = hv + ucast c; hv = hv + push_bit 10 hv in hv XOR drop_bit 6 hv)"

definition hash_func :: "u8 list \<Rightarrow> u32" where
  "hash_func key =
    (let hv = foldl hash_step 0 key;
         hv = hv + push_bit 3 hv;
         hv = hv XOR drop_bit 11 hv
     in hv + push_bit 15 hv)"

text \<open>
  The new entry goes to the front of its bucket.  The argument \<open>mem\<close> is what \<^verbatim>\<open>malloc\<close> returns: nothing, or
  memory whose content at \<^verbatim>\<open>ts_last_seen\<close> is given.
\<close>

definition hash_add_entry :: "timeval option \<Rightarrow> flow_hash_table \<Rightarrow> u32 \<Rightarrow> u32 \<Rightarrow> flow_entry_data \<Rightarrow> flow_hash_table option c_result" where
  "hash_add_entry mem fht hv key hash_entry =
    (if \<not> unat hv < unat (num_buckets fht) then Inl Assertion
     else case mem of
         None \<Rightarrow> Inr None
       | Some junk \<Rightarrow>
           Inr (Some (fht\<lparr>buckets := (buckets fht)[unat hv :=
             \<lparr>he_key = key, he_data = hash_entry, ts_last_seen = junk\<rparr> # buckets fht ! unat hv]\<rparr>)))"

text \<open>The position of the flow in its bucket.\<close>

fun find_entry :: "u32 \<Rightarrow> flow_entry_data \<Rightarrow> flow_hash_entry list \<Rightarrow> nat option" where
  "find_entry key d [] = None"
| "find_entry key d (he # hes) =
    (if he_key he = key \<and> entry_bytes (he_data he) = entry_bytes d then Some 0 else map_option Suc (find_entry key d hes))"

definition set_last_seen :: "nat \<Rightarrow> nat \<Rightarrow> timeval \<Rightarrow> flow_hash_table \<Rightarrow> flow_hash_table" where
  "set_last_seen i j tv fht =
    fht\<lparr>buckets := (buckets fht)[i := (buckets fht ! i)[j := (buckets fht ! i ! j)\<lparr>ts_last_seen := tv\<rparr>]]\<rparr>"

definition bucket_of :: "flow_hash_table \<Rightarrow> u32 \<Rightarrow> u32" where
  "bucket_of fht key = ucast ((ucast key :: u64) AND (num_buckets fht - 1))"

definition hash_put_data :: "timeval option \<Rightarrow> flow_hash_table \<Rightarrow> u32 \<Rightarrow> flow_entry_data \<Rightarrow> timeval \<Rightarrow> int \<Rightarrow>
    (flow_entry_type \<times> flow_hash_table) c_result" where
  "hash_put_data mem fht key hash_entry tv expiry =
    (let hash_value = bucket_of fht key; i = unat hash_value
     in if \<not> i < length (buckets fht) then Inl Out_of_bounds
        else case find_entry key hash_entry (buckets fht ! i) of
          Some j \<Rightarrow>
            Inr (if expiry \<noteq> 0 \<and> tv_sec tv > expiry + tv_sec (ts_last_seen (buckets fht ! i ! j)) then FLOW_ENTRY_EXPIRED
                 else FLOW_ENTRY_EXISTING,
                 if expiry \<noteq> 0 then set_last_seen i j tv fht else fht)
        | None \<Rightarrow>
            c_bind (hash_add_entry mem fht hash_value key hash_entry) (\<lambda>r.
              case r of
                None \<Rightarrow> Inr (FLOW_ENTRY_INVALID, fht)
              | Some fht \<Rightarrow> Inr (FLOW_ENTRY_NEW, if expiry \<noteq> 0 then set_last_seen i 0 tv fht else fht)))"

definition flow_hash_table_init :: "bool \<Rightarrow> u64 \<Rightarrow> flow_hash_table c_result" where
  "flow_hash_table_init malloc_ok n =
    (if \<not> is_power_of_2 n then Inl Exited
     else if \<not> malloc_ok then Inl Exited
     else Inr \<lparr>num_buckets = n, buckets = replicate (unat n) []\<rparr>)"

text \<open>The cleared table and the entries freed, in their order.\<close>

definition flow_cache_clear :: "flow_hash_table \<Rightarrow> flow_hash_table \<times> flow_hash_entry list" where
  "flow_cache_clear fht = (fht\<lparr>buckets := map (\<lambda>_. []) (buckets fht)\<rparr>, concat (buckets fht))"

text \<open>The entries freed; \<open>None\<close> is the null pointer.\<close>

definition flow_hash_table_release :: "flow_hash_table option \<Rightarrow> flow_hash_entry list" where
  "flow_hash_table_release fht = (case fht of None \<Rightarrow> [] | Some fht \<Rightarrow> snd (flow_cache_clear fht))"

section \<open>Decoding\<close>

text \<open>The loop over VLAN tags: the tag of the innermost one, the Ethernet type and the length of the header.\<close>

function flow_vlan :: "u8 list \<Rightarrow> u16 \<Rightarrow> nat \<Rightarrow> u16 \<Rightarrow> (u16 \<times> u16 \<times> nat) option" where
  "flow_vlan pktdata ether_type l2_len vlan =
    (if ether_type = ETHERTYPE_VLAN then
       (case ld16 pktdata (l2_len + 14) of
          None \<Rightarrow> None
        | Some tag \<Rightarrow>
            (case ld16 pktdata (l2_len + 16) of
               None \<Rightarrow> None
             | Some t \<Rightarrow> flow_vlan pktdata (ntohs t) (l2_len + 4) (tag AND htons 0xfff)))
     else Some (vlan, ether_type, l2_len))"
  by pat_completeness auto
termination
  by (relation "measure (\<lambda>(b, _, l, _). length b - l)") (auto simp: ld16_Some)

declare flow_vlan.simps [simp del]

text \<open>The first switch: VLAN, Ethernet type and length of the link layer header; \<open>Some None\<close> for an unsupported link.\<close>

definition decode_l2 :: "u8 list \<Rightarrow> int \<Rightarrow> (u16 \<times> u16 \<times> nat) option option" where
  "decode_l2 pktdata datalink =
    (if datalink = DLT_LINUX_SLL then do { t \<leftarrow> ld16 pktdata 14; Some (Some (0, t, 16)) }
     else if datalink = DLT_PPP_SERIAL then do {
       t \<leftarrow> ld16 pktdata 2;
       Some (Some (0, if ntohs t = 0x0021 then htons ETHERTYPE_IP else t, 4))
     }
     else if datalink = DLT_C_HDLC then do { t \<leftarrow> ld16 pktdata 2; Some (Some (0, t, 4)) }
     else if datalink = DLT_RAW then do {
       v \<leftarrow> ld8 pktdata 0;
       Some (Some (0, if drop_bit 4 v = 4 then ETHERTYPE_IP else if drop_bit 4 v = 6 then ETHERTYPE_IP6 else 0, 0))
     }
     else if datalink = DLT_JUNIPER_ETHER \<or> datalink = DLT_EN10MB then do {
       l2_len \<leftarrow> l2_start pktdata datalink;
       t \<leftarrow> ld16 pktdata (l2_len + 12);
       (vlan, ether_type, l2_len) \<leftarrow> flow_vlan pktdata (ntohs t) l2_len 0;
       Some (Some (vlan, ether_type, l2_len + 14))
     }
     else Some None)"

text \<open>The network layer: addresses, protocol and length of the header; \<open>Some None\<close> for a packet that is not IP.\<close>

definition decode_l3 :: "u8 list \<Rightarrow> u16 \<Rightarrow> nat \<Rightarrow> (u8 list \<times> u8 list \<times> u8 \<times> nat) option option" where
  "decode_l3 pktdata ether_type l2_len =
    (if ether_type = ETHERTYPE_IP then do {
       v \<leftarrow> ld8 pktdata l2_len;
       if drop_bit 4 v \<noteq> 4 then Some None
       else do {
         protocol \<leftarrow> ld8 pktdata (l2_len + 9);
         src \<leftarrow> ld_bytes pktdata (l2_len + 12) 4;
         dst \<leftarrow> ld_bytes pktdata (l2_len + 16) 4;
         Some (Some (src @ replicate 12 0, dst @ replicate 12 0, protocol, unat (v AND 15) * 4))
       }
     }
     else if ether_type = ETHERTYPE_IP6 then do {
       v \<leftarrow> ld8 pktdata 0;
       if drop_bit 4 v \<noteq> 6 then Some None
       else do {
         protocol \<leftarrow> ld8 pktdata (l2_len + 6);
         (protocol, ip_len) \<leftarrow>
           (if protocol = 0 then do {
              nh \<leftarrow> ld8 pktdata (l2_len + 40);
              n \<leftarrow> ld8 pktdata (l2_len + 41);
              Some (nh, 40 + (unat n + 1) * 8)
            } else Some (protocol, 40));
         src \<leftarrow> ld_bytes pktdata (l2_len + 8) 16;
         dst \<leftarrow> ld_bytes pktdata (l2_len + 24) 16;
         Some (Some (src, dst, protocol, ip_len))
       }
     }
     else Some None)"

text \<open>The ports, which are the type and the code of an ICMP packet.\<close>

definition decode_l4 :: "u8 list \<Rightarrow> u8 \<Rightarrow> nat \<Rightarrow> (u16 \<times> u16) option" where
  "decode_l4 pktdata protocol l4 =
    (if uint protocol = IPPROTO_UDP \<or> uint protocol = IPPROTO_TCP then do {
       sp \<leftarrow> ld16 pktdata l4;
       dp \<leftarrow> ld16 pktdata (l4 + 2);
       Some (sp, dp)
     }
     else if uint protocol = IPPROTO_ICMP \<or> uint protocol = IPPROTO_ICMP6 then do {
       ty \<leftarrow> ld8 pktdata l4;
       co \<leftarrow> ld8 pktdata (l4 + 1);
       Some (ucast ty, ucast co)
     }
     else Some (0, 0))"

text \<open>The flow of a packet, or the result that is returned at once.\<close>

definition decode_entry :: "u8 list \<Rightarrow> int \<Rightarrow> (flow_entry_type + flow_entry_data) option" where
  "decode_entry pktdata datalink = do {
     l2 \<leftarrow> decode_l2 pktdata datalink;
     case l2 of
       None \<Rightarrow> Some (Inl FLOW_ENTRY_INVALID)
     | Some (vlan, ether_type, l2_len) \<Rightarrow> do {
         l3 \<leftarrow> decode_l3 pktdata ether_type l2_len;
         case l3 of
           None \<Rightarrow> Some (Inl FLOW_ENTRY_NON_IP)
         | Some (src, dst, protocol, ip_len) \<Rightarrow> do {
             (sp, dp) \<leftarrow> decode_l4 pktdata protocol (ip_len + l2_len);
             Some (Inr \<lparr>fe_src_ip = src, fe_dst_ip = dst, fe_src_port = sp, fe_dst_port = dp, fe_vlan = vlan, fe_protocol = protocol\<rparr>)
           }
       }
   }"

definition flow_decode :: "timeval option \<Rightarrow> flow_hash_table option \<Rightarrow> pcap_pkthdr \<Rightarrow> u8 list \<Rightarrow> int \<Rightarrow> int \<Rightarrow>
    (flow_entry_type \<times> flow_hash_table) c_result" where
  "flow_decode mem fht pkthdr pktdata datalink expiry =
    (case fht of
       None \<Rightarrow> Inl Assertion
     | Some fht \<Rightarrow>
         c_bind (c_mem (decode_entry pktdata datalink)) (\<lambda>r.
           case r of
             Inl t \<Rightarrow> Inr (t, fht)
           | Inr entry \<Rightarrow> hash_put_data mem fht (hash_func (entry_bytes entry)) entry (pkt_ts pkthdr) expiry))"

section \<open>Counting\<close>

definition count_flow :: "flow_entry_type \<Rightarrow> flow_counters \<Rightarrow> flow_counters" where
  "count_flow res c =
    (case res of
       FLOW_ENTRY_NEW \<Rightarrow> c\<lparr>c_flows := c_flows c + 1, c_flows_unique := c_flows_unique c + 1, c_flow_packets := c_flow_packets c + 1\<rparr>
     | FLOW_ENTRY_EXISTING \<Rightarrow> c\<lparr>c_flow_packets := c_flow_packets c + 1\<rparr>
     | FLOW_ENTRY_EXPIRED \<Rightarrow> c\<lparr>c_flows_expired := c_flows_expired c + 1, c_flows := c_flows c + 1, c_flow_packets := c_flow_packets c + 1\<rparr>
     | FLOW_ENTRY_NON_IP \<Rightarrow> c\<lparr>c_flow_non_flow_packets := c_flow_non_flow_packets c + 1\<rparr>
     | FLOW_ENTRY_INVALID \<Rightarrow> c\<lparr>c_flows_invalid_packets := c_flows_invalid_packets c + 1\<rparr>)"

text \<open>The counters of the program and, if there is one, those of the interface.\<close>

definition update_flow_stats :: "timeval option \<Rightarrow> int \<Rightarrow> pcap_pkthdr \<Rightarrow> u8 list \<Rightarrow> int \<Rightarrow>
    flow_hash_table \<times> flow_counters \<times> flow_counters option \<Rightarrow> (flow_hash_table \<times> flow_counters \<times> flow_counters option) c_result" where
  "update_flow_stats mem flow_expiry pkthdr pktdata datalink = (\<lambda>(fht, stats, sp).
    c_bind (flow_decode mem (Some fht) pkthdr pktdata datalink flow_expiry) (\<lambda>(res, fht).
      Inr (fht, count_flow res stats, map_option (count_flow res) sp)))"

section \<open>The table is a map\<close>

definition fe_wf :: "flow_entry_data \<Rightarrow> bool" where
  "fe_wf d \<longleftrightarrow> length (fe_src_ip d) = 16 \<and> length (fe_dst_ip d) = 16"

definition flow_table_inv :: "flow_hash_table \<Rightarrow> bool" where
  "flow_table_inv fht \<longleftrightarrow> is_power_of_2 (num_buckets fht) \<and> length (buckets fht) = unat (num_buckets fht) \<and>
    (\<forall>b \<in> set (buckets fht). \<forall>e \<in> set b. fe_wf (he_data e))"

definition flow_bucket :: "flow_hash_table \<Rightarrow> flow_entry_data \<Rightarrow> nat" where
  "flow_bucket fht d = unat (bucket_of fht (hash_func (entry_bytes d)))"

text \<open>When each flow was last seen.\<close>

definition last_seen :: "flow_hash_table \<Rightarrow> flow_entry_data \<Rightarrow> timeval option" where
  "last_seen fht d =
    (if fe_wf d then
       let b = buckets fht ! flow_bucket fht d
       in map_option (\<lambda>j. ts_last_seen (b ! j)) (find_entry (hash_func (entry_bytes d)) d b)
     else None)"

lemma bytes16_inj [simp]: "bytes16 v = bytes16 w \<longleftrightarrow> v = w"
  by (metis append_Nil2 ld16_bytes16 option.inject)

lemma entry_bytes_inj: "fe_wf d \<Longrightarrow> fe_wf d' \<Longrightarrow> entry_bytes d = entry_bytes d' \<longleftrightarrow> d = d'"
  by (cases d; cases d') (auto simp: entry_bytes_def fe_wf_def)

lemma word_and_less: "n \<noteq> 0 \<Longrightarrow> unat (k AND (n - 1)) < unat (n :: u64)"
proof -
  assume "n \<noteq> 0"
  then have "unat (n - 1) < unat n" by (simp add: unat_minus_one unat_gt_0)
  moreover have "unat (k AND (n - 1)) \<le> unat (n - 1)" by (metis word_and_le1 word_le_nat_alt)
  ultimately show ?thesis by simp
qed

lemma bucket_of_less:
  assumes "num_buckets fht \<noteq> 0"
  shows "unat (bucket_of fht key) < unat (num_buckets fht)"
proof -
  have "unat (bucket_of fht key) \<le> unat ((ucast key :: u64) AND (num_buckets fht - 1))"
    by (simp add: bucket_of_def unsigned_ucast_eq)
  also have "\<dots> < unat (num_buckets fht)" by (rule word_and_less [OF assms])
  finally show ?thesis .
qed

lemma find_entry_Some:
  assumes "find_entry key d b = Some j"
  shows "j < length b \<and> he_key (b ! j) = key \<and> entry_bytes (he_data (b ! j)) = entry_bytes d"
  using assms by (induction b arbitrary: j) (auto split: if_splits)

lemma find_entry_touch: "j < length b \<Longrightarrow> find_entry key d (b[j := (b ! j)\<lparr>ts_last_seen := tv\<rparr>]) = find_entry key d b"
  by (induction b arbitrary: j) (auto split: nat.split)

text \<open>The abstract operation on the map.\<close>

definition spec_put :: "timeval option \<Rightarrow> int \<Rightarrow> timeval \<Rightarrow> 'k \<Rightarrow> ('k \<rightharpoonup> timeval) \<Rightarrow> flow_entry_type \<times> ('k \<rightharpoonup> timeval)" where
  "spec_put mem expiry tv d m =
    (case m d of
       Some t \<Rightarrow> (if expiry \<noteq> 0 \<and> tv_sec tv > expiry + tv_sec t then FLOW_ENTRY_EXPIRED else FLOW_ENTRY_EXISTING,
                   if expiry \<noteq> 0 then m(d \<mapsto> tv) else m)
     | None \<Rightarrow>
         (case mem of
            None \<Rightarrow> (FLOW_ENTRY_INVALID, m)
          | Some junk \<Rightarrow> (FLOW_ENTRY_NEW, m(d \<mapsto> if expiry \<noteq> 0 then tv else junk))))"

lemma bucket_const [simp]:
  "num_buckets (set_last_seen i j tv fht) = num_buckets fht" "length (buckets (set_last_seen i j tv fht)) = length (buckets fht)"
  by (simp_all add: set_last_seen_def)

lemma flow_bucket_cong: "num_buckets fht' = num_buckets fht \<Longrightarrow> flow_bucket fht' = flow_bucket fht"
  by (simp add: flow_bucket_def bucket_of_def fun_eq_iff)

lemma flow_bucket_buckets [simp]: "flow_bucket (fht\<lparr>buckets := x\<rparr>) = flow_bucket fht"
  by (rule flow_bucket_cong) simp

lemma flow_bucket_less: "flow_table_inv fht \<Longrightarrow> flow_bucket fht d < length (buckets fht)"
  by (simp add: flow_bucket_def flow_table_inv_def is_power_of_2_def bucket_of_less)

text \<open>Touching or adding the entry of one flow changes the map at that flow only.\<close>

lemma find_entry_inj:
  assumes "find_entry k d b = Some j" "find_entry k' d' b = Some j" "fe_wf d" "fe_wf d'"
  shows "d = d'"
  using find_entry_Some [OF assms(1)] find_entry_Some [OF assms(2)] entry_bytes_inj [OF assms(3,4)] by simp

lemma set_last_seen_map:
  assumes "flow_table_inv fht" "fe_wf d" "find_entry (hash_func (entry_bytes d)) d (buckets fht ! flow_bucket fht d) = Some j"
  shows "flow_table_inv (set_last_seen (flow_bucket fht d) j tv fht) \<and>
    last_seen (set_last_seen (flow_bucket fht d) j tv fht) = (last_seen fht)(d \<mapsto> tv)"
proof
  let ?i = "flow_bucket fht d" and ?t = "set_last_seen (flow_bucket fht d) j tv fht"
  have i: "?i < length (buckets fht)" by (rule flow_bucket_less [OF assms(1)])
  note j = find_entry_Some [OF assms(3)]
  have wf: "fe_wf (he_data e)" if "b \<in> set (buckets fht)" "e \<in> set b" for b e
    using assms(1) that by (auto simp: flow_table_inv_def)
  have "fe_wf (he_data e)" if "b \<in> set (buckets ?t)" "e \<in> set b" for b e
  proof -
    from that(1) consider "b \<in> set (buckets fht)" | "b = (buckets fht ! ?i)[j := (buckets fht ! ?i ! j)\<lparr>ts_last_seen := tv\<rparr>]"
      by (auto simp: set_last_seen_def dest: set_update_subset_insert [THEN subsetD])
    then show ?thesis
    proof cases
      case 2
      with that(2) have "e \<in> set (buckets fht ! ?i) \<or> e = (buckets fht ! ?i ! j)\<lparr>ts_last_seen := tv\<rparr>"
        by (auto dest: set_update_subset_insert [THEN subsetD])
      then show ?thesis using wf [of "buckets fht ! ?i"] i j by (auto simp: nth_mem)
    qed (use wf that in blast)
  qed
  then show "flow_table_inv ?t" using assms(1) by (simp add: flow_table_inv_def)
  show "last_seen ?t = (last_seen fht)(d \<mapsto> tv)"
  proof
    fix d'
    have b: "flow_bucket ?t = flow_bucket fht" by (rule flow_bucket_cong) simp
    show "last_seen ?t d' = ((last_seen fht)(d \<mapsto> tv)) d'"
    proof (cases "fe_wf d' \<and> flow_bucket fht d' = ?i")
      case True
      let ?k = "hash_func (entry_bytes d')"
      have "find_entry ?k d' (buckets ?t ! ?i) = find_entry ?k d' (buckets fht ! ?i)"
        using i j by (simp add: set_last_seen_def find_entry_touch)
      moreover have "ts_last_seen (buckets ?t ! ?i ! l) = (if l = j then tv else ts_last_seen (buckets fht ! ?i ! l))" for l
        using i j by (simp add: set_last_seen_def nth_list_update)
      moreover have "d' = d" if "find_entry ?k d' (buckets fht ! ?i) = Some j"
        using find_entry_inj [OF that assms(3)] True assms(2) by simp
      ultimately show ?thesis using True assms(2,3) b
        by (cases "find_entry ?k d' (buckets fht ! ?i)") (auto simp: last_seen_def)
    next
      case False
      then show ?thesis using assms(2) b by (auto simp: last_seen_def set_last_seen_def)
    qed
  qed
qed

lemma hash_add_map:
  assumes "flow_table_inv fht" "fe_wf d" "hash_add_entry (Some junk) fht (bucket_of fht (hash_func (entry_bytes d))) (hash_func (entry_bytes d)) d = Inr r"
    "find_entry (hash_func (entry_bytes d)) d (buckets fht ! flow_bucket fht d) = None"
  shows "\<exists>fht'. r = Some fht' \<and> flow_table_inv fht' \<and> num_buckets fht' = num_buckets fht \<and>
    find_entry (hash_func (entry_bytes d)) d (buckets fht' ! flow_bucket fht d) = Some 0 \<and>
    last_seen fht' = (last_seen fht)(d \<mapsto> junk)"
proof -
  let ?e = "\<lparr>he_key = hash_func (entry_bytes d), he_data = d, ts_last_seen = junk\<rparr>" and ?i = "flow_bucket fht d"
  let ?t = "fht\<lparr>buckets := (buckets fht)[?i := ?e # buckets fht ! ?i]\<rparr>"
  have i: "?i < length (buckets fht)" by (rule flow_bucket_less [OF assms(1)])
  have r: "r = Some ?t" using assms(3) by (simp add: hash_add_entry_def flow_bucket_def [symmetric] split: if_splits)
  have "\<forall>e \<in> set (buckets fht ! ?i). fe_wf (he_data e)" using assms(1) nth_mem [OF i] unfolding flow_table_inv_def by blast
  then have "flow_table_inv ?t" using assms(1,2)
    by (auto simp: flow_table_inv_def dest!: set_update_subset_insert [THEN subsetD])
  moreover have "last_seen ?t = (last_seen fht)(d \<mapsto> junk)"
  proof
    fix d'
    have "last_seen ?t d' = (if fe_wf d' \<and> flow_bucket fht d' = ?i \<and> entry_bytes d = entry_bytes d' then Some junk else last_seen fht d')"
      using i by (auto simp: last_seen_def nth_list_update option.map_comp comp_def Let_def)
    then show "last_seen ?t d' = ((last_seen fht)(d \<mapsto> junk)) d'"
      using entry_bytes_inj [OF assms(2)] assms(2) by auto
  qed
  ultimately show ?thesis using r i by (intro exI [of _ ?t]) simp
qed

theorem hash_put_refines:
  assumes "flow_table_inv fht" "fe_wf d"
  shows "\<exists>fht'. hash_put_data mem fht (hash_func (entry_bytes d)) d tv expiry = Inr (fst (spec_put mem expiry tv d (last_seen fht)), fht') \<and>
    flow_table_inv fht' \<and> last_seen fht' = snd (spec_put mem expiry tv d (last_seen fht))"
proof (cases "find_entry (hash_func (entry_bytes d)) d (buckets fht ! flow_bucket fht d)")
  case (Some j)
  have i: "flow_bucket fht d < length (buckets fht)" by (rule flow_bucket_less [OF assms(1)])
  have "last_seen fht d = Some (ts_last_seen (buckets fht ! flow_bucket fht d ! j))" using Some assms(2) by (simp add: last_seen_def)
  with Some i assms(1) set_last_seen_map [OF assms Some, of tv] show ?thesis
    by (simp add: hash_put_data_def spec_put_def flow_bucket_def Let_def)
next
  case None
  have i: "flow_bucket fht d < length (buckets fht)" by (rule flow_bucket_less [OF assms(1)])
  let ?k = "hash_func (entry_bytes d)"
  have ok: "\<exists>r. hash_add_entry mem fht (bucket_of fht ?k) ?k d = Inr r"
    using i assms(1) by (auto simp: hash_add_entry_def flow_bucket_def flow_table_inv_def split: option.split)
  have n: "last_seen fht d = None" using None by (simp add: last_seen_def)
  show ?thesis
  proof (cases mem)
    case None': None
    with None i assms(1) n show ?thesis
      by (simp add: hash_put_data_def spec_put_def hash_add_entry_def flow_bucket_def flow_table_inv_def Let_def)
  next
    case (Some junk)
    from ok obtain r where r: "hash_add_entry (Some junk) fht (bucket_of fht ?k) ?k d = Inr r" unfolding Some by blast
    from hash_add_map [OF assms this None] obtain fht' where f: "r = Some fht'" "flow_table_inv fht'" "num_buckets fht' = num_buckets fht"
      "find_entry ?k d (buckets fht' ! flow_bucket fht d) = Some 0" "last_seen fht' = (last_seen fht)(d \<mapsto> junk)" by blast
    have b: "flow_bucket fht' d = flow_bucket fht d" using flow_bucket_cong [OF f(3)] by simp
    note s = set_last_seen_map [OF f(2) assms(2) f(4) [folded b], of tv, unfolded b f(5)]
    show ?thesis using None i n r f s unfolding Some
      by (simp add: hash_put_data_def spec_put_def flow_bucket_def Let_def)
  qed
qed

section \<open>Counting a sequence of packets\<close>

text \<open>
  The interface of the table to the counting: an operation that implements \<open>spec_put\<close> on an abstraction of the
  table, for the keys that can occur.
\<close>

locale last_seen_table =
  fixes inv :: "'t \<Rightarrow> bool" and abs :: "'t \<Rightarrow> 'k \<rightharpoonup> timeval" and valid :: "'k \<Rightarrow> bool"
    and put :: "timeval option \<Rightarrow> 't \<Rightarrow> 'k \<Rightarrow> timeval \<Rightarrow> int \<Rightarrow> (flow_entry_type \<times> 't) c_result"
  assumes put_ok: "inv t \<Longrightarrow> valid d \<Longrightarrow>
    \<exists>t'. put mem t d tv expiry = Inr (fst (spec_put mem expiry tv d (abs t)), t') \<and> inv t' \<and>
      abs t' = snd (spec_put mem expiry tv d (abs t))"
begin

text \<open>The table holds the history \<open>seen\<close> of flows and times, latest first; without expiry the times do not matter.\<close>

definition holds :: "int \<Rightarrow> ('k \<times> timeval) list \<Rightarrow> 't \<Rightarrow> bool" where
  "holds expiry seen t \<longleftrightarrow> inv t \<and> dom (abs t) = fst ` set seen \<and> (expiry \<noteq> 0 \<longrightarrow> abs t = map_of seen)"

lemma put_history:
  assumes "holds expiry seen t" "valid d"
  shows "\<exists>t'. put (Some junk) t d tv expiry =
      Inr (case map_of seen d of
             None \<Rightarrow> FLOW_ENTRY_NEW
           | Some s \<Rightarrow> if expiry \<noteq> 0 \<and> tv_sec tv > expiry + tv_sec s then FLOW_ENTRY_EXPIRED else FLOW_ENTRY_EXISTING, t') \<and>
    holds expiry ((d, tv) # seen) t'"
proof -
  from assms(1) have i: "inv t" and dm: "dom (abs t) = fst ` set seen" and m: "expiry \<noteq> 0 \<Longrightarrow> abs t = map_of seen"
    by (auto simp: holds_def)
  from put_ok [OF i assms(2), of "Some junk" tv expiry] obtain t' where t': "put (Some junk) t d tv expiry = Inr (fst (spec_put (Some junk) expiry tv d (abs t)), t')"
    "inv t'" "abs t' = snd (spec_put (Some junk) expiry tv d (abs t))" by blast
  have n: "abs t d = None \<longleftrightarrow> map_of seen d = None" using dm by (metis domIff dom_map_of_conv_image_fst)
  show ?thesis
  proof (cases "map_of seen d")
    case None
    with n t' dm m show ?thesis by (intro exI [of _ t']) (auto simp: spec_put_def holds_def)
  next
    case (Some s)
    with n obtain s' where s': "abs t d = Some s'" by auto
    from Some have "d \<in> fst ` set seen" by (metis domI dom_map_of_conv_image_fst)
    then have "dom (abs t') = insert d (fst ` set seen)" using t'(3) s' dm by (auto simp: spec_put_def)
    moreover have "expiry \<noteq> 0 \<Longrightarrow> abs t' = (map_of seen)(d \<mapsto> tv)" using t'(3) s' m by (simp add: spec_put_def)
    ultimately show ?thesis using s' Some t'(1,2) m by (intro exI [of _ t']) (auto simp: spec_put_def holds_def)
  qed
qed

end

interpretation flow_map: last_seen_table flow_table_inv last_seen fe_wf
  "\<lambda>mem fht d. hash_put_data mem fht (hash_func (entry_bytes d)) d"
  by unfold_locales (rule hash_put_refines)

text \<open>A sequence of packets, each with the content of the memory a new entry would get.\<close>

fun flow_run :: "int \<Rightarrow> int \<Rightarrow> (timeval \<times> pcap_pkthdr \<times> u8 list) list \<Rightarrow> flow_hash_table \<times> flow_counters \<times> flow_counters option \<Rightarrow>
    (flow_hash_table \<times> flow_counters \<times> flow_counters option) c_result" where
  "flow_run expiry datalink [] s = Inr s"
| "flow_run expiry datalink ((junk, h, pkt) # ps) s =
    c_bind (update_flow_stats (Some junk) expiry h pkt datalink s) (flow_run expiry datalink ps)"

text \<open>
  The reference: the verdict on each packet from the list of the flows and times of the packets before it, latest
  first.
\<close>

fun verdicts :: "int \<Rightarrow> int \<Rightarrow> (flow_entry_data \<times> timeval) list \<Rightarrow> (pcap_pkthdr \<times> u8 list) list \<Rightarrow> flow_entry_type list" where
  "verdicts expiry datalink seen [] = []"
| "verdicts expiry datalink seen ((h, pkt) # ps) =
    (case decode_entry pkt datalink of
       Some (Inr d) \<Rightarrow>
         (case map_of seen d of
            None \<Rightarrow> FLOW_ENTRY_NEW
          | Some s \<Rightarrow> if expiry \<noteq> 0 \<and> tv_sec (pkt_ts h) > expiry + tv_sec s then FLOW_ENTRY_EXPIRED else FLOW_ENTRY_EXISTING) #
         verdicts expiry datalink ((d, pkt_ts h) # seen) ps
     | Some (Inl t) \<Rightarrow> t # verdicts expiry datalink seen ps
     | None \<Rightarrow> [])"

text \<open>The flows of the packets.\<close>

definition flows_of :: "int \<Rightarrow> (pcap_pkthdr \<times> u8 list) list \<Rightarrow> flow_entry_data set" where
  "flows_of datalink ps = {d. \<exists>(h, pkt) \<in> set ps. decode_entry pkt datalink = Some (Inr d)}"

definition initial_counters :: flow_counters where
  "initial_counters = \<lparr>c_flows = 0, c_flows_unique = 0, c_flow_packets = 0, c_flows_expired = 0, c_flow_non_flow_packets = 0,
    c_flows_invalid_packets = 0\<rparr>"

lemma decode_l3_wf: "decode_l3 b t l2 = Some (Some (src, dst, r)) \<Longrightarrow> length src = 16 \<and> length dst = 16"
  by (auto simp: decode_l3_def ld_bytes_def split: bind_splits if_splits prod.splits)

lemma decode_entry_wf: "decode_entry b dl = Some (Inr d) \<Longrightarrow> fe_wf d"
  by (auto simp: decode_entry_def fe_wf_def split: bind_splits option.splits prod.splits dest!: decode_l3_wf)

lemma decode_entry_early: "decode_entry b dl = Some (Inl t) \<Longrightarrow> t = FLOW_ENTRY_INVALID \<or> t = FLOW_ENTRY_NON_IP"
  by (auto simp: decode_entry_def split: bind_splits option.splits prod.splits)

lemma flow_run_verdicts:
  assumes "flow_map.holds expiry seen fht" "\<forall>(_, _, pkt) \<in> set ps. decode_entry pkt datalink \<noteq> None"
  shows "\<exists>fht'. flow_run expiry datalink ps (fht, stats, sp) =
    Inr (fht', fold count_flow (verdicts expiry datalink seen (map snd ps)) stats,
      map_option (fold count_flow (verdicts expiry datalink seen (map snd ps))) sp) \<and> flow_table_inv fht'"
  using assms
proof (induction ps arbitrary: fht seen stats sp)
  case Nil
  then show ?case by (simp add: flow_map.holds_def option.map_ident)
next
  case (Cons p ps)
  obtain junk h pkt where p: "p = (junk, h, pkt)" by (cases p)
  from Cons.prems(2) p have rest: "\<forall>(_, _, pkt) \<in> set ps. decode_entry pkt datalink \<noteq> None" by simp
  from Cons.prems(2) p obtain r where r: "decode_entry pkt datalink = Some r" by auto
  show ?case
  proof (cases r)
    case (Inl t)
    from Cons.IH [OF Cons.prems(1) rest, of "count_flow t stats" "map_option (count_flow t) sp"] show ?thesis
      by (simp add: p r Inl update_flow_stats_def flow_decode_def option.map_comp comp_def)
  next
    case (Inr d)
    from flow_map.put_history [OF Cons.prems(1) decode_entry_wf [OF r [unfolded Inr]], of junk "pkt_ts h"]
    obtain v fht' where v: "hash_put_data (Some junk) fht (hash_func (entry_bytes d)) d (pkt_ts h) expiry = Inr (v, fht')"
      and v': "v = (case map_of seen d of None \<Rightarrow> FLOW_ENTRY_NEW
           | Some s \<Rightarrow> if expiry \<noteq> 0 \<and> tv_sec (pkt_ts h) > expiry + tv_sec s then FLOW_ENTRY_EXPIRED else FLOW_ENTRY_EXISTING)"
      and h: "flow_map.holds expiry ((d, pkt_ts h) # seen) fht'" by blast
    from Cons.IH [OF h rest, of "count_flow v stats" "map_option (count_flow v) sp"] show ?thesis
      by (simp add: p r Inr update_flow_stats_def flow_decode_def v v' [symmetric] option.map_comp comp_def)
  qed
qed

lemma count_flow_sums:
  "c_flows_unique (fold count_flow vs c) = c_flows_unique c + of_nat (count_list vs FLOW_ENTRY_NEW)"
  "c_flows_expired (fold count_flow vs c) = c_flows_expired c + of_nat (count_list vs FLOW_ENTRY_EXPIRED)"
  "c_flow_non_flow_packets (fold count_flow vs c) = c_flow_non_flow_packets c + of_nat (count_list vs FLOW_ENTRY_NON_IP)"
  "c_flows_invalid_packets (fold count_flow vs c) = c_flows_invalid_packets c + of_nat (count_list vs FLOW_ENTRY_INVALID)"
  "c_flows (fold count_flow vs c) = c_flows c + of_nat (count_list vs FLOW_ENTRY_NEW) + of_nat (count_list vs FLOW_ENTRY_EXPIRED)"
  "c_flow_packets (fold count_flow vs c) = c_flow_packets c + of_nat (count_list vs FLOW_ENTRY_NEW) +
    of_nat (count_list vs FLOW_ENTRY_EXISTING) + of_nat (count_list vs FLOW_ENTRY_EXPIRED)"
  by (induction vs arbitrary: c) (auto simp: count_flow_def split: flow_entry_type.split)

lemma count_new_flows:
  assumes "\<forall>(_, pkt) \<in> set ps. decode_entry pkt dl \<noteq> None"
  shows "count_list (verdicts expiry dl seen ps) FLOW_ENTRY_NEW = card (flows_of dl ps - fst ` set seen)"
  using assms
proof (induction ps arbitrary: seen)
  case Nil
  then show ?case by (simp add: flows_of_def)
next
  case (Cons p ps)
  obtain h pkt where p: "p = (h, pkt)" by (cases p)
  from Cons.prems p obtain r where r: "decode_entry pkt dl = Some r" by auto
  from Cons.prems have rest: "\<forall>(_, pkt) \<in> set ps. decode_entry pkt dl \<noteq> None" by simp
  have fin: "finite (flows_of dl ps)"
  proof (rule finite_subset)
    show "flows_of dl ps \<subseteq> (\<lambda>(h, pkt). projr (the (decode_entry pkt dl))) ` set ps" by (force simp: flows_of_def)
  qed simp
  show ?case
  proof (cases r)
    case (Inl t)
    then have "flows_of dl (p # ps) = flows_of dl ps" using r p by (auto simp: flows_of_def)
    moreover have "t \<noteq> FLOW_ENTRY_NEW" using decode_entry_early [OF r [unfolded Inl]] by auto
    ultimately show ?thesis using Cons.IH [OF rest, of seen] r p Inl by simp
  next
    case (Inr d)
    then have f: "flows_of dl (p # ps) = insert d (flows_of dl ps)" using r p by (auto simp: flows_of_def)
    have IH: "count_list (verdicts expiry dl ((d, pkt_ts h) # seen) ps) FLOW_ENTRY_NEW = card (flows_of dl ps - insert d (fst ` set seen))"
      using Cons.IH [OF rest, of "(d, pkt_ts h) # seen"] by simp
    show ?thesis
    proof (cases "map_of seen d")
      case None
      then have "d \<notin> fst ` set seen" by (simp add: map_of_eq_None_iff)
      then have "flows_of dl (p # ps) - fst ` set seen = insert d (flows_of dl ps - insert d (fst ` set seen))" using f by auto
      with IH None fin r p Inr show ?thesis by simp
    next
      case (Some s)
      then have "d \<in> fst ` set seen" by (metis domI dom_map_of_conv_image_fst)
      then have "flows_of dl (p # ps) - fst ` set seen = flows_of dl ps - insert d (fst ` set seen)" using f by auto
      with IH Some r p Inr show ?thesis by simp
    qed
  qed
qed

lemma flow_init_holds:
  assumes "flow_hash_table_init ok n = Inr fht"
  shows "flow_map.holds expiry [] fht"
proof -
  have f: "fht = \<lparr>num_buckets = n, buckets = replicate (unat n) []\<rparr>" "is_power_of_2 n"
    using assms by (auto simp: flow_hash_table_init_def split: if_splits)
  then have i: "flow_table_inv fht" by (auto simp: flow_table_inv_def)
  have "buckets fht ! flow_bucket fht d = []" for d using flow_bucket_less [OF i, of d] f(1) by simp
  then have "last_seen fht = Map.empty" by (auto simp: last_seen_def fun_eq_iff)
  with i show ?thesis by (simp add: flow_map.holds_def)
qed

lemma verdicts_no_expiry: "count_list (verdicts 0 dl seen ps) FLOW_ENTRY_EXPIRED = 0"
  by (induction ps arbitrary: seen) (auto split: option.split sum.split dest: decode_entry_early)

lemma verdicts_length: "\<forall>(_, pkt) \<in> set ps. decode_entry pkt dl \<noteq> None \<Longrightarrow> length (verdicts expiry dl seen ps) = length ps"
  by (induction ps arbitrary: seen) (auto split: option.split sum.split)

lemma count_all_types:
  "length vs = count_list vs FLOW_ENTRY_NEW + count_list vs FLOW_ENTRY_EXISTING + count_list vs FLOW_ENTRY_EXPIRED +
    count_list vs FLOW_ENTRY_NON_IP + count_list vs FLOW_ENTRY_INVALID"
proof (induction vs)
  case (Cons v vs)
  then show ?case by (cases v) simp_all
qed simp

section \<open>Properties\<close>

text \<open>
  C19: the statistics count flows.  From a new table and counters at zero, over packets whose headers lie in
  their buffers, the counters of the program and of the interface are those of the reference verdicts, which look
  the flow up in the history of the packets; the number of unique flows is the number of different flows among
  the packets, the flows are the unique and the expired ones, none expires without an expiry time, and every
  packet is counted once, all of this modulo \<open>2 ^ 64\<close>.
\<close>

theorem flow_stats_count:
  assumes "flow_hash_table_init malloc_ok n = Inr fht" "\<forall>(_, _, pkt) \<in> set ps. decode_entry pkt datalink \<noteq> None"
  shows "\<exists>fht' c. flow_run expiry datalink ps (fht, initial_counters, Some initial_counters) = Inr (fht', c, Some c) \<and>
    c = fold count_flow (verdicts expiry datalink [] (map snd ps)) initial_counters \<and>
    c_flows_unique c = of_nat (card (flows_of datalink (map snd ps))) \<and>
    c_flows c = c_flows_unique c + c_flows_expired c \<and> (expiry = 0 \<longrightarrow> c_flows_expired c = 0) \<and>
    c_flow_packets c + c_flow_non_flow_packets c + c_flows_invalid_packets c = of_nat (length ps)"
proof -
  let ?vs = "verdicts expiry datalink [] (map snd ps)"
  define c where "c = fold count_flow ?vs initial_counters"
  have all: "\<forall>(_, pkt) \<in> set (map snd ps). decode_entry pkt datalink \<noteq> None" using assms(2) by auto
  from flow_run_verdicts [OF flow_init_holds [OF assms(1)] assms(2), of expiry initial_counters "Some initial_counters"]
  obtain fht' where run: "flow_run expiry datalink ps (fht, initial_counters, Some initial_counters) = Inr (fht', c, Some c)"
    unfolding c_def by auto
  have "c_flows_unique c = of_nat (card (flows_of datalink (map snd ps)))" "c_flows c = c_flows_unique c + c_flows_expired c"
    unfolding c_def count_flow_sums using count_new_flows [OF all, of expiry "[]"] by (simp_all add: initial_counters_def)
  moreover have "expiry = 0 \<longrightarrow> c_flows_expired c = 0"
    unfolding c_def count_flow_sums by (auto simp: verdicts_no_expiry initial_counters_def)
  moreover have "c_flow_packets c + c_flow_non_flow_packets c + c_flows_invalid_packets c = of_nat (length ?vs)"
    unfolding c_def count_flow_sums by (subst count_all_types) (simp add: initial_counters_def)
  ultimately show ?thesis using run c_def verdicts_length [OF all, of expiry "[]"]
    by (intro exI [of _ fht'] exI [of _ c] conjI) simp_all
qed

theorem flow_stats_count_witness:
  "\<exists>fht fht' c. flow_hash_table_init True 4 = Inr fht \<and>
    flow_run 0 DLT_EN10MB [(\<lparr>tv_sec = 0, tv_usec = 0\<rparr>, \<lparr>pkt_ts = \<lparr>tv_sec = 5, tv_usec = 0\<rparr>, pkt_caplen = 58, pkt_len = 58\<rparr>, sample_frame)]
      (fht, initial_counters, Some initial_counters) = Inr (fht', c, Some c) \<and> c_flows_expired c = 0"
proof -
  have "is_power_of_2 4" by code_simp
  moreover have "decode_entry sample_frame DLT_EN10MB \<noteq> None" by code_simp
  ultimately show ?thesis
    using flow_stats_count [of True 4 "\<lparr>num_buckets = 4, buckets = replicate (unat (4 :: u64)) []\<rparr>"
        "[(\<lparr>tv_sec = 0, tv_usec = 0\<rparr>, \<lparr>pkt_ts = \<lparr>tv_sec = 5, tv_usec = 0\<rparr>, pkt_caplen = 58, pkt_len = 58\<rparr>, sample_frame)]" DLT_EN10MB 0]
    by (auto simp: flow_hash_table_init_def)
qed

text \<open>
  Packets that are not recognised.  On a Linux \<open>cooked\<close> capture, PPP and HDLC the type field is compared in the
  wrong byte order, so that every IPv4 and IPv6 packet counts as not IP; on Ethernet the version of an IPv6 packet is
  looked up in the first byte of the destination address, so that it counts as not IP unless that byte happens
  to start with 6.
\<close>

theorem flow_decode_misses_ip:
  "(ld16 b 14 = Some (htons ETHERTYPE_IP) \<or> ld16 b 14 = Some (htons ETHERTYPE_IP6) \<longrightarrow>
      decode_entry b DLT_LINUX_SLL = Some (Inl FLOW_ENTRY_NON_IP)) \<and>
   (ld16 b 2 = Some (htons 0x0021) \<longrightarrow> decode_entry b DLT_PPP_SERIAL = Some (Inl FLOW_ENTRY_NON_IP)) \<and>
   (ld16 b 2 = Some (htons ETHERTYPE_IP) \<or> ld16 b 2 = Some (htons ETHERTYPE_IP6) \<longrightarrow>
      decode_entry b DLT_C_HDLC = Some (Inl FLOW_ENTRY_NON_IP)) \<and>
   (ld16 b 12 = Some (htons ETHERTYPE_IP6) \<and> drop_bit 4 (hd b) \<noteq> (6 :: u8) \<longrightarrow>
      decode_entry b DLT_EN10MB = Some (Inl FLOW_ENTRY_NON_IP))"
proof -
  have h: "htons ETHERTYPE_IP = 8" "htons ETHERTYPE_IP6 = 0xdd86" "htons 0x0021 = 0x2100" "ntohs 0x2100 = 0x21" "ntohs 8 \<noteq> 0x21" "ntohs 0xdd86 = ETHERTYPE_IP6"
    by code_simp+
  have n: "ETHERTYPE_IP \<noteq> 8" "ETHERTYPE_IP6 \<noteq> 8" "ETHERTYPE_IP \<noteq> 0xdd86" "ETHERTYPE_IP6 \<noteq> 0xdd86" "ETHERTYPE_IP6 \<noteq> ETHERTYPE_VLAN"
    "ETHERTYPE_IP6 \<noteq> ETHERTYPE_IP" by code_simp+
  have "ld8 b 0 = Some (hd b)" if "ld16 b 12 = Some w" for w using that by (cases b) (auto simp: ld16_Some ld8_def)
  with h n show ?thesis
    by (auto simp: decode_entry_def decode_l2_def decode_l3_def dlt_defs DLT_JUNIPER_ETHER_def l2_start_def flow_vlan.simps)
qed

theorem flow_decode_misses_ip_witness:
  "decode_entry (replicate 14 0 @ [0x08, 0x00, 0x45] @ replicate 39 0) DLT_LINUX_SLL = Some (Inl FLOW_ENTRY_NON_IP)"
proof -
  have "ld16 (replicate 14 0 @ [0x08, 0x00, 0x45] @ replicate 39 0) 14 = Some (htons ETHERTYPE_IP)" by code_simp
  then show ?thesis using flow_decode_misses_ip [of "replicate 14 0 @ [0x08, 0x00, 0x45] @ replicate 39 0"] by blast
qed

end
