(* ===== verification/Tcpprep_Cache.thy ===== *)
theory Tcpprep_Cache
  imports C_Memory
begin

text \<open>
  \<^verbatim>\<open>tcpreplay/src/common/cache.c\<close>: the file in which \<^verbatim>\<open>tcpprep\<close> stores, in two bits per packet, whether and on which
  interface \<^verbatim>\<open>tcpreplay\<close> sends it, and \<^verbatim>\<open>cache_mode\<close> of \<^verbatim>\<open>send_packets.c\<close>, which looks a packet up.  A file is the list
  of its bytes, a C string the list of its bytes before the terminating NUL.  The linked list of blocks is a
  list, whose last element is the block \<^verbatim>\<open>lastcache\<close> points to.
\<close>

section \<open>Data\<close>

definition CACHEDATASIZE :: nat where "CACHEDATASIZE = 255"
definition CACHE_PACKETS_PER_BYTE :: nat where "CACHE_PACKETS_PER_BYTE = 4"
definition CACHE_BITS_PER_PACKET :: nat where "CACHE_BITS_PER_PACKET = 2"

text \<open>\<open>tcpprep\<close> with its NUL, and \<open>04\<close> in a field of four bytes.\<close>

definition CACHEMAGIC :: "u8 list" where "CACHEMAGIC = [0x74, 0x63, 0x70, 0x70, 0x72, 0x65, 0x70, 0]"
definition CACHEVERSION :: "u8 list" where "CACHEVERSION = [0x30, 0x34, 0, 0]"

lemmas cache_defs = CACHEDATASIZE_def CACHE_PACKETS_PER_BYTE_def CACHE_BITS_PER_PACKET_def CACHEMAGIC_def CACHEVERSION_def

record tcpr_cache =
  cache_data :: "u8 list"
  cache_packets :: nat

datatype tcpr_dir = TCPR_DIR_ERROR | TCPR_DIR_NOSEND | TCPR_DIR_C2S | TCPR_DIR_S2C

definition ntohll :: "u64 \<Rightarrow> u64" where
  "ntohll x = push_bit 32 (ucast (ntohl (ucast x))) OR ucast (ntohl (ucast (drop_bit 32 x)))"

abbreviation htonll :: "u64 \<Rightarrow> u64" where "htonll \<equiv> ntohll"

definition bytes_of_64 :: "u64 \<Rightarrow> u8 list" where
  "bytes_of_64 x = bytes_of_32 (ucast x) @ bytes_of_32 (ucast (drop_bit 32 x))"

definition ld64 :: "u8 list \<Rightarrow> nat \<Rightarrow> u64 option" where
  "ld64 b i = do { lo \<leftarrow> ld32 b i; hi \<leftarrow> ld32 b (i + 4); Some (ucast lo OR push_bit 32 (ucast hi)) }"

section \<open>Building the cache\<close>

definition new_cache :: tcpr_cache where
  "new_cache = \<lparr>cache_data = replicate CACHEDATASIZE 0, cache_packets = 0\<rparr>"

text \<open>
  The block that gets the next packet becomes the last one.  \<^verbatim>\<open>safe_malloc\<close> ends the program when there is no memory.
  The count of a block stays at most 1020, far below the limit of its type.
\<close>

definition with_room :: "bool \<Rightarrow> tcpr_cache list \<Rightarrow> tcpr_cache list c_result" where
  "with_room malloc_ok cachedata =
    (if cachedata = [] then (if malloc_ok then Inr [new_cache] else Inl Exited)
     else if cache_packets (last cachedata) + 1 > CACHEDATASIZE * CACHE_PACKETS_PER_BYTE then
       (if malloc_ok then Inr (cachedata @ [new_cache]) else Inl Exited)
     else Inr cachedata)"

definition add_packet :: "bool \<Rightarrow> tcpr_dir \<Rightarrow> tcpr_cache \<Rightarrow> tcpr_cache \<times> tcpr_dir" where
  "add_packet send interface lastcache =
    (let packets = cache_packets lastcache + 1;
         lastcache = lastcache\<lparr>cache_packets := packets\<rparr>
     in if send then
          (let index = (packets - 1) div CACHE_PACKETS_PER_BYTE;
               bt = ((packets - 1) mod CACHE_PACKETS_PER_BYTE) * CACHE_BITS_PER_PACKET + 1;
               byte = cache_data lastcache ! index + push_bit bt 1
           in if interface = TCPR_DIR_C2S then
                (lastcache\<lparr>cache_data := (cache_data lastcache)[index := byte + push_bit (bt - 1) 1]\<rparr>, TCPR_DIR_C2S)
              else (lastcache\<lparr>cache_data := (cache_data lastcache)[index := byte]\<rparr>, TCPR_DIR_S2C))
        else (lastcache, TCPR_DIR_NOSEND))"

definition add_cache :: "bool \<Rightarrow> tcpr_cache list \<Rightarrow> bool \<Rightarrow> tcpr_dir \<Rightarrow> (tcpr_cache list \<times> tcpr_dir) c_result" where
  "add_cache malloc_ok cachedata send interface =
    c_bind (with_room malloc_ok cachedata) (\<lambda>c.
      case add_packet send interface (last c) of (lastcache, result) \<Rightarrow> Inr (butlast c @ [lastcache], result))"

section \<open>Looking packets up\<close>

definition check_cache :: "u8 list option \<Rightarrow> u64 \<Rightarrow> tcpr_dir c_result" where
  "check_cache cachedata packetid =
    (case cachedata of
       None \<Rightarrow> Inl Assertion
     | Some cachedata \<Rightarrow>
         if packetid = 0 then Inl Exited
         else
           (let index = (unat packetid - 1) div CACHE_PACKETS_PER_BYTE;
                bt = ((unat packetid - 1) mod CACHE_PACKETS_PER_BYTE) * CACHE_BITS_PER_PACKET + 1
            in c_bind (c_mem (ld8 cachedata index)) (\<lambda>byte.
                 if byte AND push_bit bt 1 = 0 then Inr TCPR_DIR_NOSEND
                 else if byte AND push_bit (bt - 1) 1 \<noteq> 0 then Inr TCPR_DIR_C2S
                 else Inr TCPR_DIR_S2C)))"

text \<open>The interface a packet goes out on; \<open>None\<close> is the null pointer, which is also \<^verbatim>\<open>TCPR_DIR_NOSEND\<close>.\<close>

definition cache_mode :: "'sp option \<Rightarrow> 'sp option \<Rightarrow> u64 \<Rightarrow> u8 list option \<Rightarrow> u64 \<Rightarrow> 'sp option c_result" where
  "cache_mode intf1 intf2 n_packets cachedata packet_num =
    (if packet_num > n_packets then Inr None
     else c_bind (check_cache cachedata packet_num) (\<lambda>result.
       if result = TCPR_DIR_NOSEND then Inr None
       else if result = TCPR_DIR_C2S then Inr intf1
       else if result = TCPR_DIR_S2C then Inr intf2
       else Inr None))"

section \<open>The file\<close>

definition cache_header :: "u64 \<Rightarrow> nat \<Rightarrow> u8 list" where
  "cache_header numpackets comment_len =
    CACHEMAGIC @ CACHEVERSION @ bytes_of_64 (htonll numpackets) @ bytes16 (htons (of_nat CACHE_PACKETS_PER_BYTE)) @
    bytes16 (htons (of_nat comment_len))"

text \<open>The \<open>k\<close>th call of \<^verbatim>\<open>write\<close> succeeds if \<open>write_ok k\<close>.\<close>

fun write_blocks :: "(nat \<Rightarrow> bool) \<Rightarrow> nat \<Rightarrow> tcpr_cache list \<Rightarrow> u64 \<Rightarrow> u8 list \<Rightarrow> (u8 list \<times> u64) c_result" where
  "write_blocks write_ok k [] packets file = Inr (file, packets)"
| "write_blocks write_ok k (mycache # rest) packets file =
    (let packets = packets + of_nat (cache_packets mycache);
         chars = cache_packets mycache div CACHE_PACKETS_PER_BYTE +
           (if cache_packets mycache mod CACHE_PACKETS_PER_BYTE \<noteq> 0 then 1 else 0)
     in if write_ok k then write_blocks write_ok (k + 1) rest packets (file @ take chars (cache_data mycache))
        else Inl Exited)"

definition write_cache :: "(nat \<Rightarrow> bool) \<Rightarrow> tcpr_cache list \<Rightarrow> int \<Rightarrow> u64 \<Rightarrow> u8 list option \<Rightarrow> (u8 list \<times> u64) c_result" where
  "write_cache write_ok cachedata out_file numpackets comment =
    (if cachedata = [] then Inl Assertion
     else if out_file = 0 then Inl Assertion
     else
       (let file = cache_header numpackets (case comment of None \<Rightarrow> 0 | Some c \<Rightarrow> length c)
        in if \<not> write_ok 0 then Inl Exited
           else case comment of
               None \<Rightarrow> write_blocks write_ok 1 cachedata 0 file
             | Some c \<Rightarrow> if write_ok 1 then write_blocks write_ok 2 cachedata 0 (file @ c) else Inl Exited))"

text \<open>\<^verbatim>\<open>atoi\<close> on the bytes from the version field on, which has no terminating NUL of its own.\<close>

definition version_number :: "u8 list \<Rightarrow> int c_result" where
  "version_number bs =
    (let (sign, s) = read_sign (dropWhile is_space (map (\<lambda>b. char_of (unat b)) bs));
         (v, n, rest) = read_digits digit_val 10 0 0 s
     in if rest = [] then Inl Out_of_bounds else Inr (c_int (clamp_long (sign * int v))))"

text \<open>The number of packets, the cache and the comment.  The file is \<open>None\<close> if it cannot be opened.\<close>

definition read_cache :: "(nat \<Rightarrow> bool) \<Rightarrow> u8 list option \<Rightarrow> (u64 \<times> u8 list \<times> u8 list) c_result" where
  "read_cache malloc_ok cachefile =
    (case cachefile of
       None \<Rightarrow> Inl Exited
     | Some file \<Rightarrow>
         if length file < 24 then Inl Exited
         else if take 8 file \<noteq> CACHEMAGIC then Inl Exited
         else c_bind (version_number (drop 8 (take 24 file))) (\<lambda>version.
           if version \<noteq> 4 then Inl Exited
           else
             c_bind (c_mem (ld16 file 22)) (\<lambda>comment_len.
             c_bind (c_mem (ld64 file 12)) (\<lambda>num_packets.
             c_bind (c_mem (ld16 file 20)) (\<lambda>packets_per_byte.
             let comment_len = unat (ntohs comment_len);
                 comment = take comment_len (drop 24 file);
                 num_packets = ntohll num_packets;
                 packets_per_byte = ntohs packets_per_byte
             in if \<not> malloc_ok (comment_len + 1) then Inl Exited
                else if length comment \<noteq> comment_len then Inl Exited
                else if packets_per_byte = 0 then Inl Divide_error
                else
                  (let cache_size = unat num_packets div unat packets_per_byte +
                         (if unat num_packets mod unat packets_per_byte \<noteq> 0 then 1 else 0);
                       cachedata = take cache_size (drop (24 + comment_len) file)
                   in if \<not> malloc_ok cache_size then Inl Exited
                      else if length cachedata \<noteq> cache_size then Inl Exited
                      else Inr (num_packets, cachedata, comment)))))))"

section \<open>Two bits per packet\<close>

definition dir_at :: "u8 list \<Rightarrow> nat \<Rightarrow> tcpr_dir" where
  "dir_at bs j =
    (let byte = bs ! (j div 4)
     in if \<not> bit byte (j mod 4 * 2 + 1) then TCPR_DIR_NOSEND else if bit byte (j mod 4 * 2) then TCPR_DIR_C2S else TCPR_DIR_S2C)"

text \<open>The direction that is stored for a decision.\<close>

definition dir_of :: "bool \<Rightarrow> tcpr_dir \<Rightarrow> tcpr_dir" where
  "dir_of send interface = (if \<not> send then TCPR_DIR_NOSEND else if interface = TCPR_DIR_C2S then TCPR_DIR_C2S else TCPR_DIR_S2C)"

lemma and_exp_0:
  fixes b :: u8
  shows "b AND 2 ^ n = 0 \<longleftrightarrow> \<not> bit b n" "b AND 2 * 2 ^ n = 0 \<longleftrightarrow> \<not> bit b (Suc n)"
  using bit_iff_and_push_bit_not_eq_0 [of b n] bit_iff_and_push_bit_not_eq_0 [of b "Suc n"] by simp_all

lemma check_cache_dir:
  assumes "packetid \<noteq> 0" "unat packetid \<le> 4 * length bs"
  shows "check_cache (Some bs) packetid = Inr (dir_at bs (unat packetid - 1))"
proof -
  have "(unat packetid - 1) div 4 < length bs" using assms unat_gt_0 [of packetid] by (simp add: div_less_iff_less_mult)
  then show ?thesis using assms(1)
    by (simp add: check_cache_def dir_at_def cache_defs Let_def ld8_def and_exp_0)
qed

lemma add_bit:
  fixes b :: u8
  assumes "\<not> bit b n" "n < 8"
  shows "bit (b + push_bit n 1) m \<longleftrightarrow> bit b m \<or> m = n"
proof -
  have "b AND push_bit n 1 = 0" using assms(1) by (simp add: bit_iff_and_push_bit_not_eq_0)
  then have "b + push_bit n 1 = b OR push_bit n 1" by (rule disjunctive_add_eq_or)
  then show ?thesis using assms(2) by (auto simp: bit_or_iff bit_exp_iff)
qed

definition block_inv :: "tcpr_cache \<Rightarrow> tcpr_dir list \<Rightarrow> bool" where
  "block_inv b ds \<longleftrightarrow> length (cache_data b) = 255 \<and> cache_packets b = length ds \<and> length ds \<le> 1020 \<and>
    (\<forall>j < length ds. dir_at (cache_data b) j = ds ! j) \<and>
    (\<forall>j. length ds \<le> j \<and> j < 1020 \<longrightarrow> \<not> bit (cache_data b ! (j div 4)) (j mod 4 * 2) \<and> \<not> bit (cache_data b ! (j div 4)) (j mod 4 * 2 + 1))"

lemma block_inv_new: "block_inv new_cache []"
  by (simp add: block_inv_def new_cache_def cache_defs div_less_iff_less_mult)

lemma bit_position:
  assumes "i div 4 = j div 4" "i \<noteq> (j :: nat)"
  shows "i mod 4 * 2 \<noteq> j mod 4 * 2" "i mod 4 * 2 + 1 \<noteq> j mod 4 * 2" "i mod 4 * 2 \<noteq> j mod 4 * 2 + 1" "i mod 4 * 2 + 1 \<noteq> j mod 4 * 2 + 1"
proof -
  have p: "x * 2 \<noteq> y * 2 \<and> x * 2 + 1 \<noteq> y * 2 \<and> x * 2 \<noteq> y * 2 + 1 \<and> x * 2 + 1 \<noteq> y * 2 + 1" if "x \<noteq> y" for x y :: nat
    using that by presburger
  have "i mod 4 \<noteq> j mod 4" using assms by (metis div_mult_mod_eq)
  from p [OF this] show "i mod 4 * 2 \<noteq> j mod 4 * 2" "i mod 4 * 2 + 1 \<noteq> j mod 4 * 2" "i mod 4 * 2 \<noteq> j mod 4 * 2 + 1" "i mod 4 * 2 + 1 \<noteq> j mod 4 * 2 + 1"
    by blast+
qed

text \<open>Setting the two bits of one packet leaves those of the others.\<close>

lemma dir_at_update:
  assumes "j div 4 < length bs" "\<And>m. bit byte m \<longleftrightarrow> bit (bs ! (j div 4)) m \<or> m = j mod 4 * 2 + 1 \<or> c \<and> m = j mod 4 * 2"
    "\<not> bit (bs ! (j div 4)) (j mod 4 * 2)"
  shows "dir_at (bs[j div 4 := byte]) j = (if c then TCPR_DIR_C2S else TCPR_DIR_S2C)"
    "i \<noteq> j \<Longrightarrow> bit (bs[j div 4 := byte] ! (i div 4)) (i mod 4 * 2) = bit (bs ! (i div 4)) (i mod 4 * 2)"
    "i \<noteq> j \<Longrightarrow> bit (bs[j div 4 := byte] ! (i div 4)) (i mod 4 * 2 + 1) = bit (bs ! (i div 4)) (i mod 4 * 2 + 1)"
proof -
  show "dir_at (bs[j div 4 := byte]) j = (if c then TCPR_DIR_C2S else TCPR_DIR_S2C)"
    using assms by (simp add: dir_at_def)
  show "i \<noteq> j \<Longrightarrow> bit (bs[j div 4 := byte] ! (i div 4)) (i mod 4 * 2) = bit (bs ! (i div 4)) (i mod 4 * 2)"
    using assms(1,2) bit_position [of i j] by (cases "i div 4 = j div 4") simp_all
  show "i \<noteq> j \<Longrightarrow> bit (bs[j div 4 := byte] ! (i div 4)) (i mod 4 * 2 + 1) = bit (bs ! (i div 4)) (i mod 4 * 2 + 1)"
    using assms(1,2) bit_position [of i j] by (cases "i div 4 = j div 4") simp_all
qed

lemma add_packet_inv:
  assumes "block_inv b ds" "length ds < 1020"
  shows "snd (add_packet send i b) = dir_of send i \<and> block_inv (fst (add_packet send i b)) (ds @ [dir_of send i])"
proof (cases send)
  case False
  have "dir_at (cache_data b) (length ds) = TCPR_DIR_NOSEND" using assms by (simp add: block_inv_def dir_at_def)
  with False assms show ?thesis
    by (auto simp: add_packet_def dir_of_def block_inv_def nth_append less_Suc_eq)
next
  case True
  let ?j = "length ds" and ?bs = "cache_data b" and ?c = "i = TCPR_DIR_C2S"
  define x where "x = ?bs ! (?j div 4) + push_bit (?j mod 4 * 2 + 1) 1"
  define byte where "byte = (if ?c then x + push_bit (?j mod 4 * 2) 1 else x)"
  have n: "\<not> bit (?bs ! (?j div 4)) (?j mod 4 * 2)" "\<not> bit (?bs ! (?j div 4)) (?j mod 4 * 2 + 1)" "?j div 4 < length ?bs"
    using assms by (auto simp: block_inv_def)
  have "?j mod 4 < 4" by simp
  then have l: "?j mod 4 * 2 + 1 < 8" "?j mod 4 * 2 < 8" by linarith+
  have 1: "bit x m \<longleftrightarrow> bit (?bs ! (?j div 4)) m \<or> m = ?j mod 4 * 2 + 1" for m
    unfolding x_def by (rule add_bit [OF n(2) l(1)])
  then have "\<not> bit x (?j mod 4 * 2)" using n(1) by simp
  from add_bit [OF this l(2)] have bits: "bit byte m \<longleftrightarrow> bit (?bs ! (?j div 4)) m \<or> m = ?j mod 4 * 2 + 1 \<or> ?c \<and> m = ?j mod 4 * 2" for m
    unfolding byte_def using 1 by (cases ?c) (simp_all del: push_bit_of_1)
  have run: "add_packet send i b = (b\<lparr>cache_packets := ?j + 1, cache_data := ?bs[?j div 4 := byte]\<rparr>, dir_of send i)"
    using assms(1) True by (simp add: add_packet_def cache_defs dir_of_def byte_def x_def block_inv_def Let_def)
  note u = dir_at_update [OF n(3) bits n(1)]
  have d: "dir_at (?bs[?j div 4 := byte]) k = (if k = ?j then dir_of send i else dir_at ?bs k)" for k
    using u True by (simp add: dir_of_def) (simp add: dir_at_def)
  show ?thesis unfolding run block_inv_def
    using assms u(2,3) by (simp add: block_inv_def d nth_append less_Suc_eq)
qed

section \<open>The list of blocks\<close>

fun cache_inv :: "tcpr_cache list \<Rightarrow> tcpr_dir list \<Rightarrow> bool" where
  "cache_inv [] ds \<longleftrightarrow> ds = []"
| "cache_inv [b] ds \<longleftrightarrow> block_inv b ds \<and> ds \<noteq> []"
| "cache_inv (b # bs) ds \<longleftrightarrow> 1020 < length ds \<and> block_inv b (take 1020 ds) \<and> cache_inv bs (drop 1020 ds)"

lemma cache_inv_Cons: "bs \<noteq> [] \<Longrightarrow> cache_inv (b # bs) ds \<longleftrightarrow> 1020 < length ds \<and> block_inv b (take 1020 ds) \<and> cache_inv bs (drop 1020 ds)"
  by (cases bs) simp_all

lemma add_cache_Cons:
  assumes "c \<noteq> []" "add_cache m c send i = Inr (c', r)"
  shows "add_cache m (b # c) send i = Inr (b # c', r) \<and> c' \<noteq> []"
  using assms by (auto simp: add_cache_def with_room_def c_bind_Inr split: if_splits prod.splits)

lemma add_cache_inv:
  "cache_inv c ds \<Longrightarrow> \<exists>c'. add_cache True c send i = Inr (c', dir_of send i) \<and> cache_inv c' (ds @ [dir_of send i]) \<and> c' \<noteq> []"
proof (induction c ds rule: cache_inv.induct)
  case (1 ds)
  with add_packet_inv [OF block_inv_new, of send i] show ?case
    by (cases "add_packet send i new_cache") (simp add: add_cache_def with_room_def)
next
  case (2 b ds)
  show ?case
  proof (cases "length ds < 1020")
    case True
    with 2 add_packet_inv [of b ds send i] show ?thesis
      by (cases "add_packet send i b") (simp add: add_cache_def with_room_def cache_defs block_inv_def)
  next
    case False
    with 2 have "length ds = 1020" "cache_packets b = 1020" by (auto simp: block_inv_def)
    with 2 add_packet_inv [OF block_inv_new, of send i] show ?thesis
      by (cases "add_packet send i new_cache") (simp add: add_cache_def with_room_def cache_defs)
  qed
next
  case (3 b b' bs ds)
  then obtain c' where c': "add_cache True (b' # bs) send i = Inr (c', dir_of send i)"
    "cache_inv c' (drop 1020 ds @ [dir_of send i])" "c' \<noteq> []" by auto
  with 3 show ?case using add_cache_Cons [OF _ c'(1), of b] by (auto simp: cache_inv_Cons)
qed

text \<open>A sequence of decisions.\<close>

fun add_all :: "tcpr_cache list \<Rightarrow> (bool \<times> tcpr_dir) list \<Rightarrow> tcpr_cache list c_result" where
  "add_all c [] = Inr c"
| "add_all c ((send, i) # ds) = c_bind (add_cache True c send i) (\<lambda>(c, _). add_all c ds)"

lemma add_all_inv:
  "cache_inv c ds \<Longrightarrow> \<exists>c'. add_all c xs = Inr c' \<and> cache_inv c' (ds @ map (\<lambda>(s, i). dir_of s i) xs) \<and> (xs \<noteq> [] \<longrightarrow> c' \<noteq> [])"
proof (induction xs arbitrary: c ds)
  case (Cons x xs)
  obtain s i where x: "x = (s, i)" by (cases x)
  from add_cache_inv [OF Cons.prems, of s i] obtain c1 where c1: "add_cache True c s i = Inr (c1, dir_of s i)"
    "cache_inv c1 (ds @ [dir_of s i])" "c1 \<noteq> []" by blast
  from Cons.IH [OF c1(2)] c1 x show ?case by (cases xs) auto
qed simp

text \<open>The bytes of the blocks in the file.\<close>

definition chars :: "nat \<Rightarrow> nat" where
  "chars n = n div 4 + (if n mod 4 \<noteq> 0 then 1 else 0)"

definition flat :: "tcpr_cache list \<Rightarrow> u8 list" where
  "flat c = concat (map (\<lambda>b. take (chars (cache_packets b)) (cache_data b)) c)"

lemma chars_less: "j < n \<Longrightarrow> j div 4 < chars n"
  using div_le_mono [of j n 4] div_mult_mod_eq [of n 4] div_mult_mod_eq [of j 4] by (cases "n mod 4 = 0") (simp_all add: chars_def)

lemma chars_full: "chars 1020 = 255" "1020 < n \<Longrightarrow> chars n = 255 + chars (n - 1020)" "n \<le> 1020 \<Longrightarrow> chars n \<le> 255"
proof -
  show "chars 1020 = 255" by (simp add: chars_def)
  have "chars (1020 + m) = 255 + chars m" for m
    using div_mult_self3 [of 4 255 m] mod_mult_self3 [of 255 4 m] by (simp add: chars_def)
  from this [of "n - 1020"] show "1020 < n \<Longrightarrow> chars n = 255 + chars (n - 1020)" by simp
  have "n div 4 \<le> 254" if "n \<le> 1020" "n mod 4 \<noteq> 0" using div_mult_mod_eq [of n 4] that by linarith
  then show "n \<le> 1020 \<Longrightarrow> chars n \<le> 255" by (cases "n mod 4 = 0") (simp_all add: chars_def)
qed

lemma dir_at_append: "dir_at (xs @ ys) j = (if j div 4 < length xs then dir_at xs j else dir_at ys (j - 4 * length xs))"
proof (cases "j div 4 < length xs")
  case False
  then have "4 * length xs \<le> j" by (simp add: less_eq_div_iff_mult_less_eq mult.commute flip: not_less)
  then obtain k where "j = 4 * length xs + k" using le_Suc_ex by blast
  moreover have "(4 * length xs + k) mod 4 = k mod 4" by (rule mod_mult_self4)
  ultimately show ?thesis unfolding dir_at_def by (simp only: div_mult_self4 diff_add_inverse nth_append) simp
qed (simp add: dir_at_def nth_append)

lemma flat_dirs: "cache_inv c ds \<Longrightarrow> length (flat c) = chars (length ds) \<and> (\<forall>j < length ds. dir_at (flat c) j = ds ! j)"
proof (induction c ds rule: cache_inv.induct)
  case (2 b ds)
  then have "chars (length ds) \<le> 255" by (auto simp: block_inv_def chars_full)
  moreover have "dir_at (take (chars (length ds)) (cache_data b)) j = dir_at (cache_data b) j" if "j < length ds" for j
    using chars_less [OF that] by (simp add: dir_at_def)
  ultimately show ?case using 2 by (simp add: flat_def block_inv_def)
next
  case (3 b b' bs ds)
  then have b: "take (chars (cache_packets b)) (cache_data b) = cache_data b" "length (cache_data b) = 255"
    "\<forall>j < 1020. dir_at (cache_data b) j = ds ! j" by (auto simp: block_inv_def chars_full)
  have f: "flat (b # b' # bs) = cache_data b @ flat (b' # bs)" by (simp add: flat_def b(1))
  from 3 have IH: "length (flat (b' # bs)) = chars (length ds - 1020)" "\<forall>j < length ds - 1020. dir_at (flat (b' # bs)) j = ds ! (1020 + j)"
    by simp_all
  have "dir_at (flat (b # b' # bs)) j = ds ! j" if "j < length ds" for j
  proof (cases "j < 1020")
    case True
    then have "j div 4 < 255" by simp
    with True b show ?thesis by (simp add: f dir_at_append)
  next
    case False
    then have "\<not> j div 4 < 255" by simp
    with False IH(2) that show ?thesis by (simp add: f dir_at_append b(2))
  qed
  with 3 IH(1) b(2) show ?case by (simp add: f chars_full)
qed (simp add: flat_def chars_def)

lemma write_blocks_flat:
  "cache_inv c ds \<Longrightarrow> write_blocks (\<lambda>_. True) k c p f = Inr (f @ flat c, p + of_nat (length ds))"
proof (induction c ds arbitrary: k p f rule: cache_inv.induct)
  case (3 b b' bs ds)
  from 3 have "cache_packets b = 1020" by (simp add: block_inv_def)
  moreover from 3 have "write_blocks (\<lambda>_. True) k' (b' # bs) p' f' = Inr (f' @ flat (b' # bs), p' + of_nat (length ds - 1020))" for k' p' f'
    by simp
  moreover have "of_nat (length ds) = (of_nat 1020 + of_nat (length ds - 1020) :: u64)" using 3 by (simp flip: of_nat_add del: of_nat_numeral)
  ultimately show ?case
    by (subst write_blocks.simps) (simp add: flat_def chars_def cache_defs Let_def del: write_blocks.simps)
qed (simp_all add: flat_def chars_def block_inv_def cache_defs Let_def)

section \<open>The header\<close>

lemma pack64_split [simp]: "ucast (ucast x :: u32) OR push_bit 32 (ucast (ucast (drop_bit 32 x) :: u32)) = (x :: u64)"
  by (rule bit_word_eqI) (auto simp: bit_simps)

lemma ntohll_parts: "ucast (ntohll x) = ntohl (ucast (drop_bit 32 x))" "ucast (drop_bit 32 (ntohll x)) = ntohl (ucast x)"
  by (rule bit_word_eqI; auto simp: bit_simps ntohll_def dest: bit_imp_le_length)+

lemma ntohll_ntohll [simp]: "ntohll (ntohll x) = x"
  using pack64_split [of x] by (subst ntohll_def) (simp only: ntohll_parts ntohl_ntohl or.commute)

lemma ld64_bytes: "length xs = i \<Longrightarrow> ld64 (xs @ bytes_of_64 w @ ys) i = Some w"
  by (simp add: ld64_def bytes_of_64_def ld32_skip)

lemma header_length [simp]: "length (cache_header n k) = 24"
  by (simp add: cache_header_def bytes_of_64_def cache_defs)

lemma header_fields:
  "ld64 (cache_header n k @ ys) 12 = Some (htonll n)"
  "ld16 (cache_header n k @ ys) 20 = Some (htons 4)"
  "ld16 (cache_header n k @ ys) 22 = Some (htons (of_nat k))"
  "take 8 (cache_header n k) = CACHEMAGIC"
proof -
  have l: "length (CACHEMAGIC @ CACHEVERSION) = 12" "length (CACHEMAGIC @ CACHEVERSION @ bytes_of_64 x) = 20" for x
    by (simp_all add: bytes_of_64_def cache_defs)
  show "ld64 (cache_header n k @ ys) 12 = Some (htonll n)"
    unfolding cache_header_def append_assoc by (subst append_assoc [symmetric]) (rule ld64_bytes [OF l(1)])
  have h: "cache_header n k @ ys = (CACHEMAGIC @ CACHEVERSION @ bytes_of_64 (htonll n)) @ bytes16 (htons 4) @ bytes16 (htons (of_nat k)) @ ys"
    by (simp add: cache_header_def CACHE_PACKETS_PER_BYTE_def)
  show "ld16 (cache_header n k @ ys) 20 = Some (htons 4)" unfolding h using l(2) [of "htonll n"] by (subst ld16_skip) simp_all
  show "ld16 (cache_header n k @ ys) 22 = Some (htons (of_nat k))" unfolding h
    using l(2) [of "htonll n"] by (subst ld16_skip) (simp_all add: ld16_skip)
  show "take 8 (cache_header n k) = CACHEMAGIC" by (simp add: cache_header_def cache_defs)
qed

lemma header_version: "version_number (drop 8 (cache_header n k)) = Inr 4"
proof -
  have "drop 8 (cache_header n k) = 0x30 # 0x34 # 0 # 0 # bytes_of_64 (htonll n) @ bytes16 (htons (of_nat CACHE_PACKETS_PER_BYTE)) @ bytes16 (htons (of_nat k))"
    by (simp add: cache_header_def cache_defs bytes_of_64_def)
  moreover have "char_of (48 :: nat) = CHR ''0''" "char_of (52 :: nat) = CHR ''4''" "char_of (0 :: nat) = CHR 0x00"
    by code_simp+
  ultimately show ?thesis by (simp add: version_number_def is_space_def digit_val_def clamp_long_def c_int_def)
qed

text \<open>What is read back from a header with its comment and the bytes of the cache.\<close>

lemma read_cache_header:
  assumes "length body = (k mod 65536) + r" "chars (unat n) \<le> r"
  shows "read_cache (\<lambda>_. True) (Some (cache_header n k @ body)) =
    Inr (n, take (chars (unat n)) (drop (k mod 65536) body), take (k mod 65536) body)"
proof -
  have k: "unat (of_nat k :: u16) = k mod 65536" by (simp add: unat_of_nat)
  have "0 < unat n div 4" if "unat n mod 4 = 0" "0 < unat n" using that div_mult_mod_eq [of "unat n" 4] by linarith
  then show ?thesis using assms
    by (simp add: read_cache_def header_fields header_version k chars_def Let_def min_def)
qed

section \<open>Properties\<close>

text \<open>
  C22: what \<^verbatim>\<open>tcpprep\<close> decides is what \<^verbatim>\<open>tcpreplay\<close> does.  Any sequence of decisions added to an empty cache, written with
  any comment of less than 65536 bytes and read back, gives the number of packets, the comment and, for each packet,
  its decision; \<^verbatim>\<open>cache_mode\<close> selects the interface accordingly, and no interface behind the last packet.
\<close>

theorem cache_roundtrip:
  assumes "xs \<noteq> []" "length xs < 2 ^ 64" "length (case comment of None \<Rightarrow> [] | Some c \<Rightarrow> c) < 65536" "out_file \<noteq> 0"
  shows "\<exists>c file bs. add_all [] xs = Inr c \<and>
    write_cache (\<lambda>_. True) c out_file (of_nat (length xs)) comment = Inr (file, of_nat (length xs)) \<and>
    read_cache (\<lambda>_. True) (Some file) = Inr (of_nat (length xs), bs, case comment of None \<Rightarrow> [] | Some c \<Rightarrow> c) \<and>
    (\<forall>i < length xs.
      check_cache (Some bs) (of_nat (i + 1)) = Inr (dir_of (fst (xs ! i)) (snd (xs ! i))) \<and>
      cache_mode intf1 intf2 (of_nat (length xs)) (Some bs) (of_nat (i + 1)) =
        Inr (if fst (xs ! i) then if snd (xs ! i) = TCPR_DIR_C2S then intf1 else intf2 else None)) \<and>
    (\<forall>p > of_nat (length xs). cache_mode intf1 intf2 (of_nat (length xs)) (Some bs) p = Inr None)"
proof -
  let ?cm = "case comment of None \<Rightarrow> [] | Some c \<Rightarrow> c" and ?ds = "map (\<lambda>(s, i). dir_of s i) xs" and ?n = "of_nat (length xs) :: u64"
  from add_all_inv [of "[]" "[]" xs] assms(1) obtain c where c: "add_all [] xs = Inr c" "cache_inv c ?ds" "c \<noteq> []" by auto
  note f = flat_dirs [OF c(2)]
  let ?file = "cache_header ?n (length ?cm) @ ?cm @ flat c"
  have n: "unat ?n = length xs" using assms(2) by (simp add: unat_of_nat)
  have w: "write_cache (\<lambda>_. True) c out_file ?n comment = Inr (?file, ?n)"
    using c(3) assms(4) write_blocks_flat [OF c(2)] by (cases comment) (simp_all add: write_cache_def)
  have r: "read_cache (\<lambda>_. True) (Some ?file) = Inr (?n, flat c, ?cm)"
    using read_cache_header [of "?cm @ flat c" "length ?cm" "length (flat c)" ?n] assms(3) f n by simp
  have 1: "check_cache (Some (flat c)) (of_nat (i + 1)) = Inr (dir_of (fst (xs ! i)) (snd (xs ! i)))" if "i < length xs" for i
  proof -
    have i: "unat (of_nat (i + 1) :: u64) = i + 1" using that assms(2) by (simp only: unat_of_nat) simp
    have "i div 4 < length (flat c)" using chars_less [OF that] f by simp
    then have "i + 1 \<le> 4 * length (flat c)" by (simp add: div_less_iff_less_mult)
    moreover have "of_nat (i + 1) \<noteq> (0 :: u64)" using i by (metis add_is_0 one_neq_zero unat_0)
    ultimately show ?thesis using check_cache_dir [of "of_nat (i + 1)" "flat c"] i f that by (simp add: case_prod_beta)
  qed
  have 2: "\<not> of_nat (i + 1) > ?n" if "i < length xs" for i
    using that n assms(2) by (simp only: word_less_nat_alt unat_of_nat) simp
  have "cache_mode intf1 intf2 ?n (Some (flat c)) (of_nat (i + 1)) =
      Inr (if fst (xs ! i) then if snd (xs ! i) = TCPR_DIR_C2S then intf1 else intf2 else None)" if "i < length xs" for i
    unfolding cache_mode_def using 1 [OF that] 2 [OF that] by (simp only: if_False c_bind_simps) (simp add: dir_of_def)
  with 1 w r c(1) show ?thesis
    by (intro exI [of _ c] exI [of _ ?file] exI [of _ "flat c"] conjI allI impI) (simp_all add: cache_mode_def)
qed

theorem cache_roundtrip_witness:
  "\<exists>c file bs. add_all [] [(True, TCPR_DIR_S2C), (False, TCPR_DIR_S2C)] = Inr c \<and>
    write_cache (\<lambda>_. True) c 3 2 (Some [0x61]) = Inr (file, 2) \<and> read_cache (\<lambda>_. True) (Some file) = Inr (2, bs, [0x61]) \<and>
    check_cache (Some bs) 1 = Inr TCPR_DIR_S2C"
  using cache_roundtrip [of "[(True, TCPR_DIR_S2C), (False, TCPR_DIR_S2C)]" "Some [0x61]" 3 "None :: unit option" None]
  by (auto simp: dir_of_def less_Suc_eq)

text \<open>
  The length of the comment is stored in 16 bits: with a comment of 65536 bytes the header says that there is none, and
  the decisions read back are bytes of the comment.
\<close>

lemma long_comment_read_as_cache:
  assumes "length comment = 65536" "cache_inv c ds" "c \<noteq> []" "length ds < 2 ^ 18" "out_file \<noteq> 0"
  shows "\<exists>file. write_cache (\<lambda>_. True) c out_file (of_nat (length ds)) (Some comment) = Inr (file, of_nat (length ds)) \<and>
    read_cache (\<lambda>_. True) (Some file) = Inr (of_nat (length ds), take (chars (length ds)) comment, [])"
proof -
  have n: "unat (of_nat (length ds) :: u64) = length ds" using assms(4) by (simp add: unat_of_nat)
  have "length ds div 4 < 65536" using assms(4) by (simp add: div_less_iff_less_mult)
  then have "chars (length ds) \<le> 65536" by (simp add: chars_def)
  with read_cache_header [of "comment @ flat c" 65536 "65536 + length (flat c)" "of_nat (length ds)"] assms n
    write_blocks_flat [OF assms(2)]
  show ?thesis by (simp add: write_cache_def)
qed

text \<open>The number of packets per byte is read from the file and used as a divisor.\<close>

lemma read_cache_divides_by_zero:
  assumes "24 \<le> length file" "take 8 file = CACHEMAGIC" "version_number (drop 8 (take 24 file)) = Inr 4" "ld16 file 20 = Some 0"
    "ld16 file 22 = Some 0"
  shows "read_cache (\<lambda>_. True) (Some file) = Inl Divide_error"
proof -
  obtain x where "ld64 file 12 = Some x" using assms(1) by (auto simp: ld64_def ld32_def ld16_def ld8_def)
  moreover have "ntohs 0 = 0" by code_simp
  ultimately show ?thesis using assms by (simp add: read_cache_def)
qed

end
