(* ===== verification/Replay_Timing.thy ===== *)
theory Replay_Timing
  imports C_Memory "HOL-Library.Signed_Division"
begin

text \<open>
  When tcpreplay sends a packet: the time macros of \<^verbatim>\<open>common/timer.h\<close>, \<^verbatim>\<open>common/timer.c\<close> and \<^verbatim>\<open>defines.h.in\<close>, the waiting loop
  of \<^verbatim>\<open>sleep.h\<close>, and \<^verbatim>\<open>calc_sleep_time\<close>, \<^verbatim>\<open>tcpr_sleep\<close> and \<^verbatim>\<open>get_user_count\<close> of \<^verbatim>\<open>send_packets.c\<close>.  Times are of type \<^verbatim>\<open>long\<close>,
  here integers; the counters are 64-bit words.  The clock is the sequence of the values that \<^verbatim>\<open>gettimeofday\<close> returns.
\<close>

section \<open>Times\<close>

record timespec =
  ts_sec :: int
  ts_nsec :: int

definition timesclear :: timespec where "timesclear = \<lparr>ts_sec = 0, ts_nsec = 0\<rparr>"
definition timerclear :: timeval where "timerclear = \<lparr>tv_sec = 0, tv_usec = 0\<rparr>"

definition timerisset :: "timeval \<Rightarrow> bool" where "timerisset tv \<longleftrightarrow> tv_sec tv \<noteq> 0 \<or> tv_usec tv \<noteq> 0"
definition timesisset :: "timespec \<Rightarrow> bool" where "timesisset ts \<longleftrightarrow> ts_sec ts \<noteq> 0 \<or> ts_nsec ts \<noteq> 0"

definition timeradd :: "timeval \<Rightarrow> timeval \<Rightarrow> timeval" where
  "timeradd t u =
    (let s = tv_sec t + tv_sec u; us = tv_usec t + tv_usec u
     in if us \<ge> 1000000 then \<lparr>tv_sec = s + 1, tv_usec = us - 1000000\<rparr> else \<lparr>tv_sec = s, tv_usec = us\<rparr>)"

definition timersub :: "timeval \<Rightarrow> timeval \<Rightarrow> timeval" where
  "timersub t u =
    (let s = tv_sec t - tv_sec u; us = tv_usec t - tv_usec u
     in if us < 0 then \<lparr>tv_sec = s - 1, tv_usec = us + 1000000\<rparr> else \<lparr>tv_sec = s, tv_usec = us\<rparr>)"

text \<open>\<^verbatim>\<open>timercmp(t, u, cmp)\<close> and \<^verbatim>\<open>timescmp\<close>, for a comparison \<open>cmp\<close>.\<close>

definition timercmp :: "timeval \<Rightarrow> timeval \<Rightarrow> (int \<Rightarrow> int \<Rightarrow> bool) \<Rightarrow> bool" where
  "timercmp t u cmp = (if tv_sec t = tv_sec u then cmp (tv_usec t) (tv_usec u) else cmp (tv_sec t) (tv_sec u))"

definition timescmp :: "timespec \<Rightarrow> timespec \<Rightarrow> (int \<Rightarrow> int \<Rightarrow> bool) \<Rightarrow> bool" where
  "timescmp t u cmp = (if ts_sec t = ts_sec u then cmp (ts_nsec t) (ts_nsec u) else cmp (ts_sec t) (ts_sec u))"

definition TIMEVAL_TO_TIMESPEC :: "timeval \<Rightarrow> timespec" where
  "TIMEVAL_TO_TIMESPEC tv = \<lparr>ts_sec = tv_sec tv, ts_nsec = tv_usec tv * 1000\<rparr>"

definition TIMESPEC_TO_TIMEVAL :: "timespec \<Rightarrow> timeval" where
  "TIMESPEC_TO_TIMEVAL ts = \<lparr>tv_sec = ts_sec ts, tv_usec = ts_nsec ts sdiv 1000\<rparr>"

definition TIMEVAL_TO_MICROSEC :: "timeval \<Rightarrow> u64" where
  "TIMEVAL_TO_MICROSEC tv = word_of_int (tv_sec tv * 1000000 + tv_usec tv)"

definition NANOSEC_TO_TIMESPEC :: "u64 \<Rightarrow> timespec" where
  "NANOSEC_TO_TIMESPEC x = \<lparr>ts_sec = uint (x div 1000000000), ts_nsec = uint (x mod 1000000000)\<rparr>"

text \<open>Addition and subtraction of \<^verbatim>\<open>double\<close>, and the conversion to \<^verbatim>\<open>long\<close> of x86-64.\<close>

fun cf_add :: "cfloat \<Rightarrow> cfloat \<Rightarrow> cfloat" where
  "cf_add (Fin x) (Fin y) = fl64 (x + y)"
| "cf_add NaN _ = NaN"
| "cf_add _ NaN = NaN"
| "cf_add PInf NInf = NaN"
| "cf_add NInf PInf = NaN"
| "cf_add PInf _ = PInf"
| "cf_add _ PInf = PInf"
| "cf_add NInf _ = NInf"
| "cf_add _ NInf = NInf"

fun double_to_long :: "cfloat \<Rightarrow> int" where
  "double_to_long (Fin x) =
    (let i = (if 0 \<le> x then \<lfloor>x\<rfloor> else \<lceil>x\<rceil>) in if - (2 ^ 63) \<le> i \<and> i < 2 ^ 63 then i else - (2 ^ 63))"
| "double_to_long _ = - (2 ^ 63)"

definition timesdiv_float :: "timespec \<Rightarrow> cfloat \<Rightarrow> timespec" where
  "timesdiv_float tvs dv =
    (if dv = Fin 0 \<or> dv = Fin 1 then tvs
     else
       (let interval = cf_div fl64 (cf_add (cf_mul fl64 (fl64 (of_int (ts_sec tvs))) (Fin 1000000000)) (fl64 (of_int (ts_nsec tvs)))) dv;
            s = double_to_long (cf_div fl64 interval (Fin 1000000000));
            ns = double_to_long (cf_add interval (fl64 (of_int (- (s * 1000000000)))))
        in \<lparr>ts_sec = s, ts_nsec = ns\<rparr>))"

section \<open>Waiting\<close>

text \<open>The loop of \<^verbatim>\<open>gettimeofday_sleep\<close>, from the \<open>k\<close>th value of the clock on: the number of the next value.\<close>

partial_function (option) wait_until :: "(nat \<Rightarrow> timeval) \<Rightarrow> timeval \<Rightarrow> nat \<Rightarrow> nat option" where
  "wait_until clock sleep_until k =
    (if timercmp (clock k) sleep_until (<) then wait_until clock sleep_until (k + 1) else Some (k + 1))"

definition gettimeofday_sleep :: "(nat \<Rightarrow> timeval) \<Rightarrow> nat \<Rightarrow> timespec \<Rightarrow> nat option" where
  "gettimeofday_sleep clock k nap = wait_until clock (timeradd (clock k) (TIMESPEC_TO_TIMEVAL nap)) (k + 1)"

datatype accurate = accurate_gtod | accurate_select | accurate_rdtsc | accurate_ioport | accurate_nanosleep | accurate_abs_time

text \<open>
  What \<^verbatim>\<open>tcpr_sleep\<close> does: nothing, call one of the system's functions for a time, or wait on the clock.  The nap is
  limited to \<^verbatim>\<open>maxsleep\<close>, also for the caller.  The I/O port method is configured out, with \<^verbatim>\<open>HAVE_IOPERM\<close> undefined.
\<close>

datatype sleeping = No_sleep | Select timeval | Nanosleep timespec | Busy_wait timespec

definition tcpr_sleep :: "timespec \<Rightarrow> timespec \<Rightarrow> accurate \<Rightarrow> (timespec \<times> sleeping) c_result" where
  "tcpr_sleep maxsleep nap acc =
    (if \<not> timesisset nap then Inr (nap, No_sleep)
     else
       (let nap = (if timesisset maxsleep \<and> timescmp nap maxsleep (>) then maxsleep else nap)
        in case acc of
             accurate_select \<Rightarrow> Inr (nap, Select (TIMESPEC_TO_TIMEVAL nap))
           | accurate_gtod \<Rightarrow> Inr (nap, Busy_wait nap)
           | accurate_nanosleep \<Rightarrow> Inr (nap, Nanosleep nap)
           | _ \<Rightarrow> Inl Exited))"

section \<open>How long to sleep\<close>

datatype speed_mode = speed_multiplier | speed_mbpsrate | speed_packetrate | speed_topspeed | speed_oneatatime

record tcpreplay_speed =
  sp_mode :: speed_mode
  sp_speed :: u64
  sp_multiplier :: cfloat
  sp_pps_multi :: int

text \<open>
  \<^verbatim>\<open>strtoul(s, NULL, 0)\<close>: a prefix \<open>0x\<close> selects base 16 if a hexadecimal digit follows, another \<open>0\<close> base 8; a minus sign
  negates modulo \<open>2 ^ 64\<close>.
\<close>

definition octal_val :: "char \<Rightarrow> nat option" where
  "octal_val c = (case digit_val c of Some d \<Rightarrow> if d < 8 then Some d else None | None \<Rightarrow> None)"

definition strtoul0 :: "string \<Rightarrow> u64" where
  "strtoul0 s =
    (let (sign, s) = read_sign (dropWhile is_space s);
         v = (case s of
                c # d # x # _ \<Rightarrow>
                  if c = CHR ''0'' \<and> lower d = CHR ''x'' \<and> xdigit_val x \<noteq> None then fst (read_digits xdigit_val 16 0 0 (drop 2 s))
                  else if c = CHR ''0'' then fst (read_digits octal_val 8 0 0 s)
                  else fst (read_digits digit_val 10 0 0 s)
              | c # _ \<Rightarrow> if c = CHR ''0'' then fst (read_digits octal_val 8 0 0 s) else fst (read_digits digit_val 10 0 0 s)
              | [] \<Rightarrow> 0)
     in if v \<ge> 2 ^ 64 then - 1 else if sign < 0 then - of_nat v else of_nat v)"

text \<open>The line that \<^verbatim>\<open>fgets\<close> returns; \<open>None\<close> at the end of the input or when waiting for the keyboard fails.\<close>

definition get_user_count :: "string option \<Rightarrow> u32 c_result" where
  "get_user_count line =
    (case line of
       None \<Rightarrow> Inl Exited
     | Some input \<Rightarrow>
         let send = (if length input > 1 then ucast (strtoul0 input) else 0)
         in Inr (if send = 0 then 1 else send))"

text \<open>The variables the function changes: the nap and the number of packets to skip of the context, and \<^verbatim>\<open>skip_length\<close>.\<close>

record sleep_state =
  ss_nap :: timespec
  ss_skip_packets :: u32
  ss_skip_length :: u64

definition calc_sleep_time :: "tcpreplay_speed \<Rightarrow> bool \<Rightarrow> u64 \<Rightarrow> timeval \<Rightarrow> timeval \<Rightarrow> u32 \<Rightarrow> string option \<Rightarrow> timeval \<Rightarrow> u64 \<Rightarrow>
    sleep_state \<Rightarrow> sleep_state c_result" where
  "calc_sleep_time speed first_time bytes_sent pkt_time last_tm len line sent_timestamp start_us s =
    (let s = s\<lparr>ss_nap := timesclear\<rparr>
     in if ss_skip_packets s > 0 then Inr (s\<lparr>ss_skip_packets := ss_skip_packets s - 1\<rparr>)
        else
          (let multi = sp_mode speed = speed_packetrate \<and> sp_pps_multi speed \<noteq> 0;
               s = (if multi then s\<lparr>ss_skip_packets := word_of_int (sp_pps_multi speed - 1)\<rparr> else s)
           in if multi \<and> first_time then Inr s
              else case sp_mode speed of
                  speed_topspeed \<Rightarrow> Inl Assertion
                | speed_multiplier \<Rightarrow>
                    Inr (if timerisset last_tm \<and> \<not> timercmp pkt_time last_tm (<) then
                           s\<lparr>ss_nap := timesdiv_float (TIMEVAL_TO_TIMESPEC (timersub pkt_time last_tm)) (sp_multiplier speed)\<rparr>
                         else s)
                | speed_mbpsrate \<Rightarrow>
                    (let now_us = TIMEVAL_TO_MICROSEC sent_timestamp
                     in if now_us = 0 then Inr s
                        else
                          (let bps = sp_speed speed;
                               bits_sent = (bytes_sent + word_of_int (sint len)) * 8
                           in if bps = 0 then Inl Divide_error
                              else
                                (let next_tx_us = bits_sent * 1000000 div bps;
                                     tx_us = now_us - start_us
                                 in Inr (if next_tx_us > tx_us then s\<lparr>ss_nap := NANOSEC_TO_TIMESPEC ((next_tx_us - tx_us) * 1000)\<rparr>
                                         else if tx_us > next_tx_us then s\<lparr>ss_skip_length := (tx_us - next_tx_us) * bps div 8000000\<rparr>
                                         else s))))
                | speed_packetrate \<Rightarrow>
                    (if \<not> timesisset (ss_nap s) then
                       if sp_speed speed = 0 then Inl Divide_error
                       else Inr (s\<lparr>ss_nap := NANOSEC_TO_TIMESPEC
                         (1000000000 div sp_speed speed * (if sp_pps_multi speed > 0 then word_of_int (sp_pps_multi speed) else 1))\<rparr>)
                     else Inr s)
                | speed_oneatatime \<Rightarrow>
                    c_bind (if ss_skip_packets s = 0 then get_user_count line else Inr (ss_skip_packets s))
                      (\<lambda>n. Inr (s\<lparr>ss_skip_packets := n - 1\<rparr>))))"

section \<open>Lemmas\<close>

definition nanoseconds :: "timespec \<Rightarrow> int" where
  "nanoseconds ts = ts_sec ts * 1000000000 + ts_nsec ts"

definition microseconds :: "timeval \<Rightarrow> int" where
  "microseconds tv = tv_sec tv * 1000000 + tv_usec tv"

text \<open>A time as the system delivers it.\<close>

definition timeval_ok :: "timeval \<Rightarrow> bool" where
  "timeval_ok tv \<longleftrightarrow> 0 \<le> tv_usec tv \<and> tv_usec tv < 1000000"

definition timespec_ok :: "timespec \<Rightarrow> bool" where
  "timespec_ok ts \<longleftrightarrow> 0 \<le> ts_nsec ts \<and> ts_nsec ts < 1000000000"

lemma timeradd_ok:
  assumes "timeval_ok t" "timeval_ok u"
  shows "timeval_ok (timeradd t u)" "microseconds (timeradd t u) = microseconds t + microseconds u"
  using assms by (auto simp: timeval_ok_def timeradd_def microseconds_def Let_def)

lemma timersub_ok:
  assumes "timeval_ok t" "timeval_ok u"
  shows "timeval_ok (timersub t u)" "microseconds (timersub t u) = microseconds t - microseconds u"
  using assms by (auto simp: timeval_ok_def timersub_def microseconds_def Let_def)

lemma timercmp_less: "timeval_ok t \<Longrightarrow> timeval_ok u \<Longrightarrow> timercmp t u (<) \<longleftrightarrow> microseconds t < microseconds u"
  by (auto simp: timercmp_def timeval_ok_def microseconds_def)

lemma timescmp_greater: "timespec_ok t \<Longrightarrow> timespec_ok u \<Longrightarrow> timescmp t u (>) \<longleftrightarrow> nanoseconds t > nanoseconds u"
  by (auto simp: timescmp_def timespec_ok_def nanoseconds_def)

lemma sdiv_1000: "0 \<le> a \<Longrightarrow> a sdiv 1000 = a div (1000 :: int)"
  by (cases "a = 0") (simp_all add: signed_divide_int_def)

lemma timespec_conversions:
  "timeval_ok tv \<Longrightarrow> timespec_ok (TIMEVAL_TO_TIMESPEC tv)" "nanoseconds (TIMEVAL_TO_TIMESPEC tv) = 1000 * microseconds tv"
  "timespec_ok ts \<Longrightarrow> timeval_ok (TIMESPEC_TO_TIMEVAL ts)" "timespec_ok ts \<Longrightarrow> microseconds (TIMESPEC_TO_TIMEVAL ts) = nanoseconds ts div 1000"
  using div_mult_self1 [of 1000 "ts_nsec ts" "ts_sec ts * 1000000"]
  by (auto simp: timeval_ok_def timespec_ok_def TIMEVAL_TO_TIMESPEC_def TIMESPEC_TO_TIMEVAL_def nanoseconds_def microseconds_def
      sdiv_1000 add.commute)

lemma NANOSEC_TO_TIMESPEC_ok: "timespec_ok (NANOSEC_TO_TIMESPEC x)" "nanoseconds (NANOSEC_TO_TIMESPEC x) = uint x"
  by (simp_all add: timespec_ok_def NANOSEC_TO_TIMESPEC_def nanoseconds_def uint_div uint_mod div_mult_mod_eq)

text \<open>The pacing arithmetic over the integers: \<open>b\<close> bits to have been sent, \<open>r\<close> bits per second, \<open>t\<close> microseconds gone.\<close>

lemma pacing:
  fixes b r t :: nat
  assumes "0 < r"
  defines "n \<equiv> b * 1000000 div r"
  shows "b * 1000000 < (n + 1) * r" "n * r \<le> b * 1000000"
    "n < t \<Longrightarrow> (b + 8 * ((t - n) * r div 8000000)) * 1000000 < (t + 1) * r"
proof -
  show 1: "b * 1000000 < (n + 1) * r" unfolding n_def using assms(1)
    by (metis add.commute dividend_less_times_div mult.commute mult_Suc plus_1_eq_Suc)
  show "n * r \<le> b * 1000000" unfolding n_def by simp
  assume "n < t"
  then obtain d where d: "t = n + d" using less_imp_add_positive by blast
  have "8000000 * (d * r div 8000000) \<le> d * r" by simp
  then show "(b + 8 * ((t - n) * r div 8000000)) * 1000000 < (t + 1) * r" using 1 by (simp add: d algebra_simps)
qed

text \<open>The same on words without overflow.\<close>

lemma pacing_words:
  fixes bytes bps now start :: u64 and len :: u32
  assumes "unat len < 2 ^ 31" "(unat bytes + unat len) * 8 * 1000000 < 2 ^ 64" "bps \<noteq> 0" "start \<le> now"
  defines "nxt \<equiv> (bytes + word_of_int (sint len)) * 8 * 1000000 div bps" and "n \<equiv> (unat bytes + unat len) * 8 * 1000000 div unat bps"
  shows "unat nxt = n" "unat (now - start) = unat now - unat start"
    "n * 1000 < 2 ^ 64 \<Longrightarrow> nxt > now - start \<Longrightarrow> unat ((nxt - (now - start)) * 1000) = (n - (unat now - unat start)) * 1000"
    "(unat now - unat start) * unat bps < 2 ^ 64 \<Longrightarrow> now - start > nxt \<Longrightarrow>
      unat ((now - start - nxt) * bps div 8000000) = (unat now - unat start - n) * unat bps div 8000000"
proof -
  have "unat len < 2147483648" using assms(1) by simp
  then have "int_range (int (unat len))" unfolding int_range_def by linarith
  then have len: "sint len = int (unat len)" using sint_word_of_int_range [of "int (unat len)"] by simp
  have l: "unat (of_nat (unat len) :: u64) = unat len" using assms(1) by (simp only: unat_of_nat) simp
  have "unat (bytes + of_nat (unat len)) = unat bytes + unat len"
    unfolding unat_word_ariths l using assms(2) by simp
  then have s: "unat (bytes + word_of_int (sint len)) = unat bytes + unat len" unfolding len by simp
  have mul: "unat (x * 8 * 1000000) = unat x * 8 * 1000000" if "unat x * 8 * 1000000 < 2 ^ 64" for x :: u64
    using that by (simp add: unat_word_ariths)
  have "unat ((bytes + word_of_int (sint len)) * 8 * 1000000) = (unat bytes + unat len) * 8 * 1000000"
    using mul [of "bytes + word_of_int (sint len)"] assms(2) unfolding s by blast
  then show 1: "unat nxt = n" unfolding nxt_def n_def by (simp add: unat_div_distrib)
  show 2: "unat (now - start) = unat now - unat start" by (rule unat_sub [OF assms(4)])
  {
    assume a: "n * 1000 < 2 ^ 64" "nxt > now - start"
    have "unat (nxt - (now - start)) = n - (unat now - unat start)"
      using unat_sub [of "now - start" nxt] a(2) by (simp add: 1 2)
    moreover have "unat (x * 1000) = unat x * 1000" if "unat x * 1000 < 2 ^ 64" for x :: u64
      using that by (simp add: unat_word_ariths)
    moreover have "(n - (unat now - unat start)) * 1000 < 2 ^ 64" using a(1) by linarith
    ultimately show "unat ((nxt - (now - start)) * 1000) = (n - (unat now - unat start)) * 1000" by metis
  next
    assume a: "(unat now - unat start) * unat bps < 2 ^ 64" "now - start > nxt"
    have d: "unat (now - start - nxt) = unat now - unat start - n"
      using unat_sub [of nxt "now - start"] a(2) by (simp add: 1 2)
    have "(unat now - unat start - n) * unat bps \<le> (unat now - unat start) * unat bps" by (intro mult_right_mono) simp_all
    with a(1) have "(unat now - unat start - n) * unat bps < 2 ^ 64" by linarith
    then show "unat ((now - start - nxt) * bps div 8000000) = (unat now - unat start - n) * unat bps div 8000000"
      by (simp add: unat_div_distrib unat_word_ariths d)
  }
qed

lemma wait_until_returns:
  assumes "\<not> timercmp (clock (k + m)) u (<)"
  shows "\<exists>j. wait_until clock u k = Some (j + 1) \<and> k \<le> j \<and> j \<le> k + m \<and> \<not> timercmp (clock j) u (<) \<and> (\<forall>i. k \<le> i \<and> i < j \<longrightarrow> timercmp (clock i) u (<))"
  using assms
proof (induction m arbitrary: k)
  case 0
  then show ?case by (intro exI [of _ k]) (auto simp: wait_until.simps)
next
  case (Suc m)
  show ?case
  proof (cases "timercmp (clock k) u (<)")
    case True
    from Suc.IH [of "k + 1"] Suc.prems obtain j where j: "wait_until clock u (k + 1) = Some (j + 1)" "k + 1 \<le> j" "j \<le> k + Suc m"
      "\<not> timercmp (clock j) u (<)" "\<forall>i. k + 1 \<le> i \<and> i < j \<longrightarrow> timercmp (clock i) u (<)" by auto
    have "timercmp (clock i) u (<)" if "k \<le> i" "i < j" for i using j(5) that True by (cases "i = k") simp_all
    with True j(1-4) show ?thesis by (intro exI [of _ j]) (simp add: wait_until.simps [of clock u k])
  qed (intro exI [of _ k], auto simp: wait_until.simps [of clock u k])
qed

section \<open>Properties\<close>

text \<open>
  C23: the configured bit rate is kept.  In the mode with a bit rate, with no packets to skip and no overflow of the
  counters, the nap and the number of bytes that may go out without looking at the clock are such that, when this
  packet and all of those bytes have been sent, the bits sent so far do not exceed the rate times the time since the
  start, up to one microsecond; and a nap is not longer than needed.
\<close>

theorem rate_limit:
  assumes "sp_mode speed = speed_mbpsrate" "sp_speed speed \<noteq> 0" "ss_skip_packets s = 0" "ss_skip_length s = 0"
    "unat len < 2 ^ 31" "(unat bytes_sent + unat len) * 8 * 1000000 < 2 ^ 64" "TIMEVAL_TO_MICROSEC sent \<noteq> 0"
    "start_us \<le> TIMEVAL_TO_MICROSEC sent"
    "((unat bytes_sent + unat len) * 8 * 1000000 div unat (sp_speed speed)) * 1000 < 2 ^ 64"
    "(unat (TIMEVAL_TO_MICROSEC sent) - unat start_us) * unat (sp_speed speed) < 2 ^ 64"
  shows "\<exists>s'. calc_sleep_time speed first_time bytes_sent pkt_time last_tm len line sent start_us s = Inr s' \<and>
    timespec_ok (ss_nap s') \<and>
    int (unat bytes_sent + unat len + unat (ss_skip_length s')) * 8 * 1000000000 <
      (int (unat (TIMEVAL_TO_MICROSEC sent) - unat start_us) * 1000 + nanoseconds (ss_nap s') + 1000) * uint (sp_speed speed) \<and>
    (timesisset (ss_nap s') \<longrightarrow>
      (int (unat (TIMEVAL_TO_MICROSEC sent) - unat start_us) * 1000 + nanoseconds (ss_nap s')) * uint (sp_speed speed) \<le>
        int (unat bytes_sent + unat len) * 8 * 1000000000)"
proof -
  let ?now = "TIMEVAL_TO_MICROSEC sent" and ?bps = "sp_speed speed"
  define t where "t = unat ?now - unat start_us"
  define b where "b = (unat bytes_sent + unat len) * 8"
  define r where "r = unat ?bps"
  define n where "n = b * 1000000 div r"
  have r: "0 < r" "uint ?bps = int r" using assms(2) by (simp_all add: r_def unat_gt_0)
  let ?nxt = "(bytes_sent + word_of_int (sint len)) * 8 * 1000000 div ?bps" and ?tx = "?now - start_us"
  note w = pacing_words [OF assms(5,6,2,8), folded b_def r_def, folded n_def t_def]
  note p = pacing [OF r(1), of b, folded n_def]
  have t': "unat ?tx = t" and n': "unat ?nxt = n" by (rule w(2), rule w(1))
  have cmp: "?nxt > ?tx \<longleftrightarrow> n > t" "?tx > ?nxt \<longleftrightarrow> t > n" by (simp_all only: word_less_nat_alt t' n')
  have run: "calc_sleep_time speed first_time bytes_sent pkt_time last_tm len line sent start_us s = Inr
    (if n > t then s\<lparr>ss_nap := NANOSEC_TO_TIMESPEC ((?nxt - ?tx) * 1000)\<rparr>
     else if t > n then s\<lparr>ss_nap := timesclear, ss_skip_length := (?tx - ?nxt) * ?bps div 8000000\<rparr> else s\<lparr>ss_nap := timesclear\<rparr>)"
    using assms(1-4,7) unfolding cmp [symmetric] by (simp add: calc_sleep_time_def Let_def)
  have z: "nanoseconds timesclear = 0" "timespec_ok timesclear" "\<not> timesisset timesclear"
    by (simp_all add: nanoseconds_def timesclear_def timespec_ok_def timesisset_def)
  have B: "int (unat bytes_sent + unat len + k) * 8 = int (b + 8 * k)" "int (unat bytes_sent + unat len) * 8 = int b" for k
    by (simp_all add: b_def)
  show ?thesis
  proof (cases "n > t")
    case True
    define nap where "nap = NANOSEC_TO_TIMESPEC ((?nxt - ?tx) * 1000)"
    have "unat ((?nxt - ?tx) * 1000) = (n - t) * 1000" using w(3) assms(9) True cmp
      unfolding b_def [symmetric] r_def [symmetric] n_def [symmetric] by blast
    then have "uint ((?nxt - ?tx) * 1000) = int ((n - t) * 1000)" by (simp only: uint_nat)
    then have ns: "nanoseconds nap = (int n - int t) * 1000" "timespec_ok nap"
      unfolding nap_def NANOSEC_TO_TIMESPEC_ok using True by (simp_all add: of_nat_diff NANOSEC_TO_TIMESPEC_ok)
    have i: "int (b * 1000000) < int ((n + 1) * r)" "int (n * r) \<le> int (b * 1000000)"
      by (simp_all only: of_nat_less_iff of_nat_le_iff p)
    have g: "int (b + 8 * 0) * 1000000000 < (int t * 1000 + (int n - int t) * 1000 + 1000) * int r"
      "(int t * 1000 + (int n - int t) * 1000) * int r \<le> int b * 1000000000"
      using i by (simp_all add: algebra_simps)
    have run': "calc_sleep_time speed first_time bytes_sent pkt_time last_tm len line sent start_us s = Inr (s\<lparr>ss_nap := nap\<rparr>)"
      using run True unfolding nap_def by (simp only: if_True)
    have f: "unat (ss_skip_length (s\<lparr>ss_nap := nap\<rparr>)) = 0" "ss_nap (s\<lparr>ss_nap := nap\<rparr>) = nap" using assms(4) by simp_all
    show ?thesis unfolding t_def [symmetric] r(2)
      by (rule exI [of _ "s\<lparr>ss_nap := nap\<rparr>"], intro conjI impI) (simp_all only: run' f B ns g)
  next
    case False
    define s' where "s' = (if t > n then s\<lparr>ss_nap := timesclear, ss_skip_length := (?tx - ?nxt) * ?bps div 8000000\<rparr> else s\<lparr>ss_nap := timesclear\<rparr>)"
    define k where "k = (if t > n then (t - n) * r div 8000000 else 0)"
    have "unat ((?tx - ?nxt) * ?bps div 8000000) = (t - n) * r div 8000000" if "t > n"
      using w(4) assms(10) cmp(2) that unfolding t_def [symmetric] r_def [symmetric] by blast
    then have skip: "unat (ss_skip_length s') = k" "ss_nap s' = timesclear" using assms(4) by (simp_all add: s'_def k_def)
    have "(b + 8 * k) * 1000000 < (t + 1) * r" using p(1) p(3) [of t] False by (cases "t > n") (simp_all add: k_def)
    then have "int ((b + 8 * k) * 1000000) < int ((t + 1) * r)" by (simp only: of_nat_less_iff)
    then have g: "int (b + 8 * k) * 1000000000 < (int t * 1000 + 0 + 1000) * int r" by (simp add: algebra_simps)
    have run': "calc_sleep_time speed first_time bytes_sent pkt_time last_tm len line sent start_us s = Inr s'"
      using run False unfolding s'_def by (simp only: if_False)
    show ?thesis unfolding t_def [symmetric] r(2)
      by (rule exI [of _ s'], intro conjI impI) (simp_all only: run' skip B z g not_False_eq_True)
  qed
qed

theorem rate_limit_witness:
  "\<exists>s'. calc_sleep_time \<lparr>sp_mode = speed_mbpsrate, sp_speed = 1000000, sp_multiplier = Fin 1, sp_pps_multi = 0\<rparr> False 1000
      timerclear timerclear 500 None \<lparr>tv_sec = 1, tv_usec = 0\<rparr> 999000 \<lparr>ss_nap = timesclear, ss_skip_packets = 0, ss_skip_length = 0\<rparr> = Inr s' \<and>
    timespec_ok (ss_nap s')"
proof -
  have u: "unat (1000 :: u64) = 1000" "unat (500 :: u32) = 500" "unat (1000000 :: u64) = 1000000" "unat (999000 :: u64) = 999000"
    by simp_all
  have t: "TIMEVAL_TO_MICROSEC \<lparr>tv_sec = 1, tv_usec = 0\<rparr> = 1000000" by (simp add: TIMEVAL_TO_MICROSEC_def)
  show ?thesis
    using rate_limit [of "\<lparr>sp_mode = speed_mbpsrate, sp_speed = 1000000, sp_multiplier = Fin 1, sp_pps_multi = 0\<rparr>"
        "\<lparr>ss_nap = timesclear, ss_skip_packets = 0, ss_skip_length = 0\<rparr>" 500 1000 "\<lparr>tv_sec = 1, tv_usec = 0\<rparr>" 999000 False timerclear timerclear None]
    by (auto simp: t u)
qed

text \<open>
  C24: the naps follow the trace.  With the multiplier 1, the nap before a packet is the time between it and the latest
  packet before it, at most \<^verbatim>\<open>maxsleep\<close> if that is set; there is none before the first packet and before one with an
  earlier time.  Waiting on the clock ends as soon as the clock shows that time, and not before the nap has passed.
\<close>

theorem nap_follows_trace:
  assumes "sp_mode speed = speed_multiplier" "sp_multiplier speed = Fin 1" "ss_skip_packets s = 0" "timeval_ok pkt_time" "timeval_ok last_tm"
    "timespec_ok maxsleep" "0 \<le> ts_sec maxsleep" "\<forall>k. timeval_ok (clock k)"
    "\<exists>m. microseconds (clock (k + 1 + m)) \<ge> microseconds (clock k) + microseconds pkt_time - microseconds last_tm"
  shows "\<exists>s' nap. calc_sleep_time speed first_time bytes_sent pkt_time last_tm len line sent start_us s = Inr s' \<and>
    nanoseconds (ss_nap s') =
      (if timerisset last_tm \<and> microseconds last_tm \<le> microseconds pkt_time then 1000 * (microseconds pkt_time - microseconds last_tm) else 0) \<and>
    tcpr_sleep maxsleep (ss_nap s') accurate_gtod = Inr (nap, if timesisset (ss_nap s') then Busy_wait nap else No_sleep) \<and>
    nanoseconds nap = (if timesisset maxsleep then min (nanoseconds maxsleep) (nanoseconds (ss_nap s')) else nanoseconds (ss_nap s')) \<and>
    (timesisset nap \<longrightarrow> (\<exists>j. gettimeofday_sleep clock k nap = Some (j + 1) \<and> k < j \<and>
      microseconds (clock j) \<ge> microseconds (clock k) + nanoseconds nap div 1000 \<and>
      (\<forall>i. k < i \<and> i < j \<longrightarrow> microseconds (clock i) < microseconds (clock k) + nanoseconds nap div 1000)))"
proof -
  define gap where "gap = timersub pkt_time last_tm"
  let ?on = "timerisset last_tm \<and> microseconds last_tm \<le> microseconds pkt_time"
  define n0 where "n0 = (if ?on then TIMEVAL_TO_TIMESPEC gap else timesclear)"
  define nap where "nap = (if timesisset n0 \<and> timesisset maxsleep \<and> timescmp n0 maxsleep (>) then maxsleep else n0)"
  have clear: "nanoseconds timesclear = 0" "timespec_ok timesclear" "\<not> timesisset timesclear"
    by (simp_all add: nanoseconds_def timesclear_def timespec_ok_def timesisset_def)
  note g = timersub_ok [OF assms(4,5), folded gap_def]
  have "calc_sleep_time speed first_time bytes_sent pkt_time last_tm len line sent start_us s = Inr (s\<lparr>ss_nap := n0\<rparr>)"
    using assms(1-3) timercmp_less [OF assms(4,5)] by (auto simp: calc_sleep_time_def n0_def gap_def timesdiv_float_def Let_def not_less)
  moreover have n0: "nanoseconds n0 = (if ?on then 1000 * (microseconds pkt_time - microseconds last_tm) else 0)" "timespec_ok n0"
    using g by (simp_all add: n0_def timespec_conversions clear)
  moreover have sl: "tcpr_sleep maxsleep n0 accurate_gtod = Inr (nap, if timesisset n0 then Busy_wait nap else No_sleep)"
    by (simp add: tcpr_sleep_def nap_def Let_def)
  moreover have nap: "nanoseconds nap = (if timesisset maxsleep then min (nanoseconds maxsleep) (nanoseconds n0) else nanoseconds n0)" "timespec_ok nap"
  proof -
    have "\<not> timesisset n0 \<Longrightarrow> nanoseconds n0 = 0" "0 \<le> nanoseconds maxsleep"
      using assms(6,7) by (simp_all add: timesisset_def nanoseconds_def timespec_ok_def)
    then show "nanoseconds nap = (if timesisset maxsleep then min (nanoseconds maxsleep) (nanoseconds n0) else nanoseconds n0)"
      using timescmp_greater [OF n0(2) assms(6)] by (auto simp: nap_def)
    show "timespec_ok nap" using n0(2) assms(6) by (simp add: nap_def)
  qed
  moreover have "\<exists>j. gettimeofday_sleep clock k nap = Some (j + 1) \<and> k < j \<and>
      microseconds (clock j) \<ge> microseconds (clock k) + nanoseconds nap div 1000 \<and>
      (\<forall>i. k < i \<and> i < j \<longrightarrow> microseconds (clock i) < microseconds (clock k) + nanoseconds nap div 1000)" if set: "timesisset nap"
  proof -
    define u where "u = timeradd (clock k) (TIMESPEC_TO_TIMEVAL nap)"
    have ok: "timeval_ok (clock i)" for i using assms(8) by blast
    have u: "timeval_ok u" "microseconds u = microseconds (clock k) + nanoseconds nap div 1000"
      using timeradd_ok [OF ok timespec_conversions(3) [OF nap(2)], of k] timespec_conversions(4) [OF nap(2)] by (simp_all add: u_def)
    have cmp: "timercmp (clock i) u (<) \<longleftrightarrow> microseconds (clock i) < microseconds (clock k) + nanoseconds nap div 1000" for i
      using timercmp_less [OF ok u(1)] u(2) by simp
    have "?on" using set clear(3) by (auto simp: nap_def n0_def split: if_splits)
    then have "nanoseconds nap \<le> 1000 * (microseconds pkt_time - microseconds last_tm)" using nap(1) n0(1) by auto
    then have "nanoseconds nap div 1000 \<le> microseconds pkt_time - microseconds last_tm"
      using zdiv_mono1 [of "nanoseconds nap" _ 1000] by fastforce
    moreover obtain m where "microseconds (clock (k + 1 + m)) \<ge> microseconds (clock k) + microseconds pkt_time - microseconds last_tm"
      using assms(9) by blast
    ultimately have "\<not> timercmp (clock (k + 1 + m)) u (<)" unfolding cmp by linarith
    from wait_until_returns [of clock "k + 1" m u, OF this] obtain j where "wait_until clock u (k + 1) = Some (j + 1)" "k + 1 \<le> j"
      "\<not> timercmp (clock j) u (<)" "\<forall>i. k + 1 \<le> i \<and> i < j \<longrightarrow> timercmp (clock i) u (<)" by blast
    then show ?thesis unfolding cmp gettimeofday_sleep_def u_def [symmetric] by (intro exI [of _ j]) auto
  qed
  ultimately show ?thesis by (intro exI [of _ "s\<lparr>ss_nap := n0\<rparr>"] exI [of _ nap] conjI impI) simp_all
qed

theorem nap_follows_trace_witness:
  "\<exists>s' nap. calc_sleep_time \<lparr>sp_mode = speed_multiplier, sp_speed = 0, sp_multiplier = Fin 1, sp_pps_multi = 0\<rparr> False 0
      \<lparr>tv_sec = 5, tv_usec = 10\<rparr> \<lparr>tv_sec = 3, tv_usec = 20\<rparr> 60 None timerclear 0 \<lparr>ss_nap = timesclear, ss_skip_packets = 0, ss_skip_length = 0\<rparr> = Inr s' \<and>
    nanoseconds (ss_nap s') = 1999990000 \<and> tcpr_sleep timesclear (ss_nap s') accurate_gtod = Inr (nap, if timesisset (ss_nap s') then Busy_wait nap else No_sleep)"
proof -
  have "\<exists>m. microseconds \<lparr>tv_sec = int (0 + 1 + m), tv_usec = 0\<rparr> \<ge> microseconds \<lparr>tv_sec = 0, tv_usec = 0\<rparr> +
      microseconds \<lparr>tv_sec = 5, tv_usec = 10\<rparr> - microseconds \<lparr>tv_sec = 3, tv_usec = 20\<rparr>"
    by (rule exI [of _ 5]) (simp add: microseconds_def)
  then show ?thesis
    using nap_follows_trace [of "\<lparr>sp_mode = speed_multiplier, sp_speed = 0, sp_multiplier = Fin 1, sp_pps_multi = 0\<rparr>"
        "\<lparr>ss_nap = timesclear, ss_skip_packets = 0, ss_skip_length = 0\<rparr>" "\<lparr>tv_sec = 5, tv_usec = 10\<rparr>" "\<lparr>tv_sec = 3, tv_usec = 20\<rparr>" timesclear
        "\<lambda>i. \<lparr>tv_sec = int i, tv_usec = 0\<rparr>" 0 False 0 60 None timerclear 0]
    by (auto simp: timeval_ok_def timespec_ok_def timesclear_def timerisset_def microseconds_def)
qed

end
