(* ===== verification/Send_Packets.thy ===== *)
theory Send_Packets
  imports Fast_Edit Flow_Stats Tcpprep_Cache Replay_Timing
begin

text \<open>
  The send loops of \<^verbatim>\<open>tcpreplay/src/send_packets.c\<close> with the packet cache (\<^verbatim>\<open>get_next_packet\<close>, \<^verbatim>\<open>preload_pcap_file\<close>) and
  \<^verbatim>\<open>sendpacket\<close> of \<^verbatim>\<open>common/sendpacket.c\<close>, as tcpreplay is built on the hosts: without editing of packets, verbose
  printing, Quick TX and netmap, over a packet socket.

  A capture file is the list of the packets that \<^verbatim>\<open>pcap_next\<close> delivers, each with its header and the memory from its
  first byte on.  The clock, the memory allocator, the keyboard and the kernel's answers to \<^verbatim>\<open>send\<close> are given by a
  sequence, of which every use takes the next element.
\<close>

section \<open>Sending one packet\<close>

text \<open>The kernel takes up to \<open>n\<close> bytes (\<open>Sent n\<close>) or fails with \<^verbatim>\<open>EAGAIN\<close>, \<^verbatim>\<open>ENOBUFS\<close> or another error.\<close>

datatype send_answer = Sent nat | Again | No_buffers | Send_error

record sendpacket_t =
  sp_retry_enobufs :: u64
  sp_retry_eagain :: u64
  sp_failed :: u64
  sp_trunc_packets :: u64
  sp_sent :: u64
  sp_bytes_sent :: u64
  sp_attempt :: u64
  sp_abort :: bool
  sp_flow :: flow_counters

text \<open>The loop behind \<^verbatim>\<open>TRY_SEND_AGAIN\<close>, over the answers of the kernel.\<close>

fun try_send :: "nat \<Rightarrow> send_answer list \<Rightarrow> sendpacket_t \<Rightarrow> (int \<times> sendpacket_t) c_result" where
  "try_send len [] sp = Inl Endless"
| "try_send len (a # as) sp =
    (let sp = sp\<lparr>sp_attempt := sp_attempt sp + 1\<rparr>
     in case a of
          Sent n \<Rightarrow> Inr (int (min n len), sp)
        | Again \<Rightarrow> if sp_abort sp then Inr (- 1, sp) else try_send len as (sp\<lparr>sp_retry_eagain := sp_retry_eagain sp + 1\<rparr>)
        | No_buffers \<Rightarrow> if sp_abort sp then Inr (- 1, sp) else try_send len as (sp\<lparr>sp_retry_enobufs := sp_retry_enobufs sp + 1\<rparr>)
        | Send_error \<Rightarrow> Inr (- 1, sp))"

definition sendpacket :: "send_answer list \<Rightarrow> nat \<Rightarrow> sendpacket_t \<Rightarrow> (int \<times> sendpacket_t) c_result" where
  "sendpacket answers len sp =
    (if len = 0 then Inr (- 1, sp)
     else c_bind (try_send len answers sp) (\<lambda>(retcode, sp).
       Inr (retcode,
         if retcode < 0 then sp\<lparr>sp_failed := sp_failed sp + 1\<rparr>
         else if retcode \<noteq> int len then sp\<lparr>sp_trunc_packets := sp_trunc_packets sp + 1\<rparr>
         else sp\<lparr>sp_bytes_sent := sp_bytes_sent sp + of_nat len, sp_sent := sp_sent sp + 1\<rparr>)))"

section \<open>Options and context\<close>

datatype intf = Intf1 | Intf2

record tcpreplay_opt =
  o_speed :: tcpreplay_speed
  o_stats :: int
  o_use_pkthdr_len :: bool
  o_cache_packets :: u64
  o_cachedata :: "u8 list option"
  o_accurate :: accurate
  o_limit_send :: u64
  o_maxsleep :: timespec
  o_preload_pcap :: bool
  o_flow_stats :: bool
  o_flow_expiry :: int
  o_unique_ip :: bool
  o_intf2 :: bool

text \<open>
  The context, with the testbed's data warehouse, the buffer \<^verbatim>\<open>g_pkt_temporary_buffer\<close>, what the kernel has sent on which
  interface, and the number of the next element of the environment.
\<close>

record tcpreplay =
  c_abort :: bool
  c_iteration :: u32
  c_nap :: timespec
  c_skip_packets :: u32
  c_first_time :: bool
  c_pkts_sent :: u64
  c_bytes_sent :: u64
  c_start_time :: timeval
  c_end_time :: timeval
  c_last_time :: timeval
  c_last_print :: timeval
  c_flow_stats :: flow_counters
  c_flow_table :: flow_hash_table
  c_intf :: "intf \<Rightarrow> sendpacket_t"
  c_dw :: data_warehouse
  c_buffer :: "u8 list"
  c_wire :: "(intf \<times> u8 list) list"
  c_tick :: nat

record environment =
  e_clock :: "nat \<Rightarrow> timeval"
  e_malloc :: "nat \<Rightarrow> timeval option"
  e_line :: "nat \<Rightarrow> string option"
  e_answers :: "nat \<Rightarrow> send_answer list"

type_synonym pcap_packet = "pcap_pkthdr \<times> u8 list"

section \<open>Reading packets\<close>

record file_cache =
  fc_cached :: bool
  fc_dlt :: int
  fc_packets :: "pcap_packet list"

text \<open>
  What the reading of one file changes: the packets still to come from the file (none if there is no handle), the
  cache of the file, and \<^verbatim>\<open>*prev_packet\<close>, an index into the cache.
\<close>

record source =
  s_pcap :: "pcap_packet list"
  s_cache :: file_cache
  s_prev :: "nat option"

definition pcap_next :: "pcap_packet list \<Rightarrow> pcap_packet option \<times> pcap_packet list" where
  "pcap_next ps = (case ps of [] \<Rightarrow> (None, []) | p # ps \<Rightarrow> (Some p, ps))"

text \<open>
  \<open>use_cache\<close> says that \<^verbatim>\<open>preload_pcap\<close> is set and \<^verbatim>\<open>prev_packet\<close> is not null.  The copy for the cache has the length of the packet on
  the wire, also when less has been captured.
\<close>

definition get_next_packet :: "bool \<Rightarrow> source \<Rightarrow> (pcap_packet option \<times> source) c_result" where
  "get_next_packet use_cache s =
    (if use_cache then
       if fc_cached (s_cache s) then
         (let i = (case s_prev s of None \<Rightarrow> 0 | Some i \<Rightarrow> i + 1)
          in if i < length (fc_packets (s_cache s)) then Inr (Some (fc_packets (s_cache s) ! i), s\<lparr>s_prev := Some i\<rparr>)
             else Inr (None, s\<lparr>s_prev := None\<rparr>))
       else
         (case pcap_next (s_pcap s) of
            (None, ps) \<Rightarrow> Inr (None, s\<lparr>s_pcap := ps\<rparr>)
          | (Some (h, pktdata), ps) \<Rightarrow>
              if unat (pkt_len h) > length pktdata then Inl Out_of_bounds
              else
                (let old = (case s_prev s of None \<Rightarrow> [] | Some i \<Rightarrow> take (i + 1) (fc_packets (s_cache s)));
                     packets = old @ [(h, take (unat (pkt_len h)) pktdata)]
                 in Inr (Some (h, pktdata),
                      s\<lparr>s_pcap := ps, s_cache := (s_cache s)\<lparr>fc_packets := packets\<rparr>, s_prev := Some (length packets - 1)\<rparr>)))
     else
       (case pcap_next (s_pcap s) of (p, ps) \<Rightarrow> Inr (p, s\<lparr>s_pcap := ps\<rparr>)))"

text \<open>How many packets are still to come.\<close>

definition remaining :: "bool \<Rightarrow> source \<Rightarrow> nat" where
  "remaining use_cache s =
    (if use_cache \<and> fc_cached (s_cache s) then length (fc_packets (s_cache s)) - (case s_prev s of None \<Rightarrow> 0 | Some i \<Rightarrow> i + 1)
     else length (s_pcap s))"

lemma get_next_packet_less: "get_next_packet u s = Inr (Some p, s') \<Longrightarrow> remaining u s' < remaining u s"
  by (auto simp: get_next_packet_def remaining_def pcap_next_def Let_def split: if_splits list.splits option.splits)

text \<open>Flow statistics for a packet, with the counters of an interface if there is one.\<close>

definition count_for :: "environment \<Rightarrow> tcpreplay_opt \<Rightarrow> intf option \<Rightarrow> pcap_pkthdr \<Rightarrow> u8 list \<Rightarrow> int \<Rightarrow> tcpreplay \<Rightarrow> tcpreplay c_result" where
  "count_for env opt sp pkthdr pktdata datalink c =
    c_bind (update_flow_stats (e_malloc env (c_tick c)) (o_flow_expiry opt) pkthdr pktdata datalink
        (c_flow_table c, c_flow_stats c, map_option (\<lambda>i. sp_flow (c_intf c i)) sp)) (\<lambda>(fht, stats, flow).
      Inr (c\<lparr>c_flow_table := fht, c_flow_stats := stats, c_tick := c_tick c + 1,
        c_intf := (case (sp, flow) of (Some i, Some f) \<Rightarrow> (c_intf c)(i := (c_intf c i)\<lparr>sp_flow := f\<rparr>) | _ \<Rightarrow> c_intf c)\<rparr>))"

function preload_loop :: "environment \<Rightarrow> tcpreplay_opt \<Rightarrow> int \<Rightarrow> source \<Rightarrow> tcpreplay \<Rightarrow> (source \<times> tcpreplay) c_result" where
  "preload_loop env opt dlt s c =
    c_bind (get_next_packet (o_preload_pcap opt) s) (\<lambda>(p, s).
      case p of
        None \<Rightarrow> Inr (s, c)
      | Some (h, pktdata) \<Rightarrow>
          c_bind (if o_flow_stats opt then count_for env opt None h pktdata dlt c else Inr c) (preload_loop env opt dlt s))"
  by pat_completeness auto
termination
  by (relation "measure (\<lambda>(_, opt, _, s, _). remaining (o_preload_pcap opt) s)") (auto dest: get_next_packet_less)

declare preload_loop.simps [simp del]

text \<open>The file is \<open>None\<close> if it cannot be opened.\<close>

definition preload_pcap_file :: "environment \<Rightarrow> tcpreplay_opt \<Rightarrow> (int \<times> pcap_packet list) option \<Rightarrow> file_cache \<Rightarrow> tcpreplay \<Rightarrow>
    (file_cache \<times> tcpreplay) c_result" where
  "preload_pcap_file env opt file fc c =
    (case file of
       None \<Rightarrow> Inl Exited
     | Some (dlt, ps) \<Rightarrow>
         c_bind (preload_loop env opt dlt \<lparr>s_pcap = ps, s_cache = fc, s_prev = None\<rparr> c) (\<lambda>(s, c).
           Inr ((s_cache s)\<lparr>fc_cached := True, fc_dlt := dlt\<rparr>, c)))"

section \<open>The main loop\<close>

definition do_not_timestamp :: "tcpreplay_opt \<Rightarrow> bool" where
  "do_not_timestamp opt \<longleftrightarrow> sp_mode (o_speed opt) = speed_topspeed \<or> sp_mode (o_speed opt) = speed_mbpsrate \<and> sp_speed (o_speed opt) = 0"

text \<open>\<^verbatim>\<open>limit_send\<close> is an \<^verbatim>\<open>int\<close>, the option a 64-bit counter.\<close>

definition limit_reached :: "tcpreplay_opt \<Rightarrow> tcpreplay \<Rightarrow> bool" where
  "limit_reached opt c \<longleftrightarrow>
    (let limit_send = c_int (uint (o_limit_send opt)) in limit_send > 0 \<and> c_pkts_sent c \<ge> word_of_int limit_send)"

text \<open>
  The packet is copied to the temporary buffer of 15000 bytes, followed by its length.  Length and captured length of the
  header become the length of this.
\<close>

definition PKT_BUFFER_SIZE :: nat where "PKT_BUFFER_SIZE = 15000"

definition copy_packet :: "pcap_packet \<Rightarrow> tcpreplay \<Rightarrow> (pcap_pkthdr \<times> tcpreplay) c_result" where
  "copy_packet p c =
    (case p of (h, pktdata) \<Rightarrow>
       let n = unat (pkt_caplen h)
       in if length pktdata < n \<or> n + 4 > PKT_BUFFER_SIZE then Inl Out_of_bounds
          else Inr (h\<lparr>pkt_caplen := pkt_caplen h + 4, pkt_len := pkt_caplen h + 4\<rparr>,
                 c\<lparr>c_buffer := take n pktdata @ bytes_of_32 (pkt_len h) @ drop (n + 4) (c_buffer c)\<rparr>))"

text \<open>Sleeping as \<^verbatim>\<open>tcpr_sleep\<close> says; waiting on the clock uses up its values.\<close>

definition run_sleep :: "environment \<Rightarrow> tcpreplay_opt \<Rightarrow> tcpreplay \<Rightarrow> tcpreplay c_result" where
  "run_sleep env opt c =
    (if \<not> timesisset (c_nap c) then Inr c
     else c_bind (tcpr_sleep (o_maxsleep opt) (c_nap c) (o_accurate opt)) (\<lambda>(nap, how).
       let c = c\<lparr>c_nap := nap\<rparr>
       in case how of
            Busy_wait t \<Rightarrow>
              (case gettimeofday_sleep (e_clock env) (c_tick c) t of None \<Rightarrow> Inl Endless | Some k \<Rightarrow> Inr (c\<lparr>c_tick := k\<rparr>))
          | _ \<Rightarrow> Inr c))"

definition get_packet_timestamp :: "environment \<Rightarrow> tcpreplay \<Rightarrow> tcpreplay" where
  "get_packet_timestamp env c = c\<lparr>c_end_time := e_clock env (c_tick c), c_tick := c_tick c + 1\<rparr>"

text \<open>
  The part between the flow statistics and \<^verbatim>\<open>SEND_NOW\<close>, with the local variable \<^verbatim>\<open>skip_length\<close>.
\<close>

definition pace :: "environment \<Rightarrow> tcpreplay_opt \<Rightarrow> u64 \<Rightarrow> timeval \<Rightarrow> u32 \<Rightarrow> u64 \<Rightarrow> tcpreplay \<Rightarrow> (u64 \<times> tcpreplay) c_result" where
  "pace env opt start_us ts pktlen skip_length c =
    (if do_not_timestamp opt then Inr (skip_length, c)
     else if skip_length \<noteq> 0 \<and> ucast pktlen < skip_length \<and> \<not> (o_limit_send opt > 0 \<and> c_pkts_sent c + skip_length \<ge> o_limit_send opt) then
       Inr (skip_length - ucast pktlen, c)
     else
       (let c = (if skip_length \<noteq> 0 then get_packet_timestamp env c else c)
        in c_bind (calc_sleep_time (o_speed opt) (c_first_time c) (c_bytes_sent c) ts (c_last_time c) pktlen (e_line env (c_tick c))
               (c_end_time c) start_us \<lparr>ss_nap = c_nap c, ss_skip_packets = c_skip_packets c, ss_skip_length = 0\<rparr>) (\<lambda>ss.
             c_bind (run_sleep env opt (c\<lparr>c_nap := ss_nap ss, c_skip_packets := ss_skip_packets ss, c_tick := c_tick c + 1\<rparr>)) (\<lambda>c.
               Inr (ss_skip_length ss, c)))))"

text \<open>\<^verbatim>\<open>sendpacket\<close> on an interface: what the kernel takes of the first \<^verbatim>\<open>pktlen\<close> bytes goes out.\<close>

definition put_on_wire :: "environment \<Rightarrow> intf \<Rightarrow> u8 list \<Rightarrow> u32 \<Rightarrow> tcpreplay \<Rightarrow> tcpreplay c_result" where
  "put_on_wire env i pktdata pktlen c =
    (if unat pktlen > length pktdata then Inl Out_of_bounds
     else c_bind (sendpacket (e_answers env (c_tick c)) (unat pktlen) (c_intf c i)) (\<lambda>(retcode, sp).
       Inr (c\<lparr>c_intf := (c_intf c)(i := sp), c_tick := c_tick c + 1,
         c_wire := (if retcode < 0 then c_wire c else c_wire c @ [(i, take (min (nat retcode) (unat pktlen)) pktdata)])\<rparr>)))"

text \<open>
  After the packet has gone out: the times, the counters, and the statistics printed during the run, of which
  \<^verbatim>\<open>send_packets\<close> keeps the time as the end time.
\<close>

definition after_send :: "environment \<Rightarrow> tcpreplay_opt \<Rightarrow> timeval \<Rightarrow> u32 \<Rightarrow> u64 \<Rightarrow> tcpreplay \<Rightarrow> tcpreplay" where
  "after_send env opt ts pktlen skip_length c =
    (let c = (if \<not> do_not_timestamp opt \<and> skip_length = 0 then get_packet_timestamp env c else c);
         c = (if \<not> do_not_timestamp opt \<and> timercmp (c_last_time c) ts (<) then c\<lparr>c_last_time := ts\<rparr> else c)
     in c\<lparr>c_pkts_sent := c_pkts_sent c + 1, c_bytes_sent := c_bytes_sent c + ucast pktlen\<rparr>)"

definition print_stats :: "environment \<Rightarrow> tcpreplay_opt \<Rightarrow> bool \<Rightarrow> tcpreplay \<Rightarrow> tcpreplay" where
  "print_stats env opt set_end c =
    (let now = e_clock env (c_tick c); c = c\<lparr>c_tick := c_tick c + 1\<rparr>
     in if \<not> timerisset (c_last_print c) then c\<lparr>c_last_print := now\<rparr>
        else if tv_sec (timersub now (c_last_print c)) \<ge> o_stats opt then
          (if set_end then c\<lparr>c_end_time := now, c_last_print := now\<rparr> else c\<lparr>c_last_print := now\<rparr>)
        else c)"

text \<open>
  The body of the loop, for the packet with number \<open>packetnum\<close>.  Without a second interface the first one is used;
  with two, the decisions of \<^verbatim>\<open>tcpprep\<close> apply.
\<close>

definition send_one :: "environment \<Rightarrow> tcpreplay_opt \<Rightarrow> (flow_src \<Rightarrow> u32 \<Rightarrow> u32) \<Rightarrow> cm_experiment_setting \<Rightarrow> int \<Rightarrow> bool \<Rightarrow> u32 \<Rightarrow> u64 \<Rightarrow>
    u64 \<Rightarrow> pcap_packet \<Rightarrow> u64 \<Rightarrow> tcpreplay \<Rightarrow> (u64 \<times> tcpreplay) c_result" where
  "send_one env opt hb st datalink preload iteration start_us packetnum p skip_length c =
    c_bind (copy_packet p c) (\<lambda>(h, c).
    let total_pkt_len = sint (pkt_len (fst p));
        pktlen = (if o_use_pkthdr_len opt then pkt_len h else pkt_caplen h)
    in c_bind (if o_intf2 opt then cache_mode (Some Intf1) (Some Intf2) (o_cache_packets opt) (o_cachedata opt) packetnum
               else Inr (Some Intf1)) (\<lambda>sp.
       case sp of
         None \<Rightarrow> Inr (skip_length, c)
       | Some sp \<Rightarrow>
           c_bind (if o_unique_ip opt \<and> iteration \<noteq> 0 then
                     c_bind (fast_edit_packet (pkt_caplen h) (c_buffer c) iteration preload datalink) (\<lambda>b. Inr (c\<lparr>c_buffer := b\<rparr>))
                   else Inr c) (\<lambda>c.
           c_bind (if o_flow_stats opt \<and> \<not> preload then
                     count_for env opt (if o_cache_packets opt \<noteq> 0 then Some sp else None) h (c_buffer c) datalink c
                   else Inr c) (\<lambda>c.
           c_bind (pace env opt start_us (pkt_ts h) pktlen skip_length c) (\<lambda>(skip_length, c).
           c_bind (c_mem (cm_handle_ipv4_packet hb st (c_buffer c) total_pkt_len datalink (c_dw c))) (\<lambda>(b, dw).
           c_bind (put_on_wire env sp b pktlen (c\<lparr>c_buffer := b, c_dw := dw\<rparr>)) (\<lambda>c.
             let c = after_send env opt (pkt_ts h) pktlen skip_length c;
                 c = (if skip_length = 0 \<and> o_stats opt > 0 then print_stats env opt True c else c)
             in Inr (skip_length, c\<lparr>c_first_time := False\<rparr>))))))))"

function send_loop :: "environment \<Rightarrow> tcpreplay_opt \<Rightarrow> (flow_src \<Rightarrow> u32 \<Rightarrow> u32) \<Rightarrow> cm_experiment_setting \<Rightarrow> int \<Rightarrow> bool \<Rightarrow> u32 \<Rightarrow> u64 \<Rightarrow>
    u64 \<Rightarrow> u64 \<Rightarrow> source \<Rightarrow> tcpreplay \<Rightarrow> (source \<times> tcpreplay) c_result" where
  "send_loop env opt hb st datalink preload iteration start_us packetnum skip_length s c =
    c_bind (get_next_packet (o_preload_pcap opt) s) (\<lambda>(p, s).
      case p of
        None \<Rightarrow> Inr (s, c\<lparr>c_iteration := c_iteration c + 1\<rparr>)
      | Some p \<Rightarrow>
          if c_abort c then Inr (s, c)
          else if limit_reached opt c then Inr (s, c\<lparr>c_abort := True, c_iteration := c_iteration c + 1\<rparr>)
          else c_bind (send_one env opt hb st datalink preload iteration start_us (packetnum + 1) p skip_length c) (\<lambda>(skip_length, c).
            send_loop env opt hb st datalink preload iteration start_us (packetnum + 1) skip_length s c))"
  by pat_completeness auto
termination
  by (relation "measure (\<lambda>(_, opt, _, _, _, _, _, _, _, _, s, _). remaining (o_preload_pcap opt) s)") (auto dest: get_next_packet_less)

declare send_loop.simps [simp del]

definition send_packets :: "environment \<Rightarrow> tcpreplay_opt \<Rightarrow> (flow_src \<Rightarrow> u32 \<Rightarrow> u32) \<Rightarrow> cm_experiment_setting \<Rightarrow> pcap_packet list \<Rightarrow> file_cache \<Rightarrow>
    tcpreplay \<Rightarrow> (file_cache \<times> tcpreplay) c_result" where
  "send_packets env opt hb st pcap fc c =
    c_bind (send_loop env opt hb st (fc_dlt fc) (fc_cached fc) (c_iteration c) (TIMEVAL_TO_MICROSEC (c_start_time c)) 0 0
        \<lparr>s_pcap = pcap, s_cache = fc, s_prev = None\<rparr> c) (\<lambda>(s, c). Inr (s_cache s, c))"

section \<open>The source as a list\<close>

fun send_list :: "environment \<Rightarrow> tcpreplay_opt \<Rightarrow> (flow_src \<Rightarrow> u32 \<Rightarrow> u32) \<Rightarrow> cm_experiment_setting \<Rightarrow> int \<Rightarrow> bool \<Rightarrow> u32 \<Rightarrow> u64 \<Rightarrow>
    u64 \<Rightarrow> u64 \<Rightarrow> pcap_packet list \<Rightarrow> tcpreplay \<Rightarrow> tcpreplay c_result" where
  "send_list env opt hb st dl pre it start_us k skip [] c = Inr (c\<lparr>c_iteration := c_iteration c + 1\<rparr>)"
| "send_list env opt hb st dl pre it start_us k skip (p # ps) c =
    (if c_abort c then Inr c
     else if limit_reached opt c then Inr (c\<lparr>c_abort := True, c_iteration := c_iteration c + 1\<rparr>)
     else c_bind (send_one env opt hb st dl pre it start_us (k + 1) p skip c) (\<lambda>(skip, c).
       send_list env opt hb st dl pre it start_us (k + 1) skip ps c))"

text \<open>The packets that a source delivers, when it does not build the cache.\<close>

definition delivers :: "bool \<Rightarrow> source \<Rightarrow> pcap_packet list" where
  "delivers use_cache s =
    (if use_cache then drop (case s_prev s of None \<Rightarrow> 0 | Some i \<Rightarrow> i + 1) (fc_packets (s_cache s)) else s_pcap s)"

lemma get_next_delivers:
  assumes "u \<longrightarrow> fc_cached (s_cache s)"
  shows "(delivers u s = [] \<and> (\<exists>s'. get_next_packet u s = Inr (None, s') \<and> s_cache s' = s_cache s)) \<or>
    (\<exists>p ps s'. delivers u s = p # ps \<and> get_next_packet u s = Inr (Some p, s') \<and> delivers u s' = ps \<and> s_cache s' = s_cache s)"
proof (cases u)
  case True
  then show ?thesis using assms
    by (cases "(case s_prev s of None \<Rightarrow> 0 | Some i \<Rightarrow> i + 1) < length (fc_packets (s_cache s))")
      (auto simp: get_next_packet_def delivers_def Let_def Cons_nth_drop_Suc [symmetric] split: option.splits)
next
  case False
  then show ?thesis by (cases "s_pcap s") (auto simp: get_next_packet_def delivers_def pcap_next_def)
qed

lemma send_loop_list:
  assumes "o_preload_pcap opt \<longrightarrow> fc_cached (s_cache s)"
  shows "c_bind (send_loop env opt hb st dl pre it start_us k skip s c) (\<lambda>(s', c). Inr (s_cache s', c)) =
    c_bind (send_list env opt hb st dl pre it start_us k skip (delivers (o_preload_pcap opt) s) c) (\<lambda>c. Inr (s_cache s, c))"
  using assms
proof (induction "delivers (o_preload_pcap opt) s" arbitrary: s k skip c)
  case Nil
  then obtain s' where "get_next_packet (o_preload_pcap opt) s = Inr (None, s')" "s_cache s' = s_cache s"
    using get_next_delivers [OF Nil.prems] by fastforce
  with Nil.hyps show ?case by (simp add: send_loop.simps)
next
  case (Cons p ps)
  then obtain s' where s': "get_next_packet (o_preload_pcap opt) s = Inr (Some p, s')" "delivers (o_preload_pcap opt) s' = ps"
    "s_cache s' = s_cache s" using get_next_delivers [OF Cons.prems] by fastforce
  have IH: "c_bind (send_loop env opt hb st dl pre it start_us k skip s' c) (\<lambda>(s', c). Inr (s_cache s', c)) =
      c_bind (send_list env opt hb st dl pre it start_us k skip ps c) (\<lambda>c. Inr (s_cache s, c))" for k skip c
    using Cons.hyps(1) [of s'] Cons.prems s' by simp
  show ?case unfolding Cons.hyps(2) [symmetric] send_loop.simps [of _ _ _ _ _ _ _ _ _ _ s] s'(1)
    by (cases "send_one env opt hb st dl pre it start_us (k + 1) p skip c") (auto simp: s'(3) IH)
qed

lemma send_packets_list:
  assumes "o_preload_pcap opt \<longrightarrow> fc_cached fc"
  shows "send_packets env opt hb st pcap fc c =
    c_bind (send_list env opt hb st (fc_dlt fc) (fc_cached fc) (c_iteration c) (TIMEVAL_TO_MICROSEC (c_start_time c)) 0 0
      (if o_preload_pcap opt then fc_packets fc else pcap) c) (\<lambda>c. Inr (fc, c))"
  using send_loop_list [of opt "\<lparr>s_pcap = pcap, s_cache = fc, s_prev = None\<rparr>"] assms
  by (simp add: send_packets_def delivers_def)

section \<open>Preloading\<close>

definition cached_copy :: "pcap_packet \<Rightarrow> pcap_packet" where
  "cached_copy p = (fst p, take (unat (pkt_len (fst p))) (snd p))"

lemma preload_loop_cache:
  assumes "preload_loop env opt dlt s c = Inr (s', c')" "o_preload_pcap opt" "\<not> fc_cached (s_cache s)"
    "s_prev s = (if fc_packets (s_cache s) = [] then None else Some (length (fc_packets (s_cache s)) - 1))"
  shows "fc_packets (s_cache s') = fc_packets (s_cache s) @ map cached_copy (s_pcap s) \<and>
    (\<forall>(h, d) \<in> set (s_pcap s). unat (pkt_len h) \<le> length d)"
  using assms
proof (induction "s_pcap s" arbitrary: s c)
  case Nil
  then show ?case by (subst (asm) preload_loop.simps) (auto simp: get_next_packet_def pcap_next_def)
next
  case (Cons p ps)
  obtain h d where p: "p = (h, d)" by (cases p)
  note eq = Cons.prems(1) [unfolded preload_loop.simps [of _ _ _ s]]
  have len: "unat (pkt_len h) \<le> length d"
    using eq Cons.prems(2,3) Cons.hyps(2) [symmetric] p by (auto simp: get_next_packet_def pcap_next_def split: if_splits)
  define s1 where "s1 = s\<lparr>s_pcap := ps, s_cache := (s_cache s)\<lparr>fc_packets := fc_packets (s_cache s) @ [cached_copy p]\<rparr>,
    s_prev := Some (length (fc_packets (s_cache s)))\<rparr>"
  have "get_next_packet True s = Inr (Some p, s1)"
    using Cons.prems(3,4) Cons.hyps(2) [symmetric] p len
    by (cases "fc_packets (s_cache s) = []") (simp_all add: get_next_packet_def pcap_next_def s1_def cached_copy_def Let_def)
  with eq Cons.prems(2) p obtain c1 where "preload_loop env opt dlt s1 c1 = Inr (s', c')"
    by (auto simp: c_bind_Inr)
  from Cons.hyps(1) [OF _ this Cons.prems(2)] Cons.prems(3) have
    "fc_packets (s_cache s') = fc_packets (s_cache s1) @ map cached_copy ps \<and> (\<forall>(h, d) \<in> set ps. unat (pkt_len h) \<le> length d)"
    by (simp add: s1_def)
  with p len show ?case unfolding Cons.hyps(2) [symmetric] by (simp add: s1_def)
qed

lemma preload_file_cache:
  assumes "preload_pcap_file env opt (Some (dlt, ps)) fc c = Inr (fc', c')" "o_preload_pcap opt" "\<not> fc_cached fc" "fc_packets fc = []"
  shows "fc_cached fc'" "fc_dlt fc' = dlt" "fc_packets fc' = map cached_copy ps" "\<forall>(h, d) \<in> set ps. unat (pkt_len h) \<le> length d"
  using assms(1) preload_loop_cache [of env opt dlt "\<lparr>s_pcap = ps, s_cache = fc, s_prev = None\<rparr>" c] assms(2-4)
  by (auto simp: preload_pcap_file_def c_bind_Inr)

text \<open>The options without preloading and flow statistics.\<close>

definition plain :: "tcpreplay_opt \<Rightarrow> tcpreplay_opt" where
  "plain opt = opt\<lparr>o_preload_pcap := False, o_flow_stats := False\<rparr>"

lemma plain_fields [simp]:
  "o_speed (plain opt) = o_speed opt" "o_stats (plain opt) = o_stats opt" "o_limit_send (plain opt) = o_limit_send opt"
  "o_unique_ip (plain opt) = o_unique_ip opt" "o_intf2 (plain opt) = o_intf2 opt" "\<not> o_flow_stats (plain opt)"
  "o_use_pkthdr_len (plain opt) = o_use_pkthdr_len opt" "o_cache_packets (plain opt) = o_cache_packets opt"
  "o_cachedata (plain opt) = o_cachedata opt" "o_maxsleep (plain opt) = o_maxsleep opt" "o_accurate (plain opt) = o_accurate opt"
  "\<not> o_preload_pcap (plain opt)"
  by (simp_all add: plain_def)

lemma plain_pace [simp]:
  "do_not_timestamp (plain opt) = do_not_timestamp opt" "run_sleep env (plain opt) = run_sleep env opt"
  "limit_reached (plain opt) = limit_reached opt" "after_send env (plain opt) = after_send env opt"
  "print_stats env (plain opt) = print_stats env opt"
  unfolding fun_eq_iff limit_reached_def do_not_timestamp_def run_sleep_def after_send_def print_stats_def plain_fields by simp_all

lemma plain_pace' [simp]: "pace env (plain opt) = pace env opt"
  unfolding fun_eq_iff pace_def plain_fields plain_pace by simp

lemma send_one_cached:
  assumes "\<not> (o_unique_ip opt \<and> it \<noteq> 0)" "pkt_caplen (fst p) \<le> pkt_len (fst p)" "unat (pkt_len (fst p)) \<le> length (snd p)"
  shows "send_one env opt hb st dl True it start_us k (cached_copy p) skip c = send_one env (plain opt) hb st dl False it start_us k p skip c"
proof -
  have l: "unat (pkt_caplen (fst p)) \<le> unat (pkt_len (fst p))" using assms(2) by (simp add: word_le_nat_alt)
  then have "copy_packet (cached_copy p) c = copy_packet p c"
    using assms(3) by (simp add: copy_packet_def cached_copy_def case_prod_beta min_def Let_def)
  moreover have "fst (cached_copy p) = fst p" by (simp add: cached_copy_def)
  moreover have "(o_unique_ip opt \<and> it \<noteq> 0) = False" "(o_flow_stats opt \<and> \<not> True) = False" "(o_flow_stats (plain opt) \<and> \<not> False) = False"
    using assms(1) by simp_all
  ultimately show ?thesis unfolding send_one_def plain_pace plain_pace' by (simp only: plain_fields if_False)
qed

lemma send_list_cached:
  assumes "\<not> (o_unique_ip opt \<and> it \<noteq> 0)" "\<forall>p \<in> set ps. pkt_caplen (fst p) \<le> pkt_len (fst p) \<and> unat (pkt_len (fst p)) \<le> length (snd p)"
  shows "send_list env opt hb st dl True it start_us k skip (map cached_copy ps) c = send_list env (plain opt) hb st dl False it start_us k skip ps c"
  using assms(2)
proof (induction ps arbitrary: k skip c)
  case (Cons p ps)
  have "send_list env opt hb st dl True it start_us k skip (map cached_copy ps) c = send_list env (plain opt) hb st dl False it start_us k skip ps c"
    for k skip c using Cons by simp
  then show ?case using send_one_cached [OF assms(1), of p] Cons.prems
    by (cases "send_one env (plain opt) hb st dl False it start_us (k + 1) p skip c") auto
qed simp

section \<open>Sending a whole trace\<close>

text \<open>The bytes the handler gets for a packet of the trace.\<close>

definition frame_of :: "pcap_packet \<Rightarrow> u8 list" where
  "frame_of p = take (unat (pkt_caplen (fst p))) (snd p) @ bytes_of_32 (pkt_len (fst p))"

text \<open>The frames that go out and the data warehouse at the end, if every packet is handled without a fault.\<close>

fun handled :: "(flow_src \<Rightarrow> u32 \<Rightarrow> u32) \<Rightarrow> cm_experiment_setting \<Rightarrow> int \<Rightarrow> data_warehouse \<Rightarrow> pcap_packet list \<Rightarrow>
    (u8 list list \<times> data_warehouse) option" where
  "handled hb st dl dw [] = Some ([], dw)"
| "handled hb st dl dw (p # ps) =
    (case cm_handle_ipv4_packet hb st (frame_of p) (sint (pkt_len (fst p))) dl dw of
       None \<Rightarrow> None
     | Some (b, dw) \<Rightarrow> (case handled hb st dl dw ps of None \<Rightarrow> None | Some (bs, dw) \<Rightarrow> Some (b # bs, dw)))"

lemma ld_append:
  "ld8 b i = Some v \<Longrightarrow> ld8 (b @ r) i = Some v" "ld16 b i = Some w \<Longrightarrow> ld16 (b @ r) i = Some w" "ld32 b i = Some x \<Longrightarrow> ld32 (b @ r) i = Some x"
proof -
  show "ld8 b i = Some v \<Longrightarrow> ld8 (b @ r) i = Some v" for i v by (auto simp: ld8_def nth_append split: if_splits)
  show 2: "ld16 b i = Some w \<Longrightarrow> ld16 (b @ r) i = Some w" for i w by (auto simp: ld16_Some nth_append)
  show "ld32 b i = Some x \<Longrightarrow> ld32 (b @ r) i = Some x" using 2 by (auto simp: ld32_Some)
qed

lemma st16_append: "st16 b i w = Some b' \<Longrightarrow> st16 (b @ r) i w = Some (b' @ r) \<and> length b' = length b"
  by (auto simp: st16_def list_update_append split: if_splits)

lemma l2_start_append: "l2_start b dl = Some l \<Longrightarrow> l2_start (b @ r) dl = Some l"
  by (auto simp: l2_start_def ld_append split: if_splits bind_splits)

lemma skip_vlan_append: "skip_vlan b t l = Some x \<Longrightarrow> skip_vlan (b @ r) t l = Some x"
proof (induction b t l rule: skip_vlan.induct)
  case (1 b t l)
  then show ?case
    by (cases "ld16 b (l + 16)") (auto simp: skip_vlan.simps [of b] skip_vlan.simps [of "b @ r"] ld_append split: if_splits)
qed

lemma parse_append: "parse_ipv4 b n dl = Some x \<Longrightarrow> parse_ipv4 (b @ r) n dl = Some x"
  by (auto simp: parse_ipv4_def Let_def ld_append l2_start_append skip_vlan_append split: bind_splits if_splits)

lemma update_tag_append:
  assumes "update_tag b dl f = Some b'"
  shows "update_tag (b @ r) dl f = Some (b' @ r) \<and> length b' = length b"
  using assms st16_append [of b]
  by (auto simp: update_tag_def is_vlan_frame_def ld_append l2_start_append split: bind_splits if_splits)

lemma handle_task_append:
  assumes "handle_task hb st t pk n dl b dw = Some (b', dw')"
  shows "handle_task hb st t pk n dl (b @ r) dw = Some (b' @ r, dw') \<and> length b' = length b"
proof -
  define T where "T = (\<lambda>x. tag_packet_for_switches x dl (monitor_switch_ids t) (num_monitors t))"
  define F where "F = (\<lambda>x. if host_or_switch_sample st = HOST_SAMPLE then
      let (sampled, dw) = host_sample hb st pk n dw
      in if sampled \<noteq> 0 then do {
           x \<leftarrow> tag_packet_as_sampled x dl;
           Some (x, update_flow_not_sampled_volume hb (packet_flow_src pk) dw)
         } else Some (x, dw)
    else Some (x, dw))"
  define G where "G = (\<lambda>x dw. let selected_level = ht_kfs_vi_get hb (data_warehouse_get_flow_selected_level_map dw) (packet_flow_src pk)
     in if host_or_switch_sample st = HOST_SAMPLE \<and> inject_or_tag_packet st = TAG_PKT_AS_CONDITION \<and> selected_level > 0 then do {
       x \<leftarrow> tag_selected_flow_level_in_normal_packet x dl selected_level;
       Some (x, dw)
     } else Some (x, dw))"
  have eq: "handle_task hb st t pk n dl x dw = T x \<bind> (\<lambda>x. F x \<bind> (\<lambda>(x, dw). G x dw))" for x
    unfolding handle_task_def T_def F_def G_def Let_def by (rule refl)
  have T: "T (x @ r) = Some (y @ r) \<and> length y = length x" if "T x = Some y" for x y
    using update_tag_append that by (simp add: T_def tag_packet_for_switches_def)
  have F: "F (x @ r) = Some (y @ r, d) \<and> length y = length x" if "F x = Some (y, d)" for x y d
    using that update_tag_append [of x dl] by (auto simp: F_def tag_packet_as_sampled_def split: bind_splits if_splits prod.splits)
  have G: "G (x @ r) e = Some (y @ r, d) \<and> length y = length x" if "G x e = Some (y, d)" for x y d e
    using that update_tag_append [of x dl] by (auto simp: G_def tag_selected_flow_level_in_normal_packet_def Let_def split: bind_splits if_splits)
  from assms obtain x y d where "T b = Some x" "F x = Some (y, d)" "G y d = Some (b', dw')" unfolding eq by (auto split: bind_splits)
  with T F G show ?thesis unfolding eq by fastforce
qed

lemma handle_append:
  assumes "cm_handle_ipv4_packet hb st b n dl dw = Some (b', dw')"
  shows "cm_handle_ipv4_packet hb st (b @ r) n dl dw = Some (b' @ r, dw') \<and> length b' = length b"
proof (cases "word_of_int n < TCPR_IPV4_H")
  case False
  then obtain x where x: "parse_ipv4 b n dl = Some x" using assms by (auto simp: cm_handle_ipv4_packet_def split: bind_splits)
  show ?thesis
  proof (cases x)
    case (Some q)
    obtain pk seqid where q: "q = (pk, seqid)" by (cases q)
    define dw1 where "dw1 = dw\<lparr>dw_flow_recePktList_map :=
      ht_vl_set (data_warehouse_get_flow_recePktList_map dw) (packet_flow pk) seqid (ucast (p_len pk))\<rparr>"
    define H where "H = (\<lambda>b. case get_task_of_traffic (dw_task_manager dw1) (packet_flow_src pk) of
        None \<Rightarrow> Some (b, dw1) | Some p_task \<Rightarrow> handle_task hb st p_task pk n dl b dw1)"
    have H: "H (b @ r) = Some (y @ r, d) \<and> length y = length b" if "H b = Some (y, d)" for y d
      using that handle_task_append by (auto simp: H_def split: option.splits)
    have eq: "cm_handle_ipv4_packet hb st y n dl dw = H y \<bind> (\<lambda>(y, d). Some (y, count_packet pk (update_flow_normal_volume hb st (packet_flow_src pk) n d)))"
      if "parse_ipv4 y n dl = Some x" for y
      using False that unfolding cm_handle_ipv4_packet_def H_def dw1_def Let_def by (simp add: Some q)
    from assms obtain y d where "H b = Some (y, d)" unfolding eq [OF x] by (auto split: bind_splits)
    with H assms show ?thesis unfolding eq [OF x] eq [OF parse_append [OF x]] by fastforce
  qed (use False assms x parse_append [OF x] in \<open>simp add: cm_handle_ipv4_packet_def\<close>)
qed (use assms in \<open>simp add: cm_handle_ipv4_packet_def\<close>)

section \<open>What a pass changes\<close>

text \<open>
  Speed modes and sleep methods that neither ask the user nor end the program; for the busy wait the clock has to go on.
\<close>

definition running :: "(nat \<Rightarrow> timeval) \<Rightarrow> bool" where
  "running clock \<longleftrightarrow> (\<forall>k t. \<exists>m. t < tv_sec (clock (k + m)))"

definition unattended :: "environment \<Rightarrow> tcpreplay_opt \<Rightarrow> bool" where
  "unattended env opt \<longleftrightarrow>
    (sp_mode (o_speed opt) \<in> {speed_multiplier, speed_mbpsrate, speed_topspeed} \<or>
      sp_mode (o_speed opt) = speed_packetrate \<and> sp_speed (o_speed opt) \<noteq> 0) \<and>
    (o_accurate opt \<in> {accurate_select, accurate_nanosleep} \<or> o_accurate opt = accurate_gtod \<and> running (e_clock env))"

lemma gettimeofday_sleep_returns: "running clock \<Longrightarrow> \<exists>j. gettimeofday_sleep clock k nap = Some j"
proof -
  assume r: "running clock"
  have "\<exists>j. wait_until clock u k' = Some j" for u k'
  proof -
    from r obtain m where "tv_sec u < tv_sec (clock (k' + m))" by (auto simp: running_def)
    then have "\<not> timercmp (clock (k' + m)) u (<)" by (simp add: timercmp_def)
    from wait_until_returns [of clock k' m u, OF this] show ?thesis by blast
  qed
  then show ?thesis by (simp add: gettimeofday_sleep_def Let_def)
qed

lemma run_sleep_ok:
  assumes "unattended env opt"
  shows "\<exists>nap t. run_sleep env opt c = Inr (c\<lparr>c_nap := nap, c_tick := t\<rparr>)"
proof (cases "timesisset (c_nap c)")
  case True
  with assms obtain nap how where s: "tcpr_sleep (o_maxsleep opt) (c_nap c) (o_accurate opt) = Inr (nap, how)"
    "(\<exists>t. how = Busy_wait t) \<longrightarrow> running (e_clock env)" by (auto simp: tcpr_sleep_def unattended_def Let_def)
  show ?thesis
  proof (cases how)
    case (Busy_wait t)
    with s(2) gettimeofday_sleep_returns [of "e_clock env" "c_tick c" t] obtain j where "gettimeofday_sleep (e_clock env) (c_tick c) t = Some j" by auto
    with True s(1) Busy_wait show ?thesis by (intro exI [of _ nap] exI [of _ j]) (simp add: run_sleep_def)
  qed (use True s(1) in \<open>intro exI [of _ nap] exI [of _ "c_tick c"], simp add: run_sleep_def\<close>)+
next
  case False
  then show ?thesis by (intro exI [of _ "c_nap c"] exI [of _ "c_tick c"]) (simp add: run_sleep_def)
qed

lemma calc_sleep_ok:
  assumes "unattended env opt" "\<not> do_not_timestamp opt"
  shows "\<exists>s'. calc_sleep_time (o_speed opt) ft bs ts lt n line et us s = Inr s'"
proof -
  have "\<not> isl (calc_sleep_time (o_speed opt) ft bs ts lt n line et us s)"
  proof (cases "sp_mode (o_speed opt)")
    case speed_multiplier
    then show ?thesis by (simp add: calc_sleep_time_def Let_def)
  next
    case speed_mbpsrate
    then show ?thesis using assms(2) by (simp add: calc_sleep_time_def do_not_timestamp_def Let_def)
  next
    case speed_packetrate
    then show ?thesis using assms(1) by (simp add: calc_sleep_time_def unattended_def Let_def)
  qed (use assms in \<open>simp_all add: unattended_def do_not_timestamp_def\<close>)
  then show ?thesis by (cases "calc_sleep_time (o_speed opt) ft bs ts lt n line et us s") simp_all
qed

lemma pace_ok:
  assumes "unattended env opt"
  shows "\<exists>skip' n k t e. pace env opt start_us ts pktlen skip c = Inr (skip', c\<lparr>c_nap := n, c_skip_packets := k, c_tick := t, c_end_time := e\<rparr>)"
proof -
  have same: "c = c\<lparr>c_nap := c_nap c, c_skip_packets := c_skip_packets c, c_tick := c_tick c, c_end_time := c_end_time c\<rparr>" by simp
  define c1 where "c1 = (if skip \<noteq> 0 then get_packet_timestamp env c else c)"
  have c1: "\<exists>t e. c1 = c\<lparr>c_tick := t, c_end_time := e\<rparr>"
  proof (cases "skip = 0")
    case True
    then show ?thesis by (intro exI [of _ "c_tick c"] exI [of _ "c_end_time c"]) (simp add: c1_def)
  next
    case False
    then show ?thesis by (intro exI [of _ "Suc (c_tick c)"] exI [of _ "e_clock env (c_tick c)"]) (simp add: c1_def get_packet_timestamp_def)
  qed
  show ?thesis
  proof (cases "do_not_timestamp opt \<or> (skip \<noteq> 0 \<and> ucast pktlen < skip \<and> \<not> (o_limit_send opt > 0 \<and> c_pkts_sent c + skip \<ge> o_limit_send opt))")
    case True
    then have "\<exists>skip'. pace env opt start_us ts pktlen skip c = Inr (skip', c)" by (auto simp: pace_def)
    with same show ?thesis by metis
  next
    case False
    then have "\<not> do_not_timestamp opt" by blast
    then obtain ss where ss: "calc_sleep_time (o_speed opt) (c_first_time c1) (c_bytes_sent c1) ts (c_last_time c1) pktlen (e_line env (c_tick c1))
        (c_end_time c1) start_us \<lparr>ss_nap = c_nap c1, ss_skip_packets = c_skip_packets c1, ss_skip_length = 0\<rparr> = Inr ss"
      using calc_sleep_ok [OF assms, of "c_first_time c1" "c_bytes_sent c1"] by metis
    from run_sleep_ok [OF assms, of "c1\<lparr>c_nap := ss_nap ss, c_skip_packets := ss_skip_packets ss, c_tick := c_tick c1 + 1\<rparr>"] obtain nap k where
      "run_sleep env opt (c1\<lparr>c_nap := ss_nap ss, c_skip_packets := ss_skip_packets ss, c_tick := c_tick c1 + 1\<rparr>) =
        Inr (c1\<lparr>c_skip_packets := ss_skip_packets ss, c_nap := nap, c_tick := k\<rparr>)" by auto
    with ss False have "pace env opt start_us ts pktlen skip c = Inr (ss_skip_length ss, c1\<lparr>c_skip_packets := ss_skip_packets ss, c_nap := nap, c_tick := k\<rparr>)"
      unfolding pace_def c1_def [symmetric] by (simp only: if_False Let_def c_bind_simps de_Morgan_disj simp_thms)
    moreover from c1 obtain t e where "c1 = c\<lparr>c_tick := t, c_end_time := e\<rparr>" by blast
    ultimately show ?thesis
      by (intro exI [of _ "ss_skip_length ss"] exI [of _ nap] exI [of _ "ss_skip_packets ss"] exI [of _ k] exI [of _ e]) simp
  qed
qed

text \<open>The kernel takes the packet in the end.\<close>

definition prompt :: "send_answer list \<Rightarrow> bool" where
  "prompt as \<longleftrightarrow> (\<exists>rs n rest. as = rs @ Sent n # rest \<and> set rs \<subseteq> {Again, No_buffers} \<and> PKT_BUFFER_SIZE \<le> n)"

lemma try_send_ok:
  assumes "set rs \<subseteq> {Again, No_buffers}" "len \<le> n" "\<not> sp_abort sp"
  shows "\<exists>x y z. try_send len (rs @ Sent n # rest) sp = Inr (int len, sp\<lparr>sp_attempt := x, sp_retry_eagain := y, sp_retry_enobufs := z\<rparr>)"
  using assms
proof (induction rs arbitrary: sp)
  case Nil
  then show ?case by (intro exI [of _ "sp_attempt sp + 1"] exI [of _ "sp_retry_eagain sp"] exI [of _ "sp_retry_enobufs sp"]) simp
next
  case (Cons r rs)
  from Cons.IH [of "sp\<lparr>sp_attempt := sp_attempt sp + 1, sp_retry_eagain := sp_retry_eagain sp + 1\<rparr>"]
    Cons.IH [of "sp\<lparr>sp_attempt := sp_attempt sp + 1, sp_retry_enobufs := sp_retry_enobufs sp + 1\<rparr>"] Cons.prems
  show ?case by (cases r) (fastforce simp: Let_def)+
qed

lemma sendpacket_ok:
  assumes "prompt as" "0 < len" "len \<le> PKT_BUFFER_SIZE" "\<not> sp_abort sp"
  shows "\<exists>sp'. sendpacket as len sp = Inr (int len, sp') \<and> sp_sent sp' = sp_sent sp + 1 \<and> sp_bytes_sent sp' = sp_bytes_sent sp + of_nat len \<and> \<not> sp_abort sp'"
proof -
  from assms(1) obtain rs n rest where p: "as = rs @ Sent n # rest" "set rs \<subseteq> {Again, No_buffers}" "PKT_BUFFER_SIZE \<le> n" by (auto simp: prompt_def)
  from try_send_ok [OF p(2) _ assms(4), of len n rest] p(1,3) assms(3) obtain x y z where
    "try_send len as sp = Inr (int len, sp\<lparr>sp_attempt := x, sp_retry_eagain := y, sp_retry_enobufs := z\<rparr>)" by fastforce
  with assms(2,4) show ?thesis by (simp add: sendpacket_def)
qed

text \<open>
  What holds between two packets: the buffer has its size, the flow table is well-formed, nobody has asked to stop.
\<close>

definition ready :: "tcpreplay \<Rightarrow> bool" where
  "ready c \<longleftrightarrow> length (c_buffer c) = PKT_BUFFER_SIZE \<and> flow_table_inv (c_flow_table c) \<and> \<not> sp_abort (c_intf c Intf1) \<and> \<not> c_abort c"

text \<open>From \<open>c\<close> to \<open>c'\<close> the frames \<open>fs\<close> have gone out on the first interface.\<close>

definition progress :: "u8 list list \<Rightarrow> tcpreplay \<Rightarrow> tcpreplay \<Rightarrow> bool" where
  "progress fs c c' \<longleftrightarrow>
    c_wire c' = c_wire c @ map (\<lambda>f. (Intf1, f)) fs \<and>
    c_pkts_sent c' = c_pkts_sent c + of_nat (length fs) \<and>
    c_bytes_sent c' = c_bytes_sent c + of_nat (length (concat fs)) \<and>
    sp_sent (c_intf c' Intf1) = sp_sent (c_intf c Intf1) + of_nat (length fs) \<and>
    sp_bytes_sent (c_intf c' Intf1) = sp_bytes_sent (c_intf c Intf1) + of_nat (length (concat fs)) \<and>
    c_iteration c' = c_iteration c"

lemma progress_refl: "progress [] c c"
  by (simp add: progress_def)

lemma progress_trans: "progress fs c c' \<Longrightarrow> progress gs c' c'' \<Longrightarrow> progress (fs @ gs) c c''"
  by (auto simp: progress_def)

lemma count_for_ok:
  assumes "flow_table_inv (c_flow_table c)" "decode_entry b dl \<noteq> None"
  shows "\<exists>ft fs t ci. count_for env opt sp h b dl c = Inr (c\<lparr>c_flow_table := ft, c_flow_stats := fs, c_tick := t, c_intf := ci\<rparr>) \<and>
    flow_table_inv ft \<and> (\<forall>i. \<exists>f. ci i = (c_intf c i)\<lparr>sp_flow := f\<rparr>)"
proof -
  have "\<exists>res fht'. flow_decode mem (Some (c_flow_table c)) h b dl ex = Inr (res, fht') \<and> flow_table_inv fht'" for mem ex
  proof -
    from assms(2) obtain r where r: "decode_entry b dl = Some r" by auto
    show ?thesis
    proof (cases r)
      case (Inr d)
      with hash_put_refines [OF assms(1) decode_entry_wf, of b dl d] r show ?thesis by (fastforce simp: flow_decode_def)
    qed (use r assms(1) in \<open>simp add: flow_decode_def\<close>)
  qed
  then obtain res fht' where f: "flow_decode (e_malloc env (c_tick c)) (Some (c_flow_table c)) h b dl (o_flow_expiry opt) = Inr (res, fht')"
    "flow_table_inv fht'" by blast
  have id: "\<exists>f. x = x\<lparr>sp_flow := f\<rparr>" for x :: sendpacket_t by (rule exI [of _ "sp_flow x"]) simp
  show ?thesis
  proof (cases sp)
    case None
    with f id show ?thesis
      by (intro exI [of _ fht'] exI [of _ "count_flow res (c_flow_stats c)"] exI [of _ "Suc (c_tick c)"] exI [of _ "c_intf c"])
        (simp add: count_for_def update_flow_stats_def)
  next
    case (Some j)
    let ?ci = "(c_intf c)(j := (c_intf c j)\<lparr>sp_flow := count_flow res (sp_flow (c_intf c j))\<rparr>)"
    have "\<exists>f. ?ci i = (c_intf c i)\<lparr>sp_flow := f\<rparr>" for i using id by (cases "i = j") auto
    with f Some show ?thesis
      by (intro exI [of _ fht'] exI [of _ "count_flow res (c_flow_stats c)"] exI [of _ "Suc (c_tick c)"] exI [of _ ?ci])
        (simp add: count_for_def update_flow_stats_def)
  qed
qed

lemma count_if_ok:
  assumes "flow_table_inv (c_flow_table c)" "decode_entry b dl \<noteq> None"
  shows "\<exists>ft fs t ci. (if P then count_for env opt sp h b dl c else Inr c) = Inr (c\<lparr>c_flow_table := ft, c_flow_stats := fs, c_tick := t, c_intf := ci\<rparr>) \<and>
    flow_table_inv ft \<and> (\<forall>i. \<exists>f. ci i = (c_intf c i)\<lparr>sp_flow := f\<rparr>)"
proof (cases P)
  case True
  with count_for_ok [OF assms] show ?thesis by simp
next
  case False
  have "\<exists>f. c_intf c i = (c_intf c i)\<lparr>sp_flow := f\<rparr>" for i by (rule exI [of _ "sp_flow (c_intf c i)"]) simp
  with False assms(1) show ?thesis
    by (intro exI [of _ "c_flow_table c"] exI [of _ "c_flow_stats c"] exI [of _ "c_tick c"] exI [of _ "c_intf c"]) simp
qed

text \<open>The header of an Ethernet frame within the buffer can always be decoded to a flow.\<close>

lemma flow_vlan_skip:
  assumes "skip_vlan b t l = Some (ty, l')"
  shows "\<exists>v. flow_vlan b t l v0 = Some (v, ty, l')"
  using assms
proof (induction b t l arbitrary: v0 rule: skip_vlan.induct)
  case (1 b t l)
  show ?case
  proof (cases "t = ETHERTYPE_VLAN")
    case True
    with 1(2) [unfolded skip_vlan.simps [of b t l]] obtain w where w: "ld16 b (l + 16) = Some w" "skip_vlan b (ntohs w) (l + 4) = Some (ty, l')"
      by (auto split: option.splits)
    have "l + 15 < length b" using w(1) by (simp add: ld16_Some)
    then have "ld16 b (l + 14) = Some (pack16 (b ! (l + 14)) (b ! (l + 15)))" by (simp add: ld16_Some add.commute)
    with True w 1(1) [OF True w(1) w(2)] show ?thesis unfolding flow_vlan.simps [of b t l] by simp
  next
    case False
    with 1(2) [unfolded skip_vlan.simps [of b t l]] show ?thesis unfolding flow_vlan.simps [of b t l] by simp
  qed
qed

lemma decode_l3_l4:
  assumes "l2 + 2200 \<le> length b"
  shows "\<exists>r. decode_l3 b ty l2 = Some r \<and> (\<forall>src dst p n. r = Some (src, dst, p, n) \<longrightarrow> decode_l4 b p (n + l2) \<noteq> None)"
proof -
  have l8: "i < length b \<Longrightarrow> ld8 b i = Some (b ! i)" for i by (simp add: ld8_def)
  have l16: "i + 1 < length b \<Longrightarrow> ld16 b i = Some (pack16 (b ! i) (b ! (i + 1)))" for i by (simp add: ld16_Some)
  have lb: "i + n \<le> length b \<Longrightarrow> ld_bytes b i n = Some (take n (drop i b))" for i n by (simp add: ld_bytes_def)
  have l4: "decode_l4 b p (n + l2) \<noteq> None" if "n \<le> 2100" for p n
    using that assms by (auto simp: decode_l4_def l8 l16 split: bind_splits)
  have h: "unat (v AND 15 :: u8) * 4 \<le> 2100" for v :: u8
    using word_and_le1 [of v 15] by (simp add: word_le_nat_alt)
  have e: "40 + (unat (v :: u8) + 1) * 8 \<le> 2100" for v using unsigned_less [where 'a = nat, of v] by simp
  have "ld8 b 0 = Some (b ! 0)" using assms by (intro l8) auto
  then show ?thesis using assms h e l4 by (auto simp: decode_l3_def l8 lb split: bind_splits)
qed

lemma decode_buffer:
  assumes "ld16 b 12 = Some t" "skip_vlan b (ntohs t) 0 = Some (ty, l)" "l + 2214 \<le> length b"
  shows "decode_entry b DLT_EN10MB \<noteq> None"
proof -
  obtain v where v: "flow_vlan b (ntohs t) 0 0 = Some (v, ty, l)" using flow_vlan_skip [OF assms(2)] by blast
  have "decode_l2 b DLT_EN10MB = Some (Some (v, ty, l + 14))"
    using assms(1) v by (simp add: decode_l2_def dlt_defs DLT_JUNIPER_ETHER_def l2_start_def)
  moreover obtain r where "decode_l3 b ty (l + 14) = Some r" "\<forall>src dst p n. r = Some (src, dst, p, n) \<longrightarrow> decode_l4 b p (n + (l + 14)) \<noteq> None"
    using decode_l3_l4 [of "l + 14" b ty] assms(3) by auto
  ultimately show ?thesis by (cases r) (auto simp: decode_entry_def split: prod.splits bind_splits)
qed

text \<open>A packet of the trace that fits the buffer, and options for one interface.\<close>

definition fits :: "pcap_packet \<Rightarrow> bool" where
  "fits p \<longleftrightarrow> unat (pkt_caplen (fst p)) \<le> length (snd p) \<and> unat (pkt_caplen (fst p)) \<le> 10000 \<and>
    (\<exists>t ty l. ld16 (frame_of p) 12 = Some t \<and> skip_vlan (frame_of p) (ntohs t) 0 = Some (ty, l) \<and> l \<le> 10000)"

lemma copy_packet_ok:
  assumes "fits p" "ready c"
  shows "copy_packet p c = Inr ((fst p)\<lparr>pkt_caplen := pkt_caplen (fst p) + 4, pkt_len := pkt_caplen (fst p) + 4\<rparr>,
      c\<lparr>c_buffer := frame_of p @ drop (unat (pkt_caplen (fst p)) + 4) (c_buffer c)\<rparr>)"
    "unat (pkt_caplen (fst p) + 4) = length (frame_of p)" "length (frame_of p) = unat (pkt_caplen (fst p)) + 4"
  using assms by (simp_all add: copy_packet_def fits_def ready_def frame_of_def PKT_BUFFER_SIZE_def case_prod_beta unat_word_ariths Let_def)

lemma put_on_wire_ok:
  assumes "prompt (e_answers env (c_tick c))" "0 < unat n" "unat n \<le> length b" "unat n \<le> PKT_BUFFER_SIZE" "\<not> sp_abort (c_intf c i)"
  shows "\<exists>sp. put_on_wire env i b n c = Inr (c\<lparr>c_intf := (c_intf c)(i := sp), c_tick := c_tick c + 1,
      c_wire := c_wire c @ [(i, take (unat n) b)]\<rparr>) \<and>
    sp_sent sp = sp_sent (c_intf c i) + 1 \<and> sp_bytes_sent sp = sp_bytes_sent (c_intf c i) + ucast n \<and> \<not> sp_abort sp"
proof -
  from sendpacket_ok [OF assms(1,2,4,5)] obtain sp where "sendpacket (e_answers env (c_tick c)) (unat n) (c_intf c i) = Inr (int (unat n), sp)"
    "sp_sent sp = sp_sent (c_intf c i) + 1" "sp_bytes_sent sp = sp_bytes_sent (c_intf c i) + of_nat (unat n)" "\<not> sp_abort sp" by blast
  moreover have "of_nat (unat n) = (ucast n :: u64)" by simp
  ultimately show ?thesis using assms(3) by (intro exI [of _ sp]) (simp add: put_on_wire_def not_less)
qed

lemma after_send_ok:
  "\<exists>e l t. after_send env opt ts n skip c = c\<lparr>c_end_time := e, c_last_time := l, c_tick := t, c_pkts_sent := c_pkts_sent c + 1,
    c_bytes_sent := c_bytes_sent c + ucast n\<rparr>"
proof -
  define c1 where "c1 = (if \<not> do_not_timestamp opt \<and> skip = 0 then get_packet_timestamp env c else c)"
  define c2 where "c2 = (if \<not> do_not_timestamp opt \<and> timercmp (c_last_time c1) ts (<) then c1\<lparr>c_last_time := ts\<rparr> else c1)"
  have "c1 = c\<lparr>c_end_time := c_end_time c1, c_tick := c_tick c1\<rparr>" by (simp add: c1_def get_packet_timestamp_def)
  moreover have "c2 = c1\<lparr>c_last_time := c_last_time c2\<rparr>" by (simp add: c2_def)
  ultimately have eq: "c2 = c\<lparr>c_end_time := c_end_time c1, c_last_time := c_last_time c2, c_tick := c_tick c1\<rparr>" by (metis tcpreplay.surjective tcpreplay.update_convs(9,10,18))
  have "c_pkts_sent c2 = c_pkts_sent c" "c_bytes_sent c2 = c_bytes_sent c" by (subst eq, simp)+
  then have "after_send env opt ts n skip c = c2\<lparr>c_pkts_sent := c_pkts_sent c + 1, c_bytes_sent := c_bytes_sent c + ucast n\<rparr>"
    by (simp add: after_send_def c1_def [symmetric] c2_def [symmetric] Let_def)
  also have "\<dots> = c\<lparr>c_end_time := c_end_time c1, c_last_time := c_last_time c2, c_tick := c_tick c1, c_pkts_sent := c_pkts_sent c + 1,
      c_bytes_sent := c_bytes_sent c + ucast n\<rparr>" by (subst eq) simp
  finally show ?thesis by blast
qed

lemma print_if_ok: "\<exists>e l t. (if P then print_stats env opt b c else c) = c\<lparr>c_end_time := e, c_last_print := l, c_tick := t\<rparr>"
proof (cases P)
  case True
  show ?thesis
    by (rule exI [of _ "c_end_time (print_stats env opt b c)"], rule exI [of _ "c_last_print (print_stats env opt b c)"],
        rule exI [of _ "c_tick (print_stats env opt b c)"]) (simp add: True print_stats_def Let_def)
next
  case False
  show ?thesis
    by (rule exI [of _ "c_end_time c"], rule exI [of _ "c_last_print c"], rule exI [of _ "c_tick c"]) (simp add: False)
qed

text \<open>One packet goes out.\<close>

lemma send_one_ok:
  assumes "fits p" "ready c" "unattended env opt" "\<not> o_intf2 opt" "\<not> (o_unique_ip opt \<and> it \<noteq> 0)" "\<forall>k. prompt (e_answers env k)"
    "cm_handle_ipv4_packet hb st (frame_of p) (sint (pkt_len (fst p))) DLT_EN10MB (c_dw c) = Some (b, dw)"
  shows "\<exists>skip' c'. send_one env opt hb st DLT_EN10MB pre it start_us k p skip c = Inr (skip', c') \<and> ready c' \<and> progress [b] c c' \<and> c_dw c' = dw"
proof -
  define rest where "rest = drop (unat (pkt_caplen (fst p)) + 4) (c_buffer c)"
  define h where "h = (fst p)\<lparr>pkt_caplen := pkt_caplen (fst p) + 4, pkt_len := pkt_caplen (fst p) + 4\<rparr>"
  define n where "n = pkt_caplen (fst p) + 4"
  note cp = copy_packet_ok [OF assms(1,2), folded h_def n_def rest_def]
  have rest: "length (frame_of p @ rest) = PKT_BUFFER_SIZE"
    using assms(1,2) cp(3) by (simp add: rest_def ready_def fits_def PKT_BUFFER_SIZE_def)
  note hd = handle_append [OF assms(7), of rest]
  define c1 where "c1 = c\<lparr>c_buffer := frame_of p @ rest\<rparr>"
  have dec: "decode_entry (frame_of p @ rest) DLT_EN10MB \<noteq> None"
  proof -
    from assms(1) obtain t ty l where "ld16 (frame_of p) 12 = Some t" "skip_vlan (frame_of p) (ntohs t) 0 = Some (ty, l)" "l \<le> 10000"
      by (auto simp: fits_def)
    with decode_buffer [OF ld_append(2) skip_vlan_append] rest show ?thesis by (simp add: PKT_BUFFER_SIZE_def)
  qed
  from count_if_ok [of c1 "c_buffer c1" DLT_EN10MB "o_flow_stats opt \<and> \<not> pre" env opt "if o_cache_packets opt \<noteq> 0 then Some Intf1 else None" h]
  obtain ft fs t ci where count: "(if o_flow_stats opt \<and> \<not> pre then count_for env opt (if o_cache_packets opt \<noteq> 0 then Some Intf1 else None) h (c_buffer c1) DLT_EN10MB c1 else Inr c1) =
      Inr (c1\<lparr>c_flow_table := ft, c_flow_stats := fs, c_tick := t, c_intf := ci\<rparr>)" and ft: "flow_table_inv ft" and ci: "\<forall>i. \<exists>f. ci i = (c_intf c i)\<lparr>sp_flow := f\<rparr>"
    using assms(2) dec by (auto simp: c1_def ready_def)
  define c2 where "c2 = c1\<lparr>c_flow_table := ft, c_flow_stats := fs, c_tick := t, c_intf := ci\<rparr>"
  from pace_ok [OF assms(3), of start_us "pkt_ts h" n skip c2] obtain skip' nap sk t' e where
    pc: "pace env opt start_us (pkt_ts h) n skip c2 = Inr (skip', c2\<lparr>c_nap := nap, c_skip_packets := sk, c_tick := t', c_end_time := e\<rparr>)" by blast
  define c3 where "c3 = c2\<lparr>c_nap := nap, c_skip_packets := sk, c_tick := t', c_end_time := e, c_buffer := b @ rest, c_dw := dw\<rparr>"
  have len: "unat n = length b" "length b \<le> PKT_BUFFER_SIZE" "0 < length b"
    using cp(2,3) hd rest by auto
  have "(ucast n :: u64) = of_nat (unat n)" by simp
  then have un: "ucast n = (of_nat (length b) :: u64)" unfolding len(1) .
  have f1: "sp_sent (ci Intf1) = sp_sent (c_intf c Intf1)" "sp_bytes_sent (ci Intf1) = sp_bytes_sent (c_intf c Intf1)" "\<not> sp_abort (ci Intf1)"
    using ci [rule_format, of Intf1] assms(2) by (auto simp: ready_def)
  from put_on_wire_ok [of env c3 n "b @ rest" Intf1] assms(6) len f1(3) obtain sp where
    wire: "put_on_wire env Intf1 (b @ rest) n c3 = Inr (c3\<lparr>c_intf := (c_intf c3)(Intf1 := sp), c_tick := c_tick c3 + 1, c_wire := c_wire c3 @ [(Intf1, b)]\<rparr>)"
    "sp_sent sp = sp_sent (ci Intf1) + 1" "sp_bytes_sent sp = sp_bytes_sent (ci Intf1) + ucast n" "\<not> sp_abort sp"
    by (auto simp: c3_def c2_def)
  define c4 where "c4 = c3\<lparr>c_intf := (c_intf c3)(Intf1 := sp), c_tick := c_tick c3 + 1, c_wire := c_wire c3 @ [(Intf1, b)]\<rparr>"
  from after_send_ok obtain e' l' t'' where after: "after_send env opt (pkt_ts h) n skip' c4 = c4\<lparr>c_end_time := e', c_last_time := l', c_tick := t'',
    c_pkts_sent := c_pkts_sent c4 + 1, c_bytes_sent := c_bytes_sent c4 + ucast n\<rparr>" by blast
  define c5 where "c5 = after_send env opt (pkt_ts h) n skip' c4"
  define c6 where "c6 = (if skip' = 0 \<and> o_stats opt > 0 then print_stats env opt True c5 else c5)\<lparr>c_first_time := False\<rparr>"
  have run: "send_one env opt hb st DLT_EN10MB pre it start_us k p skip c = Inr (skip', c6)"
  proof -
    have pl: "(if o_use_pkthdr_len opt then pkt_len h else pkt_caplen h) = n" by (simp add: h_def n_def)
    have u: "(o_unique_ip opt \<and> it \<noteq> 0) = False" "o_intf2 opt = False" using assms(4,5) by auto
    have hd': "cm_handle_ipv4_packet hb st (c_buffer (c2\<lparr>c_nap := nap, c_skip_packets := sk, c_tick := t', c_end_time := e\<rparr>)) (sint (pkt_len (fst p))) DLT_EN10MB
        (c_dw (c2\<lparr>c_nap := nap, c_skip_packets := sk, c_tick := t', c_end_time := e\<rparr>)) = Some (b @ rest, dw)"
      using hd by (simp add: c2_def c1_def)
    show ?thesis unfolding send_one_def cp(1) c1_def [symmetric] c_bind_simps prod.case Let_def pl u if_False option.case count c2_def [symmetric] pc hd' c_mem_simps
        c3_def [symmetric] wire(1) c4_def [symmetric] c5_def [symmetric] c6_def [symmetric] by (rule refl)
  qed
  have c5: "c5 = c4\<lparr>c_end_time := e', c_last_time := l', c_tick := t'', c_pkts_sent := c_pkts_sent c4 + 1, c_bytes_sent := c_bytes_sent c4 + ucast n\<rparr>"
    unfolding c5_def by (rule after)
  from print_if_ok obtain e3 l3 t3 where
    "(if skip' = 0 \<and> o_stats opt > 0 then print_stats env opt True c5 else c5) = c5\<lparr>c_end_time := e3, c_last_print := l3, c_tick := t3\<rparr>" by blast
  then have c6: "c6 = c5\<lparr>c_end_time := e3, c_last_print := l3, c_tick := t3, c_first_time := False\<rparr>" unfolding c6_def by (simp only:)
  have "ready c6" using assms(2) rest hd ft wire(4) by (simp add: c6 c5 c4_def c3_def c2_def c1_def ready_def)
  moreover have "progress [b] c c6" using wire(2,3) f1 un by (simp add: c6 c5 c4_def c3_def c2_def c1_def progress_def)
  moreover have "c_dw c6 = dw" by (simp add: c6 c5 c4_def c3_def)
  ultimately show ?thesis using run by blast
qed

section \<open>The limit\<close>

text \<open>How many more packets the limit allows; \<open>None\<close> if there is no limit.\<close>

definition allowance :: "tcpreplay_opt \<Rightarrow> tcpreplay \<Rightarrow> nat option" where
  "allowance opt c = (let l = c_int (uint (o_limit_send opt)) in if l > 0 then Some (nat l - unat (c_pkts_sent c)) else None)"

definition allowed :: "tcpreplay_opt \<Rightarrow> tcpreplay \<Rightarrow> 'a list \<Rightarrow> 'a list" where
  "allowed opt c ps = (case allowance opt c of None \<Rightarrow> ps | Some n \<Rightarrow> take n ps)"

lemma limit_reached_allowance: "limit_reached opt c \<longleftrightarrow> allowance opt c = Some 0"
proof -
  define l where "l = c_int (uint (o_limit_send opt))"
  have "l < 2147483648" using c_int_range [of "uint (o_limit_send opt)"] by (simp add: l_def int_range_def)
  then have "unat (word_of_int l :: u64) = nat l" if "l > 0" using that by (simp add: unsigned_of_int take_bit_int_eq_self)
  then show ?thesis unfolding limit_reached_def allowance_def l_def [symmetric] Let_def by (auto simp: word_le_nat_alt)
qed

lemma allowance_step:
  assumes "c_pkts_sent c' = c_pkts_sent c + 1" "unat (c_pkts_sent c) + 1 < 2 ^ 64"
  shows "allowance opt c' = map_option (\<lambda>n. n - 1) (allowance opt c)"
proof -
  have "unat (c_pkts_sent c') = unat (c_pkts_sent c) + 1" using assms by (simp add: unat_word_ariths)
  then show ?thesis by (simp add: allowance_def Let_def)
qed

lemma allowed_Cons:
  assumes "\<not> limit_reached opt c" "c_pkts_sent c' = c_pkts_sent c + 1" "unat (c_pkts_sent c) + 1 < 2 ^ 64"
  shows "allowed opt c (p # ps) = p # allowed opt c' ps"
proof -
  have "allowance opt c \<noteq> Some 0" using assms(1) by (simp add: limit_reached_allowance)
  then show ?thesis unfolding allowed_def allowance_step [OF assms(2,3)]
    by (cases "allowance opt c") (auto simp: take_Cons split: nat.split)
qed

lemma send_list_ok:
  assumes "\<forall>p \<in> set ps. fits p" "ready c" "unattended env opt" "\<not> o_intf2 opt" "\<not> (o_unique_ip opt \<and> it \<noteq> 0)" "\<forall>k. prompt (e_answers env k)"
    "handled hb st DLT_EN10MB (c_dw c) (allowed opt c ps) = Some (fs, dw)" "unat (c_pkts_sent c) + length ps < 2 ^ 64"
  shows "\<exists>c'. send_list env opt hb st DLT_EN10MB pre it start_us k skip ps c =
      Inr (c'\<lparr>c_iteration := c_iteration c + 1, c_abort := length fs < length ps\<rparr>) \<and> progress fs c c' \<and> c_dw c' = dw \<and> ready c'"
  using assms(1,2,7,8)
proof (induction ps arbitrary: c fs k skip)
  case Nil
  then have "fs = []" "dw = c_dw c" by (auto simp: allowed_def split: option.splits)
  moreover have "c\<lparr>c_iteration := c_iteration c + 1\<rparr> = c\<lparr>c_iteration := c_iteration c + 1, c_abort := False\<rparr>"
    using Nil.prems(2) by (simp add: ready_def)
  ultimately show ?case using progress_refl Nil.prems(2) by (intro exI [of _ c]) simp
next
  case (Cons p ps)
  have ab: "\<not> c_abort c" using Cons.prems(2) by (simp add: ready_def)
  show ?case
  proof (cases "limit_reached opt c")
    case True
    then have "allowed opt c (p # ps) = []" by (simp add: allowed_def limit_reached_allowance)
    with Cons.prems(3) have "fs = []" "dw = c_dw c" by auto
    with True ab show ?thesis using progress_refl Cons.prems(2) by (intro exI [of _ c]) simp
  next
    case False
    from allowed_Cons [OF False, of "c\<lparr>c_pkts_sent := c_pkts_sent c + 1\<rparr>" p ps] Cons.prems(4)
    have al: "allowed opt c (p # ps) = p # allowed opt (c\<lparr>c_pkts_sent := c_pkts_sent c + 1\<rparr>) ps" by simp
    from Cons.prems(3) obtain b dw1 fs' where b: "cm_handle_ipv4_packet hb st (frame_of p) (sint (pkt_len (fst p))) DLT_EN10MB (c_dw c) = Some (b, dw1)"
      and fs: "handled hb st DLT_EN10MB dw1 (allowed opt (c\<lparr>c_pkts_sent := c_pkts_sent c + 1\<rparr>) ps) = Some (fs', dw)" "fs = b # fs'"
      unfolding al by (auto split: option.splits)
    from send_one_ok [OF _ Cons.prems(2) assms(3-6) b, of pre start_us "k + 1" skip] Cons.prems(1) obtain skip' c1 where
      one: "send_one env opt hb st DLT_EN10MB pre it start_us (k + 1) p skip c = Inr (skip', c1)" "ready c1" "progress [b] c c1" "c_dw c1 = dw1" by auto
    have "allowed opt (c\<lparr>c_pkts_sent := c_pkts_sent c + 1\<rparr>) ps = allowed opt c1 ps"
      using one(3) by (simp add: allowed_def allowance_def progress_def Let_def)
    moreover have "unat (c_pkts_sent c1) + length ps < 2 ^ 64" using one(3) Cons.prems(4) by (simp add: progress_def unat_word_ariths)
    ultimately obtain c' where "send_list env opt hb st DLT_EN10MB pre it start_us (k + 1) skip' ps c1 =
        Inr (c'\<lparr>c_iteration := c_iteration c1 + 1, c_abort := length fs' < length ps\<rparr>)" "progress fs' c1 c'" "c_dw c' = dw" "ready c'"
      using Cons.IH [of c1 fs' "k + 1" skip'] Cons.prems(1) one(2,4) fs(1) by auto
    moreover have "c_iteration c1 = c_iteration c" using one(3) by (simp add: progress_def)
    ultimately show ?thesis using one(1) ab False progress_trans [OF one(3), of fs' c'] fs(2) by (intro exI [of _ c']) simp
  qed
qed

section \<open>Properties\<close>

text \<open>A context to start from: no packet sent yet, an empty flow table, a kernel that takes every packet.\<close>

definition sample_opt :: tcpreplay_opt where
  "sample_opt = \<lparr>o_speed = \<lparr>sp_mode = speed_topspeed, sp_speed = 0, sp_multiplier = Fin 1, sp_pps_multi = 0\<rparr>, o_stats = 0,
    o_use_pkthdr_len = False, o_cache_packets = 0, o_cachedata = None, o_accurate = accurate_nanosleep, o_limit_send = - 1,
    o_maxsleep = timesclear, o_preload_pcap = False, o_flow_stats = True, o_flow_expiry = 0, o_unique_ip = False, o_intf2 = False\<rparr>"

definition sample_environment :: environment where
  "sample_environment = \<lparr>e_clock = \<lambda>k. \<lparr>tv_sec = int k, tv_usec = 0\<rparr>, e_malloc = \<lambda>_. Some timerclear, e_line = \<lambda>_. None,
    e_answers = \<lambda>_. [Again, Sent 65536]\<rparr>"

definition sample_sp :: sendpacket_t where
  "sample_sp = \<lparr>sp_retry_enobufs = 0, sp_retry_eagain = 0, sp_failed = 0, sp_trunc_packets = 0, sp_sent = 0, sp_bytes_sent = 0, sp_attempt = 0,
    sp_abort = False, sp_flow = initial_counters\<rparr>"

definition sample_ctx :: "data_warehouse \<Rightarrow> tcpreplay" where
  "sample_ctx dw = \<lparr>c_abort = False, c_iteration = 0, c_nap = timesclear, c_skip_packets = 0, c_first_time = True, c_pkts_sent = 0,
    c_bytes_sent = 0, c_start_time = timerclear, c_end_time = timerclear, c_last_time = timerclear, c_last_print = timerclear,
    c_flow_stats = initial_counters, c_flow_table = \<lparr>num_buckets = 4, buckets = [[], [], [], []]\<rparr>, c_intf = \<lambda>_. sample_sp, c_dw = dw,
    c_buffer = replicate PKT_BUFFER_SIZE 0, c_wire = [], c_tick = 0\<rparr>"

definition sample_pcap :: pcap_packet where
  "sample_pcap = (\<lparr>pkt_ts = timerclear, pkt_caplen = 58, pkt_len = 58\<rparr>, sample_frame)"

lemma sample_ready: "ready (sample_ctx dw)" "unattended sample_environment sample_opt" "prompt (e_answers sample_environment k)" "fits sample_pcap"
proof -
  have "is_power_of_2 4" by code_simp
  then show "ready (sample_ctx dw)" by (simp add: ready_def sample_ctx_def flow_table_inv_def sample_sp_def)
  show "unattended sample_environment sample_opt" by (simp add: unattended_def sample_opt_def)
  have "[Again, Sent 65536] = [Again] @ Sent 65536 # []" "set [Again] \<subseteq> {Again, No_buffers}" "PKT_BUFFER_SIZE \<le> 65536"
    by (simp_all add: PKT_BUFFER_SIZE_def)
  then show "prompt (e_answers sample_environment k)" unfolding prompt_def sample_environment_def by (metis environment.select_convs(4))
  have "ld16 (frame_of sample_pcap) 12 = Some 0x81" "skip_vlan (frame_of sample_pcap) (ntohs 0x81) 0 = Some (ETHERTYPE_IP, 4)"
    "unat (pkt_caplen (fst sample_pcap)) = 58" "length (snd sample_pcap) = 58" by code_simp+
  then show "fits sample_pcap" unfolding fits_def by simp
qed

lemma sample_handled_in:
  assumes "dw_inv flow_src_hash_bin st dw" "tab_map flow_src_hash_bin (dw_flow_volume_map dw (dw_active_idx dw)) = Map.empty"
  shows "\<exists>b dw'. handled flow_src_hash_bin st DLT_EN10MB dw [sample_pcap] = Some ([b], dw')"
proof -
  have fit: "flow_volume flow_src_hash_bin dw (packet_flow_src sample_packet_t) + 58 < 2147483648" using assms(2) by simp
  from flow_src_hash.handle_packet_spec [OF murmur.flow_src_hash_axioms assms(1) _ _ sample_frame_parse fit]
  obtain b dw' where "cm_handle_ipv4_packet flow_src_hash_bin st sample_frame 58 1 dw = Some (b, dw')" by force
  from handle_append [OF this, of "bytes_of_32 58"] have
    "cm_handle_ipv4_packet flow_src_hash_bin st (sample_frame @ bytes_of_32 58) 58 1 dw = Some (b @ bytes_of_32 58, dw')" by blast
  moreover have "frame_of sample_pcap = sample_frame @ bytes_of_32 58" "sint (pkt_len (fst sample_pcap)) = 58" by code_simp+
  ultimately have "handled flow_src_hash_bin st DLT_EN10MB dw [sample_pcap] = Some ([b @ bytes_of_32 58], dw')"
    by (simp add: DLT_EN10MB_def)
  then show ?thesis by blast
qed

lemma sample_handled:
  "\<exists>dw b dw'. handled flow_src_hash_bin dw_setting DLT_EN10MB dw [sample_pcap] = Some ([b], dw')"
proof -
  obtain dw where dw: "dw_inv flow_src_hash_bin dw_setting dw"
    "tab_map flow_src_hash_bin (dw_flow_volume_map dw (dw_active_idx dw)) = Map.empty" using dw_sample_task by blast
  from sample_handled_in [OF this] show ?thesis by blast
qed

lemma no_limit: "c_int (uint (- 1 :: u64)) \<le> 0"
  by code_simp

lemma sample_limit [simp]: "c_int (uint (o_limit_send sample_opt)) \<le> 0"
  by (simp add: sample_opt_def no_limit)

lemma sample_fields [simp]:
  "c_iteration (sample_ctx dw) = 0" "c_pkts_sent (sample_ctx dw) = 0" "c_wire (sample_ctx dw) = []" "c_dw (sample_ctx dw) = dw"
  "\<not> o_intf2 sample_opt" "\<not> o_preload_pcap sample_opt" "\<not> o_unique_ip sample_opt"
  by (simp_all add: sample_ctx_def sample_opt_def)

text \<open>
  C6: a pass over a trace.  On one interface with a packet socket, with any bit rate, packet rate, multiplier or top speed, for
  Ethernet packets that fit the buffer, \<^verbatim>\<open>send_packets\<close> returns and hands to the kernel, in the order of the trace, exactly
  the packets the limit allows, each as the packet handler of the testbed leaves it; the data warehouse has recorded
  them, the counters of the program and of the interface count these packets and their bytes, and the run is aborted if
  and only if the limit has cut the trace short.
\<close>

theorem send_packets_trace:
  assumes "\<forall>p \<in> set ps. fits p" "ready c" "unattended env opt" "\<not> o_intf2 opt" "\<not> o_preload_pcap opt" "\<not> (o_unique_ip opt \<and> c_iteration c \<noteq> 0)"
    "\<forall>k. prompt (e_answers env k)" "fc_dlt fc = DLT_EN10MB" "unat (c_pkts_sent c) + length ps < 2 ^ 64"
    "handled hb st DLT_EN10MB (c_dw c) (allowed opt c ps) = Some (fs, dw)"
  shows "\<exists>c'. send_packets env opt hb st ps fc c = Inr (fc, c') \<and>
    c_wire c' = c_wire c @ map (\<lambda>f. (Intf1, f)) fs \<and> length fs = length (allowed opt c ps) \<and> c_dw c' = dw \<and>
    c_pkts_sent c' = c_pkts_sent c + of_nat (length fs) \<and> c_bytes_sent c' = c_bytes_sent c + of_nat (length (concat fs)) \<and>
    sp_sent (c_intf c' Intf1) = sp_sent (c_intf c Intf1) + of_nat (length fs) \<and>
    sp_bytes_sent (c_intf c' Intf1) = sp_bytes_sent (c_intf c Intf1) + of_nat (length (concat fs)) \<and>
    c_iteration c' = c_iteration c + 1 \<and> (c_abort c' \<longleftrightarrow> length (allowed opt c ps) < length ps)"
proof -
  have "length fs = length qs" if "handled hb st dl d qs = Some (fs, dw)" for dl d and qs :: "pcap_packet list"
    using that by (induction qs arbitrary: d fs) (auto split: option.splits)
  with assms(10) have "length fs = length (allowed opt c ps)" by blast
  moreover from send_list_ok [OF assms(1-4,6,7,10,9)] obtain c' where
    "send_list env opt hb st DLT_EN10MB (fc_cached fc) (c_iteration c) (TIMEVAL_TO_MICROSEC (c_start_time c)) 0 0 ps c =
      Inr (c'\<lparr>c_iteration := c_iteration c + 1, c_abort := length fs < length ps\<rparr>)" "progress fs c c'" "c_dw c' = dw" by blast
  moreover have "send_packets env opt hb st ps fc c = c_bind (send_list env opt hb st DLT_EN10MB (fc_cached fc) (c_iteration c)
      (TIMEVAL_TO_MICROSEC (c_start_time c)) 0 0 ps c) (\<lambda>c. Inr (fc, c))"
    using send_packets_list [of opt fc env hb st ps c] assms(5,8) by simp
  ultimately show ?thesis by (simp add: progress_def)
qed

theorem send_packets_trace_witness:
  "\<exists>dw c' b. send_packets sample_environment sample_opt flow_src_hash_bin dw_setting [sample_pcap]
      \<lparr>fc_cached = False, fc_dlt = DLT_EN10MB, fc_packets = []\<rparr> (sample_ctx dw) = Inr (\<lparr>fc_cached = False, fc_dlt = DLT_EN10MB, fc_packets = []\<rparr>, c') \<and>
    c_wire c' = [(Intf1, b)] \<and> c_pkts_sent c' = 1"
proof -
  obtain dw b dw' where h: "handled flow_src_hash_bin dw_setting DLT_EN10MB dw [sample_pcap] = Some ([b], dw')" using sample_handled by blast
  have a: "allowed sample_opt (sample_ctx dw) xs = xs" for xs using sample_limit by (simp add: allowed_def allowance_def Let_def del: sample_limit)
  show ?thesis
    using send_packets_trace [of "[sample_pcap]" "sample_ctx dw" sample_environment sample_opt
        "\<lparr>fc_cached = False, fc_dlt = DLT_EN10MB, fc_packets = []\<rparr>" flow_src_hash_bin dw_setting "[b]" dw'] sample_ready h
    by (auto simp: a)
qed

text \<open>
  C18: preloading changes nothing.  If preloading a file that nothing has been cached of succeeds, a pass over the cache is,
  apart from the flow statistics that preloading has already made, the pass over the file, for every context in which
  addresses are not edited and every environment, faults included.
\<close>

theorem preload_equivalent:
  assumes "preload_pcap_file env opt (Some (dlt, ps)) fc c = Inr (fc', c')" "o_preload_pcap opt" "\<not> fc_cached fc" "fc_packets fc = []"
    "\<forall>p \<in> set ps. pkt_caplen (fst p) \<le> pkt_len (fst p)" "\<not> (o_unique_ip opt \<and> c_iteration d \<noteq> 0)"
  shows "map_sum id snd (send_packets env' opt hb st [] fc' d) =
    map_sum id snd (send_packets env' (opt\<lparr>o_preload_pcap := False, o_flow_stats := False\<rparr>) hb st ps (fc\<lparr>fc_dlt := dlt\<rparr>) d)"
proof -
  note f = preload_file_cache [OF assms(1-4)]
  have "\<forall>p \<in> set ps. pkt_caplen (fst p) \<le> pkt_len (fst p) \<and> unat (pkt_len (fst p)) \<le> length (snd p)"
    using assms(5) f(4) by (auto simp: case_prod_beta)
  note e = send_list_cached [OF assms(6) this]
  have "map_sum id snd (c_bind r (\<lambda>c. Inr (x, c))) = r" for r :: "tcpreplay c_result" and x :: file_cache by (cases r) simp_all
  then show ?thesis
    using send_packets_list [of opt fc' env' hb st "[]" d] send_packets_list [of "plain opt" "fc\<lparr>fc_dlt := dlt\<rparr>" env' hb st ps d] f(1-3) assms(2,3) e
    by (simp add: plain_def)
qed

theorem preload_equivalent_witness:
  "\<exists>dw fc' c'. preload_pcap_file sample_environment (sample_opt\<lparr>o_preload_pcap := True, o_flow_stats := False\<rparr>) (Some (DLT_EN10MB, [sample_pcap]))
      \<lparr>fc_cached = False, fc_dlt = 0, fc_packets = []\<rparr> (sample_ctx dw) = Inr (fc', c') \<and>
    map_sum id snd (send_packets sample_environment (sample_opt\<lparr>o_preload_pcap := True, o_flow_stats := False\<rparr>) flow_src_hash_bin dw_setting [] fc' (sample_ctx dw)) =
    map_sum id snd (send_packets sample_environment (sample_opt\<lparr>o_preload_pcap := False, o_flow_stats := False\<rparr>) flow_src_hash_bin dw_setting [sample_pcap]
      \<lparr>fc_cached = False, fc_dlt = DLT_EN10MB, fc_packets = []\<rparr> (sample_ctx dw))"
proof -
  let ?opt = "sample_opt\<lparr>o_preload_pcap := True, o_flow_stats := False\<rparr>" and ?fc = "\<lparr>fc_cached = False, fc_dlt = 0, fc_packets = []\<rparr>"
  have len: "unat (pkt_len (fst sample_pcap)) = 58" "length (snd sample_pcap) = 58" "pkt_caplen (fst sample_pcap) \<le> pkt_len (fst sample_pcap)"
    by code_simp+
  obtain h d where p: "sample_pcap = (h, d)" by (cases sample_pcap)
  have ld: "unat (pkt_len h) = 58" "length d = 58" using len(1,2) by (simp_all add: p)
  obtain dw :: data_warehouse where True by blast
  have 1: "preload_loop env ?opt dlt \<lparr>s_pcap = [], s_cache = fc, s_prev = x\<rparr> c = Inr (\<lparr>s_pcap = [], s_cache = fc, s_prev = x\<rparr>, c)"
    if "\<not> fc_cached fc" for env dlt fc x c using that by (subst preload_loop.simps) (simp add: get_next_packet_def pcap_next_def)
  have "\<exists>s'. preload_loop sample_environment ?opt DLT_EN10MB \<lparr>s_pcap = [(h, d)], s_cache = ?fc, s_prev = None\<rparr> (sample_ctx dw) = Inr (s', sample_ctx dw)"
    using ld by (subst preload_loop.simps) (simp add: get_next_packet_def pcap_next_def Let_def 1)
  then obtain fc' where pre: "preload_pcap_file sample_environment ?opt (Some (DLT_EN10MB, [sample_pcap])) ?fc (sample_ctx dw) = Inr (fc', sample_ctx dw)"
    by (auto simp: preload_pcap_file_def p)
  show ?thesis using pre preload_equivalent [OF pre, of "sample_ctx dw" sample_environment flow_src_hash_bin dw_setting] len(3)
    by (intro exI [of _ dw] exI [of _ fc'] exI [of _ "sample_ctx dw"]) simp
qed

end
