(* ===== verification/Send_Dual.thy ===== *)
theory Send_Dual
  imports Send_Packets
begin

text \<open>
  \<^verbatim>\<open>send_dual_packets\<close> of \<^verbatim>\<open>tcpreplay/src/send_packets.c\<close>: two capture files are replayed at the same time on two interfaces, the
  packets of both in the order of their times.
\<close>

section \<open>The loop\<close>

text \<open>Which file is next.\<close>

definition first_file_next :: "pcap_packet option \<Rightarrow> pcap_packet option \<Rightarrow> bool" where
  "first_file_next p q =
    (case (p, q) of
       (None, _) \<Rightarrow> False
     | (Some _, None) \<Rightarrow> True
     | (Some (h, _), Some (h', _)) \<Rightarrow> timercmp (pkt_ts h) (pkt_ts h') (\<le>))"

text \<open>
  Editing changes the packet where it is: a packet from the cache stays changed in the cache, one from the file is gone
  with the next call of \<^verbatim>\<open>pcap_next\<close>.
\<close>

definition edit_in_place :: "tcpreplay_opt \<Rightarrow> u32 \<Rightarrow> pcap_packet \<Rightarrow> source \<Rightarrow> tcpreplay \<Rightarrow> (u8 list \<times> source) c_result" where
  "edit_in_place opt iteration p s c =
    (if o_unique_ip opt \<and> iteration \<noteq> 0 then
       c_bind (fast_edit_packet (pkt_caplen (fst p)) (snd p) (c_iteration c) (fc_cached (s_cache s)) (fc_dlt (s_cache s))) (\<lambda>b.
         Inr (b, case s_prev s of
                   Some i \<Rightarrow> if o_preload_pcap opt \<and> fc_cached (s_cache s) then
                       s\<lparr>s_cache := (s_cache s)\<lparr>fc_packets := (fc_packets (s_cache s))[i := (fst p, b)]\<rparr>\<rparr> else s
                 | None \<Rightarrow> s))
     else Inr (snd p, s))"

text \<open>The body of the loop, for a packet of the source \<open>s\<close> that goes out on \<open>sp\<close>.\<close>

definition dual_one :: "environment \<Rightarrow> tcpreplay_opt \<Rightarrow> u32 \<Rightarrow> u64 \<Rightarrow> intf \<Rightarrow> pcap_packet \<Rightarrow> u64 \<Rightarrow> source \<Rightarrow> tcpreplay \<Rightarrow>
    (u64 \<times> source \<times> tcpreplay) c_result" where
  "dual_one env opt iteration start_us sp p skip_length s c =
    (let h = fst p; pktlen = (if o_use_pkthdr_len opt then pkt_len h else pkt_caplen h)
     in c_bind (edit_in_place opt iteration p s c) (\<lambda>(pktdata, s).
        c_bind (if o_flow_stats opt \<and> \<not> fc_cached (s_cache s) then count_for env opt (Some sp) h pktdata (fc_dlt (s_cache s)) c else Inr c) (\<lambda>c.
        c_bind (pace env opt start_us (pkt_ts h) pktlen skip_length c) (\<lambda>(skip_length, c).
        if sp = Intf2 \<and> \<not> o_intf2 opt then Inl Assertion
        else c_bind (put_on_wire env sp pktdata pktlen c) (\<lambda>c.
          let c = after_send env opt (pkt_ts h) pktlen skip_length c;
              c = (if o_stats opt > 0 then print_stats env opt False c else c)
          in Inr (skip_length, s, c\<lparr>c_first_time := False\<rparr>))))))"

text \<open>How many packets are still to come from a source, the current one included.\<close>

definition to_come :: "tcpreplay_opt \<Rightarrow> pcap_packet option \<Rightarrow> source \<Rightarrow> nat" where
  "to_come opt p s = (case p of None \<Rightarrow> 0 | Some _ \<Rightarrow> Suc (remaining (o_preload_pcap opt) s))"

lemma edit_in_place_remaining:
  "edit_in_place opt it p s c = Inr (b, s') \<Longrightarrow> remaining u s' = remaining u s"
  by (auto simp: edit_in_place_def remaining_def c_bind_Inr split: if_splits option.splits)

lemma dual_one_remaining:
  assumes "dual_one env opt it us sp p k s c = Inr (k', s', c')"
  shows "remaining u s' = remaining u s"
  using assms edit_in_place_remaining [of opt it p s c]
  by (auto simp: dual_one_def c_bind_Inr Let_def split: if_splits prod.splits)

lemma get_next_to_come: "get_next_packet (o_preload_pcap opt) s = Inr (p, s') \<Longrightarrow> to_come opt p s' \<le> remaining (o_preload_pcap opt) s"
  by (cases p) (auto simp: to_come_def dest: get_next_packet_less)

function dual_loop :: "environment \<Rightarrow> tcpreplay_opt \<Rightarrow> u32 \<Rightarrow> u64 \<Rightarrow> u64 \<Rightarrow> pcap_packet option \<Rightarrow> source \<Rightarrow> pcap_packet option \<Rightarrow> source \<Rightarrow> tcpreplay \<Rightarrow>
    (source \<times> source \<times> tcpreplay) c_result" where
  "dual_loop env opt iteration start_us skip_length p s q t c =
    (if p = None \<and> q = None then Inr (s, t, c\<lparr>c_iteration := c_iteration c + 1\<rparr>)
     else if c_abort c then Inr (s, t, c)
     else if limit_reached opt c then Inr (s, t, c\<lparr>c_abort := True, c_iteration := c_iteration c + 1\<rparr>)
     else if first_file_next p q then
       c_bind (dual_one env opt iteration start_us Intf1 (the p) skip_length s c) (\<lambda>(skip_length, s, c).
         c_bind (get_next_packet (o_preload_pcap opt) s) (\<lambda>(p, s). dual_loop env opt iteration start_us skip_length p s q t c))
     else
       c_bind (dual_one env opt iteration start_us Intf2 (the q) skip_length t c) (\<lambda>(skip_length, t, c).
         c_bind (get_next_packet (o_preload_pcap opt) t) (\<lambda>(q, t). dual_loop env opt iteration start_us skip_length p s q t c)))"
  by pat_completeness auto
termination
proof (relation "measure (\<lambda>(_, opt, _, _, _, p, s, q, t, _). to_come opt p s + to_come opt q t)", goal_cases)
  case (2 env opt it us k p s q t c x y k1 s1 c1 z p1 s1')
  then show ?case using dual_one_remaining [of env opt it us Intf1 "the p" k s c] get_next_to_come [of opt s1 p1]
    by (auto simp: first_file_next_def to_come_def split: option.splits)
next
  case (3 env opt it us k p s q t c x y k1 t1 c1 z q1 t1')
  then show ?case using dual_one_remaining [of env opt it us Intf2 "the q" k t c] get_next_to_come [of opt t1 q1]
    by (auto simp: first_file_next_def to_come_def split: option.splits)
qed simp

declare dual_loop.simps [simp del]

definition send_dual_packets :: "environment \<Rightarrow> tcpreplay_opt \<Rightarrow> pcap_packet list \<Rightarrow> file_cache \<Rightarrow> pcap_packet list \<Rightarrow> file_cache \<Rightarrow> tcpreplay \<Rightarrow>
    (file_cache \<times> file_cache \<times> tcpreplay) c_result" where
  "send_dual_packets env opt pcap fc pcap' fc' c =
    c_bind (get_next_packet (o_preload_pcap opt) \<lparr>s_pcap = pcap, s_cache = fc, s_prev = None\<rparr>) (\<lambda>(p, s).
    c_bind (get_next_packet (o_preload_pcap opt) \<lparr>s_pcap = pcap', s_cache = fc', s_prev = None\<rparr>) (\<lambda>(q, t).
    c_bind (dual_loop env opt (c_iteration c) (TIMEVAL_TO_MICROSEC (c_start_time c)) 0 p s q t c) (\<lambda>(s, t, c).
      Inr (s_cache s, s_cache t, c))))"

section \<open>The order of the packets\<close>

text \<open>The reference: the merge of two lists by time, the first list preferred at equal times.\<close>

fun merge_by_time :: "pcap_packet list \<Rightarrow> pcap_packet list \<Rightarrow> (intf \<times> pcap_packet) list" where
  "merge_by_time [] qs = map (\<lambda>q. (Intf2, q)) qs"
| "merge_by_time ps [] = map (\<lambda>p. (Intf1, p)) ps"
| "merge_by_time (p # ps) (q # qs) =
    (if timercmp (pkt_ts (fst p)) (pkt_ts (fst q)) (\<le>) then (Intf1, p) # merge_by_time ps (q # qs)
     else (Intf2, q) # merge_by_time (p # ps) qs)"

definition packet_time :: "intf \<times> pcap_packet \<Rightarrow> int" where
  "packet_time x = microseconds (pkt_ts (fst (snd x)))"

lemma timercmp_le: "timeval_ok t \<Longrightarrow> timeval_ok u \<Longrightarrow> timercmp t u (\<le>) \<longleftrightarrow> microseconds t \<le> microseconds u"
  by (auto simp: timercmp_def timeval_ok_def microseconds_def)

lemma merge_set: "set (merge_by_time ps qs) = (\<lambda>p. (Intf1, p)) ` set ps \<union> (\<lambda>q. (Intf2, q)) ` set qs"
  by (induction ps qs rule: merge_by_time.induct) auto

lemma merge_parts:
  "map snd (filter (\<lambda>x. fst x = Intf1) (merge_by_time ps qs)) = ps" "map snd (filter (\<lambda>x. fst x = Intf2) (merge_by_time ps qs)) = qs"
  by (induction ps qs rule: merge_by_time.induct) (simp_all add: comp_def)

lemma merge_sorted:
  assumes "\<forall>p \<in> set ps \<union> set qs. timeval_ok (pkt_ts (fst p))" "sorted (map (\<lambda>p. microseconds (pkt_ts (fst p))) ps)"
    "sorted (map (\<lambda>p. microseconds (pkt_ts (fst p))) qs)"
  shows "sorted (map packet_time (merge_by_time ps qs))"
  using assms
proof (induction ps qs rule: merge_by_time.induct)
  case (3 p ps q qs)
  have le: "timercmp (pkt_ts (fst p)) (pkt_ts (fst q)) (\<le>) \<longleftrightarrow> microseconds (pkt_ts (fst p)) \<le> microseconds (pkt_ts (fst q))"
    using 3(3) by (intro timercmp_le) simp_all
  show ?case
  proof (cases "timercmp (pkt_ts (fst p)) (pkt_ts (fst q)) (\<le>)")
    case True
    with 3(1) [OF True] 3(3-5) le show ?thesis by (auto simp: merge_set packet_time_def)
  next
    case False
    with 3(2) [OF False] 3(3-5) le show ?thesis by (auto simp: merge_set packet_time_def)
  qed
qed (simp_all add: packet_time_def comp_def)

section \<open>Sending\<close>

definition dual_ready :: "tcpreplay \<Rightarrow> bool" where
  "dual_ready c \<longleftrightarrow> flow_table_inv (c_flow_table c) \<and> (\<forall>i. \<not> sp_abort (c_intf c i)) \<and> \<not> c_abort c"

text \<open>From \<open>c\<close> to \<open>c'\<close> the frames \<open>fs\<close> have gone out on their interfaces.\<close>

definition dual_progress :: "(intf \<times> u8 list) list \<Rightarrow> tcpreplay \<Rightarrow> tcpreplay \<Rightarrow> bool" where
  "dual_progress fs c c' \<longleftrightarrow> c_wire c' = c_wire c @ fs \<and> c_pkts_sent c' = c_pkts_sent c + of_nat (length fs) \<and>
    c_bytes_sent c' = c_bytes_sent c + of_nat (length (concat (map snd fs))) \<and>
    (\<forall>i. sp_sent (c_intf c' i) = sp_sent (c_intf c i) + of_nat (length (filter (\<lambda>f. fst f = i) fs))) \<and> c_iteration c' = c_iteration c"

lemma dual_progress_refl: "dual_progress [] c c"
  by (simp add: dual_progress_def)

lemma dual_progress_trans: "dual_progress fs c c' \<Longrightarrow> dual_progress gs c' c'' \<Longrightarrow> dual_progress (fs @ gs) c c''"
  by (auto simp: dual_progress_def)

definition dual_fits :: "int \<Rightarrow> pcap_packet \<Rightarrow> bool" where
  "dual_fits dl p \<longleftrightarrow> 0 < pkt_caplen (fst p) \<and> unat (pkt_caplen (fst p)) \<le> length (snd p) \<and> unat (pkt_caplen (fst p)) \<le> PKT_BUFFER_SIZE \<and>
    decode_entry (snd p) dl \<noteq> None"

definition captured :: "pcap_packet \<Rightarrow> u8 list" where
  "captured p = take (unat (pkt_caplen (fst p))) (snd p)"

lemma dual_one_ok:
  assumes "dual_fits (fc_dlt (s_cache s)) p" "dual_ready c" "unattended env opt" "o_intf2 opt" "\<not> o_use_pkthdr_len opt" "\<not> (o_unique_ip opt \<and> it \<noteq> 0)"
    "\<forall>k. prompt (e_answers env k)"
  shows "\<exists>k' c'. dual_one env opt it us sp p k s c = Inr (k', s, c') \<and> dual_ready c' \<and> dual_progress [(sp, captured p)] c c'"
proof -
  define n where "n = pkt_caplen (fst p)"
  let ?h = "fst p"
  from count_if_ok [of c "snd p" "fc_dlt (s_cache s)" "o_flow_stats opt \<and> \<not> fc_cached (s_cache s)" env opt "Some sp" ?h] assms(1,2)
  obtain ft fs t ci where count: "(if o_flow_stats opt \<and> \<not> fc_cached (s_cache s) then count_for env opt (Some sp) ?h (snd p) (fc_dlt (s_cache s)) c else Inr c) =
      Inr (c\<lparr>c_flow_table := ft, c_flow_stats := fs, c_tick := t, c_intf := ci\<rparr>)" and ft: "flow_table_inv ft" and ci: "\<forall>i. \<exists>f. ci i = (c_intf c i)\<lparr>sp_flow := f\<rparr>"
    by (auto simp: dual_fits_def dual_ready_def)
  define c2 where "c2 = c\<lparr>c_flow_table := ft, c_flow_stats := fs, c_tick := t, c_intf := ci\<rparr>"
  from pace_ok [OF assms(3), of us "pkt_ts ?h" n k c2] obtain k' nap sk t' e where
    pc: "pace env opt us (pkt_ts ?h) n k c2 = Inr (k', c2\<lparr>c_nap := nap, c_skip_packets := sk, c_tick := t', c_end_time := e\<rparr>)" by blast
  define c3 where "c3 = c2\<lparr>c_nap := nap, c_skip_packets := sk, c_tick := t', c_end_time := e\<rparr>"
  have f1: "sp_sent (ci i) = sp_sent (c_intf c i)" "\<not> sp_abort (ci i)" for i using ci [rule_format, of i] assms(2) by (auto simp: dual_ready_def)
  have len: "0 < unat n" "unat n \<le> length (snd p)" "unat n \<le> PKT_BUFFER_SIZE" "length (captured p) = unat n"
    using assms(1) by (simp_all add: dual_fits_def n_def captured_def word_less_nat_alt)
  from put_on_wire_ok [of env c3 n "snd p" sp] assms(7) len f1(2) obtain sp' where
    wire: "put_on_wire env sp (snd p) n c3 = Inr (c3\<lparr>c_intf := (c_intf c3)(sp := sp'), c_tick := c_tick c3 + 1, c_wire := c_wire c3 @ [(sp, captured p)]\<rparr>)"
    "sp_sent sp' = sp_sent (ci sp) + 1" "\<not> sp_abort sp'" by (auto simp: c3_def c2_def captured_def n_def)
  define c4 where "c4 = c3\<lparr>c_intf := (c_intf c3)(sp := sp'), c_tick := c_tick c3 + 1, c_wire := c_wire c3 @ [(sp, captured p)]\<rparr>"
  from after_send_ok obtain e' l' t'' where after: "after_send env opt (pkt_ts ?h) n k' c4 = c4\<lparr>c_end_time := e', c_last_time := l', c_tick := t'',
    c_pkts_sent := c_pkts_sent c4 + 1, c_bytes_sent := c_bytes_sent c4 + ucast n\<rparr>" by blast
  define c5 where "c5 = after_send env opt (pkt_ts ?h) n k' c4"
  from print_if_ok obtain e3 l3 t3 where pr: "(if o_stats opt > 0 then print_stats env opt False c5 else c5) = c5\<lparr>c_end_time := e3, c_last_print := l3, c_tick := t3\<rparr>"
    by blast
  define c6 where "c6 = (if o_stats opt > 0 then print_stats env opt False c5 else c5)\<lparr>c_first_time := False\<rparr>"
  have run: "dual_one env opt it us sp p k s c = Inr (k', s, c6)"
  proof -
    have pl: "(if o_use_pkthdr_len opt then pkt_len ?h else pkt_caplen ?h) = n" using assms(5) by (simp add: n_def)
    have ed: "edit_in_place opt it p s c = Inr (snd p, s)" and i2: "(sp = Intf2 \<and> \<not> o_intf2 opt) = False" using assms(4,6) by (auto simp: edit_in_place_def)
    show ?thesis unfolding dual_one_def Let_def pl ed c_bind_simps prod.case count c2_def [symmetric] pc c3_def [symmetric] i2 if_False wire(1)
        c4_def [symmetric] c5_def [symmetric] c6_def [symmetric] by (rule refl)
  qed
  have c5: "c5 = c4\<lparr>c_end_time := e', c_last_time := l', c_tick := t'', c_pkts_sent := c_pkts_sent c4 + 1, c_bytes_sent := c_bytes_sent c4 + ucast n\<rparr>"
    unfolding c5_def by (rule after)
  have c6: "c6 = c5\<lparr>c_end_time := e3, c_last_print := l3, c_tick := t3, c_first_time := False\<rparr>" unfolding c6_def pr by (rule refl)
  have "(ucast n :: u64) = of_nat (unat n)" by simp
  then have un: "(ucast n :: u64) = of_nat (length (captured p))" unfolding len(4) .
  have "dual_ready c6" using assms(2) ft wire(3) f1(2) by (simp add: c6 c5 c4_def c3_def c2_def dual_ready_def)
  moreover have "dual_progress [(sp, captured p)] c c6" using wire(2) f1(1) un by (simp add: c6 c5 c4_def c3_def c2_def dual_progress_def)
  ultimately show ?thesis using run by blast
qed

text \<open>The current packet of a source and what it will deliver.\<close>

definition unsent :: "bool \<Rightarrow> pcap_packet option \<Rightarrow> source \<Rightarrow> pcap_packet list" where
  "unsent u p s = (case p of None \<Rightarrow> [] | Some p \<Rightarrow> p # delivers u s)"

lemma get_next_pending:
  assumes "u \<longrightarrow> fc_cached (s_cache s)"
  shows "\<exists>p s'. get_next_packet u s = Inr (p, s') \<and> unsent u p s' = delivers u s \<and> s_cache s' = s_cache s"
  using get_next_delivers [OF assms] by (auto simp: unsent_def)

lemma merge_Nil [simp]: "merge_by_time ps [] = map (\<lambda>p. (Intf1, p)) ps"
  by (cases ps) simp_all

lemma merge_pending:
  "p \<noteq> None \<or> q \<noteq> None \<Longrightarrow> merge_by_time (unsent u p s) (unsent u q t) =
    (if first_file_next p q then (Intf1, the p) # merge_by_time (delivers u s) (unsent u q t)
     else (Intf2, the q) # merge_by_time (unsent u p s) (delivers u t))"
  by (cases p; cases q) (auto simp: unsent_def first_file_next_def split: prod.splits)

definition frames_on_wire :: "(intf \<times> pcap_packet) list \<Rightarrow> (intf \<times> u8 list) list" where
  "frames_on_wire xs = map (\<lambda>(i, p). (i, captured p)) xs"

lemma dual_loop_ok:
  assumes "unattended env opt" "o_intf2 opt" "\<not> o_use_pkthdr_len opt" "\<not> (o_unique_ip opt \<and> it \<noteq> 0)" "\<forall>k. prompt (e_answers env k)"
    "c_int (uint (o_limit_send opt)) \<le> 0"
    "o_preload_pcap opt \<longrightarrow> fc_cached (s_cache s) \<and> fc_cached (s_cache t)" "dual_ready c"
    "\<forall>x \<in> set (unsent (o_preload_pcap opt) p s). dual_fits (fc_dlt (s_cache s)) x"
    "\<forall>x \<in> set (unsent (o_preload_pcap opt) q t). dual_fits (fc_dlt (s_cache t)) x"
  shows "\<exists>s' t' c'. dual_loop env opt it us k p s q t c = Inr (s', t', c'\<lparr>c_iteration := c_iteration c + 1\<rparr>) \<and> s_cache s' = s_cache s \<and> s_cache t' = s_cache t \<and>
    dual_progress (frames_on_wire (merge_by_time (unsent (o_preload_pcap opt) p s) (unsent (o_preload_pcap opt) q t))) c c' \<and> \<not> c_abort c'"
  using assms(7-10)
proof (induction "length (unsent (o_preload_pcap opt) p s) + length (unsent (o_preload_pcap opt) q t)" arbitrary: p s q t c k rule: less_induct)
  case less
  let ?u = "o_preload_pcap opt"
  have ab: "\<not> c_abort c" "\<not> limit_reached opt c" using less.prems(2) assms(6) by (simp_all add: dual_ready_def limit_reached_def)
  show ?case
  proof (cases "p = None \<and> q = None")
    case True
    then have "dual_loop env opt it us k p s q t c = Inr (s, t, c\<lparr>c_iteration := c_iteration c + 1\<rparr>)" by (simp add: dual_loop.simps)
    with True ab dual_progress_refl show ?thesis
      by (intro exI [of _ s] exI [of _ t] exI [of _ c]) (simp add: unsent_def frames_on_wire_def)
  next
    case False
    then have m: "merge_by_time (unsent ?u p s) (unsent ?u q t) = (if first_file_next p q then (Intf1, the p) # merge_by_time (delivers ?u s) (unsent ?u q t)
        else (Intf2, the q) # merge_by_time (unsent ?u p s) (delivers ?u t))" by (intro merge_pending) auto
    show ?thesis
    proof (cases "first_file_next p q")
      case True
      then obtain x where x: "p = Some x" by (cases p) (simp_all add: first_file_next_def)
      from dual_one_ok [OF _ less.prems(2) assms(1-5), of s x us Intf1 k] less.prems(3) x obtain k' c1 where
        one: "dual_one env opt it us Intf1 x k s c = Inr (k', s, c1)" "dual_ready c1" "dual_progress [(Intf1, captured x)] c c1"
        by (auto simp: unsent_def)
      from get_next_pending [of ?u s] less.prems(1) obtain p1 s1 where
        nxt: "get_next_packet ?u s = Inr (p1, s1)" "unsent ?u p1 s1 = delivers ?u s" "s_cache s1 = s_cache s" by blast
      have "\<exists>s' t' c'. dual_loop env opt it us k' p1 s1 q t c1 = Inr (s', t', c'\<lparr>c_iteration := c_iteration c1 + 1\<rparr>) \<and> s_cache s' = s_cache s1 \<and> s_cache t' = s_cache t \<and>
          dual_progress (frames_on_wire (merge_by_time (unsent ?u p1 s1) (unsent ?u q t))) c1 c' \<and> \<not> c_abort c'"
        using less.prems(1,3,4) nxt one(2) x by (intro less.hyps) (auto simp: unsent_def)
      then obtain s' t' c' where IH: "dual_loop env opt it us k' p1 s1 q t c1 = Inr (s', t', c'\<lparr>c_iteration := c_iteration c1 + 1\<rparr>)" "s_cache s' = s_cache s1" "s_cache t' = s_cache t"
          "dual_progress (frames_on_wire (merge_by_time (unsent ?u p1 s1) (unsent ?u q t))) c1 c'" "\<not> c_abort c'" by blast
      have "dual_loop env opt it us k p s q t c = dual_loop env opt it us k' p1 s1 q t c1"
        using one(1) nxt(1) ab False True x unfolding dual_loop.simps [of env opt it us k p s q t c] by simp
      moreover have "dual_progress (frames_on_wire (merge_by_time (unsent ?u p s) (unsent ?u q t))) c c'"
        unfolding m using dual_progress_trans [OF one(3) IH(4)] nxt(2) True x by (simp add: frames_on_wire_def)
      ultimately show ?thesis using IH nxt(3) one(3) by (auto simp: dual_progress_def)
    next
      case F: False
      with False obtain x where x: "q = Some x" by (cases p; cases q) (auto simp: first_file_next_def)
      from dual_one_ok [OF _ less.prems(2) assms(1-5), of t x us Intf2 k] less.prems(4) x obtain k' c1 where
        one: "dual_one env opt it us Intf2 x k t c = Inr (k', t, c1)" "dual_ready c1" "dual_progress [(Intf2, captured x)] c c1"
        by (auto simp: unsent_def)
      from get_next_pending [of ?u t] less.prems(1) obtain q1 t1 where
        nxt: "get_next_packet ?u t = Inr (q1, t1)" "unsent ?u q1 t1 = delivers ?u t" "s_cache t1 = s_cache t" by blast
      have "\<exists>s' t' c'. dual_loop env opt it us k' p s q1 t1 c1 = Inr (s', t', c'\<lparr>c_iteration := c_iteration c1 + 1\<rparr>) \<and> s_cache s' = s_cache s \<and> s_cache t' = s_cache t1 \<and>
          dual_progress (frames_on_wire (merge_by_time (unsent ?u p s) (unsent ?u q1 t1))) c1 c' \<and> \<not> c_abort c'"
        using less.prems(1,3,4) nxt one(2) x by (intro less.hyps) (auto simp: unsent_def)
      then obtain s' t' c' where IH: "dual_loop env opt it us k' p s q1 t1 c1 = Inr (s', t', c'\<lparr>c_iteration := c_iteration c1 + 1\<rparr>)" "s_cache s' = s_cache s" "s_cache t' = s_cache t1"
          "dual_progress (frames_on_wire (merge_by_time (unsent ?u p s) (unsent ?u q1 t1))) c1 c'" "\<not> c_abort c'" by blast
      have "dual_loop env opt it us k p s q t c = dual_loop env opt it us k' p s q1 t1 c1"
        using one(1) nxt(1) ab False F x unfolding dual_loop.simps [of env opt it us k p s q t c] by simp
      moreover have "dual_progress (frames_on_wire (merge_by_time (unsent ?u p s) (unsent ?u q t))) c c'"
        unfolding m using dual_progress_trans [OF one(3) IH(4)] nxt(2) F x by (simp add: frames_on_wire_def)
      ultimately show ?thesis using IH nxt(3) one(3) by (auto simp: dual_progress_def)
    qed
  qed
qed

section \<open>Properties\<close>

text \<open>
  C17: two files at once.  Without a limit, and with the packets of both files read from the files or from their
  caches, \<^verbatim>\<open>send_dual_packets\<close> returns and sends every packet of the first file on the first interface and every packet of the
  second on the second, each file in its order, merged by time; if both files are in the order of time, so is the
  whole.  The counters count the packets, their bytes and the packets of each interface.
\<close>

theorem dual_files_merged:
  assumes "unattended env opt" "o_intf2 opt" "\<not> o_use_pkthdr_len opt" "\<not> (o_unique_ip opt \<and> c_iteration c \<noteq> 0)" "\<forall>k. prompt (e_answers env k)"
    "c_int (uint (o_limit_send opt)) \<le> 0" "o_preload_pcap opt \<longrightarrow> fc_cached fc \<and> fc_cached fc'" "dual_ready c"
    "ps = (if o_preload_pcap opt then fc_packets fc else pcap)" "qs = (if o_preload_pcap opt then fc_packets fc' else pcap')"
    "\<forall>p \<in> set ps. dual_fits (fc_dlt fc) p" "\<forall>q \<in> set qs. dual_fits (fc_dlt fc') q"
    "\<forall>p \<in> set ps \<union> set qs. timeval_ok (pkt_ts (fst p))"
  shows "\<exists>xs c'. send_dual_packets env opt pcap fc pcap' fc' c = Inr (fc, fc', c') \<and>
    c_wire c' = c_wire c @ map (\<lambda>(i, p). (i, captured p)) xs \<and>
    map snd (filter (\<lambda>x. fst x = Intf1) xs) = ps \<and> map snd (filter (\<lambda>x. fst x = Intf2) xs) = qs \<and>
    (sorted (map (\<lambda>p. microseconds (pkt_ts (fst p))) ps) \<and> sorted (map (\<lambda>p. microseconds (pkt_ts (fst p))) qs) \<longrightarrow>
      sorted (map (\<lambda>x. microseconds (pkt_ts (fst (snd x)))) xs)) \<and>
    c_pkts_sent c' = c_pkts_sent c + of_nat (length ps + length qs) \<and>
    sp_sent (c_intf c' Intf1) = sp_sent (c_intf c Intf1) + of_nat (length ps) \<and>
    sp_sent (c_intf c' Intf2) = sp_sent (c_intf c Intf2) + of_nat (length qs) \<and> c_iteration c' = c_iteration c + 1 \<and> \<not> c_abort c'"
proof -
  let ?u = "o_preload_pcap opt" and ?s = "\<lparr>s_pcap = pcap, s_cache = fc, s_prev = None\<rparr>" and ?t = "\<lparr>s_pcap = pcap', s_cache = fc', s_prev = None\<rparr>"
  have d: "delivers ?u ?s = ps" "delivers ?u ?t = qs" using assms(9,10) by (simp_all add: delivers_def)
  from get_next_pending [of ?u ?s] get_next_pending [of ?u ?t] assms(7) obtain p s q t where
    n: "get_next_packet ?u ?s = Inr (p, s)" "unsent ?u p s = ps" "s_cache s = fc" "get_next_packet ?u ?t = Inr (q, t)" "unsent ?u q t = qs" "s_cache t = fc'"
    unfolding d by auto
  let ?xs = "merge_by_time ps qs"
  have "\<exists>s' t' c'. dual_loop env opt (c_iteration c) (TIMEVAL_TO_MICROSEC (c_start_time c)) 0 p s q t c = Inr (s', t', c'\<lparr>c_iteration := c_iteration c + 1\<rparr>) \<and>
      s_cache s' = s_cache s \<and> s_cache t' = s_cache t \<and> dual_progress (frames_on_wire (merge_by_time (unsent ?u p s) (unsent ?u q t))) c c' \<and> \<not> c_abort c'"
    using assms by (intro dual_loop_ok) (simp_all add: n c_int_def)
  then obtain s' t' c' where "dual_loop env opt (c_iteration c) (TIMEVAL_TO_MICROSEC (c_start_time c)) 0 p s q t c = Inr (s', t', c'\<lparr>c_iteration := c_iteration c + 1\<rparr>)"
    "s_cache s' = fc" "s_cache t' = fc'" and pr: "dual_progress (frames_on_wire ?xs) c c'" "\<not> c_abort c'" unfolding n by blast
  then have run: "send_dual_packets env opt pcap fc pcap' fc' c = Inr (fc, fc', c'\<lparr>c_iteration := c_iteration c + 1\<rparr>)"
    by (simp add: send_dual_packets_def n)
  have f: "length (filter (\<lambda>f. fst f = i) (frames_on_wire xs)) = length (map snd (filter (\<lambda>x. fst x = i) xs))" for i xs
    by (induction xs) (auto simp: frames_on_wire_def)
  have "length ?xs = length ps + length qs" by (induction ps qs rule: merge_by_time.induct) simp_all
  moreover have "sorted (map (\<lambda>x. microseconds (pkt_ts (fst (snd x)))) ?xs)"
    if "sorted (map (\<lambda>p. microseconds (pkt_ts (fst p))) ps)" "sorted (map (\<lambda>p. microseconds (pkt_ts (fst p))) qs)"
    using merge_sorted [OF assms(13) that] by (simp add: packet_time_def [abs_def])
  ultimately show ?thesis using run pr merge_parts [of ps qs] f [of Intf1 ?xs] f [of Intf2 ?xs]
    by (intro exI [of _ ?xs] exI [of _ "c'\<lparr>c_iteration := c_iteration c + 1\<rparr>"]) (simp add: dual_progress_def frames_on_wire_def)
qed

theorem dual_files_merged_witness:
  "\<exists>dw xs c'. send_dual_packets sample_environment (sample_opt\<lparr>o_intf2 := True\<rparr>) [sample_pcap] \<lparr>fc_cached = False, fc_dlt = DLT_EN10MB, fc_packets = []\<rparr> [sample_pcap]
      \<lparr>fc_cached = False, fc_dlt = DLT_EN10MB, fc_packets = []\<rparr> (sample_ctx dw) =
      Inr (\<lparr>fc_cached = False, fc_dlt = DLT_EN10MB, fc_packets = []\<rparr>, \<lparr>fc_cached = False, fc_dlt = DLT_EN10MB, fc_packets = []\<rparr>, c') \<and>
    c_wire c' = map (\<lambda>(i, p). (i, captured p)) xs \<and> c_pkts_sent c' = 2"
proof -
  obtain dw :: data_warehouse where True by blast
  let ?fc = "\<lparr>fc_cached = False, fc_dlt = DLT_EN10MB, fc_packets = []\<rparr>"
  have "decode_entry sample_frame DLT_EN10MB \<noteq> None" by code_simp
  moreover have "length sample_frame = 58" by code_simp
  ultimately have fit: "dual_fits DLT_EN10MB sample_pcap" by (simp add: dual_fits_def sample_pcap_def PKT_BUFFER_SIZE_def)
  have ts: "timeval_ok (pkt_ts (fst sample_pcap))" by (simp add: sample_pcap_def timeval_ok_def timerclear_def)
  have rd: "dual_ready (sample_ctx dw)" using sample_ready(1) [of dw] by (simp add: dual_ready_def ready_def) (simp add: sample_ctx_def sample_sp_def)
  have o: "unattended sample_environment (sample_opt\<lparr>o_intf2 := True\<rparr>)" "\<not> o_use_pkthdr_len sample_opt" "c_int (uint (o_limit_send sample_opt)) \<le> 0"
    using sample_ready(2) sample_limit by (simp_all only: unattended_def) (simp_all add: sample_opt_def)
  show ?thesis
    using dual_files_merged [of sample_environment "sample_opt\<lparr>o_intf2 := True\<rparr>" "sample_ctx dw" ?fc ?fc "[sample_pcap]" "[sample_pcap]" "[sample_pcap]" "[sample_pcap]"]
      fit ts rd o sample_ready(3) by fastforce
qed

end
