(* ===== verification/Sender_Fifo.thy ===== *)
theory Sender_Fifo
  imports Bytes Task_Manager
begin

text \<open>
  The named pipes from the receivers back to the senders: the record they carry
  (\<^verbatim>\<open>public_lib/receiver_2_sender_proto.h\<close>), reading and writing it (\<^verbatim>\<open>multi_write_one_read_fifo.c\<close>) and the
  choice of the pipe (\<^verbatim>\<open>senderFIFOsManager.c\<close>).

  A pipe is the queue of its bytes.  A record is smaller than \<^verbatim>\<open>PIPE_BUF\<close>, so \<^verbatim>\<open>write\<close> either adds all of
  it or fails (the flag \<open>write_ok\<close>), whatever the other writers do; \<^verbatim>\<open>read\<close> returns the bytes there are, up
  to the size it is given.  What \<^verbatim>\<open>open\<close>, \<^verbatim>\<open>remove\<close> and \<^verbatim>\<open>mkfifo\<close> return is a parameter.
\<close>

section \<open>Records\<close>

record recv_2_send_proto =
  rp_srcip :: u32
  rp_dstip :: u32
  rp_src_port :: u16
  rp_dst_port :: u16
  rp_protocol :: u8
  rp_rece_seqid :: u32

text \<open>The 20 bytes of the struct; the three bytes after \<^verbatim>\<open>protocol\<close> are padding with arbitrary contents.\<close>

type_synonym padding = "u8 \<times> u8 \<times> u8"

definition proto_bytes :: "padding \<Rightarrow> recv_2_send_proto \<Rightarrow> u8 list" where
  "proto_bytes pad r =
    bytes_of_32 (rp_srcip r) @ bytes_of_32 (rp_dstip r) @ bytes16 (rp_src_port r) @ bytes16 (rp_dst_port r) @
    [rp_protocol r, fst pad, fst (snd pad), snd (snd pad)] @ bytes_of_32 (rp_rece_seqid r)"

definition proto_of_bytes :: "u8 list \<Rightarrow> recv_2_send_proto option" where
  "proto_of_bytes b = do {
     s \<leftarrow> ld32 b 0;
     d \<leftarrow> ld32 b 4;
     sp \<leftarrow> ld16 b 8;
     dp \<leftarrow> ld16 b 10;
     p \<leftarrow> ld8 b 12;
     q \<leftarrow> ld32 b 16;
     Some \<lparr>rp_srcip = s, rp_dstip = d, rp_src_port = sp, rp_dst_port = dp, rp_protocol = p, rp_rece_seqid = q\<rparr>
   }"

definition SIZEOF_PROTO :: nat where "SIZEOF_PROTO = 20"

section \<open>Reading and writing\<close>

definition writeConditionToFIFO :: "bool \<Rightarrow> padding \<Rightarrow> recv_2_send_proto \<Rightarrow> u8 list \<Rightarrow> u8 list \<times> int" where
  "writeConditionToFIFO write_ok pad p_recv_2_send_proto fifo =
    (let (fifo, wlen) = (if write_ok then (fifo @ proto_bytes pad p_recv_2_send_proto, SIZEOF_PROTO) else (fifo, 0))
     in if wlen \<noteq> SIZEOF_PROTO then (fifo, - 1) else (fifo, 0))"

text \<open>\<open>None\<close> is the return value \<open>-1\<close>.\<close>

definition readConditionFromFIFO :: "u8 list \<Rightarrow> u8 list \<times> recv_2_send_proto option" where
  "readConditionFromFIFO fifo =
    (let bytes = take SIZEOF_PROTO fifo; rlen = length bytes
     in (drop SIZEOF_PROTO fifo, if rlen \<noteq> SIZEOF_PROTO then None else proto_of_bytes bytes))"

section \<open>Files and handles\<close>

definition NUM_SENDERS :: nat where "NUM_SENDERS = 12"

definition FIRST_SENDER_IP_PREFIX :: u32 where "FIRST_SENDER_IP_PREFIX = 0x0A000000"

definition GET_SENDER_IDX :: "u32 \<Rightarrow> u32" where
  "GET_SENDER_IDX ip = drop_bit 24 (ip AND IP_MASK) - drop_bit 24 FIRST_SENDER_IP_PREFIX"

text \<open>\<^verbatim>\<open>snprintf\<close> into a buffer of the given size.\<close>

definition snprintf :: "nat \<Rightarrow> string \<Rightarrow> string" where
  "snprintf buffer_len s = take (buffer_len - 1) s"

definition get_sender_fifo_fname :: "nat \<Rightarrow> nat \<Rightarrow> string" where
  "get_sender_fifo_fname ith_sender buffer_len = snprintf buffer_len (''/tmp/fifo/h'' @ show_nat ith_sender @ ''_fifo'')"

definition sender_get_fifo_fname :: "string option \<Rightarrow> nat \<Rightarrow> string option" where
  "sender_get_fifo_fname dev buffer_len =
    (case get_mininet_host_name dev of
       None \<Rightarrow> None
     | Some hostname \<Rightarrow> Some (snprintf buffer_len (''/tmp/fifo/'' @ hostname @ ''_fifo'')))"

text \<open>The directory of pipes: a name maps to the contents of its pipe.  \<^verbatim>\<open>mkfifo\<close> fails on an existing name.\<close>

type_synonym pipes = "string \<rightharpoonup> u8 list"

definition createFIFOFile :: "(string \<Rightarrow> bool) \<Rightarrow> (string \<Rightarrow> bool) \<Rightarrow> string \<Rightarrow> pipes \<Rightarrow> pipes \<times> int" where
  "createFIFOFile remove_ok mkfifo_ok fifo_name fs =
    (let fs = (if fs fifo_name \<noteq> None \<and> remove_ok fifo_name then fs(fifo_name := None) else fs)
     in if fs fifo_name = None \<and> mkfifo_ok fifo_name then (fs(fifo_name \<mapsto> []), 0) else (fs, - 1))"

fun create_loop :: "(string \<Rightarrow> bool) \<Rightarrow> (string \<Rightarrow> bool) \<Rightarrow> nat list \<Rightarrow> pipes \<Rightarrow> pipes \<times> int" where
  "create_loop remove_ok mkfifo_ok [] fs = (fs, 0)"
| "create_loop remove_ok mkfifo_ok (i # is) fs =
    (let (fs, ret) = createFIFOFile remove_ok mkfifo_ok (get_sender_fifo_fname i 100) fs
     in if ret \<noteq> 0 then (fs, - 1) else create_loop remove_ok mkfifo_ok is fs)"

definition createFIFOFiles :: "(string \<Rightarrow> bool) \<Rightarrow> (string \<Rightarrow> bool) \<Rightarrow> pipes \<Rightarrow> pipes \<times> int" where
  "createFIFOFiles remove_ok mkfifo_ok fs = create_loop remove_ok mkfifo_ok [1..<NUM_SENDERS + 1] fs"

definition openFIFO :: "(string \<Rightarrow> int) \<Rightarrow> string \<Rightarrow> int" where
  "openFIFO open_ret fifo_name = open_ret fifo_name"

fun open_loop :: "(string \<Rightarrow> int) \<Rightarrow> nat list \<Rightarrow> int list \<Rightarrow> int list \<times> int" where
  "open_loop open_ret [] fifo_handlers = (fifo_handlers, 0)"
| "open_loop open_ret (i # is) fifo_handlers =
    (let fifo_handler = openFIFO open_ret (get_sender_fifo_fname i 100)
     in if fifo_handler < 0 then (fifo_handlers, - 1)
        else open_loop open_ret is (fifo_handlers[i - 1 := fifo_handler]))"

definition open_fifos :: "(string \<Rightarrow> int) \<Rightarrow> int list \<Rightarrow> int list \<times> int" where
  "open_fifos open_ret fifo_handlers = open_loop open_ret [1..<NUM_SENDERS + 1] fifo_handlers"

text \<open>\<open>None\<close>: the index is outside the array.\<close>

definition get_sender_fifo_handler :: "int list \<Rightarrow> u32 \<Rightarrow> int option" where
  "get_sender_fifo_handler fifo_handlers srcip =
    (let fifo_idx = sint (GET_SENDER_IDX srcip)
     in if 0 \<le> fifo_idx \<and> fifo_idx < int (length fifo_handlers) then Some (fifo_handlers ! nat fifo_idx) else None)"

section \<open>Lemmas\<close>

lemma proto_bytes_length [simp]: "length (proto_bytes pad r) = SIZEOF_PROTO"
  by (simp add: proto_bytes_def SIZEOF_PROTO_def)

lemma ld8_0 [simp]: "ld8 (x # xs) 0 = Some x"
  by (simp add: ld8_def)

lemma proto_roundtrip [simp]: "proto_of_bytes (proto_bytes pad r @ rest) = Some r"
  by (simp add: proto_of_bytes_def proto_bytes_def ld32_skip ld16_skip ld8_append ld16_Cons ld32_Cons)

lemma proto_roundtrip_nil [simp]: "proto_of_bytes (proto_bytes pad r) = Some r"
  using proto_roundtrip [of pad r "[]"] by simp

lemma read_proto [simp]: "readConditionFromFIFO (proto_bytes pad r @ rest) = (rest, Some r)"
  by (simp add: readConditionFromFIFO_def)

lemma write_proto [simp]: "writeConditionToFIFO True pad r fifo = (fifo @ proto_bytes pad r, 0)"
  by (simp add: writeConditionToFIFO_def)

text \<open>The index of an address of host \<open>i + 1\<close>.\<close>

lemma sender_idx:
  assumes "unat (drop_bit 24 ip) = i + 10" "i < 246"
  shows "GET_SENDER_IDX ip = word_of_nat i"
proof -
  have "uint (drop_bit 24 ip) < 2 ^ 8"
    using unsigned_less [where 'a = int and w = ip] by (simp add: drop_bit_eq_div uint_div)
  then have "drop_bit 24 (ip AND IP_MASK) = drop_bit 24 ip" by (simp only: mask_top_byte drop_push_byte)
  also have "\<dots> = word_of_nat (i + 10)" using assms(1) by (metis of_nat_unat ucast_id)
  finally show ?thesis by (simp add: GET_SENDER_IDX_def FIRST_SENDER_IP_PREFIX_def drop_bit_eq_div)
qed

lemma open_loop_spec:
  assumes "open_loop op is hs = (hs', 0)" "\<forall>i \<in> set is. 1 \<le> i \<and> i \<le> length hs" "distinct is"
  shows "length hs' = length hs \<and> (\<forall>i. i + 1 \<in> set is \<longrightarrow> hs' ! i = op (get_sender_fifo_fname (i + 1) 100) \<and> 0 \<le> hs' ! i) \<and>
    (\<forall>i. i + 1 \<notin> set is \<longrightarrow> hs' ! i = hs ! i)"
  using assms
proof (induction op "is" hs rule: open_loop.induct)
  case (2 op j js hs)
  let ?h = "op (get_sender_fifo_fname j 100)"
  from "2.prems"(1) have h: "0 \<le> ?h" and run: "open_loop op js (hs[j - 1 := ?h]) = (hs', 0)"
    by (auto simp: Let_def openFIFO_def split: if_splits)
  note IH = "2.IH" [OF refl, unfolded openFIFO_def, OF _ run]
  have j: "1 \<le> j" "j \<le> length hs" "j \<notin> set js" using "2.prems" by auto
  from IH h "2.prems" have *: "length hs' = length hs"
    "\<And>i. i + 1 \<in> set js \<Longrightarrow> hs' ! i = op (get_sender_fifo_fname (i + 1) 100) \<and> 0 \<le> hs' ! i"
    "\<And>i. i + 1 \<notin> set js \<Longrightarrow> hs' ! i = hs[j - 1 := ?h] ! i" by auto
  have "hs' ! i = op (get_sender_fifo_fname (i + 1) 100) \<and> 0 \<le> hs' ! i" if "i + 1 = j" for i
    using *(3) [of i] that j h by auto
  moreover have "hs' ! i = hs ! i" if "i + 1 \<notin> set (j # js)" for i
    using *(3) [of i] that j by (auto simp: nth_list_update)
  ultimately show ?case using * by (metis set_ConsD)
qed simp

lemma show_nat_small: "n < 100 \<Longrightarrow> length (show_nat n) \<le> 2"
  by (auto simp: show_nat.simps [of n] show_nat.simps [of "n div 10"])

text \<open>A host called \<open>h<i>\<close> and the receivers use the same name for its pipe.\<close>

lemma sender_fifo_fname:
  assumes "i < 100"
  shows "sender_get_fifo_fname (Some (CHR ''h'' # show_nat i @ CHR ''-'' # rest)) 100 = Some (get_sender_fifo_fname i 100)"
proof -
  have "takeWhile (\<lambda>c. c \<noteq> CHR ''-'') (show_nat i @ CHR ''-'' # rest) = show_nat i"
    using show_nat_no_dash by (subst takeWhile_append2) auto
  then show ?thesis by (simp add: sender_get_fifo_fname_def get_mininet_host_name_def get_sender_fifo_fname_def)
qed

lemma create_loop_spec:
  assumes "\<forall>n. remove_ok n \<and> mkfifo_ok n"
  shows "create_loop remove_ok mkfifo_ok is fs = (\<lambda>n. if n \<in> (\<lambda>i. get_sender_fifo_fname i 100) ` set is then Some [] else fs n, 0)"
  using assms by (induction "is" arbitrary: fs) (auto simp: createFIFOFile_def Let_def fun_eq_iff)

section \<open>Properties\<close>

text \<open>
  C35: reports are routed to the host that sent the packet.  Once a receiver has opened the pipes, the
  handle it uses for an address of host \<open>i\<close> is the one of the pipe that host \<open>i\<close> itself reads, for
  each of the 12 hosts.
\<close>

theorem fifo_routing:
  assumes "open_fifos open_ret (replicate 12 0) = (handlers, 0)"
    and "1 \<le> i" "i \<le> 12" "unat (drop_bit 24 ip) = i + 9"
  shows "\<exists>name. sender_get_fifo_fname (Some (CHR ''h'' # show_nat i @ CHR ''-'' # rest)) 100 = Some name \<and>
    get_sender_fifo_handler handlers ip = Some (open_ret name) \<and> 0 \<le> open_ret name"
proof -
  have "open_loop open_ret [1..<13] (replicate 12 0) = (handlers, 0)"
    using assms(1) by (simp add: open_fifos_def NUM_SENDERS_def)
  from open_loop_spec [OF this]
  have h: "length handlers = 12"
    "\<And>j. j + 1 \<in> set [1..<13] \<Longrightarrow> handlers ! j = open_ret (get_sender_fifo_fname (j + 1) 100) \<and> 0 \<le> handlers ! j"
    by auto
  from h(2) [of "i - 1"] assms(2,3) have "handlers ! (i - 1) = open_ret (get_sender_fifo_fname i 100)" "0 \<le> handlers ! (i - 1)"
    by auto
  moreover have "sint (GET_SENDER_IDX ip) = int (i - 1)"
    using sender_idx [of ip "i - 1"] sint_u32_of_nat [of "i - 1"] assms(2-4) by (simp del: of_nat_diff)
  then have "get_sender_fifo_handler handlers ip = Some (handlers ! (i - 1))"
    using h(1) assms(2,3) by (simp add: get_sender_fifo_handler_def Let_def del: of_nat_diff)
  ultimately show ?thesis using sender_fifo_fname [of i rest] assms(3) by simp
qed

theorem fifo_routing_witness:
  "\<exists>handlers. get_sender_fifo_handler handlers 0x0C000001 = Some (int (length ''/tmp/fifo/h3_fifo''))"
proof -
  let ?op = "\<lambda>n :: string. int (length n)"
  have ok: "snd (open_fifos ?op (replicate 12 0)) = 0" by code_simp
  then have "open_fifos ?op (replicate 12 0) = (fst (open_fifos ?op (replicate 12 0)), 0)" by (metis prod.collapse)
  from fifo_routing [OF this, of 3 "0x0C000001" "''eth0''"]
  have "\<exists>name. sender_get_fifo_fname (Some (CHR ''h'' # show_nat 3 @ CHR ''-'' # ''eth0'')) 100 = Some name \<and>
    get_sender_fifo_handler (fst (open_fifos ?op (replicate 12 0))) 0x0C000001 = Some (?op name)"
    by (auto simp: drop_bit_eq_div)
  moreover have "sender_get_fifo_fname (Some (CHR ''h'' # show_nat 3 @ CHR ''-'' # ''eth0'')) 100 = Some ''/tmp/fifo/h3_fifo''"
    by code_simp
  ultimately show ?thesis by auto
qed

end
