(* ===== verification/B4_Mapping.thy ===== *)
theory B4_Mapping
  imports Data_Warehouse Sender_Fifo
begin

text \<open>
  \<^verbatim>\<open>pcapFileGenerator/srcip_dstip_to_b4_srcip_dstip.c\<close>: the trace generator gives every address of the
  original trace an address of one of the 12 hosts of the topology, in order of appearance and host by
  host.  The laws of the hash tables are those of the theory \<open>Data_Warehouse\<close> (\<open>tab_ok\<close>, \<open>tab_map\<close>).
\<close>

section \<open>State and operations\<close>

record b4_maps =
  srcip_to_node_idx_map :: "hashtable_kfs_vi option"
  srcip_to_node_srcip_map :: "hashtable_kfs_vi option"
  dstip_to_node_idx_map :: "hashtable_kfs_vi option"
  dstip_to_node_dstip_map :: "hashtable_kfs_vi option"
  unique_srcip_num :: u64
  unique_dstip_num :: u64
  unique_ip_num :: u64

text \<open>\<open>ok n\<close>: does the \<open>n\<close>-th allocation succeed.  On failure the tables are left as they are.\<close>

definition init_srcip_dstip_to_b4_srcip_dstip :: "(nat \<Rightarrow> bool) \<Rightarrow> b4_maps \<Rightarrow> b4_maps \<times> int" where
  "init_srcip_dstip_to_b4_srcip_dstip ok b =
    (let b = b\<lparr>srcip_to_node_idx_map := ht_kfs_vi_create (ok 0), srcip_to_node_srcip_map := ht_kfs_vi_create (ok 1),
               dstip_to_node_idx_map := ht_kfs_vi_create (ok 2), dstip_to_node_dstip_map := ht_kfs_vi_create (ok 3)\<rparr>
     in if srcip_to_node_idx_map b = None \<or> srcip_to_node_srcip_map b = None \<or>
           dstip_to_node_idx_map b = None \<or> dstip_to_node_dstip_map b = None
        then (b, - 1)
        else (b\<lparr>unique_srcip_num := 0, unique_dstip_num := 0, unique_ip_num := 0\<rparr>, 0))"

text \<open>The entries handed to \<^verbatim>\<open>free\<close>.\<close>

definition destory_srcip_dstip_to_b4_srcip_dstip :: "b4_maps \<Rightarrow> entry_kfs_vi list" where
  "destory_srcip_dstip_to_b4_srcip_dstip b =
    ht_kfs_vi_destory (srcip_to_node_idx_map b) @ ht_kfs_vi_destory (srcip_to_node_srcip_map b) @
    ht_kfs_vi_destory (dstip_to_node_idx_map b) @ ht_kfs_vi_destory (dstip_to_node_dstip_map b)"

definition ip_key :: "u32 \<Rightarrow> flow_src" where
  "ip_key ip = \<lparr>fs_srcip = ip, fs_dstip = 0\<rparr>"

text \<open>\<^verbatim>\<open>int num_ip_per_node = (unique_ip_num-1) / NUM_SENDERS\<close>\<close>

definition num_ip_per_node :: "u64 \<Rightarrow> int" where
  "num_ip_per_node unique = c_int (uint ((unique - 1) div word_of_nat NUM_SENDERS))"

text \<open>Node and address of \<^verbatim>\<open>ip\<close>.\<close>

definition get_mapped_info :: "(flow_src \<Rightarrow> u32 \<Rightarrow> u32) \<Rightarrow> u32 \<Rightarrow> b4_maps \<Rightarrow> b4_maps \<times> u32 \<times> u32" where
  "get_mapped_info hb ip b =
    (let flow = ip_key ip; ret = ht_kfs_vi_get hb (srcip_to_node_idx_map b) flow
     in if ret < 0 then
          let unique = unique_ip_num b + 1;
              mapped_nodeid = ucast (unique mod word_of_nat NUM_SENDERS);
              mapped_ip = ITH_SENDER_START_IP (uint mapped_nodeid) + word_of_int (num_ip_per_node unique)
          in (b\<lparr>unique_ip_num := unique,
                srcip_to_node_idx_map := ht_kfs_vi_set hb (srcip_to_node_idx_map b) flow mapped_nodeid,
                srcip_to_node_srcip_map := ht_kfs_vi_set hb (srcip_to_node_srcip_map b) flow mapped_ip\<rparr>,
              mapped_nodeid, mapped_ip)
        else (b, word_of_int ret, word_of_int (ht_kfs_vi_get hb (srcip_to_node_srcip_map b) flow)))"

text \<open>The two older functions work on the maps and counters they are given; the program does not call them.\<close>

definition get_mapped_nodeid :: "(flow_src \<Rightarrow> u32 \<Rightarrow> u32) \<Rightarrow> hashtable_kfs_vi option \<Rightarrow> u32 \<Rightarrow> u64 \<Rightarrow>
    (hashtable_kfs_vi option \<times> u64) \<times> u32" where
  "get_mapped_nodeid hb ip_to_node_idx_map ip unique =
    (let flow = ip_key ip; ret = ht_kfs_vi_get hb ip_to_node_idx_map flow
     in if ret < 0 then
          let unique = unique + 1; node_idx = c_int (uint (unique mod word_of_nat NUM_SENDERS))
          in ((ht_kfs_vi_set hb ip_to_node_idx_map flow (word_of_int node_idx), unique), word_of_int node_idx)
        else ((ip_to_node_idx_map, unique), word_of_int ret))"

definition get_mapped_ip :: "(flow_src \<Rightarrow> u32 \<Rightarrow> u32) \<Rightarrow> hashtable_kfs_vi option \<Rightarrow> u32 \<Rightarrow> u64 \<Rightarrow>
    hashtable_kfs_vi option \<times> u32" where
  "get_mapped_ip hb ip_to_node_ip_map ip unique =
    (let flow = ip_key ip; ret = ht_kfs_vi_get hb ip_to_node_ip_map flow
     in if ret < 0 then
          let node_idx = c_int (uint (unique mod word_of_nat NUM_SENDERS));
              mapped_ip = ITH_SENDER_START_IP node_idx + word_of_int (num_ip_per_node unique)
          in (ht_kfs_vi_set hb ip_to_node_ip_map flow mapped_ip, mapped_ip)
        else (ip_to_node_ip_map, word_of_int ret))"

text \<open>A run of lookups, with the results in order.\<close>

fun map_ips :: "(flow_src \<Rightarrow> u32 \<Rightarrow> u32) \<Rightarrow> u32 list \<Rightarrow> b4_maps \<Rightarrow> b4_maps \<times> (u32 \<times> u32) list" where
  "map_ips hb [] b = (b, [])"
| "map_ips hb (ip # ips) b =
    (case get_mapped_info hb ip b of
       (b, r) \<Rightarrow> (case map_ips hb ips b of (b, rs) \<Rightarrow> (b, r # rs)))"

section \<open>The numbering\<close>

text \<open>Node and address of the \<open>i\<close>-th new address of the trace, counting from 0.\<close>

definition node_of :: "nat \<Rightarrow> nat" where "node_of i = Suc i mod 12"

definition addr_of :: "nat \<Rightarrow> nat" where "addr_of i = (10 + node_of i) * 2 ^ 24 + i div 12"

definition IP_CAPACITY :: nat where "IP_CAPACITY = 12 * 2 ^ 24"

lemma addr_of_less: "i < IP_CAPACITY \<Longrightarrow> addr_of i < 2 ^ 31"
proof -
  assume "i < IP_CAPACITY"
  then have "i div 12 < 2 ^ 24" by (simp add: IP_CAPACITY_def less_mult_imp_div_less)
  moreover have "node_of i \<le> 11" by (simp add: node_of_def)
  ultimately show ?thesis by (simp add: addr_of_def)
qed

lemma addr_of_node: "i < IP_CAPACITY \<Longrightarrow> addr_of i div 2 ^ 24 = 10 + node_of i"
  by (simp add: addr_of_def IP_CAPACITY_def less_mult_imp_div_less div_mult_self3)

lemma addr_of_inj:
  assumes "i < IP_CAPACITY" "j < IP_CAPACITY" "addr_of i = addr_of j"
  shows "i = j"
proof -
  have "10 + node_of i = 10 + node_of j"
    unfolding addr_of_node [OF assms(1), symmetric] addr_of_node [OF assms(2), symmetric] assms(3) by (rule refl)
  then have n: "node_of i = node_of j" by (rule add_left_imp_eq)
  from assms(3) have d: "i div 12 = j div 12" unfolding addr_of_def n by (rule add_left_imp_eq)
  from n have m: "i mod 12 = j mod 12" unfolding node_of_def mod_Suc by (auto split: if_splits)
  have "i = i div 12 * 12 + i mod 12" by (rule div_mult_mod_eq [symmetric])
  also have "\<dots> = j" unfolding d m by (rule div_mult_mod_eq)
  finally show ?thesis .
qed

text \<open>The machine arithmetic of a new address: counter \<open>k + 1\<close>.\<close>

lemma new_address:
  assumes "unat (u :: u64) = k" "k < IP_CAPACITY"
  shows "unat (u + 1) = Suc k" "ucast ((u + 1) mod word_of_nat NUM_SENDERS) = (word_of_nat (node_of k) :: u32)"
    "ITH_SENDER_START_IP (int (node_of k)) + word_of_int (num_ip_per_node (u + 1)) = word_of_nat (addr_of k)"
proof -
  have k: "Suc k < 2 ^ 64" using assms(2) by (simp add: IP_CAPACITY_def)
  show u1: "unat (u + 1) = Suc k"
    using assms(1) k by (simp add: unat_word_ariths(1))
  have "unat ((u + 1) mod word_of_nat NUM_SENDERS) = node_of k"
    by (simp add: unat_mod u1 NUM_SENDERS_def node_of_def)
  then have "(u + 1) mod word_of_nat NUM_SENDERS = word_of_nat (node_of k)" by (metis of_nat_unat ucast_id)
  moreover have "node_of k < 12" by (simp add: node_of_def)
  ultimately show "ucast ((u + 1) mod word_of_nat NUM_SENDERS) = (word_of_nat (node_of k) :: u32)"
    by (simp add: unsigned_of_nat take_bit_nat_eq_self)
  have "unat ((u + 1 - 1) div word_of_nat NUM_SENDERS) = k div 12" using assms(1) by (simp add: unat_div NUM_SENDERS_def)
  then have "uint ((u + 1 - 1) div word_of_nat NUM_SENDERS) = int (k div 12)" by (metis of_nat_unat ucast_id uint_nat)
  moreover have "k div 12 < 2 ^ 24" using assms(2) by (simp add: IP_CAPACITY_def less_mult_imp_div_less)
  ultimately have "num_ip_per_node (u + 1) = int (k div 12)" by (simp add: num_ip_per_node_def int_range_def)
  then show "ITH_SENDER_START_IP (int (node_of k)) + word_of_int (num_ip_per_node (u + 1)) = word_of_nat (addr_of k)"
    by (simp add: ITH_SENDER_START_IP_def addr_of_def algebra_simps)
qed

text \<open>The maps hold a numbering of the addresses seen so far.\<close>

definition b4_inv :: "(flow_src \<Rightarrow> u32 \<Rightarrow> u32) \<Rightarrow> (u32 \<rightharpoonup> nat) \<Rightarrow> b4_maps \<Rightarrow> bool" where
  "b4_inv hb num b \<longleftrightarrow> tab_ok hb (srcip_to_node_idx_map b) \<and> tab_ok hb (srcip_to_node_srcip_map b) \<and>
    (\<forall>ip i. num ip = Some i \<longrightarrow> i < unat (unique_ip_num b)) \<and>
    (\<forall>ip ip' i. num ip = Some i \<and> num ip' = Some i \<longrightarrow> ip = ip') \<and> unat (unique_ip_num b) \<le> IP_CAPACITY \<and>
    (\<forall>ip. tab_map hb (srcip_to_node_idx_map b) (ip_key ip) = map_option (\<lambda>i. word_of_nat (node_of i)) (num ip)) \<and>
    (\<forall>ip. tab_map hb (srcip_to_node_srcip_map b) (ip_key ip) = map_option (\<lambda>i. word_of_nat (addr_of i)) (num ip))"

lemma ip_key_inj [simp]: "ip_key a = ip_key b \<longleftrightarrow> a = b"
  by (simp add: ip_key_def)

lemma b4_inv_less: "b4_inv hb num b \<Longrightarrow> num ip = Some i \<Longrightarrow> i < IP_CAPACITY"
  by (fastforce simp: b4_inv_def)

context flow_src_hash
begin

lemma init_b4:
  assumes "init_srcip_dstip_to_b4_srcip_dstip ok b = (b', 0)"
  shows "b4_inv hb Map.empty b' \<and> unique_ip_num b' = 0"
proof -
  have "tab_ok hb (Some (ct_create HASH_MAP_SIZE) :: hashtable_kfs_vi option)"
    "tab_map hb (Some (ct_create HASH_MAP_SIZE) :: hashtable_kfs_vi option) = Map.empty"
    using tab_create(1) tab_create(2) [of True] by (simp_all add: ht_kfs_vi_create_def)
  with assms show ?thesis
    by (auto simp: init_srcip_dstip_to_b4_srcip_dstip_def b4_inv_def Let_def ht_kfs_vi_create_def split: if_splits)
qed

lemma mapped_info_new:
  assumes inv: "b4_inv hb num b" and new: "num ip = None" and cap: "unat (unique_ip_num b) < IP_CAPACITY"
  defines "k \<equiv> unat (unique_ip_num b)"
  shows "\<exists>b'. get_mapped_info hb ip b = (b', word_of_nat (node_of k), word_of_nat (addr_of k)) \<and>
    b4_inv hb (num(ip \<mapsto> k)) b' \<and> unat (unique_ip_num b') = Suc k"
proof -
  have "unat (unique_ip_num b) = k" "k < IP_CAPACITY" using cap by (simp_all add: k_def)
  note na = new_address [OF this]
  have ok: "tab_ok hb (srcip_to_node_idx_map b)" "tab_ok hb (srcip_to_node_srcip_map b)" using inv by (simp_all add: b4_inv_def)
  have node: "uint (word_of_nat (node_of k) :: u32) = int (node_of k)"
    by (simp add: node_of_def unsigned_of_nat take_bit_nat_eq_self)
  have "ht_kfs_vi_get hb (srcip_to_node_idx_map b) (ip_key ip) = - 1"
    using inv new by (simp add: tab_get b4_inv_def)
  then have r: "get_mapped_info hb ip b = (b\<lparr>unique_ip_num := unique_ip_num b + 1,
      srcip_to_node_idx_map := ht_kfs_vi_set hb (srcip_to_node_idx_map b) (ip_key ip) (word_of_nat (node_of k)),
      srcip_to_node_srcip_map := ht_kfs_vi_set hb (srcip_to_node_srcip_map b) (ip_key ip) (word_of_nat (addr_of k))\<rparr>,
      word_of_nat (node_of k), word_of_nat (addr_of k))"
    by (simp add: get_mapped_info_def Let_def na node)
  have fresh: "\<And>ip' i. num ip' = Some i \<Longrightarrow> i < k" using inv by (simp add: b4_inv_def k_def)
  have "b4_inv hb (num(ip \<mapsto> k)) (fst (get_mapped_info hb ip b))"
    using inv fresh \<open>k < IP_CAPACITY\<close> unfolding b4_inv_def r
    by (auto simp: tab_set [OF ok(1)] tab_set [OF ok(2)] na(1) less_Suc_eq dest: fresh)
  then show ?thesis using r na(1) by simp
qed

lemma mapped_info_old:
  assumes inv: "b4_inv hb num b" and old: "num ip = Some i"
  shows "get_mapped_info hb ip b = (b, word_of_nat (node_of i), word_of_nat (addr_of i))"
proof -
  have "addr_of i < 2147483648" using addr_of_less [OF b4_inv_less [OF assms]] by simp
  then have a: "sint (word_of_nat (addr_of i) :: u32) = int (addr_of i)" by (rule sint_u32_of_nat)
  have "node_of i < 2147483648" by (simp add: node_of_def)
  then have n: "sint (word_of_nat (node_of i) :: u32) = int (node_of i)" by (rule sint_u32_of_nat)
  have "ht_kfs_vi_get hb (srcip_to_node_idx_map b) (ip_key ip) = int (node_of i)"
    "ht_kfs_vi_get hb (srcip_to_node_srcip_map b) (ip_key ip) = int (addr_of i)"
    using inv old by (simp_all add: tab_get b4_inv_def a n)
  then show ?thesis by (simp add: get_mapped_info_def)
qed

text \<open>Both cases together, and runs of lookups.\<close>

lemma mapped_info_spec:
  assumes inv: "b4_inv hb num b" and cap: "unat (unique_ip_num b) < IP_CAPACITY"
  shows "\<exists>b' num' i. get_mapped_info hb ip b = (b', word_of_nat (node_of i), word_of_nat (addr_of i)) \<and>
    b4_inv hb num' b' \<and> num \<subseteq>\<^sub>m num' \<and> num' ip = Some i \<and> unat (unique_ip_num b') \<le> Suc (unat (unique_ip_num b))"
proof (cases "num ip")
  case None
  from mapped_info_new [OF inv this cap] None show ?thesis
    by (auto simp: map_le_def dom_def intro!: exI [of _ "num(ip \<mapsto> unat (unique_ip_num b))"])
next
  case (Some i)
  from mapped_info_old [OF inv this] inv Some show ?thesis by (intro exI [of _ b] exI [of _ num] exI [of _ i]) simp
qed

lemma map_ips_spec:
  assumes "b4_inv hb num b" "unat (unique_ip_num b) + length ips \<le> IP_CAPACITY"
  shows "\<exists>b' rs num'. map_ips hb ips b = (b', rs) \<and> b4_inv hb num' b' \<and> num \<subseteq>\<^sub>m num' \<and>
    list_all2 (\<lambda>ip r. \<exists>i. num' ip = Some i \<and> r = (word_of_nat (node_of i), word_of_nat (addr_of i))) ips rs"
  using assms
proof (induction ips arbitrary: num b)
  case (Cons ip ips)
  from Cons.prems(2) have "unat (unique_ip_num b) < IP_CAPACITY" by simp
  from mapped_info_spec [OF Cons.prems(1) this, of ip] obtain b1 num1 i where
    1: "get_mapped_info hb ip b = (b1, word_of_nat (node_of i), word_of_nat (addr_of i))" "b4_inv hb num1 b1"
      "num \<subseteq>\<^sub>m num1" "num1 ip = Some i" "unat (unique_ip_num b1) \<le> Suc (unat (unique_ip_num b))" by blast
  from Cons.IH [OF 1(2)] 1(5) Cons.prems(2) obtain b2 rs num2 where
    2: "map_ips hb ips b1 = (b2, rs)" "b4_inv hb num2 b2" "num1 \<subseteq>\<^sub>m num2"
      "list_all2 (\<lambda>ip r. \<exists>i. num2 ip = Some i \<and> r = (word_of_nat (node_of i), word_of_nat (addr_of i))) ips rs"
    by fastforce
  have "num2 ip = Some i" using 1(4) 2(3) by (metis domI map_le_def)
  with 1 2 map_le_trans [OF 1(3) 2(3)] show ?case by auto
qed auto

end

text \<open>An address and its node, from the number.\<close>

lemma addr_node_idx:
  assumes "i < IP_CAPACITY"
  shows "GET_SENDER_IDX (word_of_nat (addr_of i)) = word_of_nat (node_of i)"
    "unat (word_of_nat (addr_of i) :: u32) = addr_of i"
proof -
  have a: "addr_of i < 2 ^ 32" using addr_of_less [OF assms] by simp
  show u: "unat (word_of_nat (addr_of i) :: u32) = addr_of i" using a by (simp add: unat_of_nat)
  have "unat (drop_bit 24 (word_of_nat (addr_of i) :: u32)) = unat (word_of_nat (addr_of i) :: u32) div 2 ^ 24"
    by (simp add: drop_bit_eq_div unat_div)
  then have "unat (drop_bit 24 (word_of_nat (addr_of i) :: u32)) = node_of i + 10"
    unfolding u addr_of_node [OF assms] by simp
  then show "GET_SENDER_IDX (word_of_nat (addr_of i)) = word_of_nat (node_of i)"
    by (rule sender_idx) (simp add: node_of_def)
qed

section \<open>Properties\<close>

text \<open>
  C29: the address mapping of the trace generator.  As long as a trace has at most \<open>12 * 2 ^ 24\<close> addresses,
  every address is mapped to a host from 0 to 11 and to an address inside the prefix of that host, the
  same address always to the same one, and different addresses to different ones.
\<close>

theorem address_mapping:
  assumes "flow_src_hash hb" "init_srcip_dstip_to_b4_srcip_dstip ok b0 = (b, 0)" "length ips \<le> IP_CAPACITY"
    and "map_ips hb ips b = (b', rs)"
  shows "length rs = length ips \<and>
    (\<forall>j < length ips. fst (rs ! j) < 12 \<and> GET_SENDER_IDX (snd (rs ! j)) = fst (rs ! j)) \<and>
    (\<forall>j < length ips. \<forall>k < length ips. snd (rs ! j) = snd (rs ! k) \<longleftrightarrow> ips ! j = ips ! k)"
proof -
  from flow_src_hash.init_b4 [OF assms(1,2)] have "b4_inv hb Map.empty b" "unat (unique_ip_num b) + length ips \<le> IP_CAPACITY"
    using assms(3) by simp_all
  from flow_src_hash.map_ips_spec [OF assms(1) this] assms(4) obtain num where inv: "b4_inv hb num b'"
    and all: "list_all2 (\<lambda>ip r. \<exists>i. num ip = Some i \<and> r = (word_of_nat (node_of i), word_of_nat (addr_of i))) ips rs" by auto
  have len: "length rs = length ips" using list_all2_lengthD [OF all] by simp
  have nth: "\<exists>i. num (ips ! j) = Some i \<and> i < IP_CAPACITY \<and> rs ! j = (word_of_nat (node_of i), word_of_nat (addr_of i))"
    if "j < length ips" for j using list_all2_nthD [OF all that] b4_inv_less [OF inv] by blast
  have "fst (rs ! j) < 12 \<and> GET_SENDER_IDX (snd (rs ! j)) = fst (rs ! j)" if j: "j < length ips" for j
  proof -
    obtain i where i: "i < IP_CAPACITY" "rs ! j = (word_of_nat (node_of i), word_of_nat (addr_of i))" using nth [OF j] by blast
    have "node_of i < 12" by (simp add: node_of_def)
    then have "(word_of_nat (node_of i) :: u32) < 12" by (simp add: word_less_nat_alt unat_of_nat)
    then show ?thesis using i addr_node_idx(1) by simp
  qed
  moreover have "snd (rs ! j) = snd (rs ! k) \<longleftrightarrow> ips ! j = ips ! k" if jk: "j < length ips" "k < length ips" for j k
  proof -
    obtain i where i: "num (ips ! j) = Some i" "i < IP_CAPACITY" "rs ! j = (word_of_nat (node_of i), word_of_nat (addr_of i))"
      using nth [OF jk(1)] by blast
    obtain l where l: "num (ips ! k) = Some l" "l < IP_CAPACITY" "rs ! k = (word_of_nat (node_of l), word_of_nat (addr_of l))"
      using nth [OF jk(2)] by blast
    have "snd (rs ! j) = snd (rs ! k) \<longleftrightarrow> i = l"
      using i(2,3) l(2,3) addr_node_idx(2) addr_of_inj by (metis snd_conv)
    also have "\<dots> \<longleftrightarrow> ips ! j = ips ! k" using inv i(1) l(1) by (auto simp: b4_inv_def)
    finally show ?thesis .
  qed
  ultimately show ?thesis using len by blast
qed

definition b4_zero :: b4_maps where
  "b4_zero = \<lparr>srcip_to_node_idx_map = None, srcip_to_node_srcip_map = None, dstip_to_node_idx_map = None,
     dstip_to_node_dstip_map = None, unique_srcip_num = 0, unique_dstip_num = 0, unique_ip_num = 0\<rparr>"

theorem address_mapping_witness:
  "\<exists>b b' rs. init_srcip_dstip_to_b4_srcip_dstip (\<lambda>_. True) b4_zero = (b, 0) \<and> map_ips flow_src_hash_bin [7, 9, 7] b = (b', rs) \<and>
    length rs = 3 \<and> snd (rs ! 0) \<noteq> snd (rs ! 1) \<and> snd (rs ! 0) = snd (rs ! 2)"
proof -
  obtain b where b: "init_srcip_dstip_to_b4_srcip_dstip (\<lambda>_. True) b4_zero = (b, 0)"
    by (simp add: init_srcip_dstip_to_b4_srcip_dstip_def ht_kfs_vi_create_def Let_def)
  obtain b' rs where r: "map_ips flow_src_hash_bin [7, 9, 7] b = (b', rs)" by (meson surj_pair)
  have cap: "length [7, 9, 7 :: u32] \<le> IP_CAPACITY" by (simp add: IP_CAPACITY_def)
  note m = address_mapping [OF murmur.flow_src_hash_axioms b cap r]
  from m have l: "length rs = 3" by simp
  from m have e: "j < 3 \<Longrightarrow> k < 3 \<Longrightarrow> snd (rs ! j) = snd (rs ! k) \<longleftrightarrow> [7, 9, 7 :: u32] ! j = [7, 9, 7] ! k" for j k by simp
  show ?thesis using b r l e [of 0 1] e [of 0 2] by auto
qed

end
