(* ===== verification/Receiver.thy ===== *)
theory Receiver
  imports Packet_Handler Sender_Fifo
begin

text \<open>
  \<^verbatim>\<open>receiverSendReceFlowSeqid/receiverSendReceFlowSeqid.c\<close>: a receiver captures packets with libpcap and
  writes, for every TCP packet from another host, the 5-tuple and the sequence number to the pipe of
  the sender.  Capturing (\<^verbatim>\<open>setup\<close>, \<^verbatim>\<open>pcap_loop\<close>) is libpcap's; the callback \<^verbatim>\<open>got_packet\<close> is modelled on
  the captured bytes, with \<open>None\<close> for an access outside a buffer or an array.
\<close>

section \<open>State and operations\<close>

text \<open>The globals of the program; \<open>rc_pipes\<close> are the pipes behind the handles.\<close>

record receiver =
  rc_net_identity :: u32
  rc_received_pkts :: u32
  rc_received_condition_pkts :: u32
  rc_fifo_handlers :: "int list"
  rc_pipes :: "int \<Rightarrow> u8 list"

definition GET_NET_IDENTITY :: "u32 \<Rightarrow> u32" where
  "GET_NET_IDENTITY x = drop_bit 24 x"

definition get_ethernet_header_len :: "u8 list \<Rightarrow> nat option" where
  "get_ethernet_header_len packet = do {
     t \<leftarrow> ld16 packet 12;
     Some (if ntohs t = ETHERTYPE_VLAN then 18 else 14)
   }"

text \<open>The record filled from the IP header at \<open>ip\<close> and the TCP header at \<open>tcp\<close>.\<close>

definition tcp_record :: "u8 list \<Rightarrow> nat \<Rightarrow> nat \<Rightarrow> u8 \<Rightarrow> recv_2_send_proto option" where
  "tcp_record packet_buffer ip tcp ip_p = do {
     src \<leftarrow> ld32 packet_buffer (ip + 12);
     dst \<leftarrow> ld32 packet_buffer (ip + 16);
     sp \<leftarrow> ld16 packet_buffer tcp;
     dp \<leftarrow> ld16 packet_buffer (tcp + 2);
     sq \<leftarrow> ld32 packet_buffer (tcp + 4);
     Some \<lparr>rp_srcip = ntohl src, rp_dstip = ntohl dst, rp_src_port = ntohs sp, rp_dst_port = ntohs dp,
       rp_protocol = ip_p, rp_rece_seqid = ntohl sq\<rparr>
   }"

text \<open>Filtering the packets this host sent itself, and writing the others to the pipe of their sender.\<close>

definition send_report :: "bool \<Rightarrow> padding \<Rightarrow> recv_2_send_proto \<Rightarrow> receiver \<Rightarrow> receiver option" where
  "send_report write_ok pad packet rc =
    (if GET_NET_IDENTITY (rp_srcip packet) XOR rc_net_identity rc = 0 then Some rc
     else case get_sender_fifo_handler (rc_fifo_handlers rc) (rp_srcip packet) of
            None \<Rightarrow> None
          | Some h \<Rightarrow>
              Some (rc\<lparr>rc_pipes := (rc_pipes rc)(h := fst (writeConditionToFIFO write_ok pad packet (rc_pipes rc h))),
                rc_received_pkts := rc_received_pkts rc + 1\<rparr>))"

definition got_packet :: "bool \<Rightarrow> padding \<Rightarrow> u8 list \<Rightarrow> receiver \<Rightarrow> receiver option" where
  "got_packet write_ok pad packet_buffer rc = do {
     ethernet_header_len \<leftarrow> get_ethernet_header_len packet_buffer;
     v \<leftarrow> ld8 packet_buffer ethernet_header_len;
     let size_ip = unat (v AND 0x0F) * 4;
     if size_ip < 20 then Some rc
     else do {
       ip_p \<leftarrow> ld8 packet_buffer (ethernet_header_len + 9);
       if ip_p = 0x06 then do {
         let tcp = ethernet_header_len + size_ip;
         off \<leftarrow> ld8 packet_buffer (tcp + 12);
         let size_tcp = unat (drop_bit 4 off) * 4;
         if size_tcp < 20 then Some rc
         else do { packet \<leftarrow> tcp_record packet_buffer ethernet_header_len tcp ip_p; send_report write_ok pad packet rc }
       } else if ip_p = 0x11 then Some (rc\<lparr>rc_received_condition_pkts := rc_received_condition_pkts rc + 1\<rparr>)
       else Some rc
     }
   }"

text \<open>
  What \<^verbatim>\<open>main\<close> does before it enters \<^verbatim>\<open>pcap_loop\<close>; \<open>None\<close> is the exit with \<open>-1\<close>.  The handles are a global
  array, zero at the start.
\<close>

definition receiver_main :: "string list \<Rightarrow> (string \<Rightarrow> int) \<Rightarrow> int \<Rightarrow> (int \<Rightarrow> u8 list) \<Rightarrow> receiver option" where
  "receiver_main argv open_ret setup_ret pipes =
    (if length argv \<noteq> 2 then None
     else case open_fifos open_ret (replicate NUM_SENDERS 0) of
            (fifo_handlers, ret) \<Rightarrow>
              if ret \<noteq> 0 \<or> setup_ret < 0 then None
              else Some \<lparr>rc_net_identity = word_of_int (strtol_int (argv ! 1)), rc_received_pkts = 0,
                rc_received_condition_pkts = 0, rc_fifo_handlers = fifo_handlers, rc_pipes = pipes\<rparr>)"

section \<open>Agreement with the sender\<close>

lemma xor_eq_0: "a XOR b = 0 \<longleftrightarrow> a = (b :: u32)"
proof
  assume "a XOR b = 0"
  moreover have "a = (a XOR b) XOR b" by (simp add: xor.assoc)
  ultimately show "a = b" by simp
qed simp

definition report_of :: "packet \<Rightarrow> u32 \<Rightarrow> recv_2_send_proto" where
  "report_of p seqid = \<lparr>rp_srcip = p_srcip p, rp_dstip = p_dstip p, rp_src_port = p_src_port p, rp_dst_port = p_dst_port p,
     rp_protocol = p_protocol p, rp_rece_seqid = seqid\<rparr>"

text \<open>
  The two programs parse packets independently: the sender skips any number of VLAN tags and assumes an
  IP header of 20 bytes, the receiver skips at most one tag and reads the header length.  On frames
  with at most one tag and without IP options they agree.
\<close>

definition plain_tcp :: "u8 list \<Rightarrow> nat \<Rightarrow> bool" where
  "plain_tcp b e \<longleftrightarrow> get_ethernet_header_len b = Some e \<and>
    (case ld16 b (e - 2) of None \<Rightarrow> False | Some t \<Rightarrow> ntohs t = ETHERTYPE_IP) \<and>
    (case ld8 b e of None \<Rightarrow> False | Some v \<Rightarrow> v AND 0x0F = 5) \<and> ld8 b (e + 9) = Some 6 \<and>
    (case ld8 b (e + 32) of None \<Rightarrow> False | Some v \<Rightarrow> 5 \<le> drop_bit 4 v)"

lemma plain_tcp_parse:
  assumes "plain_tcp b e" "parse_ipv4 b len 1 = Some (Some (p, seqid))"
  shows "ld32 b (e + 12) = Some (htonl (p_srcip p))" "ld32 b (e + 16) = Some (htonl (p_dstip p))"
    "ld16 b (e + 20) = Some (htons (p_src_port p))" "ld16 b (e + 22) = Some (htons (p_dst_port p))"
    "ld32 b (e + 24) = Some (htonl seqid)" "p_protocol p = 6"
proof -
  from assms(1) obtain t where t: "ld16 b 12 = Some t" and e: "e = (if ntohs t = ETHERTYPE_VLAN then 18 else 14)"
    by (auto simp: plain_tcp_def get_ethernet_header_len_def split: bind_splits)
  obtain t' where t': "ld16 b (e - 2) = Some t'" "ntohs t' = ETHERTYPE_IP"
    using assms(1) by (auto simp: plain_tcp_def split: option.splits)
  have skip: "skip_vlan b (ntohs t) 0 = Some (ETHERTYPE_IP, e - 14)"
    using t t' e by (auto simp: skip_vlan.simps [of b "ntohs t"] skip_vlan.simps [of b 2048] ETHERTYPE_IP_def
        ETHERTYPE_VLAN_def split: if_splits)
  have l2: "l2_start b 1 = Some 0" by (simp add: l2_start_def DLT_JUNIPER_ETHER_def)
  have p: "ld8 b (e + 9) = Some 6" using assms(1) by (simp add: plain_tcp_def)
  obtain l where l: "e = l + 14" using e by (intro that [of "e - 14"]) (auto split: if_splits)
  have *: "do { src \<leftarrow> ld32 b (e + 12); dst \<leftarrow> ld32 b (e + 16); sp \<leftarrow> ld16 b (e + 20); dp \<leftarrow> ld16 b (e + 22); sq \<leftarrow> ld32 b (e + 24);
      Some (Some (\<lparr>p_srcip = ntohl src, p_dstip = ntohl dst, p_src_port = ntohs sp, p_dst_port = ntohs dp, p_protocol = 6,
         p_seqid = 0, p_len = word_of_int len, p_sampled = False, p_selected_level = 0\<rparr>, ntohl sq)) } = Some (Some (p, seqid))"
    using assms(2) p by (simp add: parse_ipv4_def l2 t skip l Let_def)
  show "ld32 b (e + 12) = Some (htonl (p_srcip p))" "ld32 b (e + 16) = Some (htonl (p_dstip p))"
    "ld16 b (e + 20) = Some (htons (p_src_port p))" "ld16 b (e + 22) = Some (htons (p_dst_port p))"
    "ld32 b (e + 24) = Some (htonl seqid)" "p_protocol p = 6"
    using * by (auto simp: Option.bind_eq_Some_conv)
qed

lemma got_packet_tcp:
  assumes "plain_tcp b e" "parse_ipv4 b len 1 = Some (Some (p, seqid))"
  shows "got_packet write_ok pad b rc = send_report write_ok pad (report_of p seqid) rc"
proof -
  note pf = plain_tcp_parse [OF assms(1,2)]
  obtain v o' where "ld8 b e = Some v" "v AND 0x0F = 5" "ld8 b (e + 32) = Some o'" "5 \<le> drop_bit 4 o'"
    and e: "get_ethernet_header_len b = Some e" "ld8 b (e + 9) = Some 6"
    using assms(1) by (auto simp: plain_tcp_def split: option.splits)
  moreover from this have "5 \<le> unat (drop_bit 4 o')" by (simp add: word_le_nat_alt)
  ultimately show ?thesis
    using pf by (simp add: got_packet_def tcp_record_def Let_def report_of_def add.commute [of e])
qed

lemma got_packet_plain:
  assumes "plain_tcp b e" "parse_ipv4 b len 1 = Some (Some (p, seqid))"
    and "GET_NET_IDENTITY (p_srcip p) \<noteq> rc_net_identity rc"
    and "get_sender_fifo_handler (rc_fifo_handlers rc) (p_srcip p) = Some h"
  shows "got_packet True pad b rc = Some (rc\<lparr>rc_pipes := (rc_pipes rc)(h := rc_pipes rc h @ proto_bytes pad (report_of p seqid)),
    rc_received_pkts := rc_received_pkts rc + 1\<rparr>)"
  using assms(3,4) got_packet_tcp [OF assms(1,2)] by (simp add: send_report_def report_of_def xor_eq_0)

lemma got_packet_foreign:
  assumes "plain_tcp b e" "parse_ipv4 b len 1 = Some (Some (p, seqid))"
    and "GET_NET_IDENTITY (p_srcip p) \<noteq> rc_net_identity rc"
    and "get_sender_fifo_handler (rc_fifo_handlers rc) (p_srcip p) = None"
  shows "got_packet write_ok pad b rc = None"
  using assms(3,4) got_packet_tcp [OF assms(1,2)] by (simp add: send_report_def report_of_def xor_eq_0)

text \<open>The index of an address outside the twelve prefixes.\<close>

lemma foreign_idx:
  assumes "GET_NET_IDENTITY ip < 10 \<or> 22 \<le> GET_NET_IDENTITY ip"
  shows "sint (GET_SENDER_IDX ip) < 0 \<or> 12 \<le> sint (GET_SENDER_IDX ip)"
proof -
  let ?n = "unat (drop_bit 24 ip)"
  have "uint (drop_bit 24 ip) < 2 ^ 8"
    using unsigned_less [where 'a = int and w = ip] by (simp add: drop_bit_eq_div uint_div)
  then have d: "drop_bit 24 (ip AND IP_MASK) = drop_bit 24 ip" by (simp only: mask_top_byte drop_push_byte)
  have n: "int ?n < 256" using \<open>uint (drop_bit 24 ip) < 2 ^ 8\<close> by simp
  have "GET_SENDER_IDX ip = word_of_int (int ?n - 10)"
    unfolding GET_SENDER_IDX_def d by (simp add: FIRST_SENDER_IP_PREFIX_def drop_bit_eq_div)
  moreover have "int_range (int ?n - 10)" using n by (simp add: int_range_def)
  ultimately have "sint (GET_SENDER_IDX ip) = int ?n - 10" by (simp only: sint_word_of_int_range)
  moreover have "?n < 10 \<or> 22 \<le> ?n" using assms by (simp add: GET_NET_IDENTITY_def word_less_nat_alt word_le_nat_alt)
  ultimately show ?thesis by linarith
qed

section \<open>Properties\<close>

text \<open>
  C13: the receiver reports what the sender recorded.  If the sender reads 5-tuple and sequence number of
  a frame (at most one VLAN tag, no IP options, TCP), then the receiver, unless the packet comes from
  its own host, appends exactly that 5-tuple and number to the pipe of the packet's sender, touches no
  other pipe, and counts the packet.
\<close>

theorem receiver_agrees_with_sender:
  assumes "plain_tcp b e" "parse_ipv4 b len 1 = Some (Some (p, seqid))"
    and "GET_NET_IDENTITY (p_srcip p) \<noteq> rc_net_identity rc"
    and "get_sender_fifo_handler (rc_fifo_handlers rc) (p_srcip p) = Some h"
  shows "\<exists>rc'. got_packet True pad b rc = Some rc' \<and> rc_pipes rc' h = rc_pipes rc h @ proto_bytes pad (report_of p seqid) \<and>
    (\<forall>h'. h' \<noteq> h \<longrightarrow> rc_pipes rc' h' = rc_pipes rc h') \<and> rc_received_pkts rc' = rc_received_pkts rc + 1 \<and>
    rc_received_condition_pkts rc' = rc_received_condition_pkts rc"
  using got_packet_plain [OF assms] by simp

definition sample_receiver :: receiver where
  "sample_receiver = \<lparr>rc_net_identity = 14, rc_received_pkts = 0, rc_received_condition_pkts = 0,
     rc_fifo_handlers = [3, 4, 5, 6, 7, 8, 9, 10, 11, 12, 13, 14], rc_pipes = (\<lambda>_. [])\<rparr>"

theorem receiver_agrees_with_sender_witness:
  "\<exists>rc'. got_packet True (0, 0, 0) sample_frame sample_receiver = Some rc' \<and>
    rc_pipes rc' 5 = proto_bytes (0, 0, 0) (report_of sample_packet_t 7) \<and> rc_received_pkts rc' = 1"
proof -
  have "plain_tcp sample_frame 18" by code_simp
  moreover have "GET_NET_IDENTITY (p_srcip sample_packet_t) \<noteq> rc_net_identity sample_receiver" by code_simp
  moreover have "get_sender_fifo_handler (rc_fifo_handlers sample_receiver) (p_srcip sample_packet_t) = Some 5" by code_simp
  ultimately show ?thesis
    using receiver_agrees_with_sender [OF _ sample_frame_parse, of 18 sample_receiver 5 "(0, 0, 0)"]
    by (auto simp: sample_receiver_def)
qed

text \<open>
  A packet with a source address outside \<open>10.0.0.0\<close> to \<open>21.255.255.255\<close> makes the receiver index its
  array of pipes out of bounds: the address is not checked before it is used.
\<close>

theorem foreign_source_out_of_bounds:
  assumes "plain_tcp b e" "parse_ipv4 b len 1 = Some (Some (p, seqid))"
    and "GET_NET_IDENTITY (p_srcip p) \<noteq> rc_net_identity rc" "length (rc_fifo_handlers rc) = 12"
    and "GET_NET_IDENTITY (p_srcip p) < 10 \<or> 22 \<le> GET_NET_IDENTITY (p_srcip p)"
  shows "got_packet write_ok pad b rc = None"
proof -
  have "get_sender_fifo_handler (rc_fifo_handlers rc) (p_srcip p) = None"
    using assms(4) foreign_idx [OF assms(5)] by (auto simp: get_sender_fifo_handler_def Let_def)
  then show ?thesis using got_packet_foreign [OF assms(1-3)] by simp
qed

definition foreign_frame :: "u8 list" where
  "foreign_frame = sample_frame[30 := 192, 31 := 168]"

theorem foreign_source_out_of_bounds_witness:
  "got_packet True (0, 0, 0) foreign_frame sample_receiver = None"
proof -
  let ?p = "sample_packet_t\<lparr>p_srcip := 0xC0A80001\<rparr>"
  have "plain_tcp foreign_frame 18" "parse_ipv4 foreign_frame 58 1 = Some (Some (?p, 7))"
    "GET_NET_IDENTITY (p_srcip ?p) \<noteq> rc_net_identity sample_receiver" "length (rc_fifo_handlers sample_receiver) = 12"
    "GET_NET_IDENTITY (p_srcip ?p) < 10 \<or> 22 \<le> GET_NET_IDENTITY (p_srcip ?p)"
    by code_simp+
  then show ?thesis by (rule foreign_source_out_of_bounds)
qed

end
