(* ===== verification/Pcap_Generator.thy ===== *)
theory Pcap_Generator
  imports B4_Mapping Receiver C_Memory
begin

text \<open>
  \<^verbatim>\<open>pcapFileGenerator/writePacketToPcapFile.c\<close> and \<^verbatim>\<open>main.c\<close>: the generator reads a trace in text form, moves its
  addresses to the topology and writes one packet file per sending host.  The input files are lists of
  lines (\<open>None\<close> for a file that cannot be opened), \<^verbatim>\<open>rand\<close> is a stream of numbers, and a packet file is
  the list of the records handed to \<^verbatim>\<open>pcap_dump\<close>.  The text copy (\<^verbatim>\<open>h<i>_trace.csv\<close>) is the list of the values
  that \<^verbatim>\<open>fprintf\<close> prints.
\<close>

section \<open>State\<close>

record pcap_record =
  ph_ts :: timeval
  ph_caplen :: u32
  ph_len :: u32
  ph_data :: "u8 list"

record generator =
  g_b4 :: b4_maps
  g_flow_seqid_hashmap :: "hashtable_kf option"
  g_pdumper :: "nat \<Rightarrow> pcap_record list"
  g_fp :: "nat \<Rightarrow> (u32 \<times> u32 \<times> u16 \<times> u16 \<times> u8 \<times> u16) list"
  g_packet :: packet
  g_read_num_lines :: u64
  g_rand_pos :: nat
  g_calls :: nat

text \<open>
  The environment: the numbers \<^verbatim>\<open>rand\<close> returns, and for every call of \<^verbatim>\<open>get_seqid_of_flow\<close> the contents
  of its local variable \<^verbatim>\<open>flow\<close>, of which only \<^verbatim>\<open>srcip\<close> is assigned.
\<close>

record gen_env =
  ge_rand :: "nat \<Rightarrow> nat"
  ge_junk :: "nat \<Rightarrow> flow_s"

section \<open>Writing packets\<close>

definition get_seqid_of_flow :: "flow_s \<Rightarrow> packet \<Rightarrow> hashtable_kf option \<Rightarrow> hashtable_kf option \<times> u32" where
  "get_seqid_of_flow junk p_packet m =
    (let flow = junk\<lparr>f_srcip := p_srcip p_packet\<rparr>;
         m = (if ht_kf_get m flow < 0 then ht_kf_set m flow 0 else m);
         seqid = word_of_int (ht_kf_get m flow + 1)
     in (ht_kf_set m flow seqid, seqid))"

definition gen_mac :: "u8 list" where "gen_mac = [0x7c, 0x7a, 0x91, 0x86, 0xb3, 0xe8]"

text \<open>The three headers, 18, 20 and 20 bytes; the tag of a generated packet is 0.\<close>

definition gen_vlan_header :: "u16 \<Rightarrow> u8 list" where
  "gen_vlan_header tag = gen_mac @ gen_mac @ bytes16 (htons 0x8100) @ bytes16 tag @ bytes16 (htons 0x0800)"

definition gen_ip_header :: "u32 \<Rightarrow> u32 \<Rightarrow> u8 list" where
  "gen_ip_header srcip dstip =
    [0x45, 0] @ bytes16 (htons 40) @ bytes16 0 @ bytes16 0x4000 @ [0x40, 0x06] @ bytes16 0 @
    bytes_of_32 (htonl srcip) @ bytes_of_32 (htonl dstip)"

definition gen_tcp_header :: "u16 \<Rightarrow> u16 \<Rightarrow> u32 \<Rightarrow> u8 list" where
  "gen_tcp_header sport dport seqid =
    bytes16 (htons sport) @ bytes16 (htons dport) @ bytes_of_32 (htonl seqid) @ bytes_of_32 0 @ [0x50, 0] @
    bytes16 0 @ bytes16 0 @ bytes16 0"

definition gen_frame :: "u16 \<Rightarrow> packet \<Rightarrow> u32 \<Rightarrow> u8 list" where
  "gen_frame tag p seqid =
    gen_vlan_header tag @ gen_ip_header (p_srcip p) (p_dstip p) @ gen_tcp_header (p_src_port p) (p_dst_port p) seqid"

text \<open>The bytes copied to \<^verbatim>\<open>packet_buff\<close>; their number is the result of the function.\<close>

definition generate_one_packet :: "flow_s \<Rightarrow> packet \<Rightarrow> hashtable_kf option \<Rightarrow> hashtable_kf option \<times> u8 list" where
  "generate_one_packet junk p_packet m =
    (case get_seqid_of_flow junk p_packet m of (m, seqid) \<Rightarrow> (m, gen_frame 0 p_packet seqid))"

text \<open>The fixed time stamp of every record.\<close>

definition gen_ts :: timeval where "gen_ts = \<lparr>tv_sec = 0xAA779F47, tv_usec = 0x90A20400\<rparr>"

definition generate_one_pcap_pkt :: "gen_env \<Rightarrow> packet \<Rightarrow> nat \<Rightarrow> generator \<Rightarrow> generator" where
  "generate_one_pcap_pkt env p_packet node_idx g =
    (case generate_one_packet (ge_junk env (g_calls g)) p_packet (g_flow_seqid_hashmap g) of
       (m, packet_buffer) \<Rightarrow>
         let caplen = word_of_nat (length packet_buffer)
         in g\<lparr>g_flow_seqid_hashmap := m, g_calls := g_calls g + 1,
              g_pdumper := (g_pdumper g)(node_idx := g_pdumper g node_idx @
                [\<lparr>ph_ts = gen_ts, ph_caplen = caplen, ph_len = caplen + ucast (p_len p_packet), ph_data = packet_buffer\<rparr>]),
              g_fp := (g_fp g)(node_idx := g_fp g node_idx @
                [(p_srcip p_packet, p_dstip p_packet, p_src_port p_packet, p_dst_port p_packet, p_protocol p_packet, p_len p_packet)])\<rparr>)"

text \<open>
  \<open>open_ok i\<close>: whether the three opens for node \<open>i\<close> succeed.  \<open>None\<close>: failure.  The files are emptied.
\<close>

definition init_write_pkts_to_files :: "bool \<Rightarrow> (nat \<Rightarrow> bool) \<Rightarrow> generator \<Rightarrow> generator option" where
  "init_write_pkts_to_files malloc_ok open_ok g =
    (case ht_kf_create malloc_ok HASH_MAP_SIZE of
       None \<Rightarrow> None
     | Some m \<Rightarrow>
         if list_all open_ok [0..<NUM_SENDERS]
         then Some (g\<lparr>g_flow_seqid_hashmap := Some m, g_pdumper := (\<lambda>_. []), g_fp := (\<lambda>_. [])\<rparr>)
         else None)"

section \<open>Reading the trace\<close>

definition MAX_PAYLOAD_SIZE :: u16 where "MAX_PAYLOAD_SIZE = 5000 - 58"

text \<open>\<^verbatim>\<open>strtoul(s, NULL, 10)\<close> with 64-bit \<^verbatim>\<open>unsigned long\<close>.\<close>

definition strtoul :: "string \<Rightarrow> u64" where
  "strtoul s =
    (let (sign, s) = read_sign (dropWhile is_space s);
         (v, n, rest) = read_digits digit_val 10 0 0 s
     in if int v \<ge> 2 ^ 64 then - 1 else word_of_int (sign * int v))"

definition set_token :: "nat \<Rightarrow> string \<Rightarrow> packet \<Rightarrow> packet" where
  "set_token ith_token token p =
    (if ith_token = 2 then p\<lparr>p_srcip := ucast (strtoul token)\<rparr>
     else if ith_token = 3 then p\<lparr>p_dstip := ucast (strtoul token)\<rparr>
     else if ith_token = 4 then p\<lparr>p_src_port := word_of_int (strtol token)\<rparr>
     else if ith_token = 5 then p\<lparr>p_dst_port := word_of_int (strtol token)\<rparr>
     else if ith_token = 6 then p\<lparr>p_protocol := word_of_int (strtol token)\<rparr>
     else if ith_token = 7 then p\<lparr>p_len := ucast (strtoul token)\<rparr>
     else p)"

fun parse_tokens :: "nat \<Rightarrow> string list \<Rightarrow> packet \<Rightarrow> packet \<times> nat" where
  "parse_tokens ith_token [] p = (p, ith_token)"
| "parse_tokens ith_token (t # ts) p = parse_tokens (ith_token + 1) ts (set_token (ith_token + 1) t p)"

definition parse_one_line :: "string \<Rightarrow> packet \<Rightarrow> (packet \<times> int) c_result" where
  "parse_one_line line_buffer p_packet =
    (case str_split line_buffer (CHR '','') of
       Inl e \<Rightarrow> Inl e
     | Inr tokens \<Rightarrow>
         (case parse_tokens 0 tokens p_packet of
            (p, ith_token) \<Rightarrow> Inr (p, if ith_token < 7 \<or> p_len p > MAX_PAYLOAD_SIZE then - 1 else 0)))"

text \<open>The body of the loop over the lines of a file.\<close>

definition handle_line :: "(flow_src \<Rightarrow> u32 \<Rightarrow> u32) \<Rightarrow> gen_env \<Rightarrow> string \<Rightarrow> generator \<Rightarrow> generator c_result" where
  "handle_line hb env line_buffer g =
    (let g = g\<lparr>g_read_num_lines := g_read_num_lines g + 1\<rparr>
     in case parse_one_line line_buffer (g_packet g) of
          Inl e \<Rightarrow> Inl e
        | Inr (packet, ret) \<Rightarrow>
            if ret < 0 then Inr (g\<lparr>g_packet := packet\<rparr>)
            else
              let (b4, src_node, src_ip) = get_mapped_info hb (p_srcip packet) (g_b4 g);
                  (b4, dst_node, dst_ip) = get_mapped_info hb (p_dstip packet) b4;
                  g = g\<lparr>g_b4 := b4, g_packet := packet\<rparr>
              in if GET_SENDER_IDX src_ip XOR GET_SENDER_IDX dst_ip = 0 then Inr g
                 else
                   let packet = packet\<lparr>p_srcip := src_ip, p_dstip := dst_ip,
                         p_src_port := word_of_nat (ge_rand env (g_rand_pos g) mod 65536),
                         p_dst_port := word_of_nat (ge_rand env (g_rand_pos g + 1) mod 65536)\<rparr>
                   in Inr (generate_one_pcap_pkt env packet (unat src_node)
                        (g\<lparr>g_packet := packet, g_rand_pos := g_rand_pos g + 2\<rparr>)))"

fun handle_lines :: "(flow_src \<Rightarrow> u32 \<Rightarrow> u32) \<Rightarrow> gen_env \<Rightarrow> string list \<Rightarrow> generator \<Rightarrow> generator c_result" where
  "handle_lines hb env [] g = Inr g"
| "handle_lines hb env (l # ls) g = (case handle_line hb env l g of Inl e \<Rightarrow> Inl e | Inr g \<Rightarrow> handle_lines hb env ls g)"

text \<open>The loop over the input files, numbered from 130000 in steps of 100.\<close>

definition START_FILE_NO :: int where "START_FILE_NO = 130000"
definition DELTA_FILE_NO :: int where "DELTA_FILE_NO = 100"

function file_loop :: "(flow_src \<Rightarrow> u32 \<Rightarrow> u32) \<Rightarrow> gen_env \<Rightarrow> (int \<Rightarrow> string list option) \<Rightarrow> int \<Rightarrow> generator \<Rightarrow>
    generator c_result" where
  "file_loop hb env files fileno g =
    (if fileno > 140000 then Inr g
     else
       let fileno = fileno + DELTA_FILE_NO
       in case files fileno of
            None \<Rightarrow> file_loop hb env files fileno g
          | Some lines \<Rightarrow>
              (case handle_lines hb env lines g of
                 Inl e \<Rightarrow> Inl e
               | Inr g \<Rightarrow> file_loop hb env files fileno g))"
  by pat_completeness auto
termination
  by (relation "measure (\<lambda>(_, _, _, fileno, _). nat (140101 - fileno))") (auto simp: DELTA_FILE_NO_def)

declare file_loop.simps [simp del]

definition generator_init :: "(nat \<Rightarrow> bool) \<Rightarrow> bool \<Rightarrow> (nat \<Rightarrow> bool) \<Rightarrow> generator \<Rightarrow> generator option" where
  "generator_init ok malloc_ok open_ok g =
    (case init_srcip_dstip_to_b4_srcip_dstip ok (g_b4 g) of
       (b4, ret) \<Rightarrow> if ret \<noteq> 0 then None else init_write_pkts_to_files malloc_ok open_ok (g\<lparr>g_b4 := b4\<rparr>))"

text \<open>The entries that are freed at the end; closing the files leaves their contents as they are.\<close>

definition close_write_pkts_to_files :: "generator \<Rightarrow> entry_kf list" where
  "close_write_pkts_to_files g = ht_kf_destory (g_flow_seqid_hashmap g) HASH_MAP_SIZE"

definition generator_destory :: "generator \<Rightarrow> entry_kfs_vi list \<times> entry_kf list" where
  "generator_destory g = (destory_srcip_dstip_to_b4_srcip_dstip (g_b4 g), close_write_pkts_to_files g)"

text \<open>
  The program.  \<open>Inr None\<close>: it exits with \<open>-1\<close> before it reads anything; \<open>Inl\<close>: a line made
  \<^verbatim>\<open>str_split\<close> fail.
\<close>

definition generator_main :: "(flow_src \<Rightarrow> u32 \<Rightarrow> u32) \<Rightarrow> gen_env \<Rightarrow> (nat \<Rightarrow> bool) \<Rightarrow> bool \<Rightarrow> (nat \<Rightarrow> bool) \<Rightarrow>
    (int \<Rightarrow> string list option) \<Rightarrow> int \<Rightarrow> generator \<Rightarrow> (generator \<times> entry_kfs_vi list \<times> entry_kf list) option c_result" where
  "generator_main hb env ok malloc_ok open_ok files argc g =
    (if argc \<noteq> 3 then Inr None
     else case generator_init ok malloc_ok open_ok g of
            None \<Rightarrow> Inr None
          | Some g \<Rightarrow>
              (case file_loop hb env files (START_FILE_NO - DELTA_FILE_NO) (g\<lparr>g_read_num_lines := 0\<rparr>) of
                 Inl e \<Rightarrow> Inl e
               | Inr g \<Rightarrow> Inr (Some (g, generator_destory g))))"

section \<open>Generated frames\<close>

text \<open>What the sender reads from a generated frame of total length \<open>len\<close>.\<close>

definition sent_packet :: "packet \<Rightarrow> int \<Rightarrow> packet" where
  "sent_packet p len = \<lparr>p_srcip = p_srcip p, p_dstip = p_dstip p, p_src_port = p_src_port p, p_dst_port = p_dst_port p,
     p_protocol = 6, p_seqid = 0, p_len = word_of_int len, p_sampled = False, p_selected_level = 0\<rparr>"

lemma gen_lengths [simp]: "length gen_mac = 6" "length (gen_vlan_header t) = 18" "length (gen_ip_header s d) = 20"
  "length (gen_tcp_header sp dp q) = 20" "length (gen_frame t p q) = 58"
  by (simp_all add: gen_mac_def gen_vlan_header_def gen_ip_header_def gen_tcp_header_def gen_frame_def)

lemma ld8_skip: "length xs \<le> i \<Longrightarrow> ld8 (xs @ ys) i = ld8 ys (i - length xs)"
  by (simp add: ld8_append)

lemma ld8_Cons: "0 < i \<Longrightarrow> ld8 (x # xs) i = ld8 xs (i - 1)"
  using ld8_skip [of "[x]" i xs] by simp

lemmas frame_loads = ld16_skip ld32_skip ld8_skip ld16_Cons ld32_Cons ld8_Cons

lemma gen_vlan_loads:
  "ld16 (gen_vlan_header t @ rest) 12 = Some (htons 0x8100)" "ld16 (gen_vlan_header t @ rest) 14 = Some t"
  "ld16 (gen_vlan_header t @ rest) 16 = Some (htons 0x0800)"
  by (simp_all add: gen_vlan_header_def frame_loads)

lemma gen_ip_loads:
  "ld8 (gen_ip_header s d @ rest) 0 = Some 0x45" "ld8 (gen_ip_header s d @ rest) 9 = Some 6"
  "ld32 (gen_ip_header s d @ rest) 12 = Some (htonl s)" "ld32 (gen_ip_header s d @ rest) 16 = Some (htonl d)"
  by (simp_all add: gen_ip_header_def frame_loads)

lemma gen_tcp_loads:
  "ld16 (gen_tcp_header sp dp q @ rest) 0 = Some (htons sp)" "ld16 (gen_tcp_header sp dp q @ rest) 2 = Some (htons dp)"
  "ld32 (gen_tcp_header sp dp q @ rest) 4 = Some (htonl q)" "ld8 (gen_tcp_header sp dp q @ rest) 12 = Some 0x50"
  by (simp_all add: gen_tcp_header_def frame_loads)

lemma gen_frame_loads:
  "ld16 (gen_frame t p q @ rest) 12 = Some (htons 0x8100)" "ld16 (gen_frame t p q @ rest) 14 = Some t"
  "ld16 (gen_frame t p q @ rest) 16 = Some (htons 0x0800)"
  "ld8 (gen_frame t p q @ rest) 18 = Some 0x45" "ld8 (gen_frame t p q @ rest) 27 = Some 6"
  "ld32 (gen_frame t p q @ rest) 30 = Some (htonl (p_srcip p))" "ld32 (gen_frame t p q @ rest) 34 = Some (htonl (p_dstip p))"
  "ld16 (gen_frame t p q @ rest) 38 = Some (htons (p_src_port p))" "ld16 (gen_frame t p q @ rest) 40 = Some (htons (p_dst_port p))"
  "ld32 (gen_frame t p q @ rest) 42 = Some (htonl q)" "ld8 (gen_frame t p q @ rest) 50 = Some 0x50"
  unfolding gen_frame_def append_assoc
  by (simp_all only: gen_vlan_loads) (simp_all add: frame_loads gen_ip_loads gen_tcp_loads)

lemma gen_l2_start: "l2_start b 1 = Some 0"
  by (simp add: l2_start_def DLT_JUNIPER_ETHER_def)

lemma gen_frame_parse:
  "parse_ipv4 (gen_frame t p q @ rest) len 1 = Some (Some (sent_packet p len, q))"
  "plain_tcp (gen_frame t p q @ rest) 18" "is_vlan_frame (gen_frame t p q @ rest) 1 = Some (0, True)"
  "vlan_tag (gen_frame t p q @ rest) 1 = Some t"
proof -
  let ?b = "gen_frame t p q @ rest"
  have "skip_vlan ?b 0x8100 0 = Some (ETHERTYPE_IP, 4)"
    by (simp add: skip_vlan.simps [of ?b "0x8100"] skip_vlan.simps [of ?b "0x0800"] ETHERTYPE_VLAN_def ETHERTYPE_IP_def gen_frame_loads)
  then show "parse_ipv4 ?b len 1 = Some (Some (sent_packet p len, q))"
    by (simp add: parse_ipv4_def gen_l2_start gen_frame_loads sent_packet_def)
  have off: "(0x45 :: u8) AND 15 = 5" "(5 :: u8) \<le> drop_bit 4 0x50" by code_simp+
  then show "plain_tcp ?b 18"
    by (simp add: plain_tcp_def get_ethernet_header_len_def gen_frame_loads ETHERTYPE_VLAN_def ETHERTYPE_IP_def)
  show v: "is_vlan_frame ?b 1 = Some (0, True)"
    by (simp add: is_vlan_frame_def gen_l2_start gen_frame_loads ETHERTYPE_VLAN_def)
  show "vlan_tag ?b 1 = Some t" by (simp add: vlan_tag_def v gen_frame_loads)
qed

text \<open>Changing the tag of a generated frame gives the frame with the new tag.\<close>

lemma gen_frame_nth:
  assumes "j \<noteq> 14" "j \<noteq> 15"
  shows "(gen_frame t p q @ rest) ! j = (gen_frame t' p q @ rest) ! j"
proof -
  define pre where "pre = gen_mac @ gen_mac @ bytes16 (htons 0x8100)"
  define post where "post = bytes16 (htons 0x0800) @ gen_ip_header (p_srcip p) (p_dstip p) @
    gen_tcp_header (p_src_port p) (p_dst_port p) q @ rest"
  have split: "gen_frame t p q @ rest = pre @ bytes16 t @ post" for t
    by (simp add: gen_frame_def gen_vlan_header_def pre_def post_def)
  have "length pre = 14" by (simp add: pre_def)
  then show ?thesis unfolding split using assms by (auto simp: nth_append bytes16_def nth_Cons')
qed

lemma ld16_nth: "ld16 b i = Some w \<Longrightarrow> b ! i = ucast w \<and> b ! (i + 1) = ucast (drop_bit 8 w)"
  by (auto simp: ld16_Some)

lemma gen_frame_retag:
  assumes "retagged 1 l2 vl f (gen_frame t p q @ rest) b'"
  shows "b' = gen_frame (f t) p q @ rest"
proof -
  let ?b = "gen_frame t p q @ rest" and ?c = "gen_frame (f t) p q @ rest"
  from assms have v: "is_vlan_frame b' 1 = Some (l2, vl)" by (simp add: retagged_def)
  then have l2: "l2 = 0" by (auto simp: is_vlan_frame_def gen_l2_start split: bind_splits)
  have vl: vl using assms v gen_frame_parse(3) [of t p q rest] by (auto simp: retagged_def)
  have len: "length b' = length ?b" and eq: "\<And>j. j \<noteq> 14 \<Longrightarrow> j \<noteq> 15 \<Longrightarrow> b' ! j = ?b ! j"
    using assms by (auto simp: retagged_def l2)
  have "vlan_tag b' 1 = Some (f t)" using assms vl by (simp add: retagged_def gen_frame_parse(4))
  then have tag: "ld16 b' 14 = Some (f t)" using v by (simp add: vlan_tag_def l2 vl)
  note n = ld16_nth [OF tag] ld16_nth [OF gen_frame_loads(2) [of "f t" p q rest]]
  show ?thesis
  proof (rule nth_equalityI)
    fix j
    show "b' ! j = ?c ! j"
      using n eq [of j] gen_frame_nth [of j t p q rest "f t"] by (cases "j = 14"; cases "j = 15") auto
  qed (simp add: len)
qed

section \<open>Sequence numbers\<close>

text \<open>The number a source has reached: 0 before its first packet.\<close>

definition seq_of :: "flow_s \<Rightarrow> hashtable_kf \<Rightarrow> u32 \<Rightarrow> int" where
  "seq_of junk ht ip = max 0 (ht_kf_get (Some ht) (junk\<lparr>f_srcip := ip\<rparr>))"

fun gen_seqids :: "flow_s \<Rightarrow> packet list \<Rightarrow> hashtable_kf option \<Rightarrow> u32 list" where
  "gen_seqids junk [] m = []"
| "gen_seqids junk (p # ps) m = (case get_seqid_of_flow junk p m of (m, q) \<Rightarrow> q # gen_seqids junk ps m)"

lemma kf_set_ex: "\<exists>ht'. ht_kf_set (Some ht) k v = Some ht'"
  by (simp add: ht_kf_set_def Let_def)

lemma tuple_srcip [simp]: "flow_tuple (j\<lparr>f_srcip := a\<rparr>) = flow_tuple (j\<lparr>f_srcip := b\<rparr>) \<longleftrightarrow> a = b"
  by (simp add: flow_tuple_def)

lemma kf_new: "\<exists>ht. ht_kf_create True HASH_MAP_SIZE = Some ht \<and> kf_wf ht \<and> (\<forall>k. ht_kf_get (Some ht) k = - 1)"
proof -
  obtain ht where ht: "ht_kf_create True HASH_MAP_SIZE = Some ht" "kf_table ht = (\<lambda>_. [])"
    using HASH_MAP_SIZE_range by (simp add: ht_kf_create_def)
  then show ?thesis
    using kf_create_wf [OF HASH_MAP_SIZE_range ht(1)] by (simp add: ht_kf_get_def chain_get_def chain_seek_def)
qed

text \<open>After the first \<^verbatim>\<open>if\<close> of \<^verbatim>\<open>get_seqid_of_flow\<close> the flow has a number.\<close>

lemma seqid_entry:
  assumes "kf_wf ht"
  shows "\<exists>h1. (if ht_kf_get (Some ht) f < 0 then ht_kf_set (Some ht) f 0 else Some ht) = Some h1 \<and> kf_wf h1 \<and>
    (\<forall>k. ht_kf_get (Some h1) k = (if flow_tuple f = flow_tuple k then max 0 (ht_kf_get (Some ht) f) else ht_kf_get (Some ht) k))"
proof (cases "ht_kf_get (Some ht) f < 0")
  case True
  obtain h1 where h1: "ht_kf_set (Some ht) f 0 = Some h1" using kf_set_ex by blast
  show ?thesis using True h1 kf_set_wf [OF assms h1] kf_get_set [OF assms h1] by simp
next
  case False
  have "ht_kf_get (Some ht) k = (if flow_tuple f = flow_tuple k then max 0 (ht_kf_get (Some ht) f) else ht_kf_get (Some ht) k)" for k
    using False flow_tab.lookup_cong [of f k "kf_chained ht"]
    by (cases "flow_tuple f = flow_tuple k") (simp_all add: kf_get_chained max_def)
  with False assms show ?thesis by (intro exI [of _ ht]) (simp only: if_False simp_thms)
qed

lemma get_seqid_step:
  fixes junk :: flow_s and p :: packet
  defines "f \<equiv> junk\<lparr>f_srcip := p_srcip p\<rparr>"
  assumes wf: "kf_wf ht" and fit: "seq_of junk ht (p_srcip p) < 2147483647"
  shows "\<exists>ht'. get_seqid_of_flow junk p (Some ht) = (Some ht', word_of_int (seq_of junk ht (p_srcip p) + 1)) \<and> kf_wf ht' \<and>
    seq_of junk ht' = (seq_of junk ht)(p_srcip p := seq_of junk ht (p_srcip p) + 1)"
proof -
  define c where "c = seq_of junk ht (p_srcip p)"
  have c: "c = max 0 (ht_kf_get (Some ht) f)" "0 \<le> c" by (simp_all add: c_def seq_of_def f_def)
  obtain h1 where h1: "(if ht_kf_get (Some ht) f < 0 then ht_kf_set (Some ht) f 0 else Some ht) = Some h1" "kf_wf h1"
    and g1: "\<And>k. ht_kf_get (Some h1) k = (if flow_tuple f = flow_tuple k then c else ht_kf_get (Some ht) k)"
    using seqid_entry [OF wf, of f] c(1) by auto
  define w where "w = (word_of_int (c + 1) :: u32)"
  have "int_range (c + 1)" using fit c(2) by (simp add: int_range_def c_def)
  then have w: "sint w = c + 1" unfolding w_def by (rule sint_word_of_int_range)
  obtain h2 where h2: "ht_kf_set (Some h1) f w = Some h2" using kf_set_ex by blast
  have "get_seqid_of_flow junk p (Some ht) = (Some h2, w)"
    unfolding get_seqid_of_flow_def Let_def f_def [symmetric] h1(1) g1 by (simp add: w_def [symmetric] h2 del: of_int_add)
  moreover have "seq_of junk h2 ip = (if ip = p_srcip p then c + 1 else seq_of junk ht ip)" for ip
    using c(2) kf_get_set [OF h1(2) h2] unfolding seq_of_def by (cases "ip = p_srcip p") (simp_all add: f_def w g1)
  then have "seq_of junk h2 = (seq_of junk ht)(p_srcip p := c + 1)" by auto
  ultimately show ?thesis using kf_set_wf [OF h1(2) h2] unfolding w_def c_def by blast
qed

lemma gen_seqids_nth:
  assumes "kf_wf ht" "j < length ps" "\<forall>ip. seq_of junk ht ip + int (length ps) < 2147483648"
  shows "gen_seqids junk ps (Some ht) ! j =
    word_of_int (seq_of junk ht (p_srcip (ps ! j)) + 1 + int (length (filter (\<lambda>p. p_srcip p = p_srcip (ps ! j)) (take j ps))))"
  using assms
proof (induction ps arbitrary: ht j)
  case (Cons p ps)
  have "seq_of junk ht (p_srcip p) < 2147483647" using Cons.prems(3) by (auto dest: spec [of _ "p_srcip p"])
  from get_seqid_step [OF Cons.prems(1) this] obtain ht' where ht':
    "get_seqid_of_flow junk p (Some ht) = (Some ht', word_of_int (seq_of junk ht (p_srcip p) + 1))" "kf_wf ht'"
    "seq_of junk ht' = (seq_of junk ht)(p_srcip p := seq_of junk ht (p_srcip p) + 1)" by blast
  show ?case
  proof (cases j)
    case (Suc i)
    have "\<forall>ip. seq_of junk ht' ip + int (length ps) < 2147483648" using Cons.prems(3) by (fastforce simp: ht'(3))
    with Cons.IH [OF ht'(2), of i] Cons.prems(2) Suc show ?thesis by (simp add: ht'(1,3) algebra_simps)
  qed (simp add: ht'(1))
qed simp

section \<open>From a line of the trace to a packet\<close>

lemma node_of_eq: "(word_of_nat (node_of i) :: u32) = word_of_nat (node_of j) \<longleftrightarrow> node_of i = node_of j"
  "unat (word_of_nat (node_of i) :: u32) = node_of i"
proof -
  have u: "unat (word_of_nat (node_of i) :: u32) = node_of i" for i by (simp add: node_of_def unat_of_nat)
  show "unat (word_of_nat (node_of i) :: u32) = node_of i" by (rule u)
  show "(word_of_nat (node_of i) :: u32) = word_of_nat (node_of j) \<longleftrightarrow> node_of i = node_of j" using u by metis
qed

lemma pcap_len: "uint (58 + ucast (l :: u16) :: u32) = 58 + uint l"
proof -
  have "uint l < 65536" using unsigned_less [where 'a = int and w = l] by simp
  then show ?thesis by (simp add: uint_word_ariths(1) unsigned_ucast_eq take_bit_eq_mod)
qed

lemma pcap_pkt_written:
  fixes p :: packet and env :: gen_env and g :: generator
  defines "q \<equiv> snd (get_seqid_of_flow (ge_junk env (g_calls g)) p (g_flow_seqid_hashmap g))"
  shows "g_pdumper (generate_one_pcap_pkt env p n g) = (g_pdumper g)(n := g_pdumper g n @
      [\<lparr>ph_ts = gen_ts, ph_caplen = 58, ph_len = 58 + ucast (p_len p), ph_data = gen_frame 0 p q\<rparr>])"
    "g_b4 (generate_one_pcap_pkt env p n g) = g_b4 g" "g_read_num_lines (generate_one_pcap_pkt env p n g) = g_read_num_lines g"
  by (simp_all add: generate_one_pcap_pkt_def generate_one_packet_def q_def Let_def split: prod.split)

lemma parse_one_line_len: "parse_one_line l p0 = Inr (p, 0) \<Longrightarrow> p_len p \<le> 4942"
  by (auto simp: parse_one_line_def MAX_PAYLOAD_SIZE_def split: sum.splits prod.splits if_splits)

text \<open>The numbering of the addresses in the order in which they first appear, the source of a line before its destination.\<close>

definition number_ip :: "u32 \<Rightarrow> (u32 \<rightharpoonup> nat) \<times> nat \<Rightarrow> (u32 \<rightharpoonup> nat) \<times> nat" where
  "number_ip ip nk = (case nk of (num, k) \<Rightarrow> (case num ip of None \<Rightarrow> (num(ip \<mapsto> k), k + 1) | Some i \<Rightarrow> (num, k)))"

fun number_ips :: "(u32 \<times> u32 \<times> u16) list \<Rightarrow> (u32 \<rightharpoonup> nat) \<times> nat \<Rightarrow> (u32 \<rightharpoonup> nat) \<times> nat" where
  "number_ips [] nk = nk"
| "number_ips ((s, d, n) # pks) nk = number_ips pks (number_ip d (number_ip s nk))"

lemma number_ip_le: "num \<subseteq>\<^sub>m fst (number_ip ip (num, k))" "snd (number_ip ip (num, k)) \<le> Suc k" "ip \<in> dom (fst (number_ip ip (num, k)))"
  by (auto simp: number_ip_def map_le_def split: option.split)

lemma number_ips_le: "num \<subseteq>\<^sub>m fst (number_ips pks (num, k))"
proof (induction pks arbitrary: num k)
  case (Cons p pks)
  obtain s d n where p: "p = (s, d, n)" by (cases p)
  obtain num1 k1 where 1: "number_ip s (num, k) = (num1, k1)" by fastforce
  obtain num2 k2 where 2: "number_ip d (num1, k1) = (num2, k2)" by fastforce
  have "num \<subseteq>\<^sub>m num1" "num1 \<subseteq>\<^sub>m num2"
    using number_ip_le(1) [of num s k] number_ip_le(1) [of num1 d k1] 1 2 by simp_all
  then have "num \<subseteq>\<^sub>m fst (number_ips pks (num2, k2))" using Cons.IH map_le_trans by blast
  then show ?case by (simp add: p 1 2)
qed simp

context flow_src_hash
begin

lemma mapped_info_number:
  assumes inv: "b4_inv hb num b" and cap: "unat (unique_ip_num b) < IP_CAPACITY"
    and nk: "number_ip ip (num, unat (unique_ip_num b)) = (num', k')"
  shows "\<exists>b' i. get_mapped_info hb ip b = (b', word_of_nat (node_of i), word_of_nat (addr_of i)) \<and>
    b4_inv hb num' b' \<and> num' ip = Some i \<and> unat (unique_ip_num b') = k'"
proof (cases "num ip")
  case None
  then show ?thesis using mapped_info_new [OF inv None cap] nk by (auto simp: number_ip_def)
next
  case (Some i)
  then show ?thesis using mapped_info_old [OF inv Some] inv nk by (auto simp: number_ip_def)
qed

lemma handle_line_spec:
  assumes inv: "b4_inv hb num (g_b4 g)" and cap: "unat (unique_ip_num (g_b4 g)) + 2 \<le> IP_CAPACITY"
    and line: "parse_one_line l (g_packet g) = Inr (p, 0)"
  shows "\<exists>g' num' i j. handle_line hb env l g = Inr g' \<and> b4_inv hb num' (g_b4 g') \<and>
    number_ip (p_dstip p) (number_ip (p_srcip p) (num, unat (unique_ip_num (g_b4 g)))) = (num', unat (unique_ip_num (g_b4 g'))) \<and>
    num' (p_srcip p) = Some i \<and> num' (p_dstip p) = Some j \<and> i < IP_CAPACITY \<and> j < IP_CAPACITY \<and> g_read_num_lines g' = g_read_num_lines g + 1 \<and>
    (if node_of i = node_of j then g_pdumper g' = g_pdumper g
     else \<exists>pk q. p_srcip pk = word_of_nat (addr_of i) \<and> p_dstip pk = word_of_nat (addr_of j) \<and> p_len pk = p_len p \<and>
       g_pdumper g' = (g_pdumper g)(node_of i := g_pdumper g (node_of i) @
         [\<lparr>ph_ts = gen_ts, ph_caplen = 58, ph_len = 58 + ucast (p_len p), ph_data = gen_frame 0 pk q\<rparr>]))"
proof -
  from cap have c1: "unat (unique_ip_num (g_b4 g)) < IP_CAPACITY" by simp
  obtain num1 k1 where n1: "number_ip (p_srcip p) (num, unat (unique_ip_num (g_b4 g))) = (num1, k1)" by fastforce
  obtain num2 k2 where n2: "number_ip (p_dstip p) (num1, k1) = (num2, k2)" by fastforce
  from mapped_info_number [OF inv c1 n1] obtain b1 i where
    1: "get_mapped_info hb (p_srcip p) (g_b4 g) = (b1, word_of_nat (node_of i), word_of_nat (addr_of i))" "b4_inv hb num1 b1"
      "num1 (p_srcip p) = Some i" "unat (unique_ip_num b1) = k1" by blast
  have "k1 \<le> Suc (unat (unique_ip_num (g_b4 g)))" using number_ip_le(2) [of "p_srcip p" num "unat (unique_ip_num (g_b4 g))"] n1 by simp
  then have c2: "unat (unique_ip_num b1) < IP_CAPACITY" using cap 1(4) by simp
  from mapped_info_number [OF 1(2) c2] n2 1(4) obtain b2 j where
    2: "get_mapped_info hb (p_dstip p) b1 = (b2, word_of_nat (node_of j), word_of_nat (addr_of j))" "b4_inv hb num2 b2"
      "num2 (p_dstip p) = Some j" "unat (unique_ip_num b2) = k2" by blast
  have "num1 \<subseteq>\<^sub>m num2" using number_ip_le(1) [of num1 "p_dstip p" k1] n2 by simp
  then have i: "num2 (p_srcip p) = Some i" using 1(3) by (metis domI map_le_def)
  have u: "number_ip (p_dstip p) (number_ip (p_srcip p) (num, unat (unique_ip_num (g_b4 g)))) = (num2, unat (unique_ip_num b2))"
    using n1 n2 2(4) by simp
  have ij: "i < IP_CAPACITY" "j < IP_CAPACITY" using b4_inv_less [OF 2(2)] i 2(3) by blast+
  note idx = addr_node_idx(1) [OF ij(1)] addr_node_idx(1) [OF ij(2)]
  let ?g = "g\<lparr>g_read_num_lines := g_read_num_lines g + 1, g_b4 := b2, g_packet := p\<rparr>"
  let ?pk = "p\<lparr>p_srcip := word_of_nat (addr_of i), p_dstip := word_of_nat (addr_of j),
    p_src_port := word_of_nat (ge_rand env (g_rand_pos g) mod 65536), p_dst_port := word_of_nat (ge_rand env (g_rand_pos g + 1) mod 65536)\<rparr>"
  have run: "handle_line hb env l g = Inr (if node_of i = node_of j then ?g
      else generate_one_pcap_pkt env ?pk (node_of i) (?g\<lparr>g_packet := ?pk, g_rand_pos := g_rand_pos g + 2\<rparr>))"
    using line by (simp add: handle_line_def 1(1) 2(1) idx xor_eq_0 node_of_eq Let_def)
  show ?thesis
  proof (cases "node_of i = node_of j")
    case True
    then show ?thesis using run 2(2,3) i ij u
      by (intro exI [of _ ?g] exI [of _ num2] exI [of _ i] exI [of _ j]) simp
  next
    case False
    let ?g' = "generate_one_pcap_pkt env ?pk (node_of i) (?g\<lparr>g_packet := ?pk, g_rand_pos := g_rand_pos g + 2\<rparr>)"
    have "\<exists>pk q. p_srcip pk = word_of_nat (addr_of i) \<and> p_dstip pk = word_of_nat (addr_of j) \<and> p_len pk = p_len p \<and>
       g_pdumper ?g' = (g_pdumper g)(node_of i := g_pdumper g (node_of i) @
         [\<lparr>ph_ts = gen_ts, ph_caplen = 58, ph_len = 58 + ucast (p_len p), ph_data = gen_frame 0 pk q\<rparr>])"
      by (intro exI [of _ ?pk] exI) (simp add: pcap_pkt_written)
    then show ?thesis using run False 2(2,3) i ij u
      by (intro exI [of _ ?g'] exI [of _ num2] exI [of _ i] exI [of _ j]) (simp add: pcap_pkt_written(2,3))
  qed
qed

end

section \<open>The whole program\<close>

text \<open>The lines of the 102 input files, in the order in which they are read.\<close>

definition file_lines :: "(int \<Rightarrow> string list option) \<Rightarrow> nat \<Rightarrow> string list" where
  "file_lines files k = (case files (START_FILE_NO + DELTA_FILE_NO * int k) of None \<Rightarrow> [] | Some ls \<Rightarrow> ls)"

definition trace_lines :: "(int \<Rightarrow> string list option) \<Rightarrow> string list" where
  "trace_lines files = concat (map (file_lines files) [0..<102])"

lemma handle_lines_append:
  "handle_lines hb env (xs @ ys) g = (case handle_lines hb env xs g of Inl e \<Rightarrow> Inl e | Inr g \<Rightarrow> handle_lines hb env ys g)"
  by (induction xs arbitrary: g) (auto split: sum.split)

text \<open>The loop over the files is one loop over all lines; \<open>k\<close> files are still to be read.\<close>

lemma file_loop_from:
  "k \<le> 102 \<Longrightarrow> file_loop hb env files (140100 - 100 * int k) g = handle_lines hb env (concat (map (file_lines files) [102 - k..<102])) g"
proof (induction k arbitrary: g)
  case (Suc k)
  have f: "140100 - 100 * int (Suc k) + DELTA_FILE_NO = 140100 - 100 * int k"
    "START_FILE_NO + DELTA_FILE_NO * int (102 - Suc k) = 140100 - 100 * int k" "\<not> 140100 - 100 * int (Suc k) > 140000"
    using Suc.prems by (simp_all add: DELTA_FILE_NO_def START_FILE_NO_def of_nat_diff)
  have "[102 - Suc k..<102] = (102 - Suc k) # [102 - k..<102]"
    using Suc.prems by (metis Suc_diff_Suc Suc_le_eq diff_less less_le_trans upt_conv_Cons zero_less_Suc zero_less_numeral)
  moreover have "files (140100 - 100 * int k) = None \<or> files (140100 - 100 * int k) = Some (file_lines files (102 - Suc k))"
    unfolding file_lines_def f(2) by (simp split: option.split)
  moreover have "file_lines files (102 - Suc k) = []" if "files (140100 - 100 * int k) = None"
    unfolding file_lines_def f(2) using that by simp
  moreover have "file_loop hb env files (140100 - 100 * int (Suc k)) g =
      (case files (140100 - 100 * int k) of
         None \<Rightarrow> file_loop hb env files (140100 - 100 * int k) g
       | Some lines \<Rightarrow> (case handle_lines hb env lines g of Inl e \<Rightarrow> Inl e | Inr g \<Rightarrow> file_loop hb env files (140100 - 100 * int k) g))"
    using f(3) unfolding file_loop.simps [of hb env files "140100 - 100 * int (Suc k)"] f(1) by (simp only: if_False Let_def)
  ultimately show ?case using Suc.IH Suc.prems by (auto simp: handle_lines_append split: sum.split)
qed (simp add: file_loop.simps)

lemma file_loop_lines: "file_loop hb env files (START_FILE_NO - DELTA_FILE_NO) g = handle_lines hb env (trace_lines files) g"
  using file_loop_from [of 102 hb env files g] by (simp add: trace_lines_def START_FILE_NO_def DELTA_FILE_NO_def)

text \<open>A record that host \<open>i\<close> can replay: a frame from one of its addresses to another host.\<close>

definition host_record :: "nat \<Rightarrow> pcap_record \<Rightarrow> bool" where
  "host_record i r \<longleftrightarrow> i < NUM_SENDERS \<and> ph_caplen r = 58 \<and> uint (ph_len r) \<le> 5000 \<and>
    (\<exists>pk q. ph_data r = gen_frame 0 pk q \<and> unat (GET_SENDER_IDX (p_srcip pk)) = i \<and>
      unat (GET_SENDER_IDX (p_dstip pk)) < NUM_SENDERS \<and> unat (GET_SENDER_IDX (p_dstip pk)) \<noteq> i)"

lemma host_record_gen:
  assumes "i < IP_CAPACITY" "j < IP_CAPACITY" "node_of i \<noteq> node_of j" "p_len p \<le> 4942"
    "p_srcip pk = word_of_nat (addr_of i)" "p_dstip pk = word_of_nat (addr_of j)"
  shows "host_record (node_of i) \<lparr>ph_ts = gen_ts, ph_caplen = 58, ph_len = 58 + ucast (p_len p), ph_data = gen_frame 0 pk q\<rparr>"
proof -
  have "uint (p_len p) \<le> 4942" using assms(4) by (simp add: word_le_def)
  moreover have "node_of i < 12" "node_of j < 12" by (simp_all add: node_of_def)
  ultimately show ?thesis unfolding host_record_def using assms
    by (auto simp: pcap_len addr_node_idx node_of_eq NUM_SENDERS_def intro!: exI [of _ pk])
qed

lemma handle_line_format:
  "parse_one_line l (g_packet g) = Inr (p, r) \<Longrightarrow> r < 0 \<Longrightarrow>
    handle_line hb env l g = Inr (g\<lparr>g_read_num_lines := g_read_num_lines g + 1, g_packet := p\<rparr>)"
  by (simp add: handle_line_def)

lemma parse_one_line_cases:
  assumes "str_split l (CHR '','') = Inr ts"
  obtains p where "parse_one_line l p0 = Inr (p, 0)" | p where "parse_one_line l p0 = Inr (p, - 1)"
proof -
  have "\<exists>p r. parse_one_line l p0 = Inr (p, r) \<and> (r = 0 \<or> r = - 1)"
    using assms by (simp add: parse_one_line_def split: prod.split)
  then show ?thesis using that by blast
qed

text \<open>
  What the files should hold.  \<open>line_packet\<close> is the packet a line of the trace describes, if it is well formed: addresses and
  length.  \<open>written num i\<close> lists, of a sequence of such packets, those that belong into the file of host \<open>i\<close>, moved to the
  addresses that the numbering \<open>num\<close> gives; \<open>packet_of_record\<close> is what the sender's parser reads from a record.
\<close>

definition line_packet :: "string \<Rightarrow> (u32 \<times> u32 \<times> u16) option" where
  "line_packet l =
    (case str_split l (CHR '','') of
       Inl e \<Rightarrow> None
     | Inr ts \<Rightarrow>
         if length ts < 7 \<or> (ucast (strtoul (ts ! 6)) :: u16) > 4942 then None
         else Some (ucast (strtoul (ts ! 1)), ucast (strtoul (ts ! 2)), ucast (strtoul (ts ! 6))))"

definition trace_packets :: "string list \<Rightarrow> (u32 \<times> u32 \<times> u16) list" where
  "trace_packets ls = List.map_filter line_packet ls"

definition moved_ip :: "(u32 \<rightharpoonup> nat) \<Rightarrow> u32 \<Rightarrow> u32" where
  "moved_ip num ip = word_of_nat (addr_of (the (num ip)))"

definition moved_host :: "(u32 \<rightharpoonup> nat) \<Rightarrow> u32 \<Rightarrow> nat" where
  "moved_host num ip = node_of (the (num ip))"

definition written :: "(u32 \<rightharpoonup> nat) \<Rightarrow> nat \<Rightarrow> (u32 \<times> u32 \<times> u16) list \<Rightarrow> (u32 \<times> u32 \<times> int) option list" where
  "written num i pks = map (\<lambda>(s, d, n). Some (moved_ip num s, moved_ip num d, 58 + uint n))
    (filter (\<lambda>(s, d, n). moved_host num s = i \<and> moved_host num d \<noteq> i) pks)"

definition packet_of_record :: "pcap_record \<Rightarrow> (u32 \<times> u32 \<times> int) option" where
  "packet_of_record r = (case parse_ipv4 (ph_data r) (uint (ph_len r)) 1 of
     Some (Some (p, q)) \<Rightarrow> Some (p_srcip p, p_dstip p, uint (p_len p)) | _ \<Rightarrow> None)"

lemma written_simps [simp]:
  "written num i [] = []"
  "written num i ((s, d, n) # pks) = (if moved_host num s = i \<and> moved_host num d \<noteq> i
     then Some (moved_ip num s, moved_ip num d, 58 + uint n) # written num i pks else written num i pks)"
  by (simp_all add: written_def)

lemma packet_of_record_gen:
  assumes "(l :: u16) \<le> 4942"
  shows "packet_of_record \<lparr>ph_ts = t, ph_caplen = c, ph_len = 58 + ucast l, ph_data = gen_frame 0 pk q\<rparr> =
    Some (p_srcip pk, p_dstip pk, 58 + uint l)"
proof -
  have "uint l \<le> 4942" using assms by (simp add: word_le_def)
  then have "uint (word_of_int (58 + uint l) :: u16) = 58 + uint l" by (simp add: uint_word_of_int del: of_int_add)
  moreover have "parse_ipv4 (gen_frame 0 pk q) len 1 = Some (Some (sent_packet pk len, q))" for len
    using gen_frame_parse(1) [of 0 pk q "[]" len] by simp
  ultimately show ?thesis by (simp add: packet_of_record_def sent_packet_def pcap_len del: of_int_add)
qed

lemma parse_tokens_rest: "7 \<le> k \<Longrightarrow> parse_tokens k ts p = (p, k + length ts)"
  by (induction ts arbitrary: k) (simp_all add: set_token_def)

lemma parse_tokens_count: "snd (parse_tokens k ts p) = k + length ts"
  by (induction ts arbitrary: k p) simp_all

text \<open>The fields of a well-formed line do not depend on the packet of the line before.\<close>

lemma parse_one_line_packet:
  assumes "parse_one_line l p0 = Inr (p, r)"
  shows "line_packet l = (if r = 0 then Some (p_srcip p, p_dstip p, p_len p) else None)"
proof -
  from assms obtain ts where ts: "str_split l (CHR '','') = Inr ts" by (auto simp: parse_one_line_def split: sum.splits)
  have p: "parse_tokens 0 ts p0 = (p, length ts)" "r = (if length ts < 7 \<or> p_len p > 4942 then - 1 else 0)"
    using assms parse_tokens_count [of 0 ts p0] by (auto simp: parse_one_line_def ts MAX_PAYLOAD_SIZE_def split: prod.splits)
  show ?thesis
  proof (cases "length ts < 7")
    case False
    then obtain a b c d e f g rest where t: "ts = a # b # c # d # e # f # g # rest"
      by (auto simp: not_less numeral_eq_Suc Suc_le_length_iff)
    have "p_srcip p = ucast (strtoul b) \<and> p_dstip p = ucast (strtoul c) \<and> p_len p = ucast (strtoul g)"
      using p(1) by (auto simp: t parse_tokens_rest set_token_def)
    then show ?thesis using p(2) by (simp add: line_packet_def ts t)
  qed (use p in \<open>simp add: line_packet_def ts\<close>)
qed

context flow_src_hash
begin

lemma handle_lines_spec:
  assumes "b4_inv hb num (g_b4 g)" "unat (unique_ip_num (g_b4 g)) + 2 * length ls \<le> IP_CAPACITY"
    "\<forall>l \<in> set ls. \<exists>ts. str_split l (CHR '','') = Inr ts" "\<forall>i. \<forall>r \<in> set (g_pdumper g i). host_record i r"
    "number_ips (trace_packets ls) (num, unat (unique_ip_num (g_b4 g))) = (num', k')"
  shows "\<exists>g'. handle_lines hb env ls g = Inr g' \<and> b4_inv hb num' (g_b4 g') \<and> unat (unique_ip_num (g_b4 g')) = k' \<and>
    g_read_num_lines g' = g_read_num_lines g + word_of_nat (length ls) \<and>
    (\<forall>i. map packet_of_record (g_pdumper g' i) = map packet_of_record (g_pdumper g i) @ written num' i (trace_packets ls)) \<and>
    (\<forall>i. \<forall>r \<in> set (g_pdumper g' i). host_record i r)"
  using assms
proof (induction ls arbitrary: num g)
  case (Cons l ls)
  from Cons.prems(3) obtain ts where "str_split l (CHR '','') = Inr ts" by auto
  then consider p where "parse_one_line l (g_packet g) = Inr (p, 0)" | p where "parse_one_line l (g_packet g) = Inr (p, - 1)"
    by (rule parse_one_line_cases)
  then show ?case
  proof cases
    case 1
    from Cons.prems(2) have cap: "unat (unique_ip_num (g_b4 g)) + 2 \<le> IP_CAPACITY" by simp
    from handle_line_spec [OF Cons.prems(1) cap 1, of env] obtain g1 num1 i j where
      r: "handle_line hb env l g = Inr g1" "b4_inv hb num1 (g_b4 g1)"
        "number_ip (p_dstip p) (number_ip (p_srcip p) (num, unat (unique_ip_num (g_b4 g)))) = (num1, unat (unique_ip_num (g_b4 g1)))"
        "num1 (p_srcip p) = Some i" "num1 (p_dstip p) = Some j"
        "i < IP_CAPACITY" "j < IP_CAPACITY" "g_read_num_lines g1 = g_read_num_lines g + 1" and
      d: "if node_of i = node_of j then g_pdumper g1 = g_pdumper g
       else \<exists>pk q. p_srcip pk = word_of_nat (addr_of i) \<and> p_dstip pk = word_of_nat (addr_of j) \<and> p_len pk = p_len p \<and>
         g_pdumper g1 = (g_pdumper g)(node_of i := g_pdumper g (node_of i) @
           [\<lparr>ph_ts = gen_ts, ph_caplen = 58, ph_len = 58 + ucast (p_len p), ph_data = gen_frame 0 pk q\<rparr>])" by blast
    note len = parse_one_line_len [OF 1]
    have h: "\<forall>i. \<forall>r \<in> set (g_pdumper g1 i). host_record i r"
      using d Cons.prems(4) host_record_gen [OF r(6,7) _ len] by (auto split: if_splits)
    have tp: "trace_packets (l # ls) = (p_srcip p, p_dstip p, p_len p) # trace_packets ls"
      using parse_one_line_packet [OF 1] by (simp add: trace_packets_def List.map_filter_simps)
    have one: "map packet_of_record (g_pdumper g1 k) =
        map packet_of_record (g_pdumper g k) @ written num1 k [(p_srcip p, p_dstip p, p_len p)]" for k
      using d r(4,5) packet_of_record_gen [OF len]
      by (cases "node_of i = node_of j"; cases "node_of i = k") (auto simp: moved_ip_def moved_host_def)
    have "snd (number_ip b (number_ip a (num, n))) \<le> n + 2" for a b n
      using number_ip_le(2) [of a num n] number_ip_le(2) [of b "fst (number_ip a (num, n))" "snd (number_ip a (num, n))"] by simp
    from this [of "p_dstip p" "p_srcip p" "unat (unique_ip_num (g_b4 g))"]
    have cap1: "unat (unique_ip_num (g_b4 g1)) + 2 * length ls \<le> IP_CAPACITY" using Cons.prems(2) unfolding r(3) by simp
    have nk: "number_ips (trace_packets ls) (num1, unat (unique_ip_num (g_b4 g1))) = (num', k')"
      using Cons.prems(5) unfolding tp by (simp add: r(3))
    have ls: "\<forall>l \<in> set ls. \<exists>ts. str_split l (CHR '','') = Inr ts" using Cons.prems(3) by simp
    from Cons.IH [OF r(2) cap1 ls h nk] obtain g' where
      2: "handle_lines hb env ls g1 = Inr g'" "b4_inv hb num' (g_b4 g')" "unat (unique_ip_num (g_b4 g')) = k'"
        "g_read_num_lines g' = g_read_num_lines g1 + word_of_nat (length ls)"
        "\<And>k. map packet_of_record (g_pdumper g' k) = map packet_of_record (g_pdumper g1 k) @ written num' k (trace_packets ls)"
        "\<forall>i. \<forall>r \<in> set (g_pdumper g' i). host_record i r" by auto
    have "num1 \<subseteq>\<^sub>m num'" using number_ips_le [of num1 "trace_packets ls"] nk by (metis fst_conv)
    then have n: "num' (p_srcip p) = Some i" "num' (p_dstip p) = Some j" using r(4,5) by (metis domI map_le_def)+
    have "map packet_of_record (g_pdumper g' k) = map packet_of_record (g_pdumper g k) @ written num' k (trace_packets (l # ls))" for k
      unfolding 2(5) one tp using r(4,5) n by (simp add: moved_ip_def moved_host_def)
    then show ?thesis using r(1,8) 2(1-4,6) by (intro exI [of _ g']) simp
  next
    case 2
    have "trace_packets (l # ls) = trace_packets ls"
      using parse_one_line_packet [OF 2] by (simp add: trace_packets_def List.map_filter_simps)
    with Cons.IH [of num "g\<lparr>g_read_num_lines := g_read_num_lines g + 1, g_packet := p\<rparr>"] Cons.prems
    show ?thesis by (simp add: handle_line_format [OF 2] add.assoc)
  qed
qed (auto simp: trace_packets_def List.map_filter_simps)

end

section \<open>Properties\<close>

text \<open>
  C30: the sequence numbers of the generator.  If the uninitialised part of \<^verbatim>\<open>flow\<close> has the same contents in
  every call, the packets of each source address are numbered 1, 2, 3, \<open>\<dots>\<close> in the order in which they
  are written.
\<close>

theorem generator_numbers_packets:
  assumes "length ps < 2147483648" "j < length ps"
  shows "unat (gen_seqids junk ps (ht_kf_create True HASH_MAP_SIZE) ! j) =
    length (filter (\<lambda>p. p_srcip p = p_srcip (ps ! j)) (take (Suc j) ps))"
proof -
  obtain ht where ht: "ht_kf_create True HASH_MAP_SIZE = Some ht" and wf: "kf_wf ht"
    and g: "\<And>k. ht_kf_get (Some ht) k = - 1" using kf_new by blast
  have 0: "seq_of junk ht ip = 0" for ip by (simp add: seq_of_def g)
  let ?n = "length (filter (\<lambda>p. p_srcip p = p_srcip (ps ! j)) (take j ps))"
  have "?n \<le> j" using length_filter_le [of _ "take j ps"] by (metis length_take min.absorb2 assms(2) less_imp_le order_trans min.cobounded2)
  then have n: "Suc ?n < 2147483648" using assms by linarith
  have "gen_seqids junk ps (Some ht) ! j = word_of_nat (Suc ?n)"
    using gen_seqids_nth [OF wf assms(2), of junk] assms(1) by (simp add: 0)
  moreover have "length (filter (\<lambda>p. p_srcip p = p_srcip (ps ! j)) (take (Suc j) ps)) = Suc ?n"
    using assms(2) by (simp add: take_Suc_conv_app_nth)
  ultimately show ?thesis using n by (simp only: ht unat_of_nat) simp
qed

definition sample_flow_junk :: flow_s where
  "sample_flow_junk = \<lparr>f_srcip = 0, f_dstip = 0, f_src_port = 0, f_dst_port = 0, f_protocol = 0\<rparr>"

definition sample_trace :: "packet list" where
  "sample_trace = [sample_packet_t, sample_packet_t\<lparr>p_srcip := 1\<rparr>, sample_packet_t]"

theorem generator_numbers_packets_witness:
  "unat (gen_seqids sample_flow_junk sample_trace (ht_kf_create True HASH_MAP_SIZE) ! 2) = 2"
  using generator_numbers_packets [of sample_trace 2] by (simp add: sample_trace_def sample_packet_t_def)

text \<open>
  The numbering depends on memory that is never written.  If the uninitialised part differs between
  two calls, the second packet of a flow gets the number 1 again, so the sender would file two packets
  under one number.
\<close>

theorem generator_repeats_numbers:
  assumes "f_dstip junk1 \<noteq> f_dstip junk2" "get_seqid_of_flow junk1 p (ht_kf_create True HASH_MAP_SIZE) = (m, q1)"
  shows "q1 = 1 \<and> snd (get_seqid_of_flow junk2 p m) = 1"
proof -
  obtain ht where ht: "ht_kf_create True HASH_MAP_SIZE = Some ht" and wf: "kf_wf ht"
    and g: "\<And>k. ht_kf_get (Some ht) k = - 1" using kf_new by blast
  let ?f1 = "junk1\<lparr>f_srcip := p_srcip p\<rparr>" and ?f2 = "junk2\<lparr>f_srcip := p_srcip p\<rparr>"
  have ne: "flow_tuple ?f1 \<noteq> flow_tuple ?f2" using assms(1) by (simp add: flow_tuple_def)
  obtain h1 where h1: "ht_kf_set (Some ht) ?f1 0 = Some h1" using kf_set_ex by blast
  note w1 = kf_set_wf [OF wf h1] and g1 = kf_get_set [OF wf h1]
  obtain h2 where h2: "ht_kf_set (Some h1) ?f1 1 = Some h2" using kf_set_ex by blast
  note w2 = kf_set_wf [OF w1 h2] and g2 = kf_get_set [OF w1 h2]
  have "(m, q1) = (Some h2, 1)" using assms(2) by (simp add: get_seqid_of_flow_def Let_def ht g h1 g1 h2)
  moreover have "seq_of junk2 h2 (p_srcip p) = 0" using ne by (simp add: seq_of_def g2 g1 g)
  ultimately show ?thesis using get_seqid_step [OF w2, of junk2 p] by auto
qed

theorem generator_repeats_numbers_witness:
  "snd (get_seqid_of_flow (sample_flow_junk\<lparr>f_dstip := 9\<rparr>) sample_packet_t
     (fst (get_seqid_of_flow sample_flow_junk sample_packet_t (ht_kf_create True HASH_MAP_SIZE)))) = 1"
  using generator_repeats_numbers [of sample_flow_junk "sample_flow_junk\<lparr>f_dstip := 9\<rparr>" sample_packet_t]
  by (cases "get_seqid_of_flow sample_flow_junk sample_packet_t (ht_kf_create True HASH_MAP_SIZE)") (simp add: sample_flow_junk_def)

text \<open>
  C14: one line of the trace.  A well-formed line yields at most one packet: none if its two addresses are
  mapped to the same host, otherwise one record at the end of the file of the source's host, of 58
  captured bytes and the length of the line's packet plus 58.  From its bytes, whatever follows them in
  the buffer, the sender's parser reads the mapped source address, which belongs to that host, the
  mapped destination, which does not, and a length that is at most 5000.
\<close>

theorem trace_line_to_packet:
  assumes "flow_src_hash hb" "b4_inv hb num (g_b4 g)" "unat (unique_ip_num (g_b4 g)) + 2 \<le> IP_CAPACITY"
    and "parse_one_line l (g_packet g) = Inr (p, 0)"
  shows "\<exists>g' num' i j. handle_line hb env l g = Inr g' \<and> b4_inv hb num' (g_b4 g') \<and>
    num' (p_srcip p) = Some i \<and> num' (p_dstip p) = Some j \<and>
    (if node_of i = node_of j then g_pdumper g' = g_pdumper g
     else \<exists>r pk q. g_pdumper g' = (g_pdumper g)(node_of i := g_pdumper g (node_of i) @ [r]) \<and> ph_caplen r = 58 \<and>
       length (ph_data r) = 58 \<and> uint (ph_len r) = 58 + uint (p_len p) \<and>
       parse_ipv4 (ph_data r @ rest) (uint (ph_len r)) 1 = Some (Some (pk, q)) \<and> uint (p_len pk) = uint (ph_len r) \<and>
       uint (p_len pk) \<le> 5000 \<and> p_srcip pk = word_of_nat (addr_of i) \<and> p_dstip pk = word_of_nat (addr_of j) \<and>
       unat (GET_SENDER_IDX (p_srcip pk)) = node_of i \<and> unat (GET_SENDER_IDX (p_dstip pk)) = node_of j)"
proof -
  from flow_src_hash.handle_line_spec [OF assms, of env] obtain g' num' i j where
    r: "handle_line hb env l g = Inr g'" "b4_inv hb num' (g_b4 g')" "num' (p_srcip p) = Some i" "num' (p_dstip p) = Some j"
      "i < IP_CAPACITY" "j < IP_CAPACITY" and
    d: "if node_of i = node_of j then g_pdumper g' = g_pdumper g
     else \<exists>pk q. p_srcip pk = word_of_nat (addr_of i) \<and> p_dstip pk = word_of_nat (addr_of j) \<and> p_len pk = p_len p \<and>
       g_pdumper g' = (g_pdumper g)(node_of i := g_pdumper g (node_of i) @
         [\<lparr>ph_ts = gen_ts, ph_caplen = 58, ph_len = 58 + ucast (p_len p), ph_data = gen_frame 0 pk q\<rparr>])" by blast
  have len: "uint (p_len p) \<le> 4942" using parse_one_line_len [OF assms(4)] by (simp add: word_le_def)
  show ?thesis
  proof (cases "node_of i = node_of j")
    case False
    with d obtain pk q where pk: "p_srcip pk = word_of_nat (addr_of i)" "p_dstip pk = word_of_nat (addr_of j)"
      "g_pdumper g' = (g_pdumper g)(node_of i := g_pdumper g (node_of i) @
         [\<lparr>ph_ts = gen_ts, ph_caplen = 58, ph_len = 58 + ucast (p_len p), ph_data = gen_frame 0 pk q\<rparr>])" by auto
    let ?r = "\<lparr>ph_ts = gen_ts, ph_caplen = 58, ph_len = 58 + ucast (p_len p), ph_data = gen_frame 0 pk q\<rparr>"
    let ?s = "sent_packet pk (uint (ph_len ?r))"
    have "uint (word_of_int x :: u16) = x" if "0 \<le> x" "x < 65536" for x
      using that by (simp add: uint_word_of_int)
    then have "uint (p_len ?s) = 58 + uint (p_len p)"
      using len unfolding sent_packet_def by (simp add: pcap_len del: of_int_add)
    moreover have "p_srcip ?s = word_of_nat (addr_of i)" "p_dstip ?s = word_of_nat (addr_of j)" by (simp_all add: sent_packet_def pk)
    ultimately show ?thesis using r False pk(3) len
      by (intro exI [of _ g'] exI [of _ num'] exI [of _ i] exI [of _ j])
        (auto simp: gen_frame_parse pcap_len addr_node_idx node_of_eq intro!: exI [of _ ?r])
  qed (use r d in auto)
qed

definition sample_generator :: generator where
  "sample_generator = \<lparr>g_b4 = fst (init_srcip_dstip_to_b4_srcip_dstip (\<lambda>_. True) b4_zero),
     g_flow_seqid_hashmap = ht_kf_create True HASH_MAP_SIZE, g_pdumper = (\<lambda>_. []), g_fp = (\<lambda>_. []),
     g_packet = sample_packet_t, g_read_num_lines = 0, g_rand_pos = 0, g_calls = 0\<rparr>"

definition sample_env :: gen_env where
  "sample_env = \<lparr>ge_rand = (\<lambda>n. n), ge_junk = (\<lambda>_. sample_flow_junk)\<rparr>"

theorem trace_line_to_packet_witness:
  "\<exists>g' num'. handle_line flow_src_hash_bin sample_env ''0,7,9,80,81,6,1400'' sample_generator = Inr g' \<and>
    b4_inv flow_src_hash_bin num' (g_b4 g') \<and> num' 7 \<noteq> None \<and> num' 9 \<noteq> None"
proof -
  have r: "snd (init_srcip_dstip_to_b4_srcip_dstip (\<lambda>_. True) b4_zero) = 0"
    by (simp add: init_srcip_dstip_to_b4_srcip_dstip_def ht_kfs_vi_create_def Let_def)
  then have "init_srcip_dstip_to_b4_srcip_dstip (\<lambda>_. True) b4_zero =
      (fst (init_srcip_dstip_to_b4_srcip_dstip (\<lambda>_. True) b4_zero), 0)" by (metis prod.collapse)
  from murmur.init_b4 [OF this] have inv: "b4_inv flow_src_hash_bin Map.empty (g_b4 sample_generator)"
    and "unique_ip_num (g_b4 sample_generator) = 0" by (simp_all add: sample_generator_def)
  then have cap: "unat (unique_ip_num (g_b4 sample_generator)) + 2 \<le> IP_CAPACITY" by (simp add: IP_CAPACITY_def)
  let ?p = "sample_packet_t\<lparr>p_srcip := 7, p_dstip := 9, p_src_port := 80, p_dst_port := 81, p_len := 1400\<rparr>"
  have "parse_one_line ''0,7,9,80,81,6,1400'' sample_packet_t = Inr (?p, 0)" by code_simp
  then have line: "parse_one_line ''0,7,9,80,81,6,1400'' (g_packet sample_generator) = Inr (?p, 0)"
    by (simp add: sample_generator_def)
  obtain g' num' i j where "handle_line flow_src_hash_bin sample_env ''0,7,9,80,81,6,1400'' sample_generator = Inr g'"
    "b4_inv flow_src_hash_bin num' (g_b4 g')" "num' (p_srcip ?p) = Some i" "num' (p_dstip ?p) = Some j"
    using trace_line_to_packet [OF murmur.flow_src_hash_axioms inv cap line, of sample_env] by blast
  then show ?thesis by (intro exI [of _ g'] exI [of _ num']) simp
qed

definition sample_files :: "int \<Rightarrow> string list option" where
  "sample_files n = (if n = 130100 then Some [''0,7,9,80,81,6,1400'', ''broken'', ''0,9,7,80,81,6,60''] else None)"

text \<open>
  C15: the generator as a whole.  Started with two arguments, and with all tables and files created, it reads every line of
  every file that can be opened, files that cannot be opened being passed over, and returns.  The addresses of the well-formed
  lines are numbered in the order in which they first appear, and the file of each host \<open>i\<close> holds, in the order of the trace,
  exactly the packets of the well-formed lines whose source is moved to \<open>i\<close> and whose destination is moved to another host:
  what the sender reads from the records are the moved addresses and the length of the line plus 58.  Every record is a
  frame of 58 captured bytes and at most 5000 bytes, from an address in the prefix of host \<open>i\<close> to an address in the prefix of
  another one of the twelve hosts.  The hypotheses: no line has an empty field, and there are at most
  100 million lines, so that the prefixes do not run out of addresses.
\<close>

theorem generator_files:
  assumes "flow_src_hash hb" "generator_init ok malloc_ok open_ok g = Some g0"
    and "2 * length (trace_lines files) \<le> IP_CAPACITY" "\<forall>l \<in> set (trace_lines files). \<exists>ts. str_split l (CHR '','') = Inr ts"
    and "number_ips (trace_packets (trace_lines files)) (Map.empty, 0) = (num, k)"
  shows "\<exists>g'. generator_main hb env ok malloc_ok open_ok files 3 g = Inr (Some (g', generator_destory g')) \<and>
    g_read_num_lines g' = word_of_nat (length (trace_lines files)) \<and> b4_inv hb num (g_b4 g') \<and> unat (unique_ip_num (g_b4 g')) = k \<and>
    (\<forall>i. map packet_of_record (g_pdumper g' i) = written num i (trace_packets (trace_lines files)) \<and>
      (\<forall>r \<in> set (g_pdumper g' i). host_record i r))"
proof -
  from assms(2) obtain b4 where b: "init_srcip_dstip_to_b4_srcip_dstip ok (g_b4 g) = (b4, 0)"
    and w: "init_write_pkts_to_files malloc_ok open_ok (g\<lparr>g_b4 := b4\<rparr>) = Some g0"
    by (auto simp: generator_init_def split: prod.splits if_splits)
  from w have g0: "g_b4 g0 = b4" "\<And>i. g_pdumper g0 i = []"
    by (auto simp: init_write_pkts_to_files_def split: option.splits if_splits)
  let ?g = "g0\<lparr>g_read_num_lines := 0\<rparr>" and ?ls = "trace_lines files"
  note inv = flow_src_hash.init_b4 [OF assms(1) b]
  have "b4_inv hb Map.empty (g_b4 ?g)" "unat (unique_ip_num (g_b4 ?g)) + 2 * length ?ls \<le> IP_CAPACITY"
    "\<forall>i. \<forall>r \<in> set (g_pdumper ?g i). host_record i r" using inv g0 assms(3) by auto
  moreover have "number_ips (trace_packets ?ls) (Map.empty, unat (unique_ip_num (g_b4 ?g))) = (num, k)" using inv g0 assms(5) by simp
  ultimately obtain g' where
    r: "handle_lines hb env ?ls ?g = Inr g'" "b4_inv hb num (g_b4 g')" "unat (unique_ip_num (g_b4 g')) = k"
      "g_read_num_lines g' = word_of_nat (length ?ls)"
      "\<forall>i. map packet_of_record (g_pdumper g' i) = written num i (trace_packets ?ls)"
      "\<forall>i. \<forall>r \<in> set (g_pdumper g' i). host_record i r"
    using flow_src_hash.handle_lines_spec [OF assms(1) _ _ assms(4), of Map.empty ?g num k env] by (auto simp: g0)
  have "generator_main hb env ok malloc_ok open_ok files 3 g = Inr (Some (g', generator_destory g'))"
    by (simp add: generator_main_def assms(2) file_loop_lines r(1))
  with r show ?thesis by blast
qed

lemma sample_trace_lines: "trace_lines sample_files = [''0,7,9,80,81,6,1400'', ''broken'', ''0,9,7,80,81,6,60'']"
  by code_simp

lemma sample_line_packets:
  "line_packet ''0,7,9,80,81,6,1400'' = Some (7, 9, 1400)" "line_packet ''broken'' = None"
  "line_packet ''0,9,7,80,81,6,60'' = Some (9, 7, 60)"
proof -
  let ?p = "sample_packet_t\<lparr>p_srcip := 7, p_dstip := 9, p_src_port := 80, p_dst_port := 81, p_len := 1400\<rparr>"
  let ?q = "sample_packet_t\<lparr>p_srcip := 9, p_dstip := 7, p_src_port := 80, p_dst_port := 81, p_len := 60\<rparr>"
  have 1: "parse_one_line ''0,7,9,80,81,6,1400'' sample_packet_t = Inr (?p, 0)" by code_simp
  have 2: "parse_one_line ''broken'' sample_packet_t = Inr (sample_packet_t, - 1)" by code_simp
  have 3: "parse_one_line ''0,9,7,80,81,6,60'' sample_packet_t = Inr (?q, 0)" by code_simp
  show "line_packet ''0,7,9,80,81,6,1400'' = Some (7, 9, 1400)" using parse_one_line_packet [OF 1] by simp
  show "line_packet ''broken'' = None" using parse_one_line_packet [OF 2] by simp
  show "line_packet ''0,9,7,80,81,6,60'' = Some (9, 7, 60)" using parse_one_line_packet [OF 3] by simp
qed

lemma sample_lines_split: "\<forall>l \<in> set (trace_lines sample_files). \<exists>ts. str_split l (CHR '','') = Inr ts"
proof -
  have "str_split ''0,7,9,80,81,6,1400'' (CHR '','') = Inr [''0'', ''7'', ''9'', ''80'', ''81'', ''6'', ''1400'']"
    "str_split ''broken'' (CHR '','') = Inr [''broken'']"
    "str_split ''0,9,7,80,81,6,60'' (CHR '','') = Inr [''0'', ''9'', ''7'', ''80'', ''81'', ''6'', ''60'']" by code_simp+
  then show ?thesis unfolding sample_trace_lines by auto
qed

lemma sample_generator_init: "\<exists>g0. generator_init (\<lambda>_. True) True (\<lambda>_. True) sample_generator = Some g0"
  by (simp add: generator_init_def init_srcip_dstip_to_b4_srcip_dstip_def ht_kfs_vi_create_def Let_def
      init_write_pkts_to_files_def ht_kf_create_def HASH_MAP_SIZE_def list_all_iff)

lemma sample_trace_packets: "trace_packets (trace_lines sample_files) = [(7, 9, 1400), (9, 7, 60)]"
  unfolding sample_trace_lines trace_packets_def by (simp add: List.map_filter_simps sample_line_packets)

lemma sample_numbers: "number_ips (trace_packets (trace_lines sample_files)) (Map.empty, 0) = ([7 \<mapsto> 0, 9 \<mapsto> 1], 2)"
  by (simp add: sample_trace_packets number_ip_def)

lemma sample_written:
  "written [7 \<mapsto> 0, 9 \<mapsto> 1] 1 [(7, 9, 1400), (9, 7, 60)] = [Some (11 * 2 ^ 24, 12 * 2 ^ 24, 1458)]"
  "written [7 \<mapsto> 0, 9 \<mapsto> 1] 2 [(7, 9, 1400), (9, 7, 60)] = [Some (12 * 2 ^ 24, 11 * 2 ^ 24, 118)]"
  by (simp_all add: moved_host_def moved_ip_def node_of_def addr_of_def)

text \<open>
  In the example only one file can be opened, the second; of its three lines one is broken.  The first address gets number 0
  and goes to host 1, the second number 1 and host 2, and each host gets one packet.
\<close>

theorem generator_files_witness:
  "\<exists>g'. generator_main flow_src_hash_bin sample_env (\<lambda>_. True) True (\<lambda>_. True) sample_files 3 sample_generator =
      Inr (Some (g', generator_destory g')) \<and> g_read_num_lines g' = 3 \<and>
    map packet_of_record (g_pdumper g' 1) = [Some (11 * 2 ^ 24, 12 * 2 ^ 24, 1458)] \<and>
    map packet_of_record (g_pdumper g' 2) = [Some (12 * 2 ^ 24, 11 * 2 ^ 24, 118)]"
proof -
  obtain g0 where g0: "generator_init (\<lambda>_. True) True (\<lambda>_. True) sample_generator = Some g0" using sample_generator_init ..
  have cap: "2 * length (trace_lines sample_files) \<le> IP_CAPACITY" by (simp add: sample_trace_lines IP_CAPACITY_def)
  from generator_files [OF murmur.flow_src_hash_axioms g0 cap sample_lines_split sample_numbers, of sample_env]
  obtain g' where g': "generator_main flow_src_hash_bin sample_env (\<lambda>_. True) True (\<lambda>_. True) sample_files 3 sample_generator =
      Inr (Some (g', generator_destory g')) \<and> g_read_num_lines g' = word_of_nat (length (trace_lines sample_files)) \<and>
    b4_inv flow_src_hash_bin [7 \<mapsto> 0, 9 \<mapsto> 1] (g_b4 g') \<and> unat (unique_ip_num (g_b4 g')) = 2 \<and>
    (\<forall>i. map packet_of_record (g_pdumper g' i) = written [7 \<mapsto> 0, 9 \<mapsto> 1] i (trace_packets (trace_lines sample_files)) \<and>
      (\<forall>r \<in> set (g_pdumper g' i). host_record i r))" ..
  then have r: "\<And>i. map packet_of_record (g_pdumper g' i) = written [7 \<mapsto> 0, 9 \<mapsto> 1] i [(7, 9, 1400), (9, 7, 60)]"
    by (simp only: sample_trace_packets)
  have "g_read_num_lines g' = 3" using g' by (simp add: sample_trace_lines)
  moreover note r [of 1, unfolded sample_written] r [of 2, unfolded sample_written]
  ultimately show ?thesis by (intro exI [of _ g'] conjI conjunct1 [OF g'])
qed

end
