(* ===== verification/Flow_Infor_Updator.thy ===== *)
theory Flow_Infor_Updator
  imports Data_Warehouse Sender_Fifo
begin

text \<open>
  \<^verbatim>\<open>tcpreplay/src/flow_infor_updator.c\<close>: the thread of the sender that reads the reports of the receivers from
  its pipe, finds out which packets were lost, and updates the loss statistics of their flows.  The
  debug output is left out.
\<close>

section \<open>One report\<close>

record updator =
  u_dw :: data_warehouse
  u_total_lost_pkt_num :: int

definition proto_flow :: "recv_2_send_proto \<Rightarrow> flow_s" where
  "proto_flow r = \<lparr>f_srcip = rp_srcip r, f_dstip = rp_dstip r, f_src_port = rp_src_port r, f_dst_port = rp_dst_port r,
     f_protocol = rp_protocol r\<rparr>"

definition proto_flow_src :: "recv_2_send_proto \<Rightarrow> flow_src" where
  "proto_flow_src r = \<lparr>fs_srcip = rp_srcip r, fs_dstip = rp_dstip r\<rparr>"

definition process_report :: "(flow_src \<Rightarrow> u32 \<Rightarrow> u32) \<Rightarrow> cm_experiment_setting \<Rightarrow> recv_2_send_proto \<Rightarrow> updator \<Rightarrow> updator" where
  "process_report hb st r u =
    (let dw = u_dw u;
         (m, receV_lostV) = ht_vl_get_rece_lost_volume (data_warehouse_get_flow_recePktList_map dw) (proto_flow r) (rp_rece_seqid r);
         dw = dw\<lparr>dw_flow_recePktList_map := m\<rparr>;
         total = c_int (u_total_lost_pkt_num u + uint (lost_pkt_num receV_lostV));
         dw = (if lost_volume receV_lostV > 0
               then update_flow_loss_volume hb st (proto_flow_src r) (sint (lost_volume receV_lostV)) dw else dw)
     in \<lparr>u_dw = dw, u_total_lost_pkt_num = total\<rparr>)"

section \<open>The thread\<close>

text \<open>
  The loop runs on the bytes in the pipe.  When they are used up the thread blocks in \<^verbatim>\<open>read\<close>
  (\<open>Waiting\<close>; the pipe is open for writing too, so there is no end of file); when \<^verbatim>\<open>read\<close> returns less than
  a record it ends (\<open>Ended\<close>).
\<close>

datatype thread_state = Waiting | Ended

function update_loop :: "(flow_src \<Rightarrow> u32 \<Rightarrow> u32) \<Rightarrow> cm_experiment_setting \<Rightarrow> u8 list \<Rightarrow> updator \<Rightarrow>
    updator \<times> u8 list \<times> thread_state" where
  "update_loop hb st fifo u =
    (if fifo = [] then (u, [], Waiting)
     else case readConditionFromFIFO fifo of
            (rest, None) \<Rightarrow> (u, rest, Ended)
          | (rest, Some r) \<Rightarrow> update_loop hb st rest (process_report hb st r u))"
  by pat_completeness auto
termination
  by (relation "measure (\<lambda>(_, _, fifo, _). length fifo)") (auto simp: readConditionFromFIFO_def SIZEOF_PROTO_def Let_def)

declare update_loop.simps [simp del]

definition flow_infor_update :: "(flow_src \<Rightarrow> u32 \<Rightarrow> u32) \<Rightarrow> cm_experiment_setting \<Rightarrow> string option \<Rightarrow> (string \<Rightarrow> int) \<Rightarrow>
    (int \<Rightarrow> u8 list) \<Rightarrow> data_warehouse \<Rightarrow> data_warehouse \<times> thread_state" where
  "flow_infor_update hb st dev open_ret pipe dw =
    (case sender_get_fifo_fname dev 100 of
       None \<Rightarrow> (dw, Ended)
     | Some fifo_fname \<Rightarrow>
         let fifo_handler = openFIFO open_ret fifo_fname
         in if fifo_handler < 0 then (dw, Ended)
            else (case update_loop hb st (pipe fifo_handler) \<lparr>u_dw = dw, u_total_lost_pkt_num = 0\<rparr> of
                    (u, rest, e) \<Rightarrow> (u_dw u, e)))"

section \<open>Lemmas\<close>

text \<open>A pipe that holds whole records: each is processed, in order, and the thread waits for more.\<close>

definition stream :: "(padding \<times> recv_2_send_proto) list \<Rightarrow> u8 list" where
  "stream prs = concat (map (\<lambda>(pad, r). proto_bytes pad r) prs)"

lemma update_loop_Nil [simp]: "update_loop hb st [] u = (u, [], Waiting)"
  by (simp add: update_loop.simps)

lemma update_loop_Cons [simp]:
  "update_loop hb st (proto_bytes pad r @ rest) u = update_loop hb st rest (process_report hb st r u)"
proof -
  have "proto_bytes pad r \<noteq> []" using proto_bytes_length [of pad r] by (metis SIZEOF_PROTO_def list.size(3) zero_neq_numeral)
  then show ?thesis by (simp add: update_loop.simps [of hb st "proto_bytes pad r @ rest"])
qed

lemma update_loop_stream:
  "update_loop hb st (stream prs @ rest) u = update_loop hb st rest (fold (process_report hb st) (map snd prs) u)"
  by (induction prs arbitrary: u) (auto simp: stream_def)

lemma update_loop_short:
  assumes "rest \<noteq> []" "length rest < 20"
  shows "update_loop hb st rest u = (u, [], Ended)"
  using assms by (simp add: update_loop.simps readConditionFromFIFO_def SIZEOF_PROTO_def)

text \<open>Volumes as unbounded numbers, and when the 32-bit sum of the code is exact.\<close>

definition volume_of :: "pkt_volume list \<Rightarrow> int" where
  "volume_of ps = sum_list (map (\<lambda>p. uint (pv_volume p)) ps)"

lemma volume_of_simps [simp]: "volume_of [] = 0" "volume_of (p # ps) = uint (pv_volume p) + volume_of ps"
  by (simp_all add: volume_of_def)

lemma volume_of_nonneg [simp]: "0 \<le> volume_of ps"
  by (induction ps) simp_all

lemma vol_volume: "vol ps = word_of_int (volume_of ps)"
  by (induction ps) simp_all

lemma vol_exact:
  assumes "volume_of ps < 2147483648"
  shows "sint (vol ps) = volume_of ps" "vol ps > 0 \<longleftrightarrow> volume_of ps > 0"
proof -
  have "int_range (volume_of ps)"
    unfolding int_range_def using assms volume_of_nonneg [of ps] by linarith
  then show s: "sint (vol ps) = volume_of ps" unfolding vol_volume by (rule sint_word_of_int_range)
  have "vol ps = 0 \<longleftrightarrow> volume_of ps = 0" using s by (auto simp: vol_volume)
  then show "vol ps > 0 \<longleftrightarrow> volume_of ps > 0" unfolding word_gt_0 using volume_of_nonneg [of ps] by (metis less_le)
qed

abbreviation overtaken :: "u32 \<Rightarrow> pkt_volume list \<Rightarrow> pkt_volume list" where
  "overtaken s ps \<equiv> filter (\<lambda>p. pv_seqid p < s) ps"

lemma volume_filter_le: "volume_of (filter P ps) \<le> volume_of ps"
  by (induction ps) (simp_all add: add_increasing)

lemma volume_filter_disjoint:
  "(\<And>p. \<not> (P p \<and> R p)) \<Longrightarrow> volume_of (filter P ps) + volume_of (filter R ps) = volume_of (filter (\<lambda>p. P p \<or> R p) ps)"
  by (induction ps) auto

text \<open>The statistics of losses are kept apart from the pending packets.\<close>

lemma rate_level_ledger: "dw_flow_recePktList_map (set_rate_and_level hb st f v l dw) = dw_flow_recePktList_map dw"
  by (simp add: set_rate_and_level_def update_flow_selected_level_map_def set_active_level_def Let_def)

lemma loss_volume_ledger: "dw_flow_recePktList_map (update_flow_loss_volume hb st f d dw) = dw_flow_recePktList_map dw"
  by (cases "loss_map_mem_type (sender st) = FIXED")
    (simp_all add: update_flow_loss_volume_def rate_level_ledger Let_def split_def)

text \<open>A flow with a positive loss has an entry in the volume table.\<close>

lemma loss_has_volume:
  assumes "dw_inv hb st dw" "0 < flow_loss hb dw f"
  shows "tab_map hb (dw_flow_volume_map dw (dw_active_idx dw)) f \<noteq> None"
  using dw_inv_active(2) [OF assms(1), of f] assms(2) by (auto simp: flow_consistent_def split: option.splits)

text \<open>The counter of the interval takes every loss, also that of a flow without volume.\<close>

lemma rate_and_level_counter: "dw_volume_lost (set_rate_and_level hb st f v l dw) = dw_volume_lost dw"
  by (simp add: set_rate_and_level_def update_flow_selected_level_map_def set_active_level_def Let_def)

lemma loss_volume_counter:
  "dw_volume_lost (update_flow_loss_volume hb st f d dw) =
    (dw_volume_lost dw)(dw_active_idx dw := dw_volume_lost dw (dw_active_idx dw) + word_of_int d)"
  by (simp add: update_flow_loss_volume_def Let_def split_def rate_and_level_counter)

context flow_src_hash
begin

lemma process_report_eq:
  fixes dw :: data_warehouse and r :: recv_2_send_proto and st :: cm_experiment_setting and n :: int
  defines "Q \<equiv> vl_queue (dw_flow_recePktList_map dw) (proto_flow r)" and "s \<equiv> rp_rece_seqid r" and "f \<equiv> proto_flow_src r"
    and "u' \<equiv> process_report hb st r \<lparr>u_dw = dw, u_total_lost_pkt_num = n\<rparr>"
  assumes inv: "dw_inv hb st dw" and sorted: "seq_sorted Q" and fit: "flow_loss hb dw f + volume_of (overtaken s Q) < 2147483648"
  shows "\<exists>m. dw_inv hb st (dw\<lparr>dw_flow_recePktList_map := m\<rparr>) \<and>
    (\<forall>g. vl_queue m g = (if flow_tuple (proto_flow r) = flow_tuple g then filter (\<lambda>p. s < pv_seqid p) Q
       else vl_queue (dw_flow_recePktList_map dw) g)) \<and>
    u_dw u' = (if volume_of (overtaken s Q) > 0
      then update_flow_loss_volume hb st f (volume_of (overtaken s Q)) (dw\<lparr>dw_flow_recePktList_map := m\<rparr>)
      else dw\<lparr>dw_flow_recePktList_map := m\<rparr>)"
proof -
  let ?m = "dw_flow_recePktList_map dw"
  obtain m ans where g: "ht_vl_get_rece_lost_volume ?m (proto_flow r) s = (m, ans)" by (meson surj_pair)
  have ok: "vl_ok ?m" using dw_inv_shared(2) [OF inv] .
  note acc = vl_account_sorted [OF sorted, of s]
  have m: "vl_ok m" "\<And>g. vl_queue m g = (if flow_tuple (proto_flow r) = flow_tuple g then filter (\<lambda>p. s < pv_seqid p) Q
      else vl_queue ?m g)"
    using vl.report_ok [OF ok, of "proto_flow r" s] vl.pending_report [OF ok, of "proto_flow r" s] acc
    by (simp_all add: g Q_def)
  have ans: "lost_volume ans = Ht_vLinklist.vol (overtaken s Q)"
    using vl.report_ans [OF ok, of "proto_flow r" s] acc by (simp add: g Q_def)
  have "volume_of (overtaken s Q) < 2147483648" using fit dw_inv_nonneg(2) [OF inv, of f] by linarith
  note ex = vol_exact [OF this]
  have "dw_inv hb st (dw\<lparr>dw_flow_recePktList_map := m\<rparr>)"
    using dw_inv_tables [OF inv] dw_inv_shared [OF inv] m(1) by (intro dw_inv_frame [OF inv]) simp_all
  moreover have "u_dw u' = (if volume_of (overtaken s Q) > 0
      then update_flow_loss_volume hb st f (volume_of (overtaken s Q)) (dw\<lparr>dw_flow_recePktList_map := m\<rparr>)
      else dw\<lparr>dw_flow_recePktList_map := m\<rparr>)"
    by (simp add: u'_def process_report_def dw_get_defs g [unfolded s_def] ans [unfolded s_def] ex [unfolded s_def] f_def s_def)
  ultimately show ?thesis using m(2) by (intro exI [of _ m]) simp
qed

text \<open>What a report changes in the losses, for any state of the table of volumes.\<close>

lemma process_report_losses:
  fixes dw :: data_warehouse and r :: recv_2_send_proto and st :: cm_experiment_setting and n :: int
  defines "Q \<equiv> vl_queue (dw_flow_recePktList_map dw) (proto_flow r)" and "s \<equiv> rp_rece_seqid r" and "f \<equiv> proto_flow_src r"
    and "u' \<equiv> process_report hb st r \<lparr>u_dw = dw, u_total_lost_pkt_num = n\<rparr>"
  assumes inv: "dw_inv hb st dw" and sorted: "seq_sorted Q" and fit: "flow_loss hb dw f + volume_of (overtaken s Q) < 2147483648"
  shows "u_total_lost_pkt_num u' = c_int (n + int (length (overtaken s Q)))"
    "dw_volume_lost (u_dw u') = (dw_volume_lost dw)(dw_active_idx dw := dw_volume_lost dw (dw_active_idx dw) + word_of_int (volume_of (overtaken s Q)))"
    "flow_loss hb (u_dw u') g = flow_loss hb dw g +
      (if g = f \<and> tab_map hb (dw_flow_volume_map dw (dw_active_idx dw)) f \<noteq> None then volume_of (overtaken s Q) else 0)"
    "flow_volume hb (u_dw u') g = flow_volume hb dw g"
proof -
  let ?d = "volume_of (overtaken s Q)" and ?a = "dw_active_idx dw"
  obtain m where m: "dw_inv hb st (dw\<lparr>dw_flow_recePktList_map := m\<rparr>)"
    "u_dw u' = (if ?d > 0 then update_flow_loss_volume hb st f ?d (dw\<lparr>dw_flow_recePktList_map := m\<rparr>) else dw\<lparr>dw_flow_recePktList_map := m\<rparr>)"
    using process_report_eq [OF inv sorted [unfolded Q_def] fit [unfolded Q_def s_def f_def], of n]
    unfolding Q_def s_def f_def u'_def by blast
  let ?dw = "dw\<lparr>dw_flow_recePktList_map := m\<rparr>"
  have z: "?d = 0" if "\<not> ?d > 0" using that volume_of_nonneg [of "overtaken s Q"] by linarith
  show "dw_volume_lost (u_dw u') = (dw_volume_lost dw)(?a := dw_volume_lost dw ?a + word_of_int ?d)"
    using z by (cases "?d > 0") (simp_all add: m(2) loss_volume_counter)
  have "flow_loss hb (u_dw u') g = flow_loss hb dw g + (if g = f \<and> tab_map hb (dw_flow_volume_map dw ?a) f \<noteq> None then ?d else 0) \<and>
      flow_volume hb (u_dw u') g = flow_volume hb dw g"
  proof (cases "?d > 0 \<and> tab_map hb (dw_flow_volume_map dw ?a) f \<noteq> None")
    case True
    then obtain v where v: "tab_map hb (dw_flow_volume_map ?dw (dw_active_idx ?dw)) f = Some v" by auto
    have fit': "flow_loss hb ?dw f + ?d < 2147483648" using fit by simp
    from loss_volume_spec [OF m(1) _ fit' v] True have
      l: "only_flow hb f ?dw (u_dw u')" "flow_loss hb (u_dw u') f = flow_loss hb dw f + ?d" "flow_volume hb (u_dw u') f = flow_volume hb dw f"
      by (simp_all add: m(2))
    show ?thesis using l True by (cases "g = f") (simp_all add: only_flow_def)
  next
    case False
    show ?thesis
    proof (cases "?d > 0")
      case True
      with False have "tab_map hb (dw_flow_volume_map ?dw (dw_active_idx ?dw)) f = None" by simp
      with True False show ?thesis by (simp add: m(2) loss_volume_ignored)
    qed (simp add: m(2) z)
  qed
  then show "flow_loss hb (u_dw u') g = flow_loss hb dw g + (if g = f \<and> tab_map hb (dw_flow_volume_map dw ?a) f \<noteq> None then ?d else 0)"
    "flow_volume hb (u_dw u') g = flow_volume hb dw g" by blast+
  have "lost_pkt_num (snd (ht_vl_get_rece_lost_volume (dw_flow_recePktList_map dw) (proto_flow r) s)) = word_of_nat (length (overtaken s Q))"
    using vl.report_ans [OF dw_inv_shared(2) [OF inv], of "proto_flow r" s] vl_account_sorted [OF sorted, of s] by (simp add: Q_def)
  moreover have "c_int (n + uint (word_of_nat k :: u32)) = c_int (n + int k)" for k
  proof -
    have "uint (word_of_nat k :: u32) = int k mod 4294967296" by (simp add: unsigned_of_nat take_bit_eq_mod zmod_int)
    moreover have "(n + int k mod 4294967296 + 2147483648) mod 4294967296 = (n + int k + 2147483648) mod 4294967296"
      using mod_add_right_eq [of "n + 2147483648" "int k" 4294967296] by (simp add: ac_simps)
    ultimately show ?thesis by (simp add: c_int_def)
  qed
  ultimately show "u_total_lost_pkt_num u' = c_int (n + int (length (overtaken s Q)))"
    by (simp add: u'_def process_report_def dw_get_defs s_def split_def Let_def)
qed

lemma process_report_inv:
  fixes dw :: data_warehouse and r :: recv_2_send_proto and st :: cm_experiment_setting and n :: int
  defines "Q \<equiv> vl_queue (dw_flow_recePktList_map dw) (proto_flow r)" and "s \<equiv> rp_rece_seqid r"
    and "u' \<equiv> process_report hb st r \<lparr>u_dw = dw, u_total_lost_pkt_num = n\<rparr>"
  assumes inv: "dw_inv hb st dw" and sorted: "seq_sorted Q"
    and fit: "flow_loss hb dw (proto_flow_src r) + volume_of (overtaken s Q) < 2147483648"
  shows "dw_inv hb st (u_dw u') \<and> (\<forall>g. vl_queue (dw_flow_recePktList_map (u_dw u')) g =
      (if flow_tuple (proto_flow r) = flow_tuple g then filter (\<lambda>p. s < pv_seqid p) Q
       else vl_queue (dw_flow_recePktList_map dw) g))"
proof -
  let ?d = "volume_of (overtaken s Q)" and ?f = "proto_flow_src r"
  obtain m where m: "dw_inv hb st (dw\<lparr>dw_flow_recePktList_map := m\<rparr>)"
    "\<And>g. vl_queue m g = (if flow_tuple (proto_flow r) = flow_tuple g then filter (\<lambda>p. s < pv_seqid p) Q
       else vl_queue (dw_flow_recePktList_map dw) g)"
    "u_dw u' = (if ?d > 0 then update_flow_loss_volume hb st ?f ?d (dw\<lparr>dw_flow_recePktList_map := m\<rparr>)
      else dw\<lparr>dw_flow_recePktList_map := m\<rparr>)"
    using process_report_eq [OF inv sorted [unfolded Q_def] fit [unfolded Q_def s_def], of n]
    unfolding Q_def s_def u'_def by blast
  have "flow_loss hb (dw\<lparr>dw_flow_recePktList_map := m\<rparr>) ?f + ?d < 2147483648" using fit by simp
  with m show ?thesis using loss_volume_inv [OF m(1)] by (simp add: loss_volume_ledger)
qed

lemma process_report_spec:
  fixes dw :: data_warehouse and r :: recv_2_send_proto and st :: cm_experiment_setting and n :: int
  defines "Q \<equiv> vl_queue (dw_flow_recePktList_map dw) (proto_flow r)" and "s \<equiv> rp_rece_seqid r" and "f \<equiv> proto_flow_src r"
    and "u' \<equiv> process_report hb st r \<lparr>u_dw = dw, u_total_lost_pkt_num = n\<rparr>"
  assumes inv: "dw_inv hb st dw" and sorted: "seq_sorted Q"
    and vol: "tab_map hb (dw_flow_volume_map dw (dw_active_idx dw)) f \<noteq> None"
    and fit: "flow_loss hb dw f + volume_of (overtaken s Q) < 2147483648"
  shows "dw_inv hb st (u_dw u') \<and> only_flow hb f dw ((u_dw u')\<lparr>dw_flow_recePktList_map := dw_flow_recePktList_map dw\<rparr>) \<and>
    flow_loss hb (u_dw u') f = flow_loss hb dw f + volume_of (overtaken s Q) \<and>
    flow_volume hb (u_dw u') f = flow_volume hb dw f \<and>
    tab_map hb (dw_flow_volume_map (u_dw u') (dw_active_idx (u_dw u'))) f \<noteq> None \<and>
    (\<forall>g. vl_queue (dw_flow_recePktList_map (u_dw u')) g =
      (if flow_tuple (proto_flow r) = flow_tuple g then filter (\<lambda>p. s < pv_seqid p) Q
       else vl_queue (dw_flow_recePktList_map dw) g))"
proof -
  let ?d = "volume_of (overtaken s Q)"
  obtain m where inv1: "dw_inv hb st (dw\<lparr>dw_flow_recePktList_map := m\<rparr>)"
    and m: "\<And>g. vl_queue m g = (if flow_tuple (proto_flow r) = flow_tuple g then filter (\<lambda>p. s < pv_seqid p) Q
       else vl_queue (dw_flow_recePktList_map dw) g)"
    and u': "u_dw u' = (if ?d > 0 then update_flow_loss_volume hb st f ?d (dw\<lparr>dw_flow_recePktList_map := m\<rparr>)
      else dw\<lparr>dw_flow_recePktList_map := m\<rparr>)"
    using process_report_eq [OF inv sorted [unfolded Q_def] fit [unfolded Q_def s_def f_def], of n]
    unfolding Q_def s_def u'_def f_def by blast
  let ?dw = "dw\<lparr>dw_flow_recePktList_map := m\<rparr>"
  have only: "only_flow hb f dw (dw\<lparr>dw_flow_recePktList_map := dw_flow_recePktList_map dw\<rparr>)" by (simp add: only_flow_def)
  show ?thesis
  proof (cases "?d > 0")
    case True
    from vol obtain v where v: "tab_map hb (dw_flow_volume_map ?dw (dw_active_idx ?dw)) f = Some v" by auto
    have "flow_loss hb ?dw f + ?d < 2147483648" using fit by simp
    note l = loss_volume_spec [OF inv1 True this v]
    then have "0 < flow_loss hb (update_flow_loss_volume hb st f ?d ?dw) f"
      using True dw_inv_nonneg(2) [OF inv, of f] by simp
    with l have "tab_map hb (dw_flow_volume_map (u_dw u') (dw_active_idx (u_dw u'))) f \<noteq> None"
      using True by (intro loss_has_volume [where st = st]) (simp_all add: u')
    with l True show ?thesis by (auto simp: u' m only_flow_def)
  next
    case False
    then have "?d = 0" using volume_of_nonneg [of "overtaken s Q"] by linarith
    with False inv1 only vol show ?thesis by (simp add: u' m)
  qed
qed

text \<open>The reports of one 5-tuple, in the order of their sequence numbers.\<close>

lemma process_reports_run:
  fixes dw :: data_warehouse
  assumes "dw_inv hb st dw" "seq_sorted (vl_queue (dw_flow_recePktList_map dw) k)"
    and "tab_map hb (dw_flow_volume_map dw (dw_active_idx dw)) f \<noteq> None"
    and "flow_loss hb dw f + volume_of (vl_queue (dw_flow_recePktList_map dw) k) < 2147483648"
    and "list_all (\<lambda>r. proto_flow r = k \<and> proto_flow_src r = f) rs" "sorted_wrt (<) (map rp_rece_seqid rs)"
  defines "Q \<equiv> vl_queue (dw_flow_recePktList_map dw) k" and "S \<equiv> rp_rece_seqid ` set rs"
  shows "\<exists>dw' n'. fold (process_report hb st) rs \<lparr>u_dw = dw, u_total_lost_pkt_num = n\<rparr> = \<lparr>u_dw = dw', u_total_lost_pkt_num = n'\<rparr> \<and>
    dw_inv hb st dw' \<and>
    flow_loss hb dw' f = flow_loss hb dw f + volume_of (filter (\<lambda>p. pv_seqid p \<notin> S \<and> (\<exists>a \<in> S. pv_seqid p < a)) Q) \<and>
    flow_volume hb dw' f = flow_volume hb dw f \<and>
    vl_queue (dw_flow_recePktList_map dw') k = filter (\<lambda>p. \<forall>a \<in> S. a < pv_seqid p) Q"
  using assms(1-6) unfolding Q_def S_def
proof (induction rs arbitrary: dw n)
  case (Cons r rs)
  let ?Q = "vl_queue (dw_flow_recePktList_map dw) k" and ?s = "rp_rece_seqid r" and ?S = "rp_rece_seqid ` set rs"
  have r: "proto_flow r = k" "proto_flow_src r = f" using Cons.prems(5) by simp_all
  let ?u = "process_report hb st r \<lparr>u_dw = dw, u_total_lost_pkt_num = n\<rparr>"
  have "flow_loss hb dw f + volume_of (overtaken ?s ?Q) < 2147483648"
    using Cons.prems(4) volume_filter_le [of "\<lambda>p. pv_seqid p < ?s" ?Q] by linarith
  with process_report_spec [of st dw r n] Cons.prems r
  have u: "dw_inv hb st (u_dw ?u)" "flow_loss hb (u_dw ?u) f = flow_loss hb dw f + volume_of (overtaken ?s ?Q)"
    "flow_volume hb (u_dw ?u) f = flow_volume hb dw f"
    "tab_map hb (dw_flow_volume_map (u_dw ?u) (dw_active_idx (u_dw ?u))) f \<noteq> None"
    "vl_queue (dw_flow_recePktList_map (u_dw ?u)) k = filter (\<lambda>p. ?s < pv_seqid p) ?Q" by simp_all
  have fit: "flow_loss hb (u_dw ?u) f + volume_of (filter (\<lambda>p. ?s < pv_seqid p) ?Q) < 2147483648"
    using Cons.prems(4) u(2) volume_filter_disjoint [of "\<lambda>p. pv_seqid p < ?s" "\<lambda>p. ?s < pv_seqid p" ?Q]
      volume_filter_le [of "\<lambda>p. pv_seqid p < ?s \<or> ?s < pv_seqid p" ?Q] by force
  obtain dw1 n1 where u1: "?u = \<lparr>u_dw = dw1, u_total_lost_pkt_num = n1\<rparr>" by (cases ?u)
  have later: "r' \<in> set rs \<Longrightarrow> ?s < rp_rece_seqid r'" for r' using Cons.prems(6) by auto
  from Cons.IH [of dw1 n1] u fit Cons.prems(2,5,6) obtain dw' n' where IH:
    "fold (process_report hb st) rs \<lparr>u_dw = dw1, u_total_lost_pkt_num = n1\<rparr> = \<lparr>u_dw = dw', u_total_lost_pkt_num = n'\<rparr>"
    "dw_inv hb st dw'" "flow_volume hb dw' f = flow_volume hb dw f"
    "flow_loss hb dw' f = flow_loss hb dw f + volume_of (overtaken ?s ?Q) +
       volume_of (filter (\<lambda>p. pv_seqid p \<notin> ?S \<and> (\<exists>a \<in> ?S. pv_seqid p < a)) (filter (\<lambda>p. ?s < pv_seqid p) ?Q))"
    "vl_queue (dw_flow_recePktList_map dw') k = filter (\<lambda>p. \<forall>a \<in> ?S. a < pv_seqid p) (filter (\<lambda>p. ?s < pv_seqid p) ?Q)"
    by (auto simp: u1 sorted_wrt_filter)
  have "volume_of (overtaken ?s ?Q) +
      volume_of (filter (\<lambda>p. pv_seqid p \<notin> ?S \<and> (\<exists>a \<in> ?S. pv_seqid p < a)) (filter (\<lambda>p. ?s < pv_seqid p) ?Q)) =
      volume_of (filter (\<lambda>p. pv_seqid p \<notin> insert ?s ?S \<and> (\<exists>a \<in> insert ?s ?S. pv_seqid p < a)) ?Q)"
    unfolding filter_filter
    by (subst volume_filter_disjoint) (auto intro!: arg_cong [where f = volume_of] filter_cong dest: later simp: neq_iff)
  moreover have "filter (\<lambda>p. \<forall>a \<in> ?S. a < pv_seqid p) (filter (\<lambda>p. ?s < pv_seqid p) ?Q) =
      filter (\<lambda>p. \<forall>a \<in> insert ?s ?S. a < pv_seqid p) ?Q"
    by (auto intro!: filter_cong)
  ultimately show ?case using IH u1 by (intro exI [of _ dw'] exI [of _ n']) simp
qed simp

end

text \<open>Every 20 bytes are a record, so the thread ends exactly when a record is cut off.\<close>

lemma proto_of_bytes_total: "length b = 20 \<Longrightarrow> \<exists>r. proto_of_bytes b = Some r"
  by (simp add: proto_of_bytes_def ld32_def ld16_def ld8_def)

lemma read_total: "20 \<le> length fifo \<Longrightarrow> \<exists>r. readConditionFromFIFO fifo = (drop 20 fifo, Some r)"
  using proto_of_bytes_total [of "take 20 fifo"] by (simp add: readConditionFromFIFO_def SIZEOF_PROTO_def)

section \<open>Properties\<close>

text \<open>
  The report thread stays alive.  Whatever bytes the pipe holds, the loop ends only by a read of
  less than a whole record, which happens exactly when the number of bytes is not a multiple of 20;
  otherwise it uses up the pipe and waits for the next report.
\<close>

theorem report_thread_alive:
  "\<exists>u'. update_loop hb st fifo u = (u', [], if 20 dvd length fifo then Waiting else Ended)"
proof (induction fifo arbitrary: u rule: length_induct)
  case (1 fifo)
  consider "fifo = []" | "fifo \<noteq> []" "length fifo < 20" | "20 \<le> length fifo" by linarith
  then show ?case
  proof cases
    case 2
    then have "\<not> 20 dvd length fifo" by (auto dest: dvd_imp_le)
    with 2 show ?thesis by (simp add: update_loop_short)
  next
    case 3
    then obtain r where "readConditionFromFIFO fifo = (drop 20 fifo, Some r)" using read_total by blast
    moreover have "fifo \<noteq> []" using 3 by auto
    ultimately have step: "update_loop hb st fifo u = update_loop hb st (drop 20 fifo) (process_report hb st r u)"
      by (subst update_loop.simps) simp
    have "length (drop 20 fifo) < length fifo" using 3 by simp
    from 1 [rule_format, OF this, of "process_report hb st r u"] 3 show ?thesis
      unfolding step by (simp add: dvd_minus_self)
  qed simp
qed


text \<open>Two packets of a flow are pending, the second one is reported.\<close>

definition sample_report :: recv_2_send_proto where
  "sample_report = \<lparr>rp_srcip = 1, rp_dstip = 2, rp_src_port = 3, rp_dst_port = 4, rp_protocol = 6, rp_rece_seqid = 2\<rparr>"

lemma sample_seqid: "rp_rece_seqid sample_report = 2"
  by (simp add: sample_report_def)

lemma dw_sample_pending:
  fixes f :: flow_src and k :: flow_s
  shows "\<exists>dw. dw_inv flow_src_hash_bin dw_setting dw \<and> flow_loss flow_src_hash_bin dw f = 0 \<and>
    vl_queue (dw_flow_recePktList_map dw) k = [new_pkt_volume 1 100, new_pkt_volume 2 60] \<and>
    ht_kfs_vi_get flow_src_hash_bin (data_warehouse_get_flow_volume_map dw) f \<ge> 0"
proof -
  let ?hb = flow_src_hash_bin
  obtain dw0 where dw0: "dw_inv ?hb dw_setting dw0" "flow_volume ?hb dw0 f = 0" "flow_loss ?hb dw0 f = 0"
    using dw_sample_empty by force
  define dw1 where "dw1 = update_flow_normal_volume ?hb dw_setting f 160 dw0"
  have dw1: "dw_inv ?hb dw_setting dw1" "flow_volume ?hb dw1 f = 160" "flow_loss ?hb dw1 f = 0"
    using murmur.normal_volume_spec [OF dw0(1), of 160 f] dw0 by (simp_all add: dw1_def)
  obtain ht where ht: "ht_vl_create True = Some ht" by (simp add: ht_vl_create_def)
  define m where "m = send_all ht_vl_set k [new_pkt_volume 1 100, new_pkt_volume 2 60] (Some ht)"
  have m: "vl_ok m" "vl_queue m k = [new_pkt_volume 1 100, new_pkt_volume 2 60]"
    using vl.send_all_pending [of "Some ht" k "[new_pkt_volume 1 100, new_pkt_volume 2 60]"] vl_create_wf [OF ht]
    by (simp_all add: m_def vl_ok_def vl_queue_def)
  have "dw_inv ?hb dw_setting (dw1\<lparr>dw_flow_recePktList_map := m\<rparr>)"
    using dw_inv_tables [OF dw1(1)] dw_inv_shared [OF dw1(1)] m(1) by (intro dw_inv_frame [OF dw1(1)]) simp_all
  moreover have "ht_kfs_vi_get ?hb (dw_flow_volume_map dw1 (dw_active_idx dw1)) f \<ge> 0"
    using dw1(2) by (auto simp: tab_get split: option.splits)
  ultimately show ?thesis using dw1 m by (intro exI [of _ "dw1\<lparr>dw_flow_recePktList_map := m\<rparr>"]) (simp add: dw_get_defs)
qed


end
