(* ===== verification/Condition_Sender.thy ===== *)
theory Condition_Sender
  imports Data_Warehouse Vlan_Tag
begin

text \<open>
  \<^verbatim>\<open>tcpreplay/src/condition_sender.c\<close>: every \<^verbatim>\<open>condition_msec_freq\<close> milliseconds the sender tells the
  switches which flows changed their level since the last time.  A round runs under
  \<^verbatim>\<open>packet_send_mutex\<close> and \<^verbatim>\<open>data_warehouse_mutex\<close>.

  The network is a parameter: whether the replay context has an interface, and what \<^verbatim>\<open>sendpacket\<close> returns for
  a buffer.  The packet structures are local variables that are not cleared, so the fields the code
  does not assign hold whatever the stack held: these bytes are a parameter too.
\<close>

section \<open>Condition packets\<close>

record stack_bytes =
  j_ip_tos :: u8
  j_ip_id :: u16
  j_ip_sum :: u16
  j_uh_sum :: u16

record network =
  net_ctx_ok :: bool
  net_stack :: "nat \<Rightarrow> stack_bytes"
  net_sendpacket :: "u8 list \<Rightarrow> int"

definition condition_mac :: "u8 list" where
  "condition_mac = [0x7c, 0x7a, 0x91, 0x86, 0xb3, 0xe8]"

text \<open>The three headers as they are copied into \<^verbatim>\<open>g_pkt_buffer\<close>: 18, 20 and 8 bytes.\<close>

definition vlan_header_bytes :: "int \<Rightarrow> u8 list" where
  "vlan_header_bytes selected_level =
    condition_mac @ condition_mac @ bytes16 (htons 0x8100) @ bytes16 (tag_packet_selected_level selected_level) @
    bytes16 (htons 0x0800)"

definition ip_header_bytes :: "stack_bytes \<Rightarrow> condition \<Rightarrow> u8 list" where
  "ip_header_bytes j p_condition =
    [0x45, j_ip_tos j] @ bytes16 (htons 28) @ bytes16 (j_ip_id j) @ bytes16 0x4000 @ [0x40, 0x11] @
    bytes16 (j_ip_sum j) @ bytes_of_32 (htonl (c_srcip p_condition)) @ bytes_of_32 (htonl (c_dstip p_condition))"

definition udp_header_bytes :: "stack_bytes \<Rightarrow> u8 list" where
  "udp_header_bytes j = bytes16 1 @ bytes16 1 @ bytes16 (htons 8) @ bytes16 (j_uh_sum j)"

definition condition_pkt :: "stack_bytes \<Rightarrow> condition \<Rightarrow> int \<Rightarrow> u8 list" where
  "condition_pkt j p_condition selected_level =
    vlan_header_bytes selected_level @ ip_header_bytes j p_condition @ udp_header_bytes j"

text \<open>\<open>wire\<close> lists the buffers handed to \<^verbatim>\<open>sendpacket\<close> so far.\<close>

definition send_udp_condition_pkt :: "network \<Rightarrow> condition \<Rightarrow> int \<Rightarrow> u8 list list \<Rightarrow> u8 list list \<times> int" where
  "send_udp_condition_pkt net p_condition selected_level wire =
    (if \<not> net_ctx_ok net then (wire, - 1)
     else
       let pkt = condition_pkt (net_stack net (length wire)) p_condition selected_level;
           pkt_len = int (length pkt)
       in if net_sendpacket net pkt < pkt_len then (wire @ [pkt], - 1) else (wire @ [pkt], 0))"

section \<open>One round\<close>

record condition_round =
  cr_dw :: data_warehouse
  cr_wire :: "u8 list list"
  cr_plus :: int
  cr_minus :: int

definition condition_of :: "flow_src \<Rightarrow> condition" where
  "condition_of k = \<lparr>c_srcip = fs_srcip k, c_dstip = fs_dstip k\<rparr>"

definition count_condition :: "data_warehouse \<Rightarrow> data_warehouse" where
  "count_condition dw = dw\<lparr>dw_condition_pkt_num_sent :=
     (dw_condition_pkt_num_sent dw)(dw_active_idx dw := dw_condition_pkt_num_sent dw (dw_active_idx dw) + 1)\<rparr>"

text \<open>The bodies of the two loops; the result of \<^verbatim>\<open>send_udp_condition_pkt\<close> is not used.\<close>

definition plus_body :: "(flow_src \<Rightarrow> u32 \<Rightarrow> u32) \<Rightarrow> network \<Rightarrow> entry_kfs_vi \<Rightarrow> condition_round \<Rightarrow> condition_round" where
  "plus_body hb net e r =
    (let selected_level = sint (e_value e);
         pre_selected_level = ht_kfs_vi_get hb (dw_last_sent_flow_selected_level_map (cr_dw r)) (e_key e)
     in if pre_selected_level = selected_level then r
        else r\<lparr>cr_wire := fst (send_udp_condition_pkt net (condition_of (e_key e)) selected_level (cr_wire r)),
               cr_plus := c_int (cr_plus r + 1), cr_dw := count_condition (cr_dw r)\<rparr>)"

definition minus_body :: "(flow_src \<Rightarrow> u32 \<Rightarrow> u32) \<Rightarrow> network \<Rightarrow> hashtable_kfs_vi option \<Rightarrow> entry_kfs_vi \<Rightarrow>
    condition_round \<Rightarrow> condition_round" where
  "minus_body hb net flow_selected_level_map e r =
    (if ht_kfs_vi_get hb flow_selected_level_map (e_key e) > 0 then r
     else r\<lparr>cr_wire := fst (send_udp_condition_pkt net (condition_of (e_key e)) (sint (level_val NO_SELECTED_LEVEL)) (cr_wire r)),
            cr_minus := c_int (cr_minus r + 1), cr_dw := count_condition (cr_dw r)\<rparr>)"

text \<open>
  The body of \<^verbatim>\<open>while (1)\<close> in \<^verbatim>\<open>send_condition_to_network\<close> between taking and releasing the locks.
  \<open>None\<close>: a loop over a table does not end.  The flag is true when the thread returns because the new
  last-sent table could not be allocated; it then still holds both mutexes.
\<close>

definition send_condition_to_network :: "(flow_src \<Rightarrow> u32 \<Rightarrow> u32) \<Rightarrow> network \<Rightarrow> bool \<Rightarrow> data_warehouse \<Rightarrow> u8 list list \<Rightarrow>
    (condition_round \<times> bool) option" where
  "send_condition_to_network hb net malloc_ok dw wire = do {
     let a = dw_active_idx dw;
     (m, r) \<leftarrow> ht_kfs_vi_foreach (plus_body hb net) (data_warehouse_get_flow_selected_level_map dw)
       \<lparr>cr_dw = dw, cr_wire = wire, cr_plus = 0, cr_minus = 0\<rparr>;
     let dw = (cr_dw r)\<lparr>dw_flow_selected_level_map := (dw_flow_selected_level_map (cr_dw r))(a := m)\<rparr>;
     (ls, r) \<leftarrow> ht_kfs_vi_foreach (minus_body hb net m) (dw_last_sent_flow_selected_level_map dw) (r\<lparr>cr_dw := dw\<rparr>);
     let fresh = ht_kfs_vi_create malloc_ok;
     if fresh = None then Some (r\<lparr>cr_dw := (cr_dw r)\<lparr>dw_last_sent_flow_selected_level_map := None\<rparr>\<rparr>, True)
     else do {
       (m, sent) \<leftarrow> ht_kfs_vi_foreach (\<lambda>e ret. ht_kfs_vi_set hb ret (e_key e) (e_value e)) m fresh;
       Some (r\<lparr>cr_dw := (cr_dw r)\<lparr>
           dw_flow_selected_level_map := (dw_flow_selected_level_map (cr_dw r))(a := m),
           dw_last_sent_flow_selected_level_map := sent\<rparr>\<rparr>, False)
     }
   }"

section \<open>What a switch learns\<close>

text \<open>
  The receiving side as a specification: a condition packet names a flow and its new level, level 0
  meaning that the flow is no longer selected.
\<close>

definition decode_condition :: "u8 list \<Rightarrow> (flow_src \<times> int) option" where
  "decode_condition pkt = do {
     tag \<leftarrow> ld16 pkt 14;
     src \<leftarrow> ld32 pkt 30;
     dst \<leftarrow> ld32 pkt 34;
     Some (\<lparr>fs_srcip = ntohl src, fs_dstip = ntohl dst\<rparr>, uint (GET_VLAN_SELECTED_FLOW_VAL tag))
   }"

definition apply_delta :: "flow_src \<times> int \<Rightarrow> (flow_src \<rightharpoonup> int) \<Rightarrow> (flow_src \<rightharpoonup> int)" where
  "apply_delta d view = view(fst d := if snd d = 0 then None else Some (snd d))"

definition learn :: "u8 list \<Rightarrow> (flow_src \<rightharpoonup> int) \<Rightarrow> (flow_src \<rightharpoonup> int)" where
  "learn pkt view = (case decode_condition pkt of None \<Rightarrow> view | Some d \<Rightarrow> apply_delta d view)"

lemma header_lengths [simp]: "length condition_mac = 6" "length (vlan_header_bytes l) = 18"
  by (simp_all add: vlan_header_bytes_def condition_mac_def)

lemma decode_condition_pkt:
  assumes "0 \<le> l" "l \<le> 3"
  shows "decode_condition (condition_pkt j (condition_of k) l) = Some (k, l)"
proof -
  have "GET_VLAN_SELECTED_FLOW_VAL (TAG_VLAN_SELECTED_FLOW_VAL l) = word_of_int l"
    using assms by (rule get_level_eq) (auto simp: bit_level_tag less_2_cases_iff)
  then have lev: "uint (GET_VLAN_SELECTED_FLOW_VAL (tag_packet_selected_level l)) = l"
    using assms by (simp add: tag_packet_selected_level_def uint_word_of_int_eq take_bit_int_eq_self)
  have "ld16 (condition_pkt j c l) 14 = Some (tag_packet_selected_level l)" for c
    unfolding condition_pkt_def vlan_header_bytes_def append_assoc by (simp add: ld16_skip)
  moreover have "ld32 (condition_pkt j c l) 30 = Some (htonl (c_srcip c))"
    "ld32 (condition_pkt j c l) 34 = Some (htonl (c_dstip c))" for c
    unfolding condition_pkt_def ip_header_bytes_def append_assoc by (simp_all add: ld32_skip ld32_Cons)
  ultimately show ?thesis by (simp add: decode_condition_def lev condition_of_def)
qed

section \<open>The messages of a round\<close>

definition sends :: "network \<Rightarrow> (flow_src \<times> int) list \<Rightarrow> u8 list list \<Rightarrow> u8 list list" where
  "sends net msgs wire = fold (\<lambda>(k, l) w. fst (send_udp_condition_pkt net (condition_of k) l w)) msgs wire"

definition plus_msgs :: "(flow_src \<Rightarrow> u32 \<Rightarrow> u32) \<Rightarrow> hashtable_kfs_vi option \<Rightarrow> entry_kfs_vi list \<Rightarrow> (flow_src \<times> int) list" where
  "plus_msgs hb prev es = map (\<lambda>e. (e_key e, sint (e_value e)))
     (filter (\<lambda>e. ht_kfs_vi_get hb prev (e_key e) \<noteq> sint (e_value e)) es)"

definition minus_msgs :: "(flow_src \<Rightarrow> u32 \<Rightarrow> u32) \<Rightarrow> hashtable_kfs_vi option \<Rightarrow> entry_kfs_vi list \<Rightarrow> (flow_src \<times> int) list" where
  "minus_msgs hb cur es = map (\<lambda>e. (e_key e, 0)) (filter (\<lambda>e. \<not> ht_kfs_vi_get hb cur (e_key e) > 0) es)"

lemma count_condition_frame [simp]:
  "dw_last_sent_flow_selected_level_map ((count_condition ^^ n) dw) = dw_last_sent_flow_selected_level_map dw"
  "dw_flow_selected_level_map ((count_condition ^^ n) dw) = dw_flow_selected_level_map dw"
  "dw_active_idx ((count_condition ^^ n) dw) = dw_active_idx dw"
  "dw_last_sent_flow_selected_level_map (count_condition dw) = dw_last_sent_flow_selected_level_map dw"
  by (induction n) (simp_all add: count_condition_def)

lemma count_level_triv [simp]:
  "((count_condition ^^ n) dw)\<lparr>dw_flow_selected_level_map := dw_flow_selected_level_map dw\<rparr> = (count_condition ^^ n) dw"
proof -
  have "d\<lparr>dw_flow_selected_level_map := dw_flow_selected_level_map d\<rparr> = d" for d :: data_warehouse by (cases d) simp
  from this [of "(count_condition ^^ n) dw"] show ?thesis by simp
qed

lemma count_condition_is: "\<exists>c. (count_condition ^^ n) dw = dw\<lparr>dw_condition_pkt_num_sent := c\<rparr> \<and>
    c (dw_active_idx dw) = dw_condition_pkt_num_sent dw (dw_active_idx dw) + of_nat n"
proof (induction n)
  case (Suc n)
  then obtain c where c: "(count_condition ^^ n) dw = dw\<lparr>dw_condition_pkt_num_sent := c\<rparr>"
    "c (dw_active_idx dw) = dw_condition_pkt_num_sent dw (dw_active_idx dw) + of_nat n" by blast
  then have "(count_condition ^^ Suc n) dw = count_condition (dw\<lparr>dw_condition_pkt_num_sent := c\<rparr>)" by simp
  with c show ?case unfolding count_condition_def by (intro exI conjI) (assumption | simp)+
qed (auto intro: exI [of _ "dw_condition_pkt_num_sent dw"])

lemma plus_fold:
  "\<exists>p. fold (plus_body hb net) es r =
    r\<lparr>cr_wire := sends net (plus_msgs hb (dw_last_sent_flow_selected_level_map (cr_dw r)) es) (cr_wire r), cr_plus := p,
      cr_dw := (count_condition ^^ length (plus_msgs hb (dw_last_sent_flow_selected_level_map (cr_dw r)) es)) (cr_dw r)\<rparr>"
proof (induction es arbitrary: r)
  case (Cons e es)
  show ?case
    using Cons.IH [of "plus_body hb net e r"] count_condition_frame(1) [of 1 "cr_dw r"]
    by (auto simp: plus_body_def plus_msgs_def sends_def Let_def funpow_swap1)
next
  case Nil
  show ?case by (intro exI [of _ "cr_plus r"]) (simp add: plus_msgs_def sends_def)
qed

lemma minus_fold:
  "\<exists>p. fold (minus_body hb net cur) es r =
    r\<lparr>cr_wire := sends net (minus_msgs hb cur es) (cr_wire r), cr_minus := p,
      cr_dw := (count_condition ^^ length (minus_msgs hb cur es)) (cr_dw r)\<rparr>"
proof (induction es arbitrary: r)
  case (Cons e es)
  show ?case
    using Cons.IH [of "minus_body hb net cur e r"]
    by (auto simp: minus_body_def minus_msgs_def sends_def Let_def funpow_swap1)
next
  case Nil
  show ?case by (intro exI [of _ "cr_minus r"]) (simp add: minus_msgs_def sends_def)
qed

lemma sends_learn:
  assumes "net_ctx_ok net" "\<forall>d \<in> set msgs. 0 \<le> snd d \<and> snd d \<le> 3"
  shows "\<exists>pkts. sends net msgs wire = wire @ pkts \<and> length pkts = length msgs \<and>
    (\<forall>view. fold learn pkts view = fold apply_delta msgs view)"
  using assms(2)
proof (induction msgs arbitrary: wire)
  case (Cons d msgs)
  obtain k l where d: "d = (k, l)" by fastforce
  let ?p = "condition_pkt (net_stack net (length wire)) (condition_of k) l"
  have "sends net (d # msgs) wire = sends net msgs (wire @ [?p])"
    using assms(1) by (simp add: sends_def d send_udp_condition_pkt_def Let_def)
  moreover have "\<forall>d \<in> set msgs. 0 \<le> snd d \<and> snd d \<le> 3" using Cons.prems by simp
  from Cons.IH [OF this, of "wire @ [?p]"] obtain pkts where "sends net msgs (wire @ [?p]) = (wire @ [?p]) @ pkts" "length pkts = length msgs"
    "\<forall>view. fold learn pkts view = fold apply_delta msgs view" by blast
  moreover have "learn ?p view = apply_delta (k, l) view" for view
    using Cons.prems by (simp add: learn_def decode_condition_pkt d)
  ultimately show ?case by (intro exI [of _ "?p # pkts"]) (simp add: d)
qed (simp add: sends_def)

lemma fold_apply_delta:
  "distinct (map fst msgs) \<Longrightarrow> fold apply_delta msgs view k =
    (case map_of msgs k of None \<Rightarrow> view k | Some l \<Rightarrow> if l = 0 then None else Some l)"
proof (induction msgs arbitrary: view)
  case (Cons d msgs)
  then have "fst d \<notin> dom (map_of msgs)" by (simp add: dom_map_of_conv_image_fst)
  with Cons show ?case by (auto simp: apply_delta_def split: option.split)
qed simp

text \<open>The levels of a table as numbers, and the flows on which two of them differ.\<close>

definition levels :: "(flow_src \<Rightarrow> u32 \<Rightarrow> u32) \<Rightarrow> hashtable_kfs_vi option \<Rightarrow> flow_src \<rightharpoonup> int" where
  "levels hb t f = map_option sint (tab_map hb t f)"

context flow_src_hash
begin

lemma plus_msgs_iff:
  assumes "tab_ok hb cur" "tab_ok hb prev" "\<forall>f v. tab_map hb cur f = Some v \<longrightarrow> 0 < sint v"
  shows "(k, l) \<in> set (plus_msgs hb prev (tab_entries cur)) \<longleftrightarrow> levels hb cur k = Some l \<and> levels hb prev k \<noteq> Some l"
proof -
  have "\<exists>e \<in> set (tab_entries cur). k = e_key e \<and> l = sint (e_value e)" if "levels hb cur k = Some l"
    using that tab_entries_iff [OF assms(1)] by (force simp: levels_def)
  then show ?thesis
    using tab_entry_map [OF assms(1)] assms(3)
    by (fastforce simp: plus_msgs_def levels_def tab_get split: option.splits)
qed

lemma minus_msgs_iff:
  assumes "tab_ok hb cur" "tab_ok hb prev" "\<forall>f v. tab_map hb cur f = Some v \<longrightarrow> 0 < sint v"
  shows "(k, l) \<in> set (minus_msgs hb cur (tab_entries prev)) \<longleftrightarrow> l = 0 \<and> levels hb prev k \<noteq> None \<and> levels hb cur k = None"
proof -
  have "\<exists>e \<in> set (tab_entries prev). k = e_key e" if "levels hb prev k \<noteq> None"
    using that tab_entries_iff [OF assms(2)] by (force simp: levels_def)
  then show ?thesis
    using tab_entry_map [OF assms(2)] assms(3)
    by (fastforce simp: minus_msgs_def levels_def tab_get split: option.splits)
qed

text \<open>The messages of a round: one for each flow whose level changed, carrying its new level.\<close>

lemma round_msgs:
  assumes "tab_ok hb cur" "tab_ok hb prev" "\<forall>f v. tab_map hb cur f = Some v \<longrightarrow> 0 < sint v"
  defines "msgs \<equiv> plus_msgs hb prev (tab_entries cur) @ minus_msgs hb cur (tab_entries prev)"
  shows "distinct (map fst msgs)" "fold apply_delta msgs (levels hb prev) = levels hb cur"
    "fst ` set msgs = {f. levels hb prev f \<noteq> levels hb cur f}"
proof -
  note p = plus_msgs_iff [OF assms(1-3)] and m = minus_msgs_iff [OF assms(1-3)]
  have "distinct (map fst (plus_msgs hb prev (tab_entries cur)))" "distinct (map fst (minus_msgs hb cur (tab_entries prev)))"
    using tab_entries_distinct [OF assms(1)] tab_entries_distinct [OF assms(2)]
    by (simp_all add: plus_msgs_def minus_msgs_def comp_def distinct_map_filter)
  then show dist: "distinct (map fst msgs)" using p m by (auto simp: msgs_def)
  have iff: "(k, l) \<in> set msgs \<longleftrightarrow> levels hb prev k \<noteq> levels hb cur k \<and> l = (case levels hb cur k of None \<Rightarrow> 0 | Some l' \<Rightarrow> l')" for k l
    using p m by (auto simp: msgs_def split: option.splits)
  show "fst ` set msgs = {f. levels hb prev f \<noteq> levels hb cur f}" using iff by force
  have pos: "levels hb cur k \<noteq> Some 0" for k using assms(3) by (force simp: levels_def)
  have "map_of msgs k = (if levels hb prev k = levels hb cur k then None
      else Some (case levels hb cur k of None \<Rightarrow> 0 | Some l' \<Rightarrow> l'))" for k
    using map_of_eq_Some_iff [OF dist, of k] iff [of k] by (cases "map_of msgs k") auto
  then have "fold apply_delta msgs (levels hb prev) k = levels hb cur k" for k
    using pos [of k] by (simp add: fold_apply_delta [OF dist] split: option.split)
  then show "fold apply_delta msgs (levels hb prev) = levels hb cur" by (rule ext)
qed

lemma fresh_copy:
  assumes "tab_ok hb cur"
  shows "\<exists>sent. ht_kfs_vi_foreach (\<lambda>e ret. ht_kfs_vi_set hb ret (e_key e) (e_value e)) cur (ht_kfs_vi_create True) = Some (cur, sent) \<and>
    tab_ok hb sent \<and> tab_map hb sent = tab_map hb cur"
proof -
  from fold_set_entries [OF wf_new, of "tab_entries cur"] obtain r where
    "fold (\<lambda>e ret. ht_kfs_vi_set hb ret (e_key e) (e_value e)) (tab_entries cur) (Some (ct_create HASH_MAP_SIZE)) = Some r"
    "kfs_wf hb r" "kfs_map hb r = tab_map hb cur" "ct_cur r = - 1" "ct_last r = None"
    by (auto simp: map_create tab_entries_map [OF assms]) (simp add: ct_create_def)
  then show ?thesis
    by (intro exI [of _ "Some r"]) (simp add: tab_foreach [OF assms] ht_kfs_vi_create_def tab_ok_def tab_map_def)
qed

lemma condition_round_spec:
  assumes inv: "dw_inv hb st dw" and net: "net_ctx_ok net"
  defines "cur \<equiv> data_warehouse_get_flow_selected_level_map dw" and "prev \<equiv> dw_last_sent_flow_selected_level_map dw"
  shows "\<exists>r pkts. send_condition_to_network hb net True dw wire = Some (r, False) \<and> cr_wire r = wire @ pkts \<and>
    fold learn pkts (levels hb prev) = levels hb cur \<and>
    length pkts = card {f. levels hb prev f \<noteq> levels hb cur f} \<and>
    dw_inv hb st (cr_dw r) \<and> dw_active_idx (cr_dw r) = dw_active_idx dw \<and>
    dw_flow_recePktList_map (cr_dw r) = dw_flow_recePktList_map dw \<and>
    dw_flow_selected_level_map (cr_dw r) = dw_flow_selected_level_map dw \<and>
    levels hb (dw_last_sent_flow_selected_level_map (cr_dw r)) = levels hb cur \<and>
    dw_condition_pkt_num_sent (cr_dw r) (dw_active_idx dw) =
      dw_condition_pkt_num_sent dw (dw_active_idx dw) + of_nat (length pkts)"
proof -
  have ok: "tab_ok hb cur" "tab_ok hb prev"
    using dw_inv_tables(2) [OF inv] dw_inv_shared [OF inv] by (simp_all add: cur_def prev_def dw_get_defs)
  have lev: "sint v = 1 \<or> sint v = 2" if "tab_map hb cur f = Some v" for f v
    using dw_inv_active(2) [OF inv, of f] that
    by (auto simp: cur_def dw_get_defs flow_consistent_def level_of_def split: option.splits if_splits)
  then have pos: "\<forall>f v. tab_map hb cur f = Some v \<longrightarrow> 0 < sint v" by force
  define ps where "ps = plus_msgs hb prev (tab_entries cur)"
  define ms where "ms = minus_msgs hb cur (tab_entries prev)"
  note msgs = round_msgs [OF ok pos, folded ps_def ms_def]
  have "\<forall>d \<in> set (ps @ ms). 0 \<le> snd d \<and> snd d \<le> 3"
    using lev unfolding ps_def ms_def
    by (force simp: plus_msgs_iff [OF ok pos] minus_msgs_iff [OF ok pos] levels_def)
  from sends_learn [OF net this, of wire] obtain pkts where w: "sends net ms (sends net ps wire) = wire @ pkts"
    and len: "length pkts = length (ps @ ms)" and "fold learn pkts (levels hb prev) = fold apply_delta (ps @ ms) (levels hb prev)"
    by (auto simp: sends_def)
  then have learn: "fold learn pkts (levels hb prev) = levels hb cur" using msgs(2) by (simp del: fold_append)
  obtain c where c: "(count_condition ^^ (length ms + length ps)) dw = dw\<lparr>dw_condition_pkt_num_sent := c\<rparr>"
    "c (dw_active_idx dw) = dw_condition_pkt_num_sent dw (dw_active_idx dw) + of_nat (length ms + length ps)"
    using count_condition_is by blast
  obtain sent where sent: "ht_kfs_vi_foreach (\<lambda>e ret. ht_kfs_vi_set hb ret (e_key e) (e_value e)) cur (ht_kfs_vi_create True) = Some (cur, sent)"
    "tab_ok hb sent" "tab_map hb sent = tab_map hb cur" using fresh_copy [OF ok(1)] by blast
  let ?r0 = "\<lparr>cr_dw = dw, cr_wire = wire, cr_plus = 0, cr_minus = 0\<rparr>"
  obtain p where 1: "ht_kfs_vi_foreach (plus_body hb net) cur ?r0 =
      Some (cur, ?r0\<lparr>cr_wire := sends net ps wire, cr_plus := p, cr_dw := (count_condition ^^ length ps) dw\<rparr>)"
    using plus_fold [of hb net "tab_entries cur" ?r0] by (auto simp: tab_foreach [OF ok(1)] ps_def prev_def)
  have 2: "\<exists>q. ht_kfs_vi_foreach (minus_body hb net cur) prev r =
      Some (prev, r\<lparr>cr_wire := sends net ms (cr_wire r), cr_minus := q, cr_dw := (count_condition ^^ length ms) (cr_dw r)\<rparr>)" for r
    using minus_fold [of hb net cur "tab_entries prev" r] by (auto simp: tab_foreach [OF ok(2)] ms_def)
  define r1 where "r1 = ?r0\<lparr>cr_wire := sends net ps wire, cr_plus := p, cr_dw := (count_condition ^^ length ps) dw\<rparr>"
  obtain q where 3: "ht_kfs_vi_foreach (minus_body hb net cur) prev r1 =
      Some (prev, r1\<lparr>cr_wire := wire @ pkts, cr_minus := q, cr_dw := dw\<lparr>dw_condition_pkt_num_sent := c\<rparr>\<rparr>)"
    using 2 [of r1] w c(1) by (auto simp: r1_def funpow_add)
  define r where "r = r1\<lparr>cr_wire := wire @ pkts, cr_minus := q,
    cr_dw := dw\<lparr>dw_condition_pkt_num_sent := c, dw_last_sent_flow_selected_level_map := sent\<rparr>\<rparr>"
  have triv: "d\<lparr>dw_flow_selected_level_map := dw_flow_selected_level_map d, dw_last_sent_flow_selected_level_map := x\<rparr> =
      d\<lparr>dw_last_sent_flow_selected_level_map := x\<rparr>" for d :: data_warehouse and x by (cases d) simp
  have run: "send_condition_to_network hb net True dw wire = Some (r, False)"
    using 1 3 sent(1) triv [of sent "dw\<lparr>dw_condition_pkt_num_sent := c\<rparr>"]
    by (simp add: send_condition_to_network_def Let_def r1_def r_def cur_def prev_def dw_get_defs ht_kfs_vi_create_def)
  have "dw_inv hb st (cr_dw r)"
    using dw_inv_tables [OF inv] dw_inv_shared [OF inv] sent(2) by (intro dw_inv_frame [OF inv]) (simp_all add: r_def)
  moreover have "length pkts = card {f. levels hb prev f \<noteq> levels hb cur f}"
    using len distinct_card [OF msgs(1)] msgs(3) by (simp add: image_Un)
  ultimately show ?thesis
    using run learn len c(2) sent(3)
    by (intro exI [of _ r] exI [of _ pkts]) (simp add: r_def r1_def levels_def fun_eq_iff add.commute)
qed

end

section \<open>Properties\<close>

text \<open>
  C28: a condition packet is an Ethernet/802.1Q/IPv4/UDP frame of 46 bytes from which a switch reads back
  the flow and the level it was built from, whatever the unassigned header fields contain.
\<close>

theorem condition_pkt_roundtrip:
  assumes "0 \<le> l" "l \<le> 3" "net_ctx_ok net"
  shows "\<exists>pkt r. send_udp_condition_pkt net (condition_of k) l wire = (wire @ [pkt], r) \<and> length pkt = 46 \<and>
    decode_condition pkt = Some (k, l) \<and> vlan_tag pkt 1 = Some (tag_packet_selected_level l)"
proof -
  let ?p = "condition_pkt (net_stack net (length wire)) (condition_of k) l"
  have "length ?p = 46"
    by (simp add: condition_pkt_def ip_header_bytes_def udp_header_bytes_def)
  moreover have "ld16 ?p 12 = Some (htons 0x8100)" "ld16 ?p 14 = Some (tag_packet_selected_level l)"
    unfolding condition_pkt_def vlan_header_bytes_def append_assoc by (simp_all add: ld16_skip)
  ultimately show ?thesis using assms
    by (auto simp: send_udp_condition_pkt_def Let_def decode_condition_pkt vlan_tag_def is_vlan_frame_def l2_start_def
        DLT_JUNIPER_ETHER_def ETHERTYPE_VLAN_def)
qed

definition sample_net :: network where
  "sample_net = \<lparr>net_ctx_ok = True, net_stack = (\<lambda>_. \<lparr>j_ip_tos = 0, j_ip_id = 7, j_ip_sum = 0, j_uh_sum = 0\<rparr>),
     net_sendpacket = (\<lambda>p. int (length p))\<rparr>"

theorem condition_pkt_roundtrip_witness:
  "\<exists>pkt r. send_udp_condition_pkt sample_net (condition_of \<lparr>fs_srcip = 0x0A000001, fs_dstip = 0x0B000002\<rparr>) 2 [] = ([pkt], r) \<and>
    decode_condition pkt = Some (\<lparr>fs_srcip = 0x0A000001, fs_dstip = 0x0B000002\<rparr>, 2)"
  using condition_pkt_roundtrip [of 2 sample_net "\<lparr>fs_srcip = 0x0A000001, fs_dstip = 0x0B000002\<rparr>" "[]"]
  by (auto simp: sample_net_def)

text \<open>
  C9: a round of condition sending keeps the switches in step.  If the view of a switch is the last-sent
  map, then after the packets of the round its view is the current level map; exactly one packet is
  sent for each flow whose level differs; the last-sent map then equals the current one, the level
  map and the packets in flight are as before, the packet counter of the interval grows by the number of packets, and the
  warehouse invariant holds.
\<close>

theorem condition_round_syncs:
  assumes "flow_src_hash hb" "dw_inv hb st dw" "net_ctx_ok net"
  shows "\<exists>r pkts. send_condition_to_network hb net True dw wire = Some (r, False) \<and> cr_wire r = wire @ pkts \<and>
    fold learn pkts (levels hb (dw_last_sent_flow_selected_level_map dw)) =
      levels hb (data_warehouse_get_flow_selected_level_map dw) \<and>
    length pkts = card {f. levels hb (dw_last_sent_flow_selected_level_map dw) f \<noteq>
      levels hb (data_warehouse_get_flow_selected_level_map dw) f} \<and>
    dw_inv hb st (cr_dw r) \<and> dw_active_idx (cr_dw r) = dw_active_idx dw \<and>
    dw_flow_recePktList_map (cr_dw r) = dw_flow_recePktList_map dw \<and>
    dw_flow_selected_level_map (cr_dw r) = dw_flow_selected_level_map dw \<and>
    levels hb (dw_last_sent_flow_selected_level_map (cr_dw r)) = levels hb (data_warehouse_get_flow_selected_level_map dw) \<and>
    dw_condition_pkt_num_sent (cr_dw r) (dw_active_idx dw) =
      dw_condition_pkt_num_sent dw (dw_active_idx dw) + of_nat (length pkts)"
  using flow_src_hash.condition_round_spec [OF assms] .

theorem condition_round_syncs_witness:
  "\<exists>dw r pkts. send_condition_to_network flow_src_hash_bin sample_net True dw [] = Some (r, False) \<and> cr_wire r = pkts \<and>
    fold learn pkts (levels flow_src_hash_bin (dw_last_sent_flow_selected_level_map dw)) =
      levels flow_src_hash_bin (data_warehouse_get_flow_selected_level_map dw)"
proof -
  obtain dw where dw: "dw_inv flow_src_hash_bin dw_setting dw" using dw_sample_empty by blast
  have net: "net_ctx_ok sample_net" by (simp add: sample_net_def)
  from condition_round_syncs [OF murmur.flow_src_hash_axioms dw net, of "[]"] obtain r pkts where
    "send_condition_to_network flow_src_hash_bin sample_net True dw [] = Some (r, False)" "cr_wire r = [] @ pkts"
    "fold learn pkts (levels flow_src_hash_bin (dw_last_sent_flow_selected_level_map dw)) =
      levels flow_src_hash_bin (data_warehouse_get_flow_selected_level_map dw)" by blast
  then show ?thesis by auto
qed

end
