(* ===== verification/Time_Library.thy ===== *)
theory Time_Library
  imports CM_Prelude
begin

text \<open>
  \<^verbatim>\<open>public_lib/time_library.c\<close>: waiting for the start of the next interval by polling the clock.  The clock
  is a parameter: the list of the values that the successive calls of \<^verbatim>\<open>clock_gettime\<close> deliver.  A wait
  that is still polling when the list ends has the value \<open>None\<close>; a division by zero is the error value
  of its own type.
\<close>

record timespec =
  tv_sec :: int
  tv_nsec :: int

datatype time_fault = Division_by_zero

text \<open>\<^verbatim>\<open>(intmax_t)spec.tv_sec * 1000 + spec.tv_nsec / 1000000\<close>, stored in an unsigned 64-bit variable.\<close>

definition msec_of :: "timespec \<Rightarrow> u64" where
  "msec_of spec = word_of_int (tv_sec spec * 1000 + tv_nsec spec div 1000000)"

text \<open>The polling loop: read the clock until \<open>P\<close> holds.\<close>

fun poll :: "(timespec \<Rightarrow> bool) \<Rightarrow> timespec list \<Rightarrow> (timespec \<times> timespec list) option" where
  "poll P [] = None"
| "poll P (spec # clock) = (if P spec then Some (spec, clock) else poll P clock)"

definition get_next_sec_interval_start :: "int \<Rightarrow> timespec list \<Rightarrow> time_fault + (u64 \<times> timespec list) option" where
  "get_next_sec_interval_start time_interval_secs clock =
    (if time_interval_secs = 0 then Inl Division_by_zero
     else Inr (case poll (\<lambda>spec. tv_sec spec mod time_interval_secs \<noteq> 0) clock of
         None \<Rightarrow> None
       | Some (_, clock) \<Rightarrow>
           (case poll (\<lambda>spec. tv_sec spec mod time_interval_secs = 0) clock of
              None \<Rightarrow> None
            | Some (spec, clock) \<Rightarrow> Some (word_of_int (tv_sec spec), clock))))"

definition get_next_interval_start :: "u32 \<Rightarrow> timespec list \<Rightarrow> time_fault + (u64 \<times> timespec list) option" where
  "get_next_interval_start time_interval_msecs clock =
    (let len = (ucast time_interval_msecs :: u64)
     in if len = 0 then Inl Division_by_zero
        else Inr (case poll (\<lambda>spec. msec_of spec mod len \<noteq> 0) clock of
            None \<Rightarrow> None
          | Some (spec, clock) \<Rightarrow>
              let pre_interval_tag = msec_of spec div len
              in (case poll (\<lambda>spec. msec_of spec mod len = 0 \<or> msec_of spec > (pre_interval_tag + 1) * len) clock of
                    None \<Rightarrow> None
                  | Some (spec, clock) \<Rightarrow> Some (msec_of spec, clock))))"

section \<open>Lemmas\<close>

lemma poll_Some: "poll P clock = Some (spec, rest) \<longleftrightarrow> (\<exists>pre. clock = pre @ spec # rest \<and> list_all (\<lambda>s. \<not> P s) pre \<and> P spec)"
proof (induction clock)
  case (Cons s clock)
  show ?case
  proof (cases "P s")
    case True
    then show ?thesis by (auto simp: Cons_eq_append_conv)
  next
    case False
    then show ?thesis using Cons by (auto simp: Cons_eq_append_conv)
  qed
qed simp

lemma poll_exists: "s \<in> set clock \<Longrightarrow> P s \<Longrightarrow> \<exists>r. poll P clock = Some r"
  by (induction clock) auto

definition clock_msec :: "timespec \<Rightarrow> int" where
  "clock_msec spec = tv_sec spec * 1000 + tv_nsec spec div 1000000"

text \<open>A sane clock: readings do not go back, and no reading is near the end of the 64-bit range.\<close>

definition clock_ok :: "timespec list \<Rightarrow> bool" where
  "clock_ok clock \<longleftrightarrow> sorted (map clock_msec clock) \<and> list_all (\<lambda>s. 0 \<le> clock_msec s \<and> clock_msec s < 2 ^ 63) clock"

lemma uint_msec: "0 \<le> clock_msec s \<Longrightarrow> clock_msec s < 2 ^ 63 \<Longrightarrow> uint (msec_of s) = clock_msec s"
  unfolding msec_of_def clock_msec_def uint_word_of_int_eq by (intro take_bit_int_eq_self) simp_all

lemma uint_widen: "uint (ucast (L :: u32) :: u64) = uint L"
  by (simp add: uint_up_ucast is_up)

text \<open>The bound of the second loop does not wrap.\<close>

lemma next_boundary:
  fixes L :: u32
  assumes "0 \<le> clock_msec s" "clock_msec s < 2 ^ 63" "0 < L"
  shows "uint ((msec_of s div ucast L + 1) * (ucast L :: u64)) = (clock_msec s div uint L + 1) * uint L"
proof -
  let ?x = "clock_msec s" and ?L = "uint L"
  have L: "0 < ?L" "?L < 2 ^ 32" using assms(3) unsigned_less [where w = L] by (simp_all add: word_less_def)
  have "(msec_of s div ucast L + 1) * (ucast L :: u64) = word_of_int (?x div ?L + 1) * word_of_int ?L"
    by (simp add: word_div_def uint_msec [OF assms(1,2)] uint_widen)
  also have "\<dots> = (word_of_int ((?x div ?L + 1) * ?L) :: u64)" by (simp only: of_int_mult)
  finally have eq: "(msec_of s div ucast L + 1) * (ucast L :: u64) = word_of_int ((?x div ?L + 1) * ?L)" .
  have "?x div ?L * ?L \<le> ?x" using div_mult_mod_eq [of ?x ?L] pos_mod_sign [OF L(1), of ?x] by linarith
  then have "(?x div ?L + 1) * ?L < 2 ^ 64" using assms(2) L by (simp add: distrib_right)
  moreover have "0 \<le> (?x div ?L + 1) * ?L" using L assms(1) by (simp add: pos_imp_zdiv_nonneg_iff)
  ultimately show ?thesis unfolding eq uint_word_of_int_eq by (intro take_bit_int_eq_self) simp_all
qed

lemma msec_mod:
  fixes L :: u32
  assumes "0 \<le> clock_msec s" "clock_msec s < 2 ^ 63"
  shows "msec_of s mod (ucast L :: u64) = 0 \<longleftrightarrow> clock_msec s mod uint L = 0"
proof -
  have "uint (msec_of s mod (ucast L :: u64)) = clock_msec s mod uint L" by (simp add: uint_mod uint_msec [OF assms] uint_widen)
  then show ?thesis by (metis uint_0_iff)
qed

text \<open>From a reading off the boundaries on, being on a boundary or past the next one is to have reached the next one.\<close>

lemma boundary_reached:
  fixes l :: int
  assumes "0 < l" "x \<le> y" "x mod l \<noteq> 0"
  shows "y mod l = 0 \<or> (x div l + 1) * l < y \<longleftrightarrow> (x div l + 1) * l \<le> y"
proof -
  have x: "x = x div l * l + x mod l" "y = y div l * l + y mod l" by simp_all
  have r: "0 \<le> y mod l" "y mod l < l" "0 \<le> x mod l" "x mod l < l" using assms(1) by simp_all
  have d: "x div l \<le> y div l" using assms(1,2) by (rule zdiv_mono1 [rotated])
  show ?thesis
  proof (cases "y div l = x div l")
    case True
    then have y: "y = x div l * l + y mod l" using x(2) by simp
    then have "y < (x div l + 1) * l" "y mod l \<noteq> 0" using x(1) r assms(2,3) unfolding distrib_right by linarith+
    then show ?thesis by linarith
  next
    case False
    then have "(x div l + 1) * l \<le> y div l * l" using d assms(1) by (intro mult_right_mono) simp_all
    then have "(x div l + 1) * l \<le> y" "y mod l = 0 \<or> (x div l + 1) * l < y" using x(2) r by linarith+
    then show ?thesis by blast
  qed
qed

section \<open>Properties\<close>

text \<open>
  C38: \<^verbatim>\<open>get_next_interval_start\<close> returns the first reading of a new interval.  On a clock that does not go back, let \<open>s0\<close> be the first
  reading that is not on a boundary.  As soon as some reading has reached the next boundary after \<open>s0\<close> the function returns; its result is
  a reading \<open>s\<close> that has reached this boundary, all readings between \<open>s0\<close> and \<open>s\<close> are before it, and those after \<open>s\<close> have not been taken.
\<close>

theorem next_interval_start:
  fixes L :: u32
  assumes "clock_ok clock" "0 < L" "clock = pre @ s0 # mid" "list_all (\<lambda>s. clock_msec s mod uint L = 0) pre"
    and "clock_msec s0 mod uint L \<noteq> 0" "boundary = (clock_msec s0 div uint L + 1) * uint L" "s1 \<in> set mid" "boundary \<le> clock_msec s1"
  shows "\<exists>waited s rest. get_next_interval_start L clock = Inr (Some (msec_of s, rest)) \<and> uint (msec_of s) = clock_msec s \<and>
    mid = waited @ s # rest \<and> list_all (\<lambda>t. clock_msec t < boundary) waited \<and> boundary \<le> clock_msec s"
proof -
  let ?len = "ucast L :: u64"
  have rng: "0 \<le> clock_msec s \<and> clock_msec s < 2 ^ 63" if "s \<in> set clock" for s
    using assms(1) that by (auto simp: clock_ok_def list_all_iff)
  have L: "0 < uint L" using assms(2) by (simp add: word_less_def)
  then have len: "?len \<noteq> 0" using uint_widen [of L] by (metis uint_0_eq less_irrefl)
  have p1: "poll (\<lambda>spec. msec_of spec mod ?len \<noteq> 0) clock = Some (s0, mid)"
    using assms(3-5) rng by (auto simp: poll_Some msec_mod list_all_iff intro!: exI [of _ pre])
  define P where "P = (\<lambda>spec. msec_of spec mod ?len = 0 \<or> msec_of spec > (msec_of s0 div ?len + 1) * ?len)"
  have s0: "0 \<le> clock_msec s0" "clock_msec s0 < 2 ^ 63" using rng assms(3) by auto
  have P: "P s \<longleftrightarrow> boundary \<le> clock_msec s" if s: "s \<in> set mid" for s
  proof -
    have "clock_msec s0 \<le> clock_msec s" using assms(1,3) s by (auto simp: clock_ok_def sorted_append)
    note boundary_reached [OF L this assms(5), folded assms(6)]
    moreover have "P s \<longleftrightarrow> clock_msec s mod uint L = 0 \<or> boundary < clock_msec s"
      using rng [of s] s assms(3) next_boundary [OF s0 assms(2)] by (simp add: P_def msec_mod word_less_def uint_msec assms(6))
    ultimately show ?thesis by simp
  qed
  obtain s r where p2: "poll P mid = Some (s, r)" using poll_exists [OF assms(7), of P] P [OF assms(7)] assms(8) by auto
  then obtain waited where m: "mid = waited @ s # r" "list_all (\<lambda>s. \<not> P s) waited" "P s" by (auto simp: poll_Some)
  have "list_all (\<lambda>t. clock_msec t < boundary) waited" using m(1,2) P by (auto simp: list_all_iff not_le)
  moreover have "uint (msec_of s) = clock_msec s" using rng [of s] assms(3) m(1) by (simp add: uint_msec)
  moreover have "get_next_interval_start L clock = Inr (Some (msec_of s, r))"
    using p1 p2 len by (simp add: get_next_interval_start_def Let_def P_def)
  ultimately show ?thesis using m(1,3) P [of s] by auto
qed

theorem next_interval_start_witness:
  "get_next_interval_start 500
      [\<lparr>tv_sec = 10, tv_nsec = 0\<rparr>, \<lparr>tv_sec = 10, tv_nsec = 300000000\<rparr>, \<lparr>tv_sec = 10, tv_nsec = 501000000\<rparr>] = Inr (Some (10501, []))"
proof -
  let ?a = "\<lparr>tv_sec = 10, tv_nsec = 0\<rparr>" and ?b = "\<lparr>tv_sec = 10, tv_nsec = 300000000\<rparr>" and ?c = "\<lparr>tv_sec = 10, tv_nsec = 501000000\<rparr>"
  have t: "clock_msec ?a = 10000" "clock_msec ?b = 10300" "clock_msec ?c = 10501" by (simp_all add: clock_msec_def)
  have u: "uint (500 :: u32) = 500" by simp
  have ok: "clock_ok [?a, ?b, ?c]" by (simp add: clock_ok_def t)
  have pos: "0 < (500 :: u32)" by simp
  have split: "[?a, ?b, ?c] = [?a] @ ?b # [?c]" by simp
  have b: "10500 = (clock_msec ?b div uint (500 :: u32) + 1) * uint (500 :: u32)" by (simp only: t u) simp
  have "list_all (\<lambda>s. clock_msec s mod uint (500 :: u32) = 0) [?a]" "clock_msec ?b mod uint (500 :: u32) \<noteq> 0"
    by (simp_all only: t u list.pred_inject) simp_all
  from next_interval_start [OF ok pos split this b, of ?c] obtain waited s rest where
    n: "get_next_interval_start 500 [?a, ?b, ?c] = Inr (Some (msec_of s, rest))" "[?c] = waited @ s # rest" unfolding t by auto
  then have "s = ?c" "rest = []" by (auto simp: Cons_eq_append_conv)
  with n(1) show ?thesis by (simp add: msec_of_def)
qed

end
