(* ===== verification/Interval_Rotator.thy ===== *)
theory Interval_Rotator
  imports Data_Warehouse Time_Library "HOL-Library.Monad_Syntax"
begin

text \<open>
  \<^verbatim>\<open>tcpreplay/src/interval_rotator.c\<close>: at the end of every interval the buffers are rotated, the report of
  the interval that ended is written to a file and its buffer is reset.  A file is the list of its
  lines, with the values that each \<^verbatim>\<open>fprintf\<close> prints; the decimal rendering is left out.  \<open>None\<close> as a result
  stands for a loop that does not end or the use of a null pointer.
\<close>

section \<open>The report file\<close>

record interval_info =
  ii_time :: u64
  ii_interval_msec_len :: int
  ii_condition_msec_freq :: int
  ii_replacement :: bool
  ii_switch_mem_type :: u32
  ii_host_or_switch_sample :: u32
  ii_switch_drop_rate :: cfloat
  ii_volume_threshold :: int
  ii_loss_rate_threshold :: cfloat
  ii_loss_volume_threshold :: int
  ii_pkt_num_sent :: u64
  ii_volume_sent :: u64
  ii_volume_lost :: u64
  ii_volume_lost_rate :: "cfloat option"
  ii_condition_pkt_num_sent :: u64
  ii_loss_rate_ok_flow_num :: int
  ii_volume_ok_flow_num :: int
  ii_unique_flow_num_sent :: int

record flow_info =
  fi_flow :: flow_src
  fi_volume :: int
  fi_loss_rate :: cfloat
  fi_loss_volume :: int
  fi_not_sampled_volume :: int
  fi_sent_out :: int

datatype file_line = Column_line string | Info_line interval_info | Lost_target_line int int | Flow_line flow_info

definition CM_SENDER_TARGET_FLOW_FNAME_PREFIX :: string where
  "CM_SENDER_TARGET_FLOW_FNAME_PREFIX = ''/tmp/sender/''"
definition CM_SENDER_TARGET_FLOW_FNAME_SUFFIX :: string where
  "CM_SENDER_TARGET_FLOW_FNAME_SUFFIX = ''_intervals_target_flows.txt''"

text \<open>Name and first line of the file; \<^verbatim>\<open>snprintf\<close> keeps at most 199 characters of the name.\<close>

definition init_target_flow_file :: "string option \<Rightarrow> (string \<Rightarrow> bool) \<Rightarrow> (string \<times> file_line list) option" where
  "init_target_flow_file dev fopen_ok =
    (case get_mininet_host_name dev of
       None \<Rightarrow> None
     | Some hostname \<Rightarrow>
         let fname = take 199 (CM_SENDER_TARGET_FLOW_FNAME_PREFIX @ hostname @ CM_SENDER_TARGET_FLOW_FNAME_SUFFIX)
         in if fopen_ok fname then Some (fname, [Column_line (''srcip'' @ [CHR 0x09] @ ''dstip'')]) else None)"

section \<open>Writing the report\<close>

definition set_unactive_level :: "hashtable_kfs_vi option \<Rightarrow> data_warehouse \<Rightarrow> data_warehouse" where
  "set_unactive_level m dw = dw\<lparr>dw_flow_selected_level_map := (dw_flow_selected_level_map dw)(na_idx dw := m)\<rparr>"

definition set_unactive_volume :: "hashtable_kfs_vi option \<Rightarrow> data_warehouse \<Rightarrow> data_warehouse" where
  "set_unactive_volume m dw = dw\<lparr>dw_flow_volume_map := (dw_flow_volume_map dw)(na_idx dw := m)\<rparr>"

definition set_unactive_rate :: "hashtable_kfs_vf option \<Rightarrow> data_warehouse \<Rightarrow> data_warehouse" where
  "set_unactive_rate m dw = dw\<lparr>dw_flow_loss_rate_map := (dw_flow_loss_rate_map dw)(na_idx dw := m)\<rparr>"

definition write_last_sent_flow_selected_level_map_lost_target_flow ::
    "(flow_src \<Rightarrow> u32 \<Rightarrow> u32) \<Rightarrow> data_warehouse \<Rightarrow> file_line list \<Rightarrow> (data_warehouse \<times> file_line list) option" where
  "write_last_sent_flow_selected_level_map_lost_target_flow hb dw fp_target_flow = do {
     (m, (final_target_flow_num, final_lost_num)) \<leftarrow>
       ht_kfs_vi_foreach (\<lambda>e (n, l).
         if e_value e \<noteq> level_val TARGET_LEVEL then (n, l)
         else if get_task_of_traffic (dw_task_manager dw) (e_key e) = None then (n, l)
         else (c_int (n + 1),
               if ht_kfs_vi_get hb (dw_last_sent_flow_selected_level_map dw) (e_key e) \<noteq> sint (level_val TARGET_LEVEL)
               then c_int (l + 1) else l))
         (data_warehouse_get_unactive_flow_selected_level_map dw) (0, 0);
     Some (set_unactive_level m dw, fp_target_flow @ [Lost_target_line final_target_flow_num final_lost_num])
   }"

definition write_interval_info_to_file :: "cm_experiment_setting \<Rightarrow> u64 \<Rightarrow> data_warehouse \<Rightarrow> file_line list \<Rightarrow>
    (data_warehouse \<times> file_line list) option" where
  "write_interval_info_to_file st current_msec dw fp_target_flow = do {
     let i = na_idx dw;
     rates \<leftarrow> data_warehouse_get_unactive_flow_loss_rate_map dw;
     (rates, loss_rate_ok_flow_num) \<leftarrow> ct_fold (\<lambda>e n.
       if cf_less (loss_rate_threshold (target_flow st)) (e_value e) then c_int (n + 1) else n) rates 0;
     let dw = set_unactive_rate (Some rates) dw;
     (m, (volume_ok_flow_num, unique_flow_num_sent)) \<leftarrow> ht_kfs_vi_foreach (\<lambda>e (v, u).
       (if e_value e > word_of_int (volume_threshold (target_flow st)) then c_int (v + 1) else v, c_int (u + 1)))
       (data_warehouse_get_unactive_flow_volume_map dw) (0, 0);
     let dw = set_unactive_volume m dw;
     Some (dw, fp_target_flow @ [Info_line \<lparr>ii_time = current_msec,
       ii_interval_msec_len = interval_msec_len st, ii_condition_msec_freq = condition_msec_freq st,
       ii_replacement = replacement st, ii_switch_mem_type = switch_mem_type st,
       ii_host_or_switch_sample = host_or_switch_sample st, ii_switch_drop_rate = switch_drop_rate st,
       ii_volume_threshold = volume_threshold (target_flow st),
       ii_loss_rate_threshold = loss_rate_threshold (target_flow st),
       ii_loss_volume_threshold = loss_volume_threshold (target_flow st),
       ii_pkt_num_sent = dw_pkt_num_sent dw i, ii_volume_sent = dw_volume_sent dw i, ii_volume_lost = dw_volume_lost dw i,
       ii_volume_lost_rate = (if dw_volume_sent dw i > 0 then
         Some (cf_div fl64 (cf_mul fl64 (Fin 1) (u64_double (dw_volume_lost dw i))) (u64_double (dw_volume_sent dw i))) else None),
       ii_condition_pkt_num_sent = dw_condition_pkt_num_sent dw i,
       ii_loss_rate_ok_flow_num = loss_rate_ok_flow_num, ii_volume_ok_flow_num = volume_ok_flow_num,
       ii_unique_flow_num_sent = unique_flow_num_sent\<rparr>])
   }"

text \<open>The values of one output row, shared by the two functions that list flows.\<close>

definition flow_row :: "(flow_src \<Rightarrow> u32 \<Rightarrow> u32) \<Rightarrow> cm_experiment_setting \<Rightarrow> data_warehouse \<Rightarrow> flow_src \<Rightarrow> flow_info" where
  "flow_row hb st dw p_flow = \<lparr>fi_flow = p_flow,
     fi_volume = ht_kfs_vi_get hb (data_warehouse_get_unactive_flow_volume_map dw) p_flow,
     fi_loss_rate = ht_kfs_vf_get hb (data_warehouse_get_unactive_flow_loss_rate_map dw) p_flow,
     fi_loss_volume = (if loss_map_mem_type (sender st) = FIXED
       then fixed_loss_volume hb (data_warehouse_get_unactive_fixed_flow_loss_volume_map dw) p_flow
       else ht_kfs_vi_get hb (data_warehouse_get_unactive_flow_loss_volume_map dw) p_flow),
     fi_not_sampled_volume = ht_kfs_vi_get hb (data_warehouse_get_unactive_flow_not_sampled_volume_map dw) p_flow,
     fi_sent_out = ht_kfs_vi_get hb (dw_last_sent_flow_selected_level_map dw) p_flow\<rparr>"

definition write_target_flows_to_file :: "(flow_src \<Rightarrow> u32 \<Rightarrow> u32) \<Rightarrow> cm_experiment_setting \<Rightarrow> data_warehouse \<Rightarrow>
    file_line list \<Rightarrow> (data_warehouse \<times> file_line list) option" where
  "write_target_flows_to_file hb st dw fp_target_flow = do {
     (m, fp_target_flow) \<leftarrow> ht_kfs_vi_foreach (\<lambda>e fp.
         if e_value e \<noteq> level_val TARGET_LEVEL then fp
         else if get_task_of_traffic (dw_task_manager dw) (e_key e) = None then fp
         else fp @ [Flow_line (flow_row hb st dw (e_key e))])
       (data_warehouse_get_unactive_flow_selected_level_map dw) fp_target_flow;
     Some (set_unactive_level m dw, fp_target_flow)
   }"

definition write_all_flows_to_file :: "(flow_src \<Rightarrow> u32 \<Rightarrow> u32) \<Rightarrow> cm_experiment_setting \<Rightarrow> data_warehouse \<Rightarrow>
    file_line list \<Rightarrow> (data_warehouse \<times> file_line list) option" where
  "write_all_flows_to_file hb st dw fp_target_flow = do {
     (m, fp_target_flow) \<leftarrow> ht_kfs_vi_foreach (\<lambda>e fp. fp @ [Flow_line (flow_row hb st dw (e_key e))])
       (data_warehouse_get_unactive_flow_volume_map dw) fp_target_flow;
     Some (set_unactive_volume m dw, fp_target_flow)
   }"

section \<open>The rotation\<close>

text \<open>
  The body of the loop of \<^verbatim>\<open>rotate_interval\<close> between taking and releasing \<^verbatim>\<open>data_warehouse_mutex\<close>; the
  result of the reset is not looked at.
\<close>

definition rotate_interval :: "(flow_src \<Rightarrow> u32 \<Rightarrow> u32) \<Rightarrow> cm_experiment_setting \<Rightarrow> (nat \<Rightarrow> bool) \<Rightarrow> u64 \<Rightarrow> data_warehouse \<Rightarrow>
    file_line list \<Rightarrow> (data_warehouse \<times> file_line list) option" where
  "rotate_interval hb st ok current_msec dw fp_target_flow = do {
     let dw = data_ware_rotate_buffer dw;
     (dw, fp) \<leftarrow> write_interval_info_to_file st current_msec dw fp_target_flow;
     (dw, fp) \<leftarrow> write_last_sent_flow_selected_level_map_lost_target_flow hb dw fp;
     (dw, fp) \<leftarrow> write_target_flows_to_file hb st dw fp;
     Some (fst (data_warehouse_reset_noactive_buf st ok dw), fp)
   }"

text \<open>The sleep between two rotations, in the unsigned arithmetic of the code.\<close>

definition to_sleep_msec :: "cm_experiment_setting \<Rightarrow> u64 \<Rightarrow> u64 \<Rightarrow> u32" where
  "to_sleep_msec st current_msec after_rotate_msec =
    (let rotate_duration_msec = (ucast (after_rotate_msec - current_msec) :: u32)
     in word_of_int (interval_msec_len st) - rotate_duration_msec)"

definition to_sleep_time :: "u32 \<Rightarrow> timespec" where
  "to_sleep_time msec = \<lparr>tv_sec = uint (msec div 1000), tv_nsec = uint ((msec mod 1000) * 1000000)\<rparr>"

text \<open>
  The thread.  Between two rounds it sleeps and the other threads change the warehouse, so the environment gives for each round \<open>n\<close> the
  warehouse found when the lock is taken, which allocations succeed, the clock after the rotation and the
  clock after the sleep, which may depend on the time to sleep.  Its loop has no exit: the value
  of \<open>rotate_loop\<close> is \<open>None\<close> unless a round fails.  Returning is \<open>Inr\<close>, with the lines of the file.
\<close>

record rotator_env =
  re_dw :: "nat \<Rightarrow> data_warehouse"
  re_alloc :: "nat \<Rightarrow> nat \<Rightarrow> bool"
  re_after :: "nat \<Rightarrow> timespec"
  re_wake :: "nat \<Rightarrow> timespec \<Rightarrow> timespec"

definition rotate_round :: "(flow_src \<Rightarrow> u32 \<Rightarrow> u32) \<Rightarrow> cm_experiment_setting \<Rightarrow> rotator_env \<Rightarrow> nat \<Rightarrow> u64 \<Rightarrow> file_line list \<Rightarrow>
    (u64 \<times> file_line list) option" where
  "rotate_round hb st e n current_msec fp_target_flow =
    (case rotate_interval hb st (re_alloc e n) current_msec (re_dw e n) fp_target_flow of
       None \<Rightarrow> None
     | Some (dw, fp) \<Rightarrow> Some (msec_of (re_wake e n (to_sleep_time (to_sleep_msec st current_msec (msec_of (re_after e n))))), fp))"

partial_function (option) rotate_loop :: "(flow_src \<Rightarrow> u32 \<Rightarrow> u32) \<Rightarrow> cm_experiment_setting \<Rightarrow> rotator_env \<Rightarrow> nat \<Rightarrow> u64 \<Rightarrow>
    file_line list \<Rightarrow> (c_fault + file_line list) option" where
  "rotate_loop hb st e n current_msec fp_target_flow =
    (case rotate_round hb st e n current_msec fp_target_flow of
       None \<Rightarrow> Some (Inl Null_dereference)
     | Some r \<Rightarrow> rotate_loop hb st e (Suc n) (fst r) (snd r))"

definition rotate_thread :: "(flow_src \<Rightarrow> u32 \<Rightarrow> u32) \<Rightarrow> cm_experiment_setting \<Rightarrow> string option \<Rightarrow> (string \<Rightarrow> bool) \<Rightarrow> timespec list \<Rightarrow>
    rotator_env \<Rightarrow> (c_fault + file_line list) option" where
  "rotate_thread hb st dev fopen_ok clock e =
    (case init_target_flow_file dev fopen_ok of
       None \<Rightarrow> Some (Inr [])
     | Some (fname, fp) \<Rightarrow>
         (case get_next_interval_start 600000 clock of
            Inl f \<Rightarrow> Some (Inl Divide_error)
          | Inr None \<Rightarrow> None
          | Inr (Some (current_msec, clock)) \<Rightarrow> rotate_loop hb st e 0 current_msec fp))"

text \<open>The first \<open>n\<close> rounds.\<close>

fun rotate_rounds :: "(flow_src \<Rightarrow> u32 \<Rightarrow> u32) \<Rightarrow> cm_experiment_setting \<Rightarrow> rotator_env \<Rightarrow> nat \<Rightarrow> u64 \<Rightarrow> file_line list \<Rightarrow>
    (u64 \<times> file_line list) option" where
  "rotate_rounds hb st e 0 current_msec fp = Some (current_msec, fp)"
| "rotate_rounds hb st e (Suc n) current_msec fp =
    (case rotate_rounds hb st e n current_msec fp of None \<Rightarrow> None | Some (t, fp) \<Rightarrow> rotate_round hb st e n t fp)"

section \<open>Lemmas\<close>

lemma c_int_add: "c_int (c_int a + b) = c_int (a + b)"
  unfolding c_int_def by (simp add: mod_simps ac_simps)

lemma fold_count:
  "fold (\<lambda>e n. if P e then c_int (n + 1) else n) es (c_int k) = c_int (k + int (length (filter P es)))"
  by (induction es arbitrary: k) (simp_all add: c_int_add add.assoc)

lemma c_int_0 [simp]: "c_int 0 = 0"
  by (simp add: int_range_def)

lemma fold_count0:
  "fold (\<lambda>e n. if P e then c_int (n + 1) else n) es 0 = c_int (int (length (filter P es)))"
  "fold (\<lambda>e n. c_int (n + 1)) es 0 = c_int (int (length es))"
  using fold_count [of P es 0] fold_count [of "\<lambda>_. True" es 0] by simp_all

lemma sint_2: "sint (w :: u32) = 2 \<longleftrightarrow> w = 2"
  by (auto dest: arg_cong [where f = "word_of_int :: int \<Rightarrow> u32"])

lemma fold_collect: "fold (\<lambda>e fp. if P e then fp @ [g e] else fp) es fp = fp @ map g (filter P es)"
  by (induction es arbitrary: fp) simp_all

lemma fold_pair: "fold (\<lambda>e (x, y). (f e x, g e y)) es (x, y) = (fold f es x, fold g es y)"
  by (induction es arbitrary: x y) simp_all

lemma set_unactive_triv [simp]:
  "set_unactive_level (dw_flow_selected_level_map dw (na_idx dw)) dw = dw"
  "set_unactive_volume (dw_flow_volume_map dw (na_idx dw)) dw = dw"
  "set_unactive_rate (dw_flow_loss_rate_map dw (na_idx dw)) dw = dw"
  by (cases dw; simp add: set_unactive_level_def set_unactive_volume_def set_unactive_rate_def)+

lemma na_idx_less: "na_idx dw < 2"
  by (simp add: na_idx_def BUFFER_NUM_def)

text \<open>The flows that the report of an interval lists.\<close>

definition is_target_entry :: "data_warehouse \<Rightarrow> entry_kfs_vi \<Rightarrow> bool" where
  "is_target_entry dw e \<longleftrightarrow> e_value e = level_val TARGET_LEVEL \<and> get_task_of_traffic (dw_task_manager dw) (e_key e) \<noteq> None"

definition target_rows :: "(flow_src \<Rightarrow> u32 \<Rightarrow> u32) \<Rightarrow> cm_experiment_setting \<Rightarrow> data_warehouse \<Rightarrow> flow_info list" where
  "target_rows hb st dw = map (\<lambda>e. flow_row hb st dw (e_key e))
     (filter (is_target_entry dw) (tab_entries (data_warehouse_get_unactive_flow_selected_level_map dw)))"

text \<open>
  What the report has to say, in terms of the contents of the tables of the buffer that was active before the rotation: the summary of
  the interval and the row of a flow.
\<close>

definition interval_summary :: "(flow_src \<Rightarrow> u32 \<Rightarrow> u32) \<Rightarrow> cm_experiment_setting \<Rightarrow> u64 \<Rightarrow> data_warehouse \<Rightarrow> interval_info" where
  "interval_summary hb st t dw =
    (let a = dw_active_idx dw; target = target_flow st; volumes = tab_map hb (dw_flow_volume_map dw a); rates = tab_map hb (dw_flow_loss_rate_map dw a);
         flows = (\<lambda>P. c_int (int (card {f. P f})))
     in \<lparr>ii_time = t,
          ii_interval_msec_len = interval_msec_len st, ii_condition_msec_freq = condition_msec_freq st, ii_replacement = replacement st,
          ii_switch_mem_type = switch_mem_type st, ii_host_or_switch_sample = host_or_switch_sample st, ii_switch_drop_rate = switch_drop_rate st,
          ii_volume_threshold = volume_threshold target, ii_loss_rate_threshold = loss_rate_threshold target,
          ii_loss_volume_threshold = loss_volume_threshold target,
          ii_pkt_num_sent = dw_pkt_num_sent dw a, ii_volume_sent = dw_volume_sent dw a, ii_volume_lost = dw_volume_lost dw a,
          ii_volume_lost_rate = (if dw_volume_sent dw a = 0 then None
            else Some (cf_div fl64 (cf_mul fl64 (Fin 1) (u64_double (dw_volume_lost dw a))) (u64_double (dw_volume_sent dw a)))),
          ii_condition_pkt_num_sent = dw_condition_pkt_num_sent dw a,
          ii_loss_rate_ok_flow_num = flows (\<lambda>f. \<exists>r. rates f = Some r \<and> cf_less (loss_rate_threshold target) r),
          ii_volume_ok_flow_num = flows (\<lambda>f. \<exists>v. volumes f = Some v \<and> word_of_int (volume_threshold target) < v),
          ii_unique_flow_num_sent = flows (\<lambda>f. volumes f \<noteq> None)\<rparr>)"

definition interval_flow_info :: "(flow_src \<Rightarrow> u32 \<Rightarrow> u32) \<Rightarrow> cm_experiment_setting \<Rightarrow> data_warehouse \<Rightarrow> flow_src \<Rightarrow> flow_info" where
  "interval_flow_info hb st dw f =
    (let a = dw_active_idx dw; num = (\<lambda>t. case tab_map hb t f of None \<Rightarrow> - 1 | Some v \<Rightarrow> sint v)
     in \<lparr>fi_flow = f, fi_volume = num (dw_flow_volume_map dw a),
          fi_loss_rate = (case tab_map hb (dw_flow_loss_rate_map dw a) f of None \<Rightarrow> Fin (- 1) | Some r \<Rightarrow> r),
          fi_loss_volume = (if loss_map_mem_type (sender st) \<noteq> FIXED then num (dw_flow_loss_volume_map dw a)
            else case ht_kfs_fixSize_get hb (dw_fixed_flow_loss_volume_map dw a) f of None \<Rightarrow> 0 | Some (v, level) \<Rightarrow> sint v),
          fi_not_sampled_volume = num (dw_flow_not_sampled_volume_map dw a),
          fi_sent_out = num (dw_last_sent_flow_selected_level_map dw)\<rparr>)"

definition interval_report :: "(flow_src \<Rightarrow> u32 \<Rightarrow> u32) \<Rightarrow> cm_experiment_setting \<Rightarrow> u64 \<Rightarrow> data_warehouse \<Rightarrow> file_line list" where
  "interval_report hb st t dw =
    (let rows = target_rows hb st (data_ware_rotate_buffer dw)
     in [Info_line (interval_summary hb st t dw),
         Lost_target_line (c_int (int (length rows))) (c_int (int (length (filter (\<lambda>row. fi_sent_out row \<noteq> 2) rows))))] @
        map Flow_line rows)"

text \<open>The time at the start of a round.\<close>

fun round_time :: "cm_experiment_setting \<Rightarrow> rotator_env \<Rightarrow> u64 \<Rightarrow> nat \<Rightarrow> u64" where
  "round_time st e t 0 = t"
| "round_time st e t (Suc n) =
    msec_of (re_wake e n (to_sleep_time (to_sleep_msec st (round_time st e t n) (msec_of (re_after e n)))))"

context flow_src_hash
begin

lemma rates_fold:
  assumes "tab_ok hb t"
  shows "\<exists>ht. t = Some ht \<and> ct_fold body ht s = Some (ht, fold body (tab_entries t) s)"
  using assms by (auto simp: tab_ok_def tab_entries_def kfs.fold_entries)

lemma entries_card: "tab_ok hb t \<Longrightarrow> length (tab_entries t) = card (dom (tab_map hb t))"
proof -
  assume t: "tab_ok hb t"
  have "e_key ` set (tab_entries t) = dom (tab_map hb t)"
    using tab_entry_map [OF t] tab_entries_iff [OF t] by (force simp: image_iff)
  then show ?thesis using distinct_card [OF tab_entries_distinct [OF t]] by simp
qed

lemma entries_count: "tab_ok hb t \<Longrightarrow> length (filter P (tab_entries t)) = card {f. \<exists>v. tab_map hb t f = Some v \<and> P \<lparr>e_key = f, e_value = v\<rparr>}"
proof -
  assume t: "tab_ok hb t"
  have "e_key ` set (filter P (tab_entries t)) = {f. \<exists>v. tab_map hb t f = Some v \<and> P \<lparr>e_key = f, e_value = v\<rparr>}" (is "?l = ?r")
  proof (intro equalityI subsetI)
    show "f \<in> ?r" if f: "f \<in> ?l" for f
    proof -
      from f obtain e where e: "e \<in> set (tab_entries t)" "P e" "f = e_key e" by auto
      have "P \<lparr>e_key = e_key e, e_value = e_value e\<rparr>" using e(2) by (cases e) simp
      then show ?thesis using tab_entry_map [OF t e(1)] e(3) by blast
    qed
    show "f \<in> ?l" if "f \<in> ?r" for f using that tab_entries_iff [OF t] by (force simp: image_iff)
  qed
  then show ?thesis using distinct_card [of "map e_key (filter P (tab_entries t))"] tab_entries_distinct [OF t] by (simp add: distinct_map_filter)
qed

lemma write_info_spec:
  assumes inv: "dw_inv hb st dw"
  shows "write_interval_info_to_file st t (data_ware_rotate_buffer dw) fp =
    Some (data_ware_rotate_buffer dw, fp @ [Info_line (interval_summary hb st t dw)])"
proof -
  let ?d = "data_ware_rotate_buffer dw" and ?a = "dw_active_idx dw"
  let ?V = "dw_flow_volume_map dw ?a" and ?R = "dw_flow_loss_rate_map dw ?a" and ?thr = "word_of_int (volume_threshold (target_flow st)) :: u32"
  have "?a = 0 \<or> ?a = 1" using less_2_cases [OF dw_inv_shared(3) [OF inv]] by auto
  then have na: "na_idx ?d = ?a" by (auto simp: na_idx_def data_ware_rotate_buffer_def BUFFER_NUM_def)
  have same: "dw_flow_volume_map ?d = dw_flow_volume_map dw" "dw_flow_loss_rate_map ?d = dw_flow_loss_rate_map dw"
    "dw_pkt_num_sent ?d = dw_pkt_num_sent dw" "dw_volume_sent ?d = dw_volume_sent dw" "dw_volume_lost ?d = dw_volume_lost dw"
    "dw_condition_pkt_num_sent ?d = dw_condition_pkt_num_sent dw"
    by (simp_all add: data_ware_rotate_buffer_def)
  have r: "tab_ok hb ?R" and v: "tab_ok hb ?V"
    using inv less_2_cases [OF dw_inv_shared(3) [OF inv]] by (auto simp: dw_inv_def buf_ok_def)
  let ?body = "\<lambda>e n. if cf_less (loss_rate_threshold (target_flow st)) (e_value e) then c_int (n + 1) else n"
  from rates_fold [OF r, of ?body 0] obtain ht where
    ht: "?R = Some ht" "ct_fold ?body ht 0 = Some (ht, fold ?body (tab_entries ?R) 0)" by blast
  have triv: "set_unactive_rate (Some ht) ?d = ?d" using set_unactive_triv(3) [of ?d] ht(1) by (simp add: na same)
  have trivv: "set_unactive_volume ?V ?d = ?d" using set_unactive_triv(2) [of ?d] by (simp add: na same)
  have "fold (\<lambda>e (v, u). (if e_value e > ?thr then c_int (v + 1) else v, c_int (u + 1))) (tab_entries ?V) (0, 0) =
      (c_int (int (length (filter (\<lambda>e. ?thr < e_value e) (tab_entries ?V)))), c_int (int (length (tab_entries ?V))))"
    by (simp add: fold_pair fold_count0)
  moreover have "fold ?body (tab_entries ?R) 0 =
      c_int (int (card {f. \<exists>r. tab_map hb ?R f = Some r \<and> cf_less (loss_rate_threshold (target_flow st)) r}))"
    unfolding fold_count0 entries_count [OF r] by simp
  moreover have "length (tab_entries ?V) = card {f. tab_map hb ?V f \<noteq> None}" using entries_card [OF v] by (simp add: dom_def)
  ultimately show ?thesis
    unfolding ht(1) by (simp add: write_interval_info_to_file_def Let_def dw_get_defs na same ht triv trivv tab_foreach [OF v] interval_summary_def
        entries_count [OF v] word_gt_0)
qed

lemma write_lost_spec:
  assumes inv: "dw_inv hb st dw"
  shows "write_last_sent_flow_selected_level_map_lost_target_flow hb dw fp = Some (dw, fp @ [Lost_target_line
      (c_int (int (length (target_rows hb st dw))))
      (c_int (int (length (filter (\<lambda>row. fi_sent_out row \<noteq> 2) (target_rows hb st dw)))))])"
proof -
  have ok: "tab_ok hb (dw_flow_selected_level_map dw (na_idx dw))" using dw_inv_tables(2) [OF inv na_idx_less] .
  let ?es = "tab_entries (dw_flow_selected_level_map dw (na_idx dw))"
  let ?late = "\<lambda>e. ht_kfs_vi_get hb (dw_last_sent_flow_selected_level_map dw) (e_key e) \<noteq> 2"
  have body: "(\<lambda>e (n, l). if e_value e \<noteq> level_val TARGET_LEVEL then (n, l)
         else if get_task_of_traffic (dw_task_manager dw) (e_key e) = None then (n, l)
         else (c_int (n + 1), if ht_kfs_vi_get hb (dw_last_sent_flow_selected_level_map dw) (e_key e) \<noteq> sint (level_val TARGET_LEVEL)
               then c_int (l + 1) else l)) =
     (\<lambda>e (n, l). (if is_target_entry dw e then c_int (n + 1) else n, if is_target_entry dw e \<and> ?late e then c_int (l + 1) else l))"
    by (auto simp: fun_eq_iff is_target_entry_def)
  have "fold (\<lambda>e (n, l). (if is_target_entry dw e then c_int (n + 1) else n, if is_target_entry dw e \<and> ?late e then c_int (l + 1) else l))
      ?es (0, 0) = (c_int (int (length (filter (is_target_entry dw) ?es))),
        c_int (int (length (filter (\<lambda>e. is_target_entry dw e \<and> ?late e) ?es))))"
    by (simp add: fold_pair fold_count0)
  moreover have "length (filter (\<lambda>e. is_target_entry dw e \<and> ?late e) ?es) =
      length (filter (\<lambda>row. fi_sent_out row \<noteq> 2) (target_rows hb st dw))"
    by (simp add: target_rows_def filter_map comp_def flow_row_def dw_get_defs conj_commute)
  ultimately show ?thesis
    unfolding write_last_sent_flow_selected_level_map_lost_target_flow_def body dw_get_defs tab_foreach [OF ok]
    by (simp add: target_rows_def dw_get_defs)
qed

lemma write_targets_spec:
  assumes inv: "dw_inv hb st dw"
  shows "write_target_flows_to_file hb st dw fp = Some (dw, fp @ map Flow_line (target_rows hb st dw))"
proof -
  have ok: "tab_ok hb (dw_flow_selected_level_map dw (na_idx dw))" using dw_inv_tables(2) [OF inv na_idx_less] .
  have body: "(\<lambda>e fp. if e_value e \<noteq> level_val TARGET_LEVEL then fp
         else if get_task_of_traffic (dw_task_manager dw) (e_key e) = None then fp
         else fp @ [Flow_line (flow_row hb st dw (e_key e))]) =
     (\<lambda>e fp. if is_target_entry dw e then fp @ [Flow_line (flow_row hb st dw (e_key e))] else fp)"
    by (auto simp: fun_eq_iff is_target_entry_def)
  show ?thesis
    unfolding write_target_flows_to_file_def body dw_get_defs tab_foreach [OF ok]
    by (simp add: target_rows_def dw_get_defs fold_collect comp_def)
qed

lemma target_rows_flows:
  assumes inv: "dw_inv hb st dw"
  shows "distinct (map fi_flow (target_rows hb st dw))"
    "fi_flow ` set (target_rows hb st dw) = {f. tab_map hb (dw_flow_selected_level_map dw (na_idx dw)) f = Some 2 \<and>
       get_task_of_traffic (dw_task_manager dw) f \<noteq> None}"
proof -
  have ok: "tab_ok hb (dw_flow_selected_level_map dw (na_idx dw))" using dw_inv_tables(2) [OF inv na_idx_less] .
  show "distinct (map fi_flow (target_rows hb st dw))"
    using tab_entries_distinct [OF ok]
    by (simp add: target_rows_def comp_def flow_row_def dw_get_defs distinct_map_filter)
  have "fi_flow ` set (target_rows hb st dw) =
      e_key ` {e \<in> set (tab_entries (dw_flow_selected_level_map dw (na_idx dw))). is_target_entry dw e}"
    by (auto simp: target_rows_def flow_row_def dw_get_defs image_iff)
  also have "\<dots> = {f. tab_map hb (dw_flow_selected_level_map dw (na_idx dw)) f = Some 2 \<and>
       get_task_of_traffic (dw_task_manager dw) f \<noteq> None}"
    using tab_entry_map [OF ok] tab_entries_iff [OF ok] by (force simp: is_target_entry_def image_iff)
  finally show "fi_flow ` set (target_rows hb st dw) = {f. tab_map hb (dw_flow_selected_level_map dw (na_idx dw)) f = Some 2 \<and>
       get_task_of_traffic (dw_task_manager dw) f \<noteq> None}" .
qed

text \<open>A reported flow meets the thresholds of a target flow.\<close>

lemma target_row_thresholds:
  assumes inv: "dw_inv hb st dw" and row: "row \<in> set (target_rows hb st dw)"
  shows "fi_volume row \<ge> volume_threshold (target_flow st) \<and>
    cf_ge (fi_loss_rate row) (loss_rate_threshold (target_flow st)) \<and>
    (0 < loss_volume_threshold (target_flow st) \<longrightarrow> fi_loss_volume row \<ge> loss_volume_threshold (target_flow st))"
proof -
  let ?f = "fi_flow row" and ?n = "na_idx dw"
  have eq: "row = flow_row hb st dw ?f" using row by (auto simp: target_rows_def flow_row_def)
  have lev: "tab_map hb (dw_flow_selected_level_map dw ?n) ?f = Some 2" using target_rows_flows(2) [OF inv] row by blast
  have "flow_consistent hb st dw ?n ?f" using inv less_2_cases [OF na_idx_less [of dw]] by (auto simp: dw_inv_def)
  with lev obtain v where v: "tab_map hb (dw_flow_volume_map dw ?n) ?f = Some v"
    "tab_map hb (dw_flow_loss_rate_map dw ?n) ?f = Some (loss_rate_of (loss_seen hb st dw ?n ?f) (sint v))"
    "level_of st (sint v) (loss_seen hb st dw ?n ?f) = Some 2"
    by (auto simp: flow_consistent_def split: option.splits)
  then have "sint v \<ge> volume_threshold (target_flow st)"
    "cf_ge (loss_rate_of (loss_seen hb st dw ?n ?f) (sint v)) (loss_rate_threshold (target_flow st))"
    "loss_seen hb st dw ?n ?f \<ge> loss_volume_threshold (target_flow st)"
    by (auto simp: level_of_def split: if_splits)
  moreover have "fi_volume row = sint v" "fi_loss_rate row = loss_rate_of (loss_seen hb st dw ?n ?f) (sint v)"
    using v by (subst eq, simp add: flow_row_def dw_get_defs tab_get tab_get_vf)+
  moreover have "fi_loss_volume row = loss_seen hb st dw ?n ?f \<or> loss_seen hb st dw ?n ?f = 0"
    by (subst eq) (auto simp: flow_row_def dw_get_defs loss_seen_def tab_get split: option.split)
  ultimately show ?thesis by auto
qed

lemma target_row_report:
  assumes inv: "dw_inv hb st dw"
  shows "flow_row hb st (data_ware_rotate_buffer dw) f = interval_flow_info hb st dw f"
proof -
  have "dw_active_idx dw = 0 \<or> dw_active_idx dw = 1" using less_2_cases [OF dw_inv_shared(3) [OF inv]] by auto
  then have na: "na_idx (data_ware_rotate_buffer dw) = dw_active_idx dw" by (auto simp: na_idx_def data_ware_rotate_buffer_def BUFFER_NUM_def)
  show ?thesis unfolding flow_row_def dw_get_defs na
    by (simp add: interval_flow_info_def Let_def tab_get tab_get_vf fixed_loss_volume_def data_ware_rotate_buffer_def split: option.split)
qed

lemma rotate_total:
  assumes inv: "dw_inv hb st dw"
  shows "\<exists>dw'. rotate_interval hb st ok t dw fp = Some (dw', fp @ interval_report hb st t dw)"
  using write_info_spec [OF inv, of t fp] rotate_inv [OF inv]
  by (simp add: rotate_interval_def Let_def write_lost_spec write_targets_spec interval_report_def)

lemma round_spec:
  assumes "dw_inv hb st (re_dw e n)"
  shows "rotate_round hb st e n t fp =
    Some (msec_of (re_wake e n (to_sleep_time (to_sleep_msec st t (msec_of (re_after e n))))), fp @ interval_report hb st t (re_dw e n))"
  using rotate_total [OF assms, of "re_alloc e n" t fp] by (auto simp: rotate_round_def)

lemma loop_never:
  assumes "\<forall>n. dw_inv hb st (re_dw e n)"
  shows "rotate_loop hb st e n t fp = None"
proof (cases "rotate_loop hb st e n t fp")
  case (Some y)
  have "hb = hb \<longrightarrow> \<not> (\<forall>n. dw_inv hb st (re_dw e n))"
  proof (rule rotate_loop.raw_induct [where P = "\<lambda>hb' st e n t fp y. hb' = hb \<longrightarrow> \<not> (\<forall>n. dw_inv hb st (re_dw e n))", OF _ Some], intro impI notI)
    fix loop hb' st e n t fp y
    assume ih: "\<And>hb' st e n t fp y. loop hb' st e n t fp = Some y \<Longrightarrow> hb' = hb \<longrightarrow> \<not> (\<forall>n. dw_inv hb st (re_dw e n))"
      and step: "(case rotate_round hb' st e n t fp of None \<Rightarrow> Some (Inl Null_dereference)
        | Some r \<Rightarrow> loop hb' st e (Suc n) (fst r) (snd r)) = Some y"
      and hb: "hb' = hb" and inv: "\<forall>n. dw_inv hb st (re_dw e n)"
    from step obtain t' fp' where "loop hb' st e (Suc n) t' fp' = Some y"
      by (simp add: hb round_spec [OF inv [rule_format]])
    from ih [OF this] hb inv show False by blast
  qed
  with assms show ?thesis by blast
qed simp

lemma thread_never:
  assumes "\<forall>n. dw_inv hb st (re_dw e n)" "init_target_flow_file dev fopen_ok \<noteq> None"
  shows "rotate_thread hb st dev fopen_ok clock e = None"
  using assms(2) loop_never [OF assms(1)]
  by (auto simp: rotate_thread_def get_next_interval_start_def Let_def split: option.split)

lemma rounds_spec:
  assumes "\<forall>n. dw_inv hb st (re_dw e n)"
  shows "rotate_rounds hb st e n t fp =
    Some (round_time st e t n, fp @ concat (map (\<lambda>k. interval_report hb st (round_time st e t k) (re_dw e k)) [0..<n]))"
  by (induction n) (simp_all add: round_spec assms)

lemma rotate_spec:
  assumes inv: "dw_inv hb st dw" and sz: "0 < float_to_int (fix_loss_map_bucket_size (sender st))"
  defines "d \<equiv> data_ware_rotate_buffer dw" and "rows \<equiv> target_rows hb st (data_ware_rotate_buffer dw)"
  shows "\<exists>dw'. rotate_interval hb st (\<lambda>_. True) t dw fp = Some (dw', fp @ [Info_line (interval_summary hb st t dw),
      Lost_target_line (c_int (int (length rows))) (c_int (int (length (filter (\<lambda>row. fi_sent_out row \<noteq> 2) rows))))] @
      map Flow_line rows) \<and>
    dw_inv hb st dw' \<and> dw_active_idx dw' = na_idx dw \<and> buffer_fresh hb dw' (dw_active_idx dw) \<and>
    tab_map hb (dw_last_sent_flow_selected_level_map dw') = Map.empty \<and>
    dw_flow_recePktList_map dw' = dw_flow_recePktList_map dw"
proof -
  have dinv: "dw_inv hb st d" unfolding d_def by (rule rotate_inv [OF inv])
  have "dw_active_idx dw = 0 \<or> dw_active_idx dw = 1" using less_2_cases [OF dw_inv_shared(3) [OF inv]] by auto
  then have na: "na_idx d = dw_active_idx dw" by (auto simp: na_idx_def d_def data_ware_rotate_buffer_def BUFFER_NUM_def)
  have same: "dw_active_idx d = na_idx dw" "dw_flow_recePktList_map d = dw_flow_recePktList_map dw"
    by (simp_all add: d_def data_ware_rotate_buffer_def na_idx_def)
  note info = write_info_spec [OF inv, of t fp, folded d_def]
  obtain dw' where r: "data_warehouse_reset_noactive_buf st (\<lambda>_. True) d = (dw', 0)"
    by (simp add: data_warehouse_reset_noactive_buf_def Let_def last_sent_alloc_def buffer_allocs_def)
  from reset_spec [OF dinv sz r] info r show ?thesis
    unfolding rotate_interval_def Let_def d_def [symmetric] rows_def
    by (simp add: write_lost_spec [OF dinv] write_targets_spec [OF dinv] na same)
qed

end

lemma to_sleep_diff:
  assumes "uint after = uint cur + d"
  shows "to_sleep_msec st cur after = word_of_int (interval_msec_len st - d)"
proof -
  have "after = word_of_int (uint cur + d)" using assms by (metis word_of_int_uint)
  then have eq: "after - cur = word_of_int d" by simp
  have "(ucast (word_of_int d :: u64) :: u32) = word_of_int d"
    by (rule bit_word_eqI) (simp add: bit_simps)
  then show ?thesis by (simp add: to_sleep_msec_def eq)
qed

section \<open>Properties\<close>



text \<open>
  C11: the rotation of an interval returns and writes its report, if the fixed-size map of the setting has at least one entry.  Its summary has the time, the setting, and the counters of the
  interval that ended, with the numbers of flows over each threshold counted from the tables.  Then come the number of its target flows
  and of those whose level was not announced to the switches as target, and one row for each flow of some task whose level at the end
  of the interval was target, each with the values of the flow in the tables of this interval, which meet the thresholds.
  Afterwards the other buffer is active and the reported one is empty, with zero counters; what waits for reports of the receiver is
  kept.
\<close>

theorem rotation_report:
  assumes "flow_src_hash hb" "dw_inv hb st dw" "0 < float_to_int (fix_loss_map_bucket_size (sender st))"
  shows "\<exists>dw' fs. rotate_interval hb st (\<lambda>_. True) t dw fp = Some (dw', fp @ [Info_line (interval_summary hb st t dw),
      Lost_target_line (c_int (int (length fs)))
        (c_int (int (length (filter (\<lambda>f. tab_map hb (dw_last_sent_flow_selected_level_map dw) f \<noteq> Some (level_val TARGET_LEVEL)) fs))))] @
      map (\<lambda>f. Flow_line (interval_flow_info hb st dw f)) fs) \<and>
    distinct fs \<and>
    set fs = {f. tab_map hb (data_warehouse_get_flow_selected_level_map dw) f = Some (level_val TARGET_LEVEL) \<and>
      get_task_of_traffic (dw_task_manager dw) f \<noteq> None} \<and>
    list_all (\<lambda>f. fi_volume (interval_flow_info hb st dw f) \<ge> volume_threshold (target_flow st) \<and>
      cf_ge (fi_loss_rate (interval_flow_info hb st dw f)) (loss_rate_threshold (target_flow st)) \<and>
      (0 < loss_volume_threshold (target_flow st) \<longrightarrow> fi_loss_volume (interval_flow_info hb st dw f) \<ge> loss_volume_threshold (target_flow st))) fs \<and>
    dw_inv hb st dw' \<and> dw_active_idx dw' = na_idx dw \<and> buffer_fresh hb dw' (dw_active_idx dw) \<and>
    tab_map hb (dw_last_sent_flow_selected_level_map dw') = Map.empty \<and> dw_flow_recePktList_map dw' = dw_flow_recePktList_map dw"
proof -
  let ?d = "data_ware_rotate_buffer dw" and ?rows = "target_rows hb st (data_ware_rotate_buffer dw)"
  let ?fs = "map fi_flow ?rows"
  have dinv: "dw_inv hb st ?d" by (rule rotate_inv [OF assms(2)])
  have "dw_active_idx dw = 0 \<or> dw_active_idx dw = 1" using less_2_cases [OF dw_inv_shared(3) [OF assms(2)]] by auto
  then have na: "na_idx ?d = dw_active_idx dw" by (auto simp: na_idx_def data_ware_rotate_buffer_def BUFFER_NUM_def)
  have same: "dw_flow_selected_level_map ?d = dw_flow_selected_level_map dw" "dw_task_manager ?d = dw_task_manager dw"
    by (simp_all add: data_ware_rotate_buffer_def)
  note fl = flow_src_hash.target_rows_flows [OF assms(1) dinv, unfolded na same]
  have row: "row = interval_flow_info hb st dw (fi_flow row)" if "row \<in> set ?rows" for row
    using that flow_src_hash.target_row_report [OF assms(1,2)] by (auto simp: target_rows_def interval_flow_info_def Let_def)
  have sent: "(fi_sent_out row \<noteq> 2) = (tab_map hb (dw_last_sent_flow_selected_level_map dw) (fi_flow row) \<noteq> Some (level_val TARGET_LEVEL))"
    if "row \<in> set ?rows" for row
    using arg_cong [OF row [OF that], of fi_sent_out] by (auto simp: interval_flow_info_def Let_def sint_2 split: option.splits)
  have rows: "map Flow_line ?rows = map (\<lambda>f. Flow_line (interval_flow_info hb st dw f)) ?fs" using row by simp
  have late: "length (filter (\<lambda>row. fi_sent_out row \<noteq> 2) ?rows) =
      length (filter (\<lambda>f. tab_map hb (dw_last_sent_flow_selected_level_map dw) f \<noteq> Some (level_val TARGET_LEVEL)) ?fs)"
    using sent by (simp add: filter_map comp_def cong: filter_cong)
  have thr: "list_all (\<lambda>f. fi_volume (interval_flow_info hb st dw f) \<ge> volume_threshold (target_flow st) \<and>
      cf_ge (fi_loss_rate (interval_flow_info hb st dw f)) (loss_rate_threshold (target_flow st)) \<and>
      (0 < loss_volume_threshold (target_flow st) \<longrightarrow> fi_loss_volume (interval_flow_info hb st dw f) \<ge> loss_volume_threshold (target_flow st))) ?fs"
    unfolding list_all_iff
  proof (intro ballI)
    fix f
    assume "f \<in> set ?fs"
    then obtain r where r: "r \<in> set ?rows" "f = fi_flow r" by auto
    show "fi_volume (interval_flow_info hb st dw f) \<ge> volume_threshold (target_flow st) \<and>
      cf_ge (fi_loss_rate (interval_flow_info hb st dw f)) (loss_rate_threshold (target_flow st)) \<and>
      (0 < loss_volume_threshold (target_flow st) \<longrightarrow> fi_loss_volume (interval_flow_info hb st dw f) \<ge> loss_volume_threshold (target_flow st))"
      using flow_src_hash.target_row_thresholds [OF assms(1) dinv r(1)] unfolding r(2) row [OF r(1), symmetric] .
  qed
  from flow_src_hash.rotate_spec [OF assms, of t fp] obtain dw' where
    d: "rotate_interval hb st (\<lambda>_. True) t dw fp = Some (dw', fp @ [Info_line (interval_summary hb st t dw),
      Lost_target_line (c_int (int (length ?rows))) (c_int (int (length (filter (\<lambda>row. fi_sent_out row \<noteq> 2) ?rows))))] @ map Flow_line ?rows)"
    "dw_inv hb st dw'" "dw_active_idx dw' = na_idx dw" "buffer_fresh hb dw' (dw_active_idx dw)"
    "tab_map hb (dw_last_sent_flow_selected_level_map dw') = Map.empty" "dw_flow_recePktList_map dw' = dw_flow_recePktList_map dw" by blast
  have run: "rotate_interval hb st (\<lambda>_. True) t dw fp = Some (dw', fp @ [Info_line (interval_summary hb st t dw),
      Lost_target_line (c_int (int (length ?fs)))
        (c_int (int (length (filter (\<lambda>f. tab_map hb (dw_last_sent_flow_selected_level_map dw) f \<noteq> Some (level_val TARGET_LEVEL)) ?fs))))] @
      map (\<lambda>f. Flow_line (interval_flow_info hb st dw f)) ?fs)"
    unfolding d(1) late rows length_map ..
  have set: "set ?fs = {f. tab_map hb (data_warehouse_get_flow_selected_level_map dw) f = Some (level_val TARGET_LEVEL) \<and>
      get_task_of_traffic (dw_task_manager dw) f \<noteq> None}"
    unfolding set_map fl(2) by (simp add: dw_get_defs)
  show ?thesis by (intro exI conjI; rule run fl(1) set thr d(2-6))
qed

theorem rotation_report_witness:
  "\<exists>dw dw' fs. dw_inv flow_src_hash_bin dw_setting dw \<and> rotate_interval flow_src_hash_bin dw_setting (\<lambda>_. True) 600000 dw [] =
    Some (dw', [Info_line (interval_summary flow_src_hash_bin dw_setting 600000 dw), Lost_target_line (c_int (int (length fs)))
        (c_int (int (length (filter (\<lambda>f. tab_map flow_src_hash_bin (dw_last_sent_flow_selected_level_map dw) f \<noteq> Some (level_val TARGET_LEVEL)) fs))))] @
      map (\<lambda>f. Flow_line (interval_flow_info flow_src_hash_bin dw_setting dw f)) fs) \<and> distinct fs"
proof -
  obtain dw where dw: "dw_inv flow_src_hash_bin dw_setting dw" using dw_sample_empty by blast
  from rotation_report [OF murmur.flow_src_hash_axioms dw dw_setting_bucket, of 600000 "[]"] dw show ?thesis by auto
qed

text \<open>
  The sleep after a rotation.  If the rotation took at most one interval, the thread sleeps exactly
  the rest of the interval, as a normalised \<^verbatim>\<open>timespec\<close>.
\<close>

lemma rotation_sleep:
  assumes "0 < interval_msec_len st" "interval_msec_len st < 2147483648"
    and "uint after = uint cur + d" "0 \<le> d" "d \<le> interval_msec_len st"
  shows "uint (to_sleep_msec st cur after) = interval_msec_len st - d \<and>
    tv_sec (to_sleep_time (to_sleep_msec st cur after)) = (interval_msec_len st - d) div 1000 \<and>
    tv_nsec (to_sleep_time (to_sleep_msec st cur after)) = (interval_msec_len st - d) mod 1000 * 1000000 \<and>
    tv_nsec (to_sleep_time (to_sleep_msec st cur after)) < 1000000000"
proof -
  let ?r = "interval_msec_len st - d"
  define w where "w = (word_of_int ?r :: u32)"
  have sleep: "to_sleep_msec st cur after = w" unfolding w_def by (rule to_sleep_diff [OF assms(3)])
  have u: "uint w = ?r"
    using assms unfolding w_def uint_word_of_int_eq by (intro take_bit_int_eq_self) simp_all
  have "uint (w mod 1000) = ?r mod 1000" using u by (simp add: uint_mod)
  moreover from this have "uint (w mod 1000 * 1000000) = ?r mod 1000 * 1000000"
    using pos_mod_bound [of 1000 ?r] pos_mod_sign [of 1000 ?r] by (subst uint_mult_lem [THEN iffD1]) simp_all
  moreover have "uint (w div 1000) = ?r div 1000" using u by (simp add: uint_div)
  ultimately show ?thesis
    using u pos_mod_bound [of 1000 ?r] by (simp add: sleep to_sleep_time_def)
qed

text \<open>
  The same subtraction wraps when a rotation takes longer than the interval: the thread then sleeps
  \<open>2 ^ 32\<close> milliseconds, about 49 days, less the delay, instead of not at all.
\<close>

theorem rotation_sleep_wraps:
  assumes "0 < interval_msec_len st" "interval_msec_len st < d" "d < 2147483648" "uint after = uint cur + d"
  shows "uint (to_sleep_msec st cur after) = 4294967296 - (d - interval_msec_len st)"
proof -
  let ?r = "4294967296 - (d - interval_msec_len st)"
  have "(word_of_int ?r :: u32) = word_of_int (interval_msec_len st - d)"
    by (rule word_of_int_eq_iff [THEN iffD2]) (simp add: take_bit_eq_mod mod_eq_dvd_iff)
  moreover have "uint (word_of_int ?r :: u32) = ?r"
    using assms unfolding uint_word_of_int_eq by (intro take_bit_int_eq_self) simp_all
  ultimately show ?thesis by (simp only: to_sleep_diff [OF assms(4)])
qed

theorem rotation_sleep_wraps_witness:
  "uint (to_sleep_msec (setting_zero\<lparr>interval_msec_len := 500\<rparr>) 1000 1501) = 4294967295"
  using rotation_sleep_wraps [of "setting_zero\<lparr>interval_msec_len := 500\<rparr>" 501 1501 1000] by simp

end
