(* ===== verification/Testbed.thy ===== *)
theory Testbed
  imports Pcap_Generator Flow_Infor_Updator Condition_Sender Interval_Rotator
begin

text \<open>
  One sending host, the network and one receiving host together: a step relation over the threads of the
  two programs.  A step is one call of the packet handler with the packet put on the network, one
  delivery to the receiver's callback, one report processed by the report thread, one round of the
  condition sender or one rotation; the network may drop any packet in flight but delivers the others
  in order.  The steps of one program are interleaved in any order but not overlapped.
\<close>

section \<open>Putting a packet of the trace on the network\<close>

text \<open>
  The packet buffer that the send loop of \<^verbatim>\<open>send_packets.c\<close> prepares: the captured bytes followed by the four
  bytes of the original length, and that length as an argument.
\<close>

definition load_packet :: "pcap_record \<Rightarrow> u8 list \<times> int" where
  "load_packet r = (take (unat (ph_caplen r)) (ph_data r) @ bytes_of_32 (ph_len r), sint (ph_len r))"

section \<open>The step relation\<close>

text \<open>The list \<open>tb_dropped\<close> is a history variable: what the network dropped, by 5-tuple and number.\<close>

type_synonym flow_key = "u32 \<times> u32 \<times> u16 \<times> u16"

record testbed =
  tb_trace :: "pcap_record list"
  tb_dw :: data_warehouse
  tb_flight :: "u8 list list"
  tb_rc :: receiver
  tb_total_lost :: int
  tb_wire :: "u8 list list"
  tb_report :: "file_line list"
  tb_dropped :: "(flow_key \<times> u32) option list"

definition frame_id :: "u8 list \<Rightarrow> (flow_key \<times> u32) option" where
  "frame_id b = (case parse_ipv4 b 0 1 of Some (Some (p, q)) \<Rightarrow> Some (flow_tuple (packet_flow p), q) | _ \<Rightarrow> None)"

text \<open>\<open>h\<close> is the handle of the sender's pipe.\<close>

inductive step :: "(flow_src \<Rightarrow> u32 \<Rightarrow> u32) \<Rightarrow> cm_experiment_setting \<Rightarrow> int \<Rightarrow> network \<Rightarrow> testbed \<Rightarrow> testbed \<Rightarrow> bool"
  for hb st h net where
  send: "\<lbrakk>tb_trace s = r # rs; load_packet r = (b, len); cm_handle_ipv4_packet hb st b len 1 (tb_dw s) = Some (b', dw')\<rbrakk>
    \<Longrightarrow> step hb st h net s (s\<lparr>tb_trace := rs, tb_dw := dw', tb_flight := tb_flight s @ [b']\<rparr>)"
| drop: "tb_flight s = xs @ b # ys
    \<Longrightarrow> step hb st h net s (s\<lparr>tb_flight := xs @ ys, tb_dropped := frame_id b # tb_dropped s\<rparr>)"
| deliver: "\<lbrakk>tb_flight s = b # bs; got_packet True pad b (tb_rc s) = Some rc'\<rbrakk>
    \<Longrightarrow> step hb st h net s (s\<lparr>tb_flight := bs, tb_rc := rc'\<rparr>)"
| report: "\<lbrakk>readConditionFromFIFO (rc_pipes (tb_rc s) h) = (rest, Some r);
      u = process_report hb st r \<lparr>u_dw = tb_dw s, u_total_lost_pkt_num = tb_total_lost s\<rparr>\<rbrakk>
    \<Longrightarrow> step hb st h net s (s\<lparr>tb_dw := u_dw u, tb_total_lost := u_total_lost_pkt_num u,
      tb_rc := (tb_rc s)\<lparr>rc_pipes := (rc_pipes (tb_rc s))(h := rest)\<rparr>\<rparr>)"
| condition: "send_condition_to_network hb net True (tb_dw s) (tb_wire s) = Some (r, False)
    \<Longrightarrow> step hb st h net s (s\<lparr>tb_dw := cr_dw r, tb_wire := cr_wire r\<rparr>)"
| rotate: "rotate_interval hb st (\<lambda>_. True) t (tb_dw s) (tb_report s) = Some (dw', fp)
    \<Longrightarrow> step hb st h net s (s\<lparr>tb_dw := dw', tb_report := fp\<rparr>)"

inductive_cases stepE: "step hb st h net s s'"

text \<open>
  The counters stay in the range of \<^verbatim>\<open>int\<close>: room for one more packet in every volume, and for everything in
  flight in every loss.
\<close>

definition in_range :: "(flow_src \<Rightarrow> u32 \<Rightarrow> u32) \<Rightarrow> testbed \<Rightarrow> bool" where
  "in_range hb s \<longleftrightarrow> (\<forall>f. flow_volume hb (tb_dw s) f < 2147483648 - 65536) \<and>
    (\<forall>f k. flow_loss hb (tb_dw s) f + volume_of (vl_queue (dw_flow_recePktList_map (tb_dw s)) k) < 2147483648)"

inductive reach :: "(flow_src \<Rightarrow> u32 \<Rightarrow> u32) \<Rightarrow> cm_experiment_setting \<Rightarrow> int \<Rightarrow> network \<Rightarrow> testbed \<Rightarrow> testbed \<Rightarrow> bool"
  for hb st h net s0 where
  start: "reach hb st h net s0 s0"
| next_step: "reach hb st h net s0 s \<Longrightarrow> in_range hb s \<Longrightarrow> step hb st h net s s' \<Longrightarrow> reach hb st h net s0 s'"

section \<open>The invariant\<close>

text \<open>A record as the generator writes it, for packet, number and total length.\<close>

definition gen_record :: "packet \<times> u32 \<times> u32 \<Rightarrow> pcap_record" where
  "gen_record x = (case x of (p, q, len) \<Rightarrow> \<lparr>ph_ts = gen_ts, ph_caplen = 58, ph_len = len, ph_data = gen_frame 0 p q\<rparr>)"

text \<open>A generated frame in flight: tag, packet, number and the four bytes after the headers.\<close>

definition flying :: "u16 \<times> packet \<times> u32 \<times> u8 list \<Rightarrow> u8 list" where
  "flying x = (case x of (t, p, q, tail) \<Rightarrow> gen_frame t p q @ tail)"

abbreviation pkt_key :: "packet \<Rightarrow> flow_key" where "pkt_key p \<equiv> flow_tuple (packet_flow p)"

definition flying_id :: "u16 \<times> packet \<times> u32 \<times> u8 list \<Rightarrow> flow_key \<times> u32" where
  "flying_id x = (case x of (t, p, q, tail) \<Rightarrow> (pkt_key p, q))"

definition report_id :: "recv_2_send_proto \<Rightarrow> flow_key \<times> u32" where
  "report_id r = (flow_tuple (proto_flow r), rp_rece_seqid r)"

text \<open>The numbers of key \<open>k\<close> in a list of identified packets.\<close>

definition numbers :: "flow_key \<Rightarrow> (flow_key \<times> u32) list \<Rightarrow> u32 list" where
  "numbers k xs = map snd (filter (\<lambda>x. fst x = k) xs)"

text \<open>Packets of this sender to this receiver: another host's address, and the sender's pipe.\<close>

definition from_sender :: "int \<Rightarrow> receiver \<Rightarrow> packet \<Rightarrow> bool" where
  "from_sender h rc p \<longleftrightarrow> get_sender_fifo_handler (rc_fifo_handlers rc) (p_srcip p) = Some h \<and>
    GET_NET_IDENTITY (p_srcip p) \<noteq> rc_net_identity rc"

definition trace_ok :: "int \<Rightarrow> receiver \<Rightarrow> (packet \<times> u32 \<times> u32) list \<Rightarrow> bool" where
  "trace_ok h rc trs \<longleftrightarrow> list_all (\<lambda>(p, q, len). from_sender h rc p \<and> 58 \<le> uint len \<and> uint len < 65536) trs"

abbreviation trace_ids :: "(packet \<times> u32 \<times> u32) list \<Rightarrow> (flow_key \<times> u32) list" where
  "trace_ids trs \<equiv> map (\<lambda>(p, q, len). (pkt_key p, q)) trs"

abbreviation pending :: "testbed \<Rightarrow> flow_s \<Rightarrow> pkt_volume list" where
  "pending s f \<equiv> vl_queue (dw_flow_recePktList_map (tb_dw s)) f"

text \<open>
  For every flow: the numbers pending at the sender and then those still in the trace are increasing;
  the numbers of the reports in the pipe and of the packets in flight are increasing and pending; and a
  pending packet is in flight, reported, or dropped.
\<close>

definition flow_inv :: "testbed \<Rightarrow> (flow_key \<times> u32) list \<Rightarrow> (flow_key \<times> u32) list \<Rightarrow> flow_s \<Rightarrow> bool" where
  "flow_inv s transit todo f \<longleftrightarrow>
    sorted_wrt (<) (map pv_seqid (pending s f) @ numbers (flow_tuple f) todo) \<and>
    sorted_wrt (<) (numbers (flow_tuple f) transit) \<and>
    set (numbers (flow_tuple f) transit) \<subseteq> pv_seqid ` set (pending s f) \<and>
    (\<forall>p \<in> set (pending s f). pv_seqid p \<in> set (numbers (flow_tuple f) transit) \<or>
      Some (flow_tuple f, pv_seqid p) \<in> set (tb_dropped s))"

definition tb_inv :: "(flow_src \<Rightarrow> u32 \<Rightarrow> u32) \<Rightarrow> cm_experiment_setting \<Rightarrow> int \<Rightarrow> testbed \<Rightarrow> bool" where
  "tb_inv hb st h s \<longleftrightarrow> dw_inv hb st (tb_dw s) \<and>
    (\<exists>prs frs trs. rc_pipes (tb_rc s) h = stream prs \<and> tb_flight s = map flying frs \<and> tb_trace s = map gen_record trs \<and>
      trace_ok h (tb_rc s) trs \<and> list_all (\<lambda>(t, p, q, tail). from_sender h (tb_rc s) p) frs \<and>
      (\<forall>f. flow_inv s (map (report_id \<circ> snd) prs @ map flying_id frs) (trace_ids trs) f))"

section \<open>Lemmas\<close>

lemma numbers_simps [simp]: "numbers k [] = []" "numbers k (xs @ ys) = numbers k xs @ numbers k ys"
  "numbers k ((k', q) # xs) = (if k' = k then q # numbers k xs else numbers k xs)"
  by (simp_all add: numbers_def)

lemma from_sender_pipes [simp]:
  "from_sender h (rc\<lparr>rc_pipes := x, rc_received_pkts := n\<rparr>) = from_sender h rc" "from_sender h (rc\<lparr>rc_pipes := x\<rparr>) = from_sender h rc"
  by (simp_all add: from_sender_def fun_eq_iff)

lemma frame_id_gen: "frame_id (gen_frame t p q @ tail) = Some (pkt_key p, q)"
  by (simp add: frame_id_def gen_frame_parse sent_packet_def packet_flow_def flow_tuple_def)

lemma report_id_of: "report_id (report_of (sent_packet p len) q) = (pkt_key p, q)"
  by (simp add: report_id_def report_of_def proto_flow_def sent_packet_def packet_flow_def flow_tuple_def)

lemma sent_key: "pkt_key (sent_packet p len) = pkt_key p"
  by (simp add: sent_packet_def packet_flow_def flow_tuple_def)

lemma load_gen_record:
  assumes "uint len < 2147483648"
  shows "load_packet (gen_record (p, q, len)) = (gen_frame 0 p q @ bytes_of_32 len, uint len)"
proof -
  have "len < 2147483648" using assms by (simp add: word_less_def)
  then show ?thesis using sint_u32_nonneg by (simp add: load_packet_def gen_record_def)
qed

lemma stream_simps [simp]: "stream [] = []" "stream ((pad, r) # prs) = proto_bytes pad r @ stream prs"
  "stream (prs @ [(pad, r)]) = stream prs @ proto_bytes pad r"
  by (simp_all add: stream_def)

text \<open>What each kind of step does to the order of numbers.\<close>

lemma flow_inv_same:
  assumes "flow_inv s transit todo f" "\<And>g. pending s' g = pending s g" "tb_dropped s' = tb_dropped s"
  shows "flow_inv s' transit todo f"
  using assms by (simp add: flow_inv_def)

lemma flow_inv_send:
  assumes "flow_inv s transit ((k, pv_seqid v) # todo) f" "tb_dropped s' = tb_dropped s"
    and "pending s' f = (if k = flow_tuple f then pending s f @ [v] else pending s f)"
  shows "flow_inv s' (transit @ [(k, pv_seqid v)]) todo f"
proof (cases "k = flow_tuple f")
  case True
  have "\<forall>x \<in> set (numbers (flow_tuple f) transit). x < pv_seqid v"
    using assms(1) True by (auto simp: flow_inv_def sorted_wrt_append)
  then show ?thesis using assms True by (auto simp: flow_inv_def sorted_wrt_append)
qed (use assms in \<open>simp add: flow_inv_def\<close>)

lemma flow_inv_drop:
  assumes "flow_inv s (xs @ (k, q) # ys) todo f" "tb_dropped s' = Some (k, q) # tb_dropped s" "pending s' f = pending s f"
  shows "flow_inv s' (xs @ ys) todo f"
  using assms by (cases "k = flow_tuple f") (auto simp: flow_inv_def sorted_wrt_append)

lemma flow_inv_report:
  assumes "flow_inv s ((k, q) # transit) todo f" "tb_dropped s' = tb_dropped s"
    and "pending s' f = (if k = flow_tuple f then filter (\<lambda>p. q < pv_seqid p) (pending s f) else pending s f)"
  shows "flow_inv s' transit todo f"
proof (cases "k = flow_tuple f")
  case True
  have "sorted_wrt (<) (map pv_seqid (filter (\<lambda>p. q < pv_seqid p) (pending s f)))"
    using assms(1) by (simp add: flow_inv_def sorted_wrt_append sorted_wrt_map sorted_wrt_filter)
  moreover have "\<forall>x \<in> set (numbers (flow_tuple f) transit). q < x" using assms(1) True by (simp add: flow_inv_def)
  ultimately show ?thesis using assms True by (auto simp: flow_inv_def sorted_wrt_append)
qed (use assms in \<open>simp add: flow_inv_def\<close>)

text \<open>The pending queue depends on the 5-tuple only, and is sorted.\<close>

lemma queue_cong:
  assumes "flow_tuple f = flow_tuple g"
  shows "vl_queue m f = vl_queue m g"
  using vl_pending_cong [OF assms] by (cases m) (simp_all add: vl_queue_def)

lemma flow_inv_sorted: "flow_inv s transit todo f \<Longrightarrow> seq_sorted (pending s f)"
  by (simp add: flow_inv_def sorted_wrt_append sorted_wrt_map)

lemma tb_invI:
  assumes "dw_inv hb st (tb_dw s)" "rc_pipes (tb_rc s) h = stream prs" "tb_flight s = map flying frs"
    "tb_trace s = map gen_record trs" "trace_ok h (tb_rc s) trs" "list_all (\<lambda>(t, p, q, tail). from_sender h (tb_rc s) p) frs"
    "\<forall>f. flow_inv s (map (report_id \<circ> snd) prs @ map flying_id frs) (trace_ids trs) f"
  shows "tb_inv hb st h s"
  using assms unfolding tb_inv_def by (intro conjI exI)

lemma tb_invE:
  assumes "tb_inv hb st h s"
  obtains prs frs trs where "dw_inv hb st (tb_dw s)" "rc_pipes (tb_rc s) h = stream prs" "tb_flight s = map flying frs"
    "tb_trace s = map gen_record trs" "trace_ok h (tb_rc s) trs" "list_all (\<lambda>(t, p, q, tail). from_sender h (tb_rc s) p) frs"
    "\<forall>f. flow_inv s (map (report_id \<circ> snd) prs @ map flying_id frs) (trace_ids trs) f"
  using assms unfolding tb_inv_def by (elim conjE exE)

section \<open>The invariant is kept\<close>

context flow_src_hash
begin

lemma send_inv:
  assumes inv: "tb_inv hb st h s" and range: "in_range hb s" and tr: "tb_trace s = r # rs" and load: "load_packet r = (b, len)"
  shows "\<exists>b' dw' t p q l. cm_handle_ipv4_packet hb st b len 1 (tb_dw s) = Some (b', dw') \<and>
    tb_inv hb st h (s\<lparr>tb_trace := rs, tb_dw := dw', tb_flight := tb_flight s @ [b']\<rparr>) \<and>
    r = gen_record (p, q, l) \<and> b' = flying (t, p, q, bytes_of_32 l) \<and>
    (\<forall>f. flow_loss hb dw' f = flow_loss hb (tb_dw s) f \<and> flow_volume hb dw' f \<le> flow_volume hb (tb_dw s) f + uint l) \<and>
    (\<forall>f. vl_queue (dw_flow_recePktList_map dw') f =
      (if pkt_key p = flow_tuple f then pending s f @ [new_pkt_volume q l] else pending s f))"
proof -
  from inv obtain prs frs trs where dw: "dw_inv hb st (tb_dw s)" and pipe: "rc_pipes (tb_rc s) h = stream prs"
    and fl: "tb_flight s = map flying frs" and trs: "tb_trace s = map gen_record trs" "trace_ok h (tb_rc s) trs"
    and fs: "list_all (\<lambda>(t, p, q, tail). from_sender h (tb_rc s) p) frs"
    and fi: "\<forall>f. flow_inv s (map (report_id \<circ> snd) prs @ map flying_id frs) (trace_ids trs) f"
    by (rule tb_invE)
  from tr trs(1) obtain p q l trs' where hd: "trs = (p, q, l) # trs'" "r = gen_record (p, q, l)" "rs = map gen_record trs'" by auto
  from trs(2) hd have l: "from_sender h (tb_rc s) p" "58 \<le> uint l" "uint l < 65536" "trace_ok h (tb_rc s) trs'"
    by (simp_all add: trace_ok_def)
  have bl: "b = gen_frame 0 p q @ bytes_of_32 l" "len = uint l" using load l(3) by (simp_all add: hd load_gen_record)
  note parse = gen_frame_parse(1) [of 0 p q "bytes_of_32 l" len, folded bl(1)]
  let ?p = "sent_packet p len"
  have "flow_volume hb (tb_dw s) (packet_flow_src ?p) < 2147483648 - 65536" using range by (simp add: in_range_def)
  then have fit: "flow_volume hb (tb_dw s) (packet_flow_src ?p) + len < 2147483648" using l(3) unfolding bl(2) by linarith
  have "20 \<le> len" "len < 65536" using l by (simp_all add: bl(2))
  from handle_packet_spec [OF dw this parse fit] obtain b' dw' l2 vl g where
    run: "cm_handle_ipv4_packet hb st b len 1 (tb_dw s) = Some (b', dw')"
    and tag: "retagged 1 l2 vl g b b'" and dw': "dw_inv hb st dw'"
    and m: "dw_flow_recePktList_map dw' = ht_vl_set (dw_flow_recePktList_map (tb_dw s)) (packet_flow ?p) q (word_of_int len)"
    and vol: "flow_volume hb dw' (packet_flow_src ?p) = flow_volume hb (tb_dw s) (packet_flow_src ?p) + len"
      "\<forall>g. g \<noteq> packet_flow_src ?p \<longrightarrow> flow_volume hb dw' g = flow_volume hb (tb_dw s) g"
    and loss: "\<forall>g. flow_loss hb dw' g = flow_loss hb (tb_dw s) g"
    by (elim exE conjE)
  have b': "b' = flying (g 0, p, q, bytes_of_32 l)" using gen_frame_retag tag by (simp add: bl flying_def)
  let ?v = "new_pkt_volume q l"
  let ?s = "s\<lparr>tb_trace := rs, tb_dw := dw', tb_flight := tb_flight s @ [b']\<rparr>"
  have ok: "vl_ok (dw_flow_recePktList_map (tb_dw s))" using dw_inv_shared(2) [OF dw] .
  have v: "pv_seqid ?v = q" by (simp add: new_pkt_volume_def)
  have pend: "vl_queue (dw_flow_recePktList_map dw') f = (if pkt_key p = flow_tuple f then pending s f @ [?v] else pending s f)" for f
    using queue_cong [of "packet_flow ?p" f] vl.pending_send [OF ok, of "packet_flow ?p" q "word_of_int len" f]
    by (simp add: m sent_key bl(2))
  have "flow_inv ?s ((map (report_id \<circ> snd) prs @ map flying_id frs) @ [(pkt_key p, pv_seqid ?v)]) (trace_ids trs') f" for f
    using fi [rule_format, of f] pend [of f] by - (rule flow_inv_send [where s = s], simp_all add: hd v)
  then have fi': "flow_inv ?s (map (report_id \<circ> snd) prs @ map flying_id (frs @ [(g 0, p, q, bytes_of_32 l)])) (trace_ids trs') f" for f
    by (simp add: flying_id_def v)
  have "tb_inv hb st h ?s"
  proof (rule tb_invI)
    show "\<forall>f. flow_inv ?s (map (report_id \<circ> snd) prs @ map flying_id (frs @ [(g 0, p, q, bytes_of_32 l)])) (trace_ids trs') f"
      using fi' by blast
  qed (use dw' pipe fl b' hd(3) l(1,4) fs in simp_all)
  moreover have "flow_volume hb dw' f \<le> flow_volume hb (tb_dw s) f + uint l" for f
    using vol bl(2) l(2) by (cases "f = packet_flow_src ?p") simp_all
  ultimately show ?thesis using run hd(2) b' loss pend by blast
qed

text \<open>Steps that leave the pending packets, the network and the pipe alone.\<close>

lemma frame_inv:
  assumes inv: "tb_inv hb st h s" and dw: "dw_inv hb st dw'" "dw_flow_recePktList_map dw' = dw_flow_recePktList_map (tb_dw s)"
    and eq: "tb_dw s' = dw'" "tb_rc s' = tb_rc s" "tb_flight s' = tb_flight s" "tb_trace s' = tb_trace s" "tb_dropped s' = tb_dropped s"
  shows "tb_inv hb st h s'"
  using inv
proof (rule tb_invE)
  fix prs frs trs
  assume a: "rc_pipes (tb_rc s) h = stream prs" "tb_flight s = map flying frs"
    "tb_trace s = map gen_record trs" "trace_ok h (tb_rc s) trs" "list_all (\<lambda>(t, p, q, tail). from_sender h (tb_rc s) p) frs"
    and fi: "\<forall>f. flow_inv s (map (report_id \<circ> snd) prs @ map flying_id frs) (trace_ids trs) f"
  show ?thesis
  proof (rule tb_invI)
    show "\<forall>f. flow_inv s' (map (report_id \<circ> snd) prs @ map flying_id frs) (trace_ids trs) f"
      using fi dw(2) eq by - (intro allI, rule flow_inv_same [where s = s], simp_all)
  qed (use a dw eq in simp_all)
qed

lemma drop_inv:
  assumes "tb_inv hb st h s" "tb_flight s = xs @ b # ys"
  shows "tb_inv hb st h (s\<lparr>tb_flight := xs @ ys, tb_dropped := frame_id b # tb_dropped s\<rparr>)"
  using assms(1)
proof (rule tb_invE)
  fix prs frs trs
  assume a: "dw_inv hb st (tb_dw s)" "rc_pipes (tb_rc s) h = stream prs" "tb_flight s = map flying frs"
    "tb_trace s = map gen_record trs" "trace_ok h (tb_rc s) trs" "list_all (\<lambda>(t, p, q, tail). from_sender h (tb_rc s) p) frs"
    and fi: "\<forall>f. flow_inv s (map (report_id \<circ> snd) prs @ map flying_id frs) (trace_ids trs) f"
  let ?s = "s\<lparr>tb_flight := xs @ ys, tb_dropped := frame_id b # tb_dropped s\<rparr>"
  from a(3) assms(2) obtain fxs t p q tail fys where frs: "frs = fxs @ (t, p, q, tail) # fys" "xs = map flying fxs" "ys = map flying fys"
    and b: "b = flying (t, p, q, tail)" by (auto simp: append_eq_map_conv map_eq_Cons_conv Cons_eq_map_conv)
  show ?thesis
  proof (rule tb_invI)
    have "flow_inv ?s ((map (report_id \<circ> snd) prs @ map flying_id fxs) @ map flying_id fys) (trace_ids trs) f" for f
      using fi by - (rule flow_inv_drop [where s = s and k = "pkt_key p" and q = q], simp_all add: frs b flying_def frame_id_gen flying_id_def)
    then show "\<forall>f. flow_inv ?s (map (report_id \<circ> snd) prs @ map flying_id (fxs @ fys)) (trace_ids trs) f" by simp
  qed (use a frs in simp_all)
qed

lemma deliver_inv:
  assumes "tb_inv hb st h s" "tb_flight s = b # bs"
  shows "\<exists>rc'. got_packet True pad b (tb_rc s) = Some rc' \<and> tb_inv hb st h (s\<lparr>tb_flight := bs, tb_rc := rc'\<rparr>)"
  using assms(1)
proof (rule tb_invE)
  fix prs frs trs
  assume a: "dw_inv hb st (tb_dw s)" "rc_pipes (tb_rc s) h = stream prs" "tb_flight s = map flying frs"
    "tb_trace s = map gen_record trs" "trace_ok h (tb_rc s) trs" "list_all (\<lambda>(t, p, q, tail). from_sender h (tb_rc s) p) frs"
    and fi: "\<forall>f. flow_inv s (map (report_id \<circ> snd) prs @ map flying_id frs) (trace_ids trs) f"
  from a(3) assms(2) obtain t p q tail frs' where frs: "frs = (t, p, q, tail) # frs'" "bs = map flying frs'"
    and b: "b = gen_frame t p q @ tail" by (auto simp: flying_def)
  let ?r = "report_of (sent_packet p 0) q"
  let ?rc = "(tb_rc s)\<lparr>rc_pipes := (rc_pipes (tb_rc s))(h := rc_pipes (tb_rc s) h @ proto_bytes pad ?r),
    rc_received_pkts := rc_received_pkts (tb_rc s) + 1\<rparr>"
  have "from_sender h (tb_rc s) p" using a(6) by (simp add: frs)
  then have "GET_NET_IDENTITY (p_srcip (sent_packet p 0)) \<noteq> rc_net_identity (tb_rc s)"
    "get_sender_fifo_handler (rc_fifo_handlers (tb_rc s)) (p_srcip (sent_packet p 0)) = Some h"
    by (simp_all add: from_sender_def sent_packet_def)
  from got_packet_plain [OF gen_frame_parse(2) gen_frame_parse(1) this, of pad]
  have run: "got_packet True pad b (tb_rc s) = Some ?rc" by (simp add: b)
  have "tb_inv hb st h (s\<lparr>tb_flight := bs, tb_rc := ?rc\<rparr>)"
  proof (rule tb_invI)
    show "\<forall>f. flow_inv (s\<lparr>tb_flight := bs, tb_rc := ?rc\<rparr>) (map (report_id \<circ> snd) (prs @ [(pad, ?r)]) @ map flying_id frs') (trace_ids trs) f"
      using fi by - (intro allI, rule flow_inv_same [where s = s], simp_all add: frs flying_id_def report_id_of)
  qed (use a frs in \<open>simp_all add: trace_ok_def\<close>)
  with run show ?thesis by blast
qed

lemma report_inv:
  assumes "tb_inv hb st h s" "in_range hb s" "readConditionFromFIFO (rc_pipes (tb_rc s) h) = (rest, Some r)"
    and "u = process_report hb st r \<lparr>u_dw = tb_dw s, u_total_lost_pkt_num = tb_total_lost s\<rparr>"
  shows "tb_inv hb st h (s\<lparr>tb_dw := u_dw u, tb_total_lost := u_total_lost_pkt_num u,
      tb_rc := (tb_rc s)\<lparr>rc_pipes := (rc_pipes (tb_rc s))(h := rest)\<rparr>\<rparr>)" (is "tb_inv hb st h ?s")
  using assms(1)
proof (rule tb_invE)
  fix prs frs trs
  assume a: "dw_inv hb st (tb_dw s)" "rc_pipes (tb_rc s) h = stream prs" "tb_flight s = map flying frs"
    "tb_trace s = map gen_record trs" "trace_ok h (tb_rc s) trs" "list_all (\<lambda>(t, p, q, tail). from_sender h (tb_rc s) p) frs"
    and fi: "\<forall>f. flow_inv s (map (report_id \<circ> snd) prs @ map flying_id frs) (trace_ids trs) f"
  have "prs \<noteq> []" using assms(3) a(2) by (auto simp: readConditionFromFIFO_def SIZEOF_PROTO_def)
  then obtain pad r' prs' where prs: "prs = (pad, r') # prs'" by (cases prs) auto
  with assms(3) a(2) have r: "r' = r" "rest = stream prs'" by simp_all
  let ?Q = "pending s (proto_flow r)"
  have "flow_loss hb (tb_dw s) (proto_flow_src r) + volume_of ?Q < 2147483648" using assms(2) unfolding in_range_def by blast
  then have "flow_loss hb (tb_dw s) (proto_flow_src r) + volume_of (overtaken (rp_rece_seqid r) ?Q) < 2147483648"
    using volume_filter_le [of "\<lambda>p. pv_seqid p < rp_rece_seqid r" ?Q] by linarith
  from process_report_inv [OF a(1) flow_inv_sorted [OF fi [rule_format]] this, of "tb_total_lost s", folded assms(4)]
  have u: "dw_inv hb st (u_dw u)" and q: "\<And>g. vl_queue (dw_flow_recePktList_map (u_dw u)) g =
      (if flow_tuple (proto_flow r) = flow_tuple g then filter (\<lambda>p. rp_rece_seqid r < pv_seqid p) ?Q else pending s g)" by auto
  show ?thesis
  proof (rule tb_invI)
    have "flow_inv ?s (map (report_id \<circ> snd) prs' @ map flying_id frs) (trace_ids trs) f" for f
      using fi [rule_format, of f] q [of f] queue_cong [of "proto_flow r" f]
      by - (rule flow_inv_report [where s = s and k = "flow_tuple (proto_flow r)" and q = "rp_rece_seqid r"], simp_all add: prs r report_id_def)
    then show "\<forall>f. flow_inv ?s (map (report_id \<circ> snd) prs' @ map flying_id frs) (trace_ids trs) f" by blast
  qed (use a u r in \<open>simp_all add: trace_ok_def\<close>)
qed

lemma step_inv:
  assumes inv: "tb_inv hb st h s" and range: "in_range hb s" and net: "net_ctx_ok net"
    and bucket: "0 < float_to_int (fix_loss_map_bucket_size (sender st))"
    and "step hb st h net s s'"
  shows "tb_inv hb st h s'"
proof -
  have dw: "dw_inv hb st (tb_dw s)" using inv by (simp add: tb_inv_def)
  from assms(5) show ?thesis
  proof cases
    case (send r rs b len b' dw')
    then show ?thesis using send_inv [OF inv range send(2,3)] by auto
  next
    case (drop xs b ys)
    then show ?thesis using drop_inv [OF inv] by simp
  next
    case (deliver b bs pad rc')
    then show ?thesis using deliver_inv [OF inv deliver(2), of pad] by auto
  next
    case (report rest r u)
    then show ?thesis using report_inv [OF inv range] by simp
  next
    case (condition r)
    with condition_round_spec [OF dw net, of "tb_wire s"]
    have "dw_inv hb st (cr_dw r)" "dw_flow_recePktList_map (cr_dw r) = dw_flow_recePktList_map (tb_dw s)" by auto
    from frame_inv [OF inv this] condition show ?thesis by simp
  next
    case (rotate t dw' fp)
    with rotate_spec [OF dw bucket, of t "tb_report s"]
    have "dw_inv hb st dw'" "dw_flow_recePktList_map dw' = dw_flow_recePktList_map (tb_dw s)" by auto
    from frame_inv [OF inv this] rotate show ?thesis by simp
  qed
qed

lemma reach_inv:
  assumes "reach hb st h net s0 s" "tb_inv hb st h s0" "net_ctx_ok net"
    and "0 < float_to_int (fix_loss_map_bucket_size (sender st))"
  shows "tb_inv hb st h s"
  using assms by (induction rule: reach.induct) (auto intro: step_inv)

end

section \<open>Reading off the invariant\<close>

lemma deliver_run:
  assumes "tb_inv hb st h s" "tb_flight s = b # bs"
  shows "\<exists>rc' r. got_packet True pad b (tb_rc s) = Some rc' \<and> rc_pipes rc' h = rc_pipes (tb_rc s) h @ proto_bytes pad r \<and>
    frame_id b = Some (report_id r)"
  using assms(1)
proof (rule tb_invE)
  fix prs frs trs
  assume a: "tb_flight s = map flying frs" "list_all (\<lambda>(t, p, q, tail). from_sender h (tb_rc s) p) frs"
  from a assms(2) obtain t p q tail where b: "b = gen_frame t p q @ tail" and f: "from_sender h (tb_rc s) p"
    by (cases frs) (auto simp: flying_def)
  from f have "GET_NET_IDENTITY (p_srcip (sent_packet p 0)) \<noteq> rc_net_identity (tb_rc s)"
    "get_sender_fifo_handler (rc_fifo_handlers (tb_rc s)) (p_srcip (sent_packet p 0)) = Some h"
    by (simp_all add: from_sender_def sent_packet_def)
  note run = got_packet_plain [OF gen_frame_parse(2) gen_frame_parse(1) this, of pad t q tail, folded b]
  show ?thesis unfolding run by (intro exI conjI, rule refl, simp) (simp add: b frame_id_gen report_id_of)
qed

lemma pipe_records: "tb_inv hb st h s \<Longrightarrow> rc_pipes (tb_rc s) h = [] \<or> 20 \<le> length (rc_pipes (tb_rc s) h)"
proof (erule tb_invE)
  fix prs
  assume "rc_pipes (tb_rc s) h = stream prs"
  then show ?thesis by (cases prs) (auto simp: SIZEOF_PROTO_def)
qed

lemma report_head:
  assumes "tb_inv hb st h s" "readConditionFromFIFO (rc_pipes (tb_rc s) h) = (rest, Some r)"
  shows "\<exists>transit todo. flow_inv s ((flow_tuple (proto_flow r), rp_rece_seqid r) # transit) todo f"
  using assms(1)
proof (rule tb_invE)
  fix prs frs trs
  assume p: "rc_pipes (tb_rc s) h = stream prs"
    and fi: "\<forall>f. flow_inv s (map (report_id \<circ> snd) prs @ map flying_id frs) (trace_ids trs) f"
  have "prs \<noteq> []" using assms(2) p by (auto simp: readConditionFromFIFO_def SIZEOF_PROTO_def)
  then obtain pad r' prs' where prs: "prs = (pad, r') # prs'" by (cases prs) auto
  with assms(2) p have "r' = r" by simp
  then show ?thesis using fi [rule_format, of f] by (auto simp: prs report_id_def)
qed

text \<open>A packet that a report overtakes is neither in flight nor reported, so it was dropped.\<close>

lemma overtaken_dropped:
  assumes "flow_inv s ((k, q) # transit) todo f" "k = flow_tuple f" "p \<in> set (pending s f)" "pv_seqid p < q"
  shows "Some (k, pv_seqid p) \<in> set (tb_dropped s)"
proof -
  have "\<forall>x \<in> set (numbers (flow_tuple f) transit). q < x" using assms(1,2) by (simp add: flow_inv_def)
  then have "pv_seqid p \<notin> set (q # numbers (flow_tuple f) transit)" using assms(4) by force
  with assms(1-3) show ?thesis by (auto simp: flow_inv_def)
qed

section \<open>Properties\<close>

text \<open>
  A start: an empty network and an empty pipe, nothing pending, and a trace as the generator writes it, in
  which the packets of each flow have increasing numbers.
\<close>

definition tb_start :: "(flow_src \<Rightarrow> u32 \<Rightarrow> u32) \<Rightarrow> cm_experiment_setting \<Rightarrow> int \<Rightarrow> (packet \<times> u32 \<times> u32) list \<Rightarrow> testbed \<Rightarrow> bool" where
  "tb_start hb st h trs s \<longleftrightarrow> dw_inv hb st (tb_dw s) \<and> rc_pipes (tb_rc s) h = [] \<and> tb_flight s = [] \<and>
    tb_trace s = map gen_record trs \<and> trace_ok h (tb_rc s) trs \<and> (\<forall>f. pending s f = []) \<and>
    (\<forall>k. sorted_wrt (<) (numbers k (trace_ids trs)))"

lemma start_inv: "tb_start hb st h trs s \<Longrightarrow> tb_inv hb st h s"
  by (rule tb_invI [where prs = "[]" and frs = "[]" and trs = trs]) (simp_all add: tb_start_def flow_inv_def del: split_paired_All)

text \<open>
  C2: the whole testbed never gets stuck.  In every state that the interleaved steps of sender, network and
  receiver can reach, the warehouse invariant holds, the next packet of the trace can be sent, the next
  packet in flight can be received and is counted, and the next report in the pipe can be processed.
\<close>

theorem testbed_progress:
  assumes "flow_src_hash hb" "tb_start hb st h trs s0" "net_ctx_ok net" "0 < float_to_int (fix_loss_map_bucket_size (sender st))"
    and "reach hb st h net s0 s" "in_range hb s"
  shows "dw_inv hb st (tb_dw s) \<and>
    (tb_trace s \<noteq> [] \<longrightarrow> (\<exists>s'. step hb st h net s s' \<and> tb_trace s' = tl (tb_trace s) \<and>
      length (tb_flight s') = length (tb_flight s) + 1)) \<and>
    (tb_flight s \<noteq> [] \<longrightarrow> (\<exists>s'. step hb st h net s s' \<and> tb_flight s' = tl (tb_flight s) \<and>
      length (rc_pipes (tb_rc s') h) = length (rc_pipes (tb_rc s) h) + 20)) \<and>
    (rc_pipes (tb_rc s) h \<noteq> [] \<longrightarrow> (\<exists>s'. step hb st h net s s' \<and> rc_pipes (tb_rc s') h = drop 20 (rc_pipes (tb_rc s) h)))"
proof -
  have inv: "tb_inv hb st h s" by (rule flow_src_hash.reach_inv [OF assms(1,5) start_inv [OF assms(2)] assms(3,4)])
  have dw: "dw_inv hb st (tb_dw s)" using inv by (simp add: tb_inv_def)
  have "\<exists>s'. step hb st h net s s' \<and> tb_trace s' = tl (tb_trace s) \<and> length (tb_flight s') = length (tb_flight s) + 1"
    if "tb_trace s \<noteq> []"
  proof -
    from that obtain r rs where tr: "tb_trace s = r # rs" by (cases "tb_trace s") auto
    obtain b len where load: "load_packet r = (b, len)" by (meson surj_pair)
    from flow_src_hash.send_inv [OF assms(1) inv assms(6) tr load] obtain b' dw' where
      "cm_handle_ipv4_packet hb st b len 1 (tb_dw s) = Some (b', dw')" by blast
    from step.send [where hb = hb and st = st and h = h and net = net, OF tr load this] tr show ?thesis by force
  qed
  moreover have "\<exists>s'. step hb st h net s s' \<and> tb_flight s' = tl (tb_flight s) \<and>
      length (rc_pipes (tb_rc s') h) = length (rc_pipes (tb_rc s) h) + 20" if "tb_flight s \<noteq> []"
  proof -
    from that obtain b bs where fl: "tb_flight s = b # bs" by (cases "tb_flight s") auto
    from deliver_run [OF inv fl, of "(0, 0, 0)"] obtain rc' r where rc': "got_packet True (0, 0, 0) b (tb_rc s) = Some rc'"
      "rc_pipes rc' h = rc_pipes (tb_rc s) h @ proto_bytes (0, 0, 0) r" by blast
    from step.deliver [where hb = hb and st = st and h = h and net = net, OF fl rc'(1)] fl rc'(2) show ?thesis
      by (force simp: SIZEOF_PROTO_def)
  qed
  moreover have "\<exists>s'. step hb st h net s s' \<and> rc_pipes (tb_rc s') h = drop 20 (rc_pipes (tb_rc s) h)"
    if ne: "rc_pipes (tb_rc s) h \<noteq> []"
  proof -
    have "20 \<le> length (rc_pipes (tb_rc s) h)" using pipe_records [OF inv] ne by blast
    from read_total [OF this] obtain r where "readConditionFromFIFO (rc_pipes (tb_rc s) h) = (drop 20 (rc_pipes (tb_rc s) h), Some r)"
      by blast
    from step.report [where hb = hb and st = st and net = net, OF this refl] show ?thesis by force
  qed
  ultimately show ?thesis using dw by blast
qed

text \<open>
  C1: no false losses.  In every reachable state, let \<open>lost\<close> be those pending packets of the flow with a smaller number than the
  next report in the sender's pipe that the network dropped.  Processing the report adds their number to the counter of the thread and their
  volume to the losses of the interval.  It adds their volume to the loss of the flow exactly if the flow has had a packet in this interval (after
  a rotation a flow without one is skipped); no other loss and no volume changes.  The packets up to the reported one are no longer pending.
\<close>

theorem no_false_losses:
  assumes "flow_src_hash hb" "tb_start hb st h trs s0" "net_ctx_ok net" "0 < float_to_int (fix_loss_map_bucket_size (sender st))"
    and "reach hb st h net s0 s" "in_range hb s" "readConditionFromFIFO (rc_pipes (tb_rc s) h) = (rest, Some r)"
    and "Q = vl_queue (data_warehouse_get_flow_recePktList_map (tb_dw s)) (proto_flow r)"
    and "lost = filter (\<lambda>p. pv_seqid p < rp_rece_seqid r \<and> Some (flow_tuple (proto_flow r), pv_seqid p) \<in> set (tb_dropped s)) Q"
    and "u = process_report hb st r \<lparr>u_dw = tb_dw s, u_total_lost_pkt_num = tb_total_lost s\<rparr>"
  shows "u_total_lost_pkt_num u = c_int (tb_total_lost s + int (length lost)) \<and>
    (let a = dw_active_idx (tb_dw s)
     in dw_volume_lost (u_dw u) = (dw_volume_lost (tb_dw s))(a := dw_volume_lost (tb_dw s) a + word_of_int (volume_of lost))) \<and>
    (\<forall>f. flow_loss hb (u_dw u) f = flow_loss hb (tb_dw s) f +
        (if f = proto_flow_src r \<and> tab_map hb (data_warehouse_get_flow_volume_map (tb_dw s)) f \<noteq> None then volume_of lost else 0) \<and>
      flow_volume hb (u_dw u) f = flow_volume hb (tb_dw s) f) \<and>
    (\<forall>g. vl_queue (data_warehouse_get_flow_recePktList_map (u_dw u)) g =
      (if flow_tuple (proto_flow r) = flow_tuple g then filter (\<lambda>p. rp_rece_seqid r < pv_seqid p) Q
       else vl_queue (data_warehouse_get_flow_recePktList_map (tb_dw s)) g))"
proof -
  have inv: "tb_inv hb st h s" by (rule flow_src_hash.reach_inv [OF assms(1,5) start_inv [OF assms(2)] assms(3,4)])
  have dw: "dw_inv hb st (tb_dw s)" using inv by (simp add: tb_inv_def)
  let ?s = "rp_rece_seqid r"
  have Q: "Q = pending s (proto_flow r)" by (simp add: assms(8) dw_get_defs)
  obtain transit todo where fi: "flow_inv s ((flow_tuple (proto_flow r), ?s) # transit) todo (proto_flow r)"
    using report_head [OF inv assms(7)] by blast
  note sorted = flow_inv_sorted [OF fi]
  have L: "overtaken ?s (pending s (proto_flow r)) = lost"
    unfolding assms(9) Q using overtaken_dropped [OF fi refl] by (intro filter_cong) auto
  have "flow_loss hb (tb_dw s) (proto_flow_src r) + volume_of (pending s (proto_flow r)) < 2147483648"
    using assms(6) unfolding in_range_def by blast
  then have fit: "flow_loss hb (tb_dw s) (proto_flow_src r) + volume_of (overtaken ?s (pending s (proto_flow r))) < 2147483648"
    using volume_filter_le [of "\<lambda>p. pv_seqid p < ?s" "pending s (proto_flow r)"] by linarith
  note p = flow_src_hash.process_report_losses [OF assms(1) dw sorted fit, of "tb_total_lost s", unfolded L]
    and q = flow_src_hash.process_report_inv [OF assms(1) dw sorted fit, of "tb_total_lost s"]
  show ?thesis unfolding assms(10) Let_def p using q by (auto simp: dw_get_defs Q)
qed

text \<open>A run for the witnesses: two packets of a flow are sent, the first one is dropped, the second one received.\<close>

definition sample_trs :: "(packet \<times> u32 \<times> u32) list" where
  "sample_trs = [(sample_packet_t, 1, 58), (sample_packet_t, 2, 58)]"

definition light :: "int \<Rightarrow> testbed \<Rightarrow> bool" where
  "light n s \<longleftrightarrow> (\<forall>f. flow_volume flow_src_hash_bin (tb_dw s) f \<le> n \<and> flow_loss flow_src_hash_bin (tb_dw s) f = 0) \<and>
    (\<forall>k. volume_of (pending s k) \<le> n)"

lemma light_in_range: "light n s \<Longrightarrow> n \<le> 1000000 \<Longrightarrow> in_range flow_src_hash_bin s"
  unfolding light_def in_range_def by (smt (verit))

lemma send_light:
  assumes "tb_inv flow_src_hash_bin st h s" "light n s" "n \<le> 1000000" "tb_trace s = gen_record (p, q, l) # rs"
  shows "\<exists>s' b. step flow_src_hash_bin st h net s s' \<and> tb_inv flow_src_hash_bin st h s' \<and> light (n + uint l) s' \<and> tb_trace s' = rs \<and>
    tb_flight s' = tb_flight s @ [b] \<and> frame_id b = Some (pkt_key p, q) \<and> tb_dropped s' = tb_dropped s \<and> tb_rc s' = tb_rc s \<and>
    (\<forall>f. pending s' f = (if pkt_key p = flow_tuple f then pending s f @ [new_pkt_volume q l] else pending s f))"
proof -
  obtain b len where load: "load_packet (gen_record (p, q, l)) = (b, len)" by (meson surj_pair)
  from murmur.send_inv [OF assms(1) light_in_range [OF assms(2,3)] assms(4) load] obtain b' dw' t p' q' l' where
    run: "cm_handle_ipv4_packet flow_src_hash_bin st b len 1 (tb_dw s) = Some (b', dw')"
    and inv: "tb_inv flow_src_hash_bin st h (s\<lparr>tb_trace := rs, tb_dw := dw', tb_flight := tb_flight s @ [b']\<rparr>)"
    and r: "gen_record (p, q, l) = gen_record (p', q', l')" and b': "b' = flying (t, p', q', bytes_of_32 l')"
    and vol: "\<forall>f. flow_loss flow_src_hash_bin dw' f = flow_loss flow_src_hash_bin (tb_dw s) f \<and>
      flow_volume flow_src_hash_bin dw' f \<le> flow_volume flow_src_hash_bin (tb_dw s) f + uint l'"
    and pend: "\<forall>f. vl_queue (dw_flow_recePktList_map dw') f =
      (if pkt_key p' = flow_tuple f then pending s f @ [new_pkt_volume q' l'] else pending s f)"
    by (elim exE conjE)
  from r have "gen_frame 0 p q = gen_frame 0 p' q'" and l: "l' = l" by (simp_all add: gen_record_def)
  then have k: "pkt_key p' = pkt_key p" "q' = q"
    using frame_id_gen [of 0 p q "[]"] frame_id_gen [of 0 p' q' "[]"] by simp_all
  let ?s = "s\<lparr>tb_trace := rs, tb_dw := dw', tb_flight := tb_flight s @ [b']\<rparr>"
  have n: "flow_volume flow_src_hash_bin (tb_dw s) f \<le> n" "flow_loss flow_src_hash_bin (tb_dw s) f = 0"
    "volume_of (pending s k) \<le> n" for f k using assms(2) by (simp_all add: light_def)
  have "volume_of (vl_queue (dw_flow_recePktList_map dw') f) \<le> volume_of (pending s f) + uint l" for f
    using pend by (simp add: k l volume_of_def new_pkt_volume_def)
  then have "volume_of (vl_queue (dw_flow_recePktList_map dw') f) \<le> n + uint l" for f
    using n(3) [of f] by (metis add_right_mono order_trans)
  moreover have "flow_volume flow_src_hash_bin dw' f \<le> n + uint l \<and> flow_loss flow_src_hash_bin dw' f = 0" for f
    using vol [rule_format, of f] n(1,2) [of f] unfolding l by linarith
  ultimately have light: "light (n + uint l) ?s" by (simp add: light_def)
  show ?thesis
  proof (intro exI [of _ ?s] exI [of _ b'] conjI)
    show "step flow_src_hash_bin st h net s ?s" by (rule step.send [OF assms(4) load run])
    show "frame_id b' = Some (pkt_key p, q)" by (simp add: b' flying_def frame_id_gen k)
  qed (use inv light pend in \<open>simp_all add: k l\<close>)
qed

lemma sample_start: "\<exists>s0. tb_start flow_src_hash_bin dw_setting 5 sample_trs s0 \<and> light 0 s0 \<and> tb_dropped s0 = []"
proof -
  let ?hb = flow_src_hash_bin
  obtain dw0 where dw0: "dw_inv ?hb dw_setting dw0" "tab_map ?hb (dw_flow_volume_map dw0 (dw_active_idx dw0)) = Map.empty"
    "tab_map ?hb (dw_flow_loss_volume_map dw0 (dw_active_idx dw0)) = Map.empty" using dw_sample_empty by blast
  obtain ht where ht: "ht_vl_create True = Some ht" by (simp add: ht_vl_create_def)
  have m: "vl_ok (Some ht)" "\<And>f. vl_queue (Some ht) f = []" using vl_create_wf [OF ht] by (simp_all add: vl_ok_def vl_queue_def)
  let ?dw = "dw0\<lparr>dw_flow_recePktList_map := Some ht\<rparr>"
  have inv: "dw_inv ?hb dw_setting ?dw"
    using dw_inv_tables [OF dw0(1)] dw_inv_shared [OF dw0(1)] m(1) by (intro dw_inv_frame [OF dw0(1)]) simp_all
  let ?s = "\<lparr>tb_trace = map gen_record sample_trs, tb_dw = ?dw, tb_flight = [], tb_rc = sample_receiver, tb_total_lost = 0,
    tb_wire = [], tb_report = [], tb_dropped = []\<rparr>"
  have "from_sender 5 sample_receiver sample_packet_t" by code_simp
  then have "trace_ok 5 sample_receiver sample_trs" by (simp add: trace_ok_def sample_trs_def)
  then have "tb_start ?hb dw_setting 5 sample_trs ?s"
    using inv by (simp add: tb_start_def m(2) sample_receiver_def) (simp add: sample_trs_def)
  moreover have "light 0 ?s" using dw0 by (simp add: light_def m(2))
  ultimately show ?thesis by (intro exI [of _ ?s]) simp
qed

lemma sample_run:
  "\<exists>s0 s r rest. tb_start flow_src_hash_bin dw_setting 5 sample_trs s0 \<and> reach flow_src_hash_bin dw_setting 5 sample_net s0 s \<and>
    in_range flow_src_hash_bin s \<and> readConditionFromFIFO (rc_pipes (tb_rc s) 5) = (rest, Some r) \<and>
    report_id r = (pkt_key sample_packet_t, 2) \<and> tb_dropped s = [Some (pkt_key sample_packet_t, 1)] \<and>
    pending s (proto_flow r) = [new_pkt_volume 1 58, new_pkt_volume 2 58]"
proof -
  let ?hb = flow_src_hash_bin and ?k = "pkt_key sample_packet_t"
  let ?step = "step ?hb dw_setting 5 sample_net"
  obtain s0 where s0: "tb_start ?hb dw_setting 5 sample_trs s0" "light 0 s0" "tb_dropped s0 = []" using sample_start by blast
  note inv0 = start_inv [OF s0(1)]
  have t0: "tb_trace s0 = gen_record (sample_packet_t, 1, 58) # [gen_record (sample_packet_t, 2, 58)]"
    and z: "tb_flight s0 = []" "rc_pipes (tb_rc s0) 5 = []" "\<And>f. pending s0 f = []"
    using s0(1) by (simp_all add: tb_start_def sample_trs_def)
  from send_light [OF inv0 s0(2) _ t0, of sample_net] obtain s1 b1 where s1: "?step s0 s1" "tb_inv ?hb dw_setting 5 s1" "light 58 s1"
    "tb_trace s1 = gen_record (sample_packet_t, 2, 58) # []" "tb_flight s1 = [b1]" "frame_id b1 = Some (?k, 1)"
    "tb_dropped s1 = []" "tb_rc s1 = tb_rc s0" "\<And>f. pending s1 f = (if ?k = flow_tuple f then [new_pkt_volume 1 58] else [])"
    by (auto simp: z s0(3))
  from send_light [OF s1(2,3) _ s1(4), of sample_net] obtain s2 b2 where s2: "?step s1 s2" "tb_inv ?hb dw_setting 5 s2" "light 116 s2"
    "tb_flight s2 = [] @ b1 # [b2]" "frame_id b2 = Some (?k, 2)" "tb_dropped s2 = []" "tb_rc s2 = tb_rc s0"
    "\<And>f. pending s2 f = (if ?k = flow_tuple f then [new_pkt_volume 1 58, new_pkt_volume 2 58] else [])"
    by (auto simp: s1)
  define s3 where "s3 = s2\<lparr>tb_flight := [] @ [b2], tb_dropped := frame_id b1 # tb_dropped s2\<rparr>"
  have s3: "?step s2 s3" unfolding s3_def by (rule step.drop [OF s2(4)])
  have inv3: "tb_inv ?hb dw_setting 5 s3" unfolding s3_def by (rule murmur.drop_inv [OF s2(2,4)])
  have fl3: "tb_flight s3 = b2 # []" by (simp add: s3_def)
  from deliver_run [OF inv3 fl3, of "(0, 0, 0)"] obtain rc' r where rc': "got_packet True (0, 0, 0) b2 (tb_rc s3) = Some rc'"
    "rc_pipes rc' 5 = rc_pipes (tb_rc s3) 5 @ proto_bytes (0, 0, 0) r" "frame_id b2 = Some (report_id r)" by blast
  define s4 where "s4 = s3\<lparr>tb_flight := [], tb_rc := rc'\<rparr>"
  have s4: "?step s3 s4" unfolding s4_def by (rule step.deliver [OF fl3 rc'(1)])
  have pipe: "rc_pipes (tb_rc s4) 5 = proto_bytes (0, 0, 0) r @ []" using rc'(2) z s2(7) by (simp add: s4_def s3_def)
  have l: "light 116 s3" "light 116 s4" using s2(3) by (simp_all add: s3_def s4_def light_def)
  have "reach ?hb dw_setting 5 sample_net s0 s4"
    by (rule next_step [OF next_step [OF next_step [OF next_step [OF start _ s1(1)] _ s2(1)] _ s3] _ s4])
      (rule light_in_range [OF s0(2)] light_in_range [OF s1(3)] light_in_range [OF s2(3)] light_in_range [OF l(1)], simp)+
  moreover have "in_range ?hb s4" using light_in_range [OF l(2)] by simp
  moreover have id: "report_id r = (?k, 2)" using rc'(3) s2(5) by simp
  moreover have "tb_dropped s4 = [Some (?k, 1)]" by (simp add: s4_def s3_def s2(6) s1(6))
  moreover have "pending s4 (proto_flow r) = [new_pkt_volume 1 58, new_pkt_volume 2 58]"
    using id s2(8) [of "proto_flow r"] by (simp add: s4_def s3_def report_id_def)
  ultimately show ?thesis using s0(1) pipe read_proto by metis
qed

theorem testbed_progress_witness:
  "\<exists>s s'. step flow_src_hash_bin dw_setting 5 sample_net s s' \<and> rc_pipes (tb_rc s) 5 \<noteq> [] \<and>
    rc_pipes (tb_rc s') 5 = drop 20 (rc_pipes (tb_rc s) 5)"
proof -
  obtain s0 s r rest where s: "tb_start flow_src_hash_bin dw_setting 5 sample_trs s0" "reach flow_src_hash_bin dw_setting 5 sample_net s0 s"
    "in_range flow_src_hash_bin s" "readConditionFromFIFO (rc_pipes (tb_rc s) 5) = (rest, Some r)" using sample_run by blast
  have ne: "rc_pipes (tb_rc s) 5 \<noteq> []" using s(4) by (auto simp: readConditionFromFIFO_def SIZEOF_PROTO_def)
  have net: "net_ctx_ok sample_net" by (simp add: sample_net_def)
  from testbed_progress [OF murmur.flow_src_hash_axioms s(1) net dw_setting_bucket s(2,3)] ne show ?thesis by blast
qed

theorem no_false_losses_witness:
  "\<exists>(s :: testbed) (r :: recv_2_send_proto) u. process_report flow_src_hash_bin dw_setting r \<lparr>u_dw = tb_dw s, u_total_lost_pkt_num = tb_total_lost s\<rparr> = u \<and>
    tb_dropped s = [Some (pkt_key sample_packet_t, 1)] \<and> u_total_lost_pkt_num u = c_int (tb_total_lost s + 1) \<and>
    dw_volume_lost (u_dw u) (dw_active_idx (tb_dw s)) = dw_volume_lost (tb_dw s) (dw_active_idx (tb_dw s)) + 58 \<and>
    vl_queue (data_warehouse_get_flow_recePktList_map (u_dw u)) (proto_flow r) = []"
proof -
  obtain s0 s r rest where s: "tb_start flow_src_hash_bin dw_setting 5 sample_trs s0" "reach flow_src_hash_bin dw_setting 5 sample_net s0 s"
    "in_range flow_src_hash_bin s" "readConditionFromFIFO (rc_pipes (tb_rc s) 5) = (rest, Some r)" and id: "report_id r = (pkt_key sample_packet_t, 2)"
    and d: "tb_dropped s = [Some (pkt_key sample_packet_t, 1)]"
    and p: "pending s (proto_flow r) = [new_pkt_volume 1 58, new_pkt_volume 2 58]" using sample_run by blast
  have net: "net_ctx_ok sample_net" by (simp add: sample_net_def)
  from id have "flow_tuple (proto_flow r) = pkt_key sample_packet_t" "rp_rece_seqid r = 2" by (simp_all add: report_id_def)
  with no_false_losses [OF murmur.flow_src_hash_axioms s(1) net dw_setting_bucket s(2-4) refl refl refl] d p show ?thesis
    by (intro exI [of _ s] exI [of _ r]) (simp add: dw_get_defs new_pkt_volume_def volume_of_def Let_def)
qed

end
