(* ===== verification/Replay.thy ===== *)
theory Replay
  imports Send_Dual Testbed
begin

text \<open>
  \<^verbatim>\<open>tcpreplay/src/replay.c\<close> and \<^verbatim>\<open>tcpreplay_replay\<close> of \<^verbatim>\<open>tcpreplay_api.c\<close>: passes over the capture files, one after the other or
  two at a time, as often as the option \<^verbatim>\<open>loop\<close> says.  What \<^verbatim>\<open>pcap_open_offline\<close> finds under a name is given by a function;
  the data link type of an interface is one too.  A return value below zero is an error or, for \<open>-2\<close>, a warning.
\<close>

section \<open>Data\<close>

record capture =
  cap_dlt :: int
  cap_snapshot :: int
  cap_packets :: "pcap_packet list"

datatype source_type = source_none | source_filename | source_fd | source_cache

record tcpreplay_source =
  src_type :: source_type
  src_filename :: string

record replay =
  r_ctx :: tcpreplay
  r_caches :: "nat \<Rightarrow> file_cache"
  r_sources :: "tcpreplay_source list"
  r_intf1dlt :: int
  r_intf2dlt :: int
  r_running :: bool
  r_loop :: u32

text \<open>The array of sources is cleared, so that an entry behind the last one has the type \<^verbatim>\<open>0\<close>.\<close>

definition source_at :: "replay \<Rightarrow> nat \<Rightarrow> tcpreplay_source" where
  "source_at r idx = (if idx < length (r_sources r) then r_sources r ! idx else \<lparr>src_type = source_none, src_filename = ''''\<rparr>)"

section \<open>Replaying a source\<close>

text \<open>
  Opening a file if it is not in the cache: \<open>Inl ()\<close> if it cannot be opened, \<open>Inr None\<close> for a cached file without a handle.
  The data link type goes to the cache entry.
\<close>

definition open_source :: "(string \<Rightarrow> capture option) \<Rightarrow> tcpreplay_opt \<Rightarrow> nat \<Rightarrow> replay \<Rightarrow> unit + (capture option \<times> replay)" where
  "open_source fs opt idx r =
    (if o_preload_pcap opt \<and> fc_cached (r_caches r idx) then Inr (None, r)
     else case fs (src_filename (source_at r idx)) of
         None \<Rightarrow> Inl ()
       | Some cap \<Rightarrow> Inr (Some cap, r\<lparr>r_caches := (r_caches r)(idx := (r_caches r idx)\<lparr>fc_dlt := cap_dlt cap\<rparr>)\<rparr>))"

definition replay_file :: "(string \<Rightarrow> capture option) \<Rightarrow> (intf \<Rightarrow> int) \<Rightarrow> environment \<Rightarrow> tcpreplay_opt \<Rightarrow> (flow_src \<Rightarrow> u32 \<Rightarrow> u32) \<Rightarrow>
    cm_experiment_setting \<Rightarrow> nat \<Rightarrow> replay \<Rightarrow> (int \<times> replay) c_result" where
  "replay_file fs intf_dlt env opt hb st idx r =
    (case open_source fs opt idx r of
       Inl _ \<Rightarrow> Inr (- 1, r)
     | Inr (pcap, r) \<Rightarrow>
         (let r = (if pcap \<noteq> None \<and> r_intf1dlt r = - 1 then r\<lparr>r_intf1dlt := intf_dlt Intf1\<rparr> else r)
          in c_bind (send_packets env opt hb st (case pcap of None \<Rightarrow> [] | Some cap \<Rightarrow> cap_packets cap) (r_caches r idx) (r_ctx r)) (\<lambda>(fc, c).
               Inr (0, r\<lparr>r_ctx := c, r_caches := (r_caches r)(idx := fc)\<rparr>))))"

text \<open>
  The checks before two files are replayed: the return code so far, or \<open>Inl\<close> the return code at once.  They ask for
  the snapshot length of the second file without testing its handle.
\<close>

definition check_two :: "(intf \<Rightarrow> int) \<Rightarrow> capture \<Rightarrow> capture option \<Rightarrow> replay \<Rightarrow> ((int + int) \<times> replay) c_result" where
  "check_two intf_dlt cap1 pcap2 r =
    (case pcap2 of
       None \<Rightarrow> Inl Null_dereference
     | Some cap2 \<Rightarrow>
         (let rcode = (if cap_snapshot cap1 < 65535 \<or> cap_snapshot cap2 < 65535 then - 2 else 0);
              r = (if r_intf1dlt r = - 1 then r\<lparr>r_intf1dlt := intf_dlt Intf1\<rparr> else r);
              rcode = (if r_intf1dlt r \<ge> 0 \<and> r_intf1dlt r \<noteq> cap_dlt cap1 then - 2 else rcode);
              r = (if r_intf2dlt r = - 1 then r\<lparr>r_intf2dlt := intf_dlt Intf2\<rparr> else r);
              rcode = (if r_intf2dlt r \<ge> 0 \<and> r_intf2dlt r \<noteq> cap_dlt cap2 then - 2 else rcode)
          in if r_intf1dlt r \<noteq> r_intf2dlt r then Inr (Inl (- 1), r) else Inr (Inr rcode, r)))"

definition replay_two_files :: "(string \<Rightarrow> capture option) \<Rightarrow> (intf \<Rightarrow> int) \<Rightarrow> environment \<Rightarrow> tcpreplay_opt \<Rightarrow> nat \<Rightarrow> nat \<Rightarrow> replay \<Rightarrow>
    (int \<times> replay) c_result" where
  "replay_two_files fs intf_dlt env opt idx1 idx2 r =
    (if src_filename (source_at r idx1) \<in> {'''', ''-''} \<or> src_filename (source_at r idx2) \<in> {'''', ''-''} then Inr (- 1, r)
     else case open_source fs opt idx1 r of
         Inl _ \<Rightarrow> Inr (- 1, r)
       | Inr (pcap1, r) \<Rightarrow>
           (case open_source fs opt idx2 r of
              Inl _ \<Rightarrow> Inr (- 1, r)
            | Inr (pcap2, r) \<Rightarrow>
                c_bind (case pcap1 of None \<Rightarrow> Inr (Inr 0, r) | Some cap1 \<Rightarrow> check_two intf_dlt cap1 pcap2 r) (\<lambda>(rc, r).
                  case rc of
                    Inl rcode \<Rightarrow> Inr (rcode, r)
                  | Inr rcode \<Rightarrow>
                      c_bind (send_dual_packets env opt (case pcap1 of None \<Rightarrow> [] | Some cap \<Rightarrow> cap_packets cap) (r_caches r idx1)
                          (case pcap2 of None \<Rightarrow> [] | Some cap \<Rightarrow> cap_packets cap) (r_caches r idx2) (r_ctx r)) (\<lambda>(fc1, fc2, c).
                        Inr (rcode, r\<lparr>r_ctx := c, r_caches := (r_caches r)(idx1 := fc1, idx2 := fc2)\<rparr>)))))"

section \<open>A pass over all sources\<close>

text \<open>The loops, from index \<open>idx\<close> on, with the return code of the last source.\<close>

fun index_loop :: "(nat \<Rightarrow> replay \<Rightarrow> (int \<times> replay) c_result) \<Rightarrow> nat list \<Rightarrow> int \<Rightarrow> replay \<Rightarrow> (int \<times> replay) c_result" where
  "index_loop f [] rcode r = Inr (rcode, r)"
| "index_loop f (idx # idxs) rcode r =
    (if c_abort (r_ctx r) then Inr (rcode, r) else c_bind (f idx r) (\<lambda>(rcode, r). index_loop f idxs rcode r))"

text \<open>Replaying file descriptors and caches is not implemented: it returns 0.\<close>

definition replay_source :: "(string \<Rightarrow> capture option) \<Rightarrow> (intf \<Rightarrow> int) \<Rightarrow> environment \<Rightarrow> tcpreplay_opt \<Rightarrow> (flow_src \<Rightarrow> u32 \<Rightarrow> u32) \<Rightarrow>
    cm_experiment_setting \<Rightarrow> nat \<Rightarrow> replay \<Rightarrow> (int \<times> replay) c_result" where
  "replay_source fs intf_dlt env opt hb st idx r =
    (case src_type (source_at r idx) of
       source_filename \<Rightarrow> replay_file fs intf_dlt env opt hb st idx r
     | source_fd \<Rightarrow> Inr (0, r)
     | source_cache \<Rightarrow> Inr (0, r)
     | source_none \<Rightarrow> Inr (- 1, r))"

text \<open>With different types the function returns at once, without the assignment to \<^verbatim>\<open>running\<close>; \<open>Inl\<close> is that result.\<close>

fun dual_index_loop :: "(nat \<Rightarrow> replay \<Rightarrow> (int \<times> replay) c_result) \<Rightarrow> nat list \<Rightarrow> int \<Rightarrow> replay \<Rightarrow> ((int \<times> replay) + (int \<times> replay)) c_result" where
  "dual_index_loop f [] rcode r = Inr (Inr (rcode, r))"
| "dual_index_loop f (idx # idxs) rcode r =
    (if c_abort (r_ctx r) then Inr (Inr (rcode, r))
     else if src_type (source_at r idx) \<noteq> src_type (source_at r (idx + 1)) then Inr (Inl (- 1, r))
     else c_bind (f idx r) (\<lambda>(rcode, r). dual_index_loop f idxs rcode r))"

definition replay_two_sources :: "(string \<Rightarrow> capture option) \<Rightarrow> (intf \<Rightarrow> int) \<Rightarrow> environment \<Rightarrow> tcpreplay_opt \<Rightarrow> nat \<Rightarrow> replay \<Rightarrow> (int \<times> replay) c_result" where
  "replay_two_sources fs intf_dlt env opt idx r =
    (case src_type (source_at r idx) of
       source_filename \<Rightarrow> replay_two_files fs intf_dlt env opt idx (idx + 1) r
     | source_fd \<Rightarrow> Inr (0, r)
     | source_cache \<Rightarrow> Inr (0, r)
     | source_none \<Rightarrow> Inr (- 1, r))"

definition tcpr_replay_index :: "(string \<Rightarrow> capture option) \<Rightarrow> (intf \<Rightarrow> int) \<Rightarrow> environment \<Rightarrow> tcpreplay_opt \<Rightarrow> bool \<Rightarrow> (flow_src \<Rightarrow> u32 \<Rightarrow> u32) \<Rightarrow>
    cm_experiment_setting \<Rightarrow> replay \<Rightarrow> (int \<times> replay) c_result" where
  "tcpr_replay_index fs intf_dlt env opt dualfile hb st r =
    c_bind (if dualfile then dual_index_loop (replay_two_sources fs intf_dlt env opt) (filter even [0..<length (r_sources r)]) 0 r
            else c_bind (index_loop (replay_source fs intf_dlt env opt hb st) [0..<length (r_sources r)] 0 r) (\<lambda>x. Inr (Inr x))) (\<lambda>res.
      case res of
        Inl x \<Rightarrow> Inr x
      | Inr (rcode, r) \<Rightarrow> if rcode < 0 then Inr (- 1, r\<lparr>r_running := False\<rparr>) else Inr (rcode, r))"

section \<open>All passes\<close>

text \<open>The loop with a count, which wraps around at the end, and the endless one.  The pause between passes is not visible here.\<close>

fun limited_loop :: "(replay \<Rightarrow> (int \<times> replay) c_result) \<Rightarrow> nat \<Rightarrow> replay \<Rightarrow> (int \<times> replay) c_result" where
  "limited_loop pass 0 r = Inr (0, r\<lparr>r_loop := - 1\<rparr>)"
| "limited_loop pass (Suc n) r =
    (let r = r\<lparr>r_loop := of_nat n\<rparr>
     in if c_abort (r_ctx r) then Inr (0, r)
        else c_bind (pass r) (\<lambda>(rcode, r). if rcode < 0 then Inr (rcode, r) else limited_loop pass n r))"

partial_function (option) endless_loop :: "(replay \<Rightarrow> (int \<times> replay) c_result) \<Rightarrow> replay \<Rightarrow> (int \<times> replay) c_result option" where
  "endless_loop pass r =
    (if c_abort (r_ctx r) then Some (Inr (0, r))
     else case pass r of
         Inl e \<Rightarrow> Some (Inl e)
       | Inr (rcode, r) \<Rightarrow> if rcode < 0 then Some (Inr (rcode, r)) else endless_loop pass r)"

definition start_replay :: "environment \<Rightarrow> replay \<Rightarrow> replay" where
  "start_replay env r =
    r\<lparr>r_running := True, r_ctx := (r_ctx r)\<lparr>c_last_time := timerclear, c_last_print := timerclear, c_end_time := timerclear,
      c_start_time := e_clock env (c_tick (r_ctx r)), c_tick := c_tick (r_ctx r) + 1\<rparr>\<rparr>"

definition finish_replay :: "environment \<Rightarrow> replay \<Rightarrow> replay" where
  "finish_replay env r =
    (let r = r\<lparr>r_running := False\<rparr>
     in if c_bytes_sent (r_ctx r) > 0 then
          r\<lparr>r_ctx := (r_ctx r)\<lparr>c_end_time := e_clock env (c_tick (r_ctx r)), c_tick := c_tick (r_ctx r) + 1\<rparr>\<rparr>
        else r)"

definition tcpreplay_replay :: "(string \<Rightarrow> capture option) \<Rightarrow> (intf \<Rightarrow> int) \<Rightarrow> environment \<Rightarrow> tcpreplay_opt \<Rightarrow> bool \<Rightarrow> (flow_src \<Rightarrow> u32 \<Rightarrow> u32) \<Rightarrow>
    cm_experiment_setting \<Rightarrow> replay \<Rightarrow> (int \<times> replay) c_result" where
  "tcpreplay_replay fs intf_dlt env opt dualfile hb st r =
    (if r_sources r = [] then Inr (- 1, r)
     else if dualfile \<and> length (r_sources r) < 2 then Inr (- 1, r)
     else
       (let r = start_replay env r;
            pass = tcpr_replay_index fs intf_dlt env opt dualfile hb st
        in c_bind (if r_loop r > 0 then limited_loop pass (unat (r_loop r)) r
                   else case endless_loop pass r of None \<Rightarrow> Inl Endless | Some x \<Rightarrow> x) (\<lambda>(rcode, r).
             if rcode < 0 then Inr (rcode, r) else Inr (0, finish_replay env r))))"

section \<open>Lemmas\<close>

text \<open>Packets sent from \<open>c\<close> to \<open>c'\<close>, whatever the number of passes, with the data warehouse at the end.\<close>

definition moved :: "u8 list list \<Rightarrow> data_warehouse \<Rightarrow> tcpreplay \<Rightarrow> tcpreplay \<Rightarrow> bool" where
  "moved fs dw c c' \<longleftrightarrow> progress fs c (c'\<lparr>c_iteration := c_iteration c\<rparr>) \<and> ready c' \<and> c_dw c' = dw"

lemma moved_refl: "ready c \<Longrightarrow> moved [] (c_dw c) c c"
  by (simp add: moved_def progress_def)

lemma moved_trans: "moved fs d c c' \<Longrightarrow> moved gs dw c' c'' \<Longrightarrow> moved (fs @ gs) dw c c''"
  by (auto simp: moved_def progress_def)

lemma handled_append:
  "handled hb st dl dw (ps @ qs) = Some (fs, dw') \<Longrightarrow>
    \<exists>gs hs d. fs = gs @ hs \<and> handled hb st dl dw ps = Some (gs, d) \<and> handled hb st dl d qs = Some (hs, dw')"
proof (induction ps arbitrary: dw fs)
  case (Cons p ps)
  then obtain b d fs' where b: "cm_handle_ipv4_packet hb st (frame_of p) (sint (pkt_len (fst p))) dl dw = Some (b, d)"
    "handled hb st dl d (ps @ qs) = Some (fs', dw')" "fs = b # fs'" by (auto split: option.splits)
  from Cons.IH [OF b(2)] b(1,3) show ?case by force
qed simp

lemma handled_length: "handled hb st dl dw ps = Some (fs, dw') \<Longrightarrow> length fs = length ps"
  by (induction ps arbitrary: dw fs) (auto split: option.splits)

definition capture_packets :: "(string \<Rightarrow> capture option) \<Rightarrow> tcpreplay_source \<Rightarrow> pcap_packet list" where
  "capture_packets fs s = (case fs (src_filename s) of None \<Rightarrow> [] | Some cap \<Rightarrow> cap_packets cap)"

text \<open>The conditions under which a source can be replayed on the first interface.\<close>

definition replayable :: "(string \<Rightarrow> capture option) \<Rightarrow> tcpreplay_source \<Rightarrow> bool" where
  "replayable fs s \<longleftrightarrow> src_type s = source_filename \<and>
    (\<exists>cap. fs (src_filename s) = Some cap \<and> cap_dlt cap = DLT_EN10MB \<and> (\<forall>p \<in> set (cap_packets cap). fits p))"

definition plain_options :: "environment \<Rightarrow> tcpreplay_opt \<Rightarrow> bool" where
  "plain_options env opt \<longleftrightarrow> unattended env opt \<and> \<not> o_intf2 opt \<and> \<not> o_preload_pcap opt \<and> \<not> o_unique_ip opt \<and> c_int (uint (o_limit_send opt)) \<le> 0"

lemma allowed_all: "plain_options env opt \<Longrightarrow> allowed opt c ps = ps"
  by (simp add: allowed_def allowance_def plain_options_def Let_def)

lemma replay_source_ok:
  assumes "plain_options env opt" "\<forall>k. prompt (e_answers env k)" "idx < length (r_sources r)" "replayable fs (r_sources r ! idx)" "ready (r_ctx r)"
    "handled hb st DLT_EN10MB (c_dw (r_ctx r)) (capture_packets fs (r_sources r ! idx)) = Some (gs, dw)"
    "unat (c_pkts_sent (r_ctx r)) + length gs < 2 ^ 64"
  shows "\<exists>r'. replay_source fs intf_dlt env opt hb st idx r = Inr (0, r') \<and> r_sources r' = r_sources r \<and> moved gs dw (r_ctx r) (r_ctx r')"
proof -
  let ?s = "r_sources r ! idx"
  from assms(4) obtain cap where cap: "fs (src_filename ?s) = Some cap" "cap_dlt cap = DLT_EN10MB" "\<forall>p \<in> set (cap_packets cap). fits p"
    "src_type ?s = source_filename" by (auto simp: replayable_def)
  have ps: "capture_packets fs ?s = cap_packets cap" using cap(1) by (simp add: capture_packets_def)
  let ?fc = "(r_caches r idx)\<lparr>fc_dlt := DLT_EN10MB\<rparr>"
  have opt: "unattended env opt" "\<not> o_intf2 opt" "\<not> o_preload_pcap opt" "\<not> (o_unique_ip opt \<and> c_iteration (r_ctx r) \<noteq> 0)"
    using assms(1) by (auto simp: plain_options_def)
  have h: "handled hb st DLT_EN10MB (c_dw (r_ctx r)) (allowed opt (r_ctx r) (cap_packets cap)) = Some (gs, dw)"
    using assms(6) by (simp add: allowed_all [OF assms(1)] ps)
  have len: "length gs = length (cap_packets cap)" using handled_length [OF assms(6)] by (simp add: ps)
  from send_list_ok [OF cap(3) assms(5) opt(1,2,4) assms(2) h] assms(7) len obtain c' where
    c': "send_list env opt hb st DLT_EN10MB (fc_cached (r_caches r idx)) (c_iteration (r_ctx r)) (TIMEVAL_TO_MICROSEC (c_start_time (r_ctx r))) 0 0 (cap_packets cap) (r_ctx r) =
      Inr (c'\<lparr>c_iteration := c_iteration (r_ctx r) + 1, c_abort := False\<rparr>)" "progress gs (r_ctx r) c'" "c_dw c' = dw" "ready c'" by fastforce
  have "send_packets env opt hb st (cap_packets cap) ?fc (r_ctx r) = Inr (?fc, c'\<lparr>c_iteration := c_iteration (r_ctx r) + 1, c_abort := False\<rparr>)"
    using send_packets_list [of opt ?fc env hb st "cap_packets cap" "r_ctx r"] opt(3) c'(1) by simp
  moreover have "moved gs dw (r_ctx r) (c'\<lparr>c_iteration := c_iteration (r_ctx r) + 1, c_abort := False\<rparr>)"
    using c'(2-4) by (simp add: moved_def progress_def ready_def)
  ultimately show ?thesis using cap(1,2,4) assms(3) opt(3)
    by (simp add: replay_source_def replay_file_def open_source_def source_at_def Let_def)
qed

lemma moved_pkts: "moved gs dw c c' \<Longrightarrow> unat (c_pkts_sent c) + length gs + k < 2 ^ 64 \<Longrightarrow> unat (c_pkts_sent c') + k < 2 ^ 64"
  by (simp add: moved_def progress_def unat_word_ariths unat_of_nat)

lemma index_loop_ok:
  assumes "plain_options env opt" "\<forall>k. prompt (e_answers env k)" "\<forall>i \<in> set idxs. i < length (r_sources r) \<and> replayable fs (r_sources r ! i)" "ready (r_ctx r)"
    "handled hb st DLT_EN10MB (c_dw (r_ctx r)) (concat (map (\<lambda>i. capture_packets fs (r_sources r ! i)) idxs)) = Some (gs, dw)"
    "unat (c_pkts_sent (r_ctx r)) + length gs < 2 ^ 64"
  shows "\<exists>r'. index_loop (replay_source fs intf_dlt env opt hb st) idxs 0 r = Inr (0, r') \<and> r_sources r' = r_sources r \<and> moved gs dw (r_ctx r) (r_ctx r')"
  using assms(3-6)
proof (induction idxs arbitrary: r gs)
  case Nil
  then show ?case using moved_refl by auto
next
  case (Cons i idxs)
  have "handled hb st DLT_EN10MB (c_dw (r_ctx r)) (capture_packets fs (r_sources r ! i) @
      concat (map (\<lambda>i. capture_packets fs (r_sources r ! i)) idxs)) = Some (gs, dw)" using Cons.prems(3) by simp
  from handled_append [OF this] obtain g1 g2 d where
    g: "gs = g1 @ g2" "handled hb st DLT_EN10MB (c_dw (r_ctx r)) (capture_packets fs (r_sources r ! i)) = Some (g1, d)"
    "handled hb st DLT_EN10MB d (concat (map (\<lambda>i. capture_packets fs (r_sources r ! i)) idxs)) = Some (g2, dw)" by blast
  from replay_source_ok [OF assms(1,2) _ _ Cons.prems(2) g(2), of intf_dlt] Cons.prems(1,4) g(1) obtain r1 where
    r1: "replay_source fs intf_dlt env opt hb st i r = Inr (0, r1)" "r_sources r1 = r_sources r" "moved g1 d (r_ctx r) (r_ctx r1)" by auto
  have "ready (r_ctx r1)" "c_dw (r_ctx r1) = d" using r1(3) by (simp_all add: moved_def)
  moreover have "unat (c_pkts_sent (r_ctx r1)) + length g2 < 2 ^ 64" using moved_pkts [OF r1(3)] Cons.prems(4) g(1) by simp
  ultimately obtain r' where "index_loop (replay_source fs intf_dlt env opt hb st) idxs 0 r1 = Inr (0, r')" "r_sources r' = r_sources r1"
    "moved g2 dw (r_ctx r1) (r_ctx r')" using Cons.IH [of r1 g2] Cons.prems(1) r1(2) g(3) by auto
  then show ?case using r1 moved_trans [OF r1(3)] Cons.prems(2) g(1) by (auto simp: ready_def)
qed

lemma pass_ok:
  assumes "plain_options env opt" "\<forall>k. prompt (e_answers env k)" "\<forall>s \<in> set (r_sources r). replayable fs s" "ready (r_ctx r)"
    "handled hb st DLT_EN10MB (c_dw (r_ctx r)) (concat (map (capture_packets fs) (r_sources r))) = Some (gs, dw)"
    "unat (c_pkts_sent (r_ctx r)) + length gs < 2 ^ 64"
  shows "\<exists>r'. tcpr_replay_index fs intf_dlt env opt False hb st r = Inr (0, r') \<and> r_sources r' = r_sources r \<and> moved gs dw (r_ctx r) (r_ctx r')"
proof -
  have m: "map (\<lambda>i. capture_packets fs (r_sources r ! i)) [0..<length (r_sources r)] = map (capture_packets fs) (r_sources r)"
    by (rule nth_equalityI) simp_all
  have i: "\<forall>i \<in> set [0..<length (r_sources r)]. i < length (r_sources r) \<and> replayable fs (r_sources r ! i)" using assms(3) by simp
  from index_loop_ok [OF assms(1,2) i assms(4), unfolded m, OF assms(5,6), of intf_dlt] obtain r' where
    "index_loop (replay_source fs intf_dlt env opt hb st) [0..<length (r_sources r)] 0 r = Inr (0, r')" "r_sources r' = r_sources r"
    "moved gs dw (r_ctx r) (r_ctx r')" by blast
  then show ?thesis by (simp add: tcpr_replay_index_def)
qed

text \<open>The packets of \<open>n\<close> passes.\<close>

definition passes :: "(string \<Rightarrow> capture option) \<Rightarrow> tcpreplay_source list \<Rightarrow> nat \<Rightarrow> pcap_packet list" where
  "passes fs sources n = concat (replicate n (concat (map (capture_packets fs) sources)))"

lemma passes_Suc: "passes fs sources (Suc n) = concat (map (capture_packets fs) sources) @ passes fs sources n"
  by (simp add: passes_def)

lemma moved_loop: "ready (r_ctx r) \<Longrightarrow> \<not> c_abort (r_ctx r)"
  by (simp add: ready_def)

lemma limited_loop_ok:
  assumes "plain_options env opt" "\<forall>k. prompt (e_answers env k)" "\<forall>s \<in> set (r_sources r). replayable fs s" "ready (r_ctx r)"
    "handled hb st DLT_EN10MB (c_dw (r_ctx r)) (passes fs (r_sources r) n) = Some (gs, dw)"
    "unat (c_pkts_sent (r_ctx r)) + length gs < 2 ^ 64"
  shows "\<exists>r'. limited_loop (tcpr_replay_index fs intf_dlt env opt False hb st) n r = Inr (0, r') \<and> r_sources r' = r_sources r \<and>
    moved gs dw (r_ctx r) (r_ctx r')"
  using assms(3-6)
proof (induction n arbitrary: r gs)
  case 0
  then show ?case using moved_refl [of "r_ctx r"] by (auto simp: passes_def)
next
  case (Suc n)
  from handled_append [OF Suc.prems(3) [unfolded passes_Suc]] obtain g1 g2 d where
    g: "gs = g1 @ g2" "handled hb st DLT_EN10MB (c_dw (r_ctx r)) (concat (map (capture_packets fs) (r_sources r))) = Some (g1, d)"
    "handled hb st DLT_EN10MB d (passes fs (r_sources r) n) = Some (g2, dw)" by blast
  let ?r = "r\<lparr>r_loop := of_nat n\<rparr>"
  from pass_ok [OF assms(1,2), of ?r fs hb st g1 d intf_dlt] Suc.prems(1,2,4) g(1,2) obtain r1 where
    r1: "tcpr_replay_index fs intf_dlt env opt False hb st ?r = Inr (0, r1)" "r_sources r1 = r_sources r" "moved g1 d (r_ctx r) (r_ctx r1)" by auto
  have "ready (r_ctx r1)" "c_dw (r_ctx r1) = d" using r1(3) by (simp_all add: moved_def)
  moreover have "unat (c_pkts_sent (r_ctx r1)) + length g2 < 2 ^ 64" using moved_pkts [OF r1(3)] Suc.prems(4) g(1) by simp
  ultimately obtain r' where "limited_loop (tcpr_replay_index fs intf_dlt env opt False hb st) n r1 = Inr (0, r')" "r_sources r' = r_sources r1"
    "moved g2 dw (r_ctx r1) (r_ctx r')" using Suc.IH [of r1 g2] Suc.prems(1) r1(2) g(3) by auto
  then show ?case using r1 moved_trans [OF r1(3)] moved_loop [OF Suc.prems(2)] g(1) by (auto simp: Let_def)
qed

section \<open>The whole replay and the testbed\<close>

text \<open>A packet of a capture file as a record of the testbed's trace.\<close>

definition record_of :: "pcap_packet \<Rightarrow> pcap_record" where
  "record_of p = \<lparr>ph_ts = pkt_ts (fst p), ph_caplen = pkt_caplen (fst p), ph_len = pkt_len (fst p), ph_data = snd p\<rparr>"

lemma load_record_of: "load_packet (record_of p) = (frame_of p, sint (pkt_len (fst p)))"
  by (simp add: load_packet_def record_of_def frame_of_def)

text \<open>What the send loop does to a list of packets is a run of sending steps of the testbed.\<close>

lemma handled_steps:
  assumes "handled hb st DLT_EN10MB (tb_dw s) ps = Some (gs, dw)" "tb_trace s = map record_of ps @ rest"
  shows "(step hb st h net)\<^sup>*\<^sup>* s (s\<lparr>tb_trace := rest, tb_dw := dw, tb_flight := tb_flight s @ gs\<rparr>)"
  using assms
proof (induction ps arbitrary: s gs)
  case Nil
  then have "s\<lparr>tb_trace := rest, tb_dw := dw, tb_flight := tb_flight s @ gs\<rparr> = s" by (cases s) auto
  then show ?case by simp
next
  case (Cons p ps)
  from Cons.prems(1) obtain b d bs where b: "cm_handle_ipv4_packet hb st (frame_of p) (sint (pkt_len (fst p))) DLT_EN10MB (tb_dw s) = Some (b, d)"
    "handled hb st DLT_EN10MB d ps = Some (bs, dw)" "gs = b # bs" by (auto split: option.splits)
  let ?s = "s\<lparr>tb_trace := map record_of ps @ rest, tb_dw := d, tb_flight := tb_flight s @ [b]\<rparr>"
  have "step hb st h net s ?s"
    using step.send [of s "record_of p" "map record_of ps @ rest" "frame_of p" "sint (pkt_len (fst p))" hb st b d h net] Cons.prems(2) b(1)
    by (simp add: load_record_of DLT_EN10MB_def)
  moreover have "(step hb st h net)\<^sup>*\<^sup>* ?s (s\<lparr>tb_trace := rest, tb_dw := dw, tb_flight := tb_flight s @ gs\<rparr>)"
    using Cons.IH [of ?s bs] b(2,3) by simp
  ultimately show ?case by (rule converse_rtranclp_into_rtranclp)
qed

lemma replay_ok:
  assumes "plain_options env opt" "\<forall>k. prompt (e_answers env k)" "r_sources r \<noteq> []" "\<forall>s \<in> set (r_sources r). replayable fs s" "ready (r_ctx r)"
    "r_loop r > 0" "handled hb st DLT_EN10MB (c_dw (r_ctx r)) (passes fs (r_sources r) (unat (r_loop r))) = Some (gs, dw)"
    "unat (c_pkts_sent (r_ctx r)) + length gs < 2 ^ 64"
  shows "\<exists>r'. tcpreplay_replay fs intf_dlt env opt False hb st r = Inr (0, r') \<and> moved gs dw (r_ctx r) (r_ctx r') \<and> \<not> r_running r'"
proof -
  let ?r = "start_replay env r"
  have s: "r_sources ?r = r_sources r" "r_loop ?r = r_loop r" "ready (r_ctx ?r)" "c_dw (r_ctx ?r) = c_dw (r_ctx r)"
    "c_pkts_sent (r_ctx ?r) = c_pkts_sent (r_ctx r)" using assms(5) by (simp_all add: start_replay_def ready_def)
  obtain r1 where r1: "limited_loop (tcpr_replay_index fs intf_dlt env opt False hb st) (unat (r_loop r)) ?r = Inr (0, r1)"
    "moved gs dw (r_ctx ?r) (r_ctx r1)"
    using limited_loop_ok [OF assms(1,2), of ?r fs hb st "unat (r_loop r)" gs dw intf_dlt] assms(4,7,8) s by auto
  have "moved gs dw (r_ctx r) (r_ctx (finish_replay env r1))" "\<not> r_running (finish_replay env r1)"
    using r1(2) by (auto simp: moved_def progress_def start_replay_def finish_replay_def ready_def Let_def)
  then show ?thesis using r1(1) s assms(3,6) by (simp add: tcpreplay_replay_def Let_def)
qed

text \<open>
  The return code of a file is overwritten by that of the next one: a pass over a file that cannot be opened and a good
  one reports success.
\<close>

lemma missing_file_ignored:
  assumes "plain_options env opt" "\<forall>k. prompt (e_answers env k)" "r_sources r = [s1, s2]" "src_type s1 = source_filename" "fs (src_filename s1) = None"
    "replayable fs s2" "ready (r_ctx r)" "handled hb st DLT_EN10MB (c_dw (r_ctx r)) (capture_packets fs s2) = Some (gs, dw)"
    "unat (c_pkts_sent (r_ctx r)) + length gs < 2 ^ 64"
  shows "\<exists>r'. tcpr_replay_index fs intf_dlt env opt False hb st r = Inr (0, r') \<and> moved gs dw (r_ctx r) (r_ctx r')"
proof -
  have "replay_source fs intf_dlt env opt hb st 0 r = Inr (- 1, r)"
    using assms(1,3-5) by (simp add: replay_source_def replay_file_def open_source_def source_at_def plain_options_def)
  moreover obtain r' where "replay_source fs intf_dlt env opt hb st 1 r = Inr (0, r')" "moved gs dw (r_ctx r) (r_ctx r')"
    using replay_source_ok [OF assms(1,2), of 1 r fs hb st gs dw intf_dlt] assms(3,6-9) by auto
  ultimately show ?thesis using assms(3) moved_loop [OF assms(7)] by (simp add: tcpr_replay_index_def upt_rec)
qed

section \<open>The property\<close>

definition sample_source :: tcpreplay_source where
  "sample_source = \<lparr>src_type = source_filename, src_filename = ''t.pcap''\<rparr>"

definition sample_captures :: "string \<Rightarrow> capture option" where
  "sample_captures name = (if name = ''t.pcap'' then Some \<lparr>cap_dlt = DLT_EN10MB, cap_snapshot = 65535, cap_packets = [sample_pcap]\<rparr> else None)"

definition sample_replay :: "data_warehouse \<Rightarrow> replay" where
  "sample_replay dw = \<lparr>r_ctx = sample_ctx dw, r_caches = \<lambda>_. \<lparr>fc_cached = False, fc_dlt = 0, fc_packets = []\<rparr>, r_sources = [sample_source],
    r_intf1dlt = - 1, r_intf2dlt = - 1, r_running = False, r_loop = 1\<rparr>"

lemma sample_replay_ok: "plain_options sample_environment sample_opt" "replayable sample_captures sample_source" "passes sample_captures [sample_source] 1 = [sample_pcap]"
  using sample_ready(2) by (simp add: plain_options_def)
    (use sample_ready(4) in \<open>simp_all add: replayable_def sample_source_def sample_captures_def passes_def capture_packets_def\<close>)

text \<open>
  C4: a replay with the loop count \<open>n\<close> implements \<open>n\<close> times the trace of the abstract testbed.  Without limit, preloading and
  a second interface, and if the handler accepts every packet, \<^verbatim>\<open>tcpreplay_replay\<close> returns 0, stops running, and leaves on the
  wire of the first interface, file after file and pass after pass, exactly the frames that a run of sending steps of the
  testbed puts in flight, with the same data warehouse at the end and the counters of packets and bytes advanced by them.
\<close>

theorem replay_refines_testbed:
  assumes "plain_options env opt" "\<forall>k. prompt (e_answers env k)" "r_sources r \<noteq> []" "\<forall>s \<in> set (r_sources r). replayable fs s" "ready (r_ctx r)"
    "r_loop r > 0" "handled hb st DLT_EN10MB (c_dw (r_ctx r)) (passes fs (r_sources r) (unat (r_loop r))) = Some (gs, dw)"
    "unat (c_pkts_sent (r_ctx r)) + length gs < 2 ^ 64"
    "tb_dw s = c_dw (r_ctx r)" "tb_trace s = map record_of (passes fs (r_sources r) (unat (r_loop r)))"
  shows "\<exists>r'. tcpreplay_replay fs intf_dlt env opt False hb st r = Inr (0, r') \<and> \<not> r_running r' \<and>
    (step hb st h net)\<^sup>*\<^sup>* s (s\<lparr>tb_trace := [], tb_dw := c_dw (r_ctx r'), tb_flight := tb_flight s @ gs\<rparr>) \<and>
    c_wire (r_ctx r') = c_wire (r_ctx r) @ map (\<lambda>f. (Intf1, f)) gs \<and>
    c_pkts_sent (r_ctx r') = c_pkts_sent (r_ctx r) + of_nat (length gs) \<and>
    c_bytes_sent (r_ctx r') = c_bytes_sent (r_ctx r) + of_nat (length (concat gs))"
proof -
  obtain r' where r': "tcpreplay_replay fs intf_dlt env opt False hb st r = Inr (0, r')" "moved gs dw (r_ctx r) (r_ctx r')" "\<not> r_running r'"
    using replay_ok [OF assms(1-8)] by blast
  have "(step hb st h net)\<^sup>*\<^sup>* s (s\<lparr>tb_trace := [], tb_dw := dw, tb_flight := tb_flight s @ gs\<rparr>)"
    using handled_steps [of hb st s _ gs dw "[]"] assms(7,9,10) by simp
  then show ?thesis using r' by (auto simp: moved_def progress_def)
qed

theorem replay_refines_testbed_witness:
  "\<exists>dw b r'. tcpreplay_replay sample_captures (\<lambda>_. 1) sample_environment sample_opt False flow_src_hash_bin dw_setting (sample_replay dw) = Inr (0, r') \<and>
    c_wire (r_ctx r') = [(Intf1, b)] \<and> c_pkts_sent (r_ctx r') = 1"
proof -
  obtain dw b dw' where h: "handled flow_src_hash_bin dw_setting DLT_EN10MB dw [sample_pcap] = Some ([b], dw')" using sample_handled by blast
  let ?s = "undefined\<lparr>tb_dw := dw, tb_trace := [record_of sample_pcap]\<rparr>"
  have f: "r_ctx (sample_replay dw) = sample_ctx dw" "r_sources (sample_replay dw) = [sample_source]" "r_loop (sample_replay dw) = 1"
    by (simp_all add: sample_replay_def)
  show ?thesis
    using replay_refines_testbed [of sample_environment sample_opt "sample_replay dw" sample_captures flow_src_hash_bin dw_setting "[b]" dw' ?s "\<lambda>_. 1"]
      sample_replay_ok sample_ready h unfolding f by fastforce
qed

end
