(* ===== verification/Tcpreplay_Api.thy ===== *)
theory Tcpreplay_Api
  imports Replay
begin

text \<open>
  \<^verbatim>\<open>tcpreplay/src/tcpreplay_api.c\<close> before the replay: a new context, the options of the command line, the functions that set
  them one by one, the list of files; and the list of interfaces of \<^verbatim>\<open>common/interface.c\<close>.  The model is that of a Linux build
  with packet sockets, \<^verbatim>\<open>select\<close> and the list of interfaces, and without netmap, Quick TX and debugging.  The values that
  libopts has found on the command line are a record; what libpcap, the directory \<^verbatim>\<open>/dev/char\<close> and the kernel know of devices and
  the contents of the cache files are parameters.  The texts of errors and warnings are left out.
\<close>

section \<open>Interfaces\<close>

record interface =
  if_name :: string
  if_alias :: string

text \<open>
  \<^verbatim>\<open>sys_opens\<close>: the devices for which a packet socket can be opened; for any other the program exits.
\<close>

record system =
  sys_devices :: "string list option"
  sys_char_devices :: "string list"
  sys_opens :: "string \<Rightarrow> bool"
  sys_dlt :: "string \<Rightarrow> int"
  sys_cache_files :: "string \<Rightarrow> u8 list option"
  sys_malloc :: "nat \<Rightarrow> bool"

definition starts_with :: "string \<Rightarrow> string \<Rightarrow> bool" where
  "starts_with p s \<longleftrightarrow> take (length p) s = p"

definition get_interface :: "interface list option \<Rightarrow> string \<Rightarrow> string option" where
  "get_interface lst alias =
    (case lst of
       None \<Rightarrow> None
     | Some l \<Rightarrow> map_option if_name (find (\<lambda>i. alias = if_alias i \<or> alias = if_name i) l))"

text \<open>The first element is allocated before the first device is known, and is all zero if there is none.\<close>

definition device_entry :: "nat \<times> string \<Rightarrow> interface" where
  "device_entry x = \<lparr>if_name = take 254 (snd x), if_alias = ''%'' @ show_nat (fst x)\<rparr>"

definition khial_entry :: "string \<Rightarrow> interface" where
  "khial_entry d = \<lparr>if_name = take 253 (''/dev/char/'' @ d), if_alias = take 254 d\<rparr>"

definition get_interface_list :: "system \<Rightarrow> interface list c_result" where
  "get_interface_list sys =
    (case sys_devices sys of
       None \<Rightarrow> Inl Exited
     | Some devs \<Rightarrow>
         (let l = map device_entry (enumerate 0 devs) @ map khial_entry (filter (starts_with ''testpackets'') (sys_char_devices sys))
          in Inr (if l = [] then [\<lparr>if_name = [], if_alias = []\<rparr>] else l)))"

definition new_sendpacket :: sendpacket_t where
  "new_sendpacket = \<lparr>sp_retry_enobufs = 0, sp_retry_eagain = 0, sp_failed = 0, sp_trunc_packets = 0, sp_sent = 0, sp_bytes_sent = 0,
    sp_attempt = 0, sp_abort = False, sp_flow = initial_counters\<rparr>"

definition sendpacket_open :: "system \<Rightarrow> string \<Rightarrow> sendpacket_t c_result" where
  "sendpacket_open sys device = (if sys_opens sys device then Inr new_sendpacket else Inl Exited)"

section \<open>The context\<close>

record api =
  x_opt :: tcpreplay_opt
  x_replay :: replay
  x_dualfile :: bool
  x_loopdelay_ms :: u32
  x_mtu :: int
  x_intlist :: "interface list option"
  x_intf1_name :: "string option"
  x_intf2_name :: "string option"
  x_comment :: "u8 list"
  x_suspend :: bool
  x_static_dlt :: "int \<times> int"

definition MAX_FILES :: nat where "MAX_FILES = 1024"
definition DEFAULT_FLOW_HASH_BUCKET_SIZE :: u64 where "DEFAULT_FLOW_HASH_BUCKET_SIZE = 65536"

text \<open>The buffer and the data warehouse are globals; \<open>x_static_dlt\<close> are the static variables of \<^verbatim>\<open>tcpreplay_set_interface\<close>.\<close>

definition tcpreplay_init :: "system \<Rightarrow> data_warehouse \<Rightarrow> api c_result" where
  "tcpreplay_init sys dw =
    c_bind (get_interface_list sys) (\<lambda>intlist.
    c_bind (flow_hash_table_init (sys_malloc sys 1) DEFAULT_FLOW_HASH_BUCKET_SIZE) (\<lambda>fht.
      if \<not> sys_malloc sys 0 then Inl Exited
      else
        Inr \<lparr>x_opt = \<lparr>o_speed = \<lparr>sp_mode = speed_multiplier, sp_speed = 0, sp_multiplier = Fin 1, sp_pps_multi = 0\<rparr>, o_stats = 0,
               o_use_pkthdr_len = False, o_cache_packets = 0, o_cachedata = None, o_accurate = accurate_gtod, o_limit_send = - 1,
               o_maxsleep = timesclear, o_preload_pcap = False, o_flow_stats = True, o_flow_expiry = 0, o_unique_ip = False, o_intf2 = False\<rparr>,
             x_replay = \<lparr>r_ctx = \<lparr>c_abort = False, c_iteration = 0, c_nap = timesclear, c_skip_packets = 0, c_first_time = True, c_pkts_sent = 0,
                 c_bytes_sent = 0, c_start_time = timerclear, c_end_time = timerclear, c_last_time = timerclear, c_last_print = timerclear,
                 c_flow_stats = initial_counters, c_flow_table = fht, c_intf = \<lambda>_. new_sendpacket, c_dw = dw,
                 c_buffer = replicate PKT_BUFFER_SIZE 0, c_wire = [], c_tick = 0\<rparr>,
               r_caches = \<lambda>_. \<lparr>fc_cached = False, fc_dlt = 0, fc_packets = []\<rparr>, r_sources = [], r_intf1dlt = - 1, r_intf2dlt = - 1,
               r_running = False, r_loop = 1\<rparr>,
             x_dualfile = False, x_loopdelay_ms = 0, x_mtu = DEFAULT_MTU, x_intlist = Some intlist, x_intf1_name = None, x_intf2_name = None,
             x_comment = [], x_suspend = False, x_static_dlt = (- 1, - 1)\<rparr>))"

section \<open>The functions that set one option\<close>

definition with_opt :: "(tcpreplay_opt \<Rightarrow> tcpreplay_opt) \<Rightarrow> api \<Rightarrow> api" where
  "with_opt f x = x\<lparr>x_opt := f (x_opt x)\<rparr>"

definition with_speed :: "(tcpreplay_speed \<Rightarrow> tcpreplay_speed) \<Rightarrow> api \<Rightarrow> api" where
  "with_speed f = with_opt (\<lambda>opt. opt\<lparr>o_speed := f (o_speed opt)\<rparr>)"

definition tcpreplay_set_speed_mode :: "speed_mode \<Rightarrow> api \<Rightarrow> api" where
  "tcpreplay_set_speed_mode v = with_speed (\<lambda>s. s\<lparr>sp_mode := v\<rparr>)"

definition tcpreplay_set_speed_speed :: "u64 \<Rightarrow> api \<Rightarrow> api" where
  "tcpreplay_set_speed_speed v = with_speed (\<lambda>s. s\<lparr>sp_speed := v\<rparr>)"

definition tcpreplay_set_speed_pps_multi :: "int \<Rightarrow> api \<Rightarrow> api" where
  "tcpreplay_set_speed_pps_multi v = with_speed (\<lambda>s. s\<lparr>sp_pps_multi := v\<rparr>)"

definition tcpreplay_set_loop :: "u32 \<Rightarrow> api \<Rightarrow> api" where
  "tcpreplay_set_loop v x = x\<lparr>x_replay := (x_replay x)\<lparr>r_loop := v\<rparr>\<rparr>"

definition tcpreplay_set_unique_ip :: "int \<Rightarrow> api \<Rightarrow> api" where
  "tcpreplay_set_unique_ip v = with_opt (\<lambda>opt. opt\<lparr>o_unique_ip := v \<noteq> 0\<rparr>)"

definition tcpreplay_set_use_pkthdr_len :: "bool \<Rightarrow> api \<Rightarrow> api" where
  "tcpreplay_set_use_pkthdr_len v = with_opt (\<lambda>opt. opt\<lparr>o_use_pkthdr_len := v\<rparr>)"

definition tcpreplay_set_mtu :: "int \<Rightarrow> api \<Rightarrow> api" where
  "tcpreplay_set_mtu v x = x\<lparr>x_mtu := v\<rparr>"

definition tcpreplay_set_accurate :: "accurate \<Rightarrow> api \<Rightarrow> api" where
  "tcpreplay_set_accurate v = with_opt (\<lambda>opt. opt\<lparr>o_accurate := v\<rparr>)"

definition tcpreplay_set_stats :: "int \<Rightarrow> api \<Rightarrow> api" where
  "tcpreplay_set_stats v = with_opt (\<lambda>opt. opt\<lparr>o_stats := v\<rparr>)"

definition tcpreplay_set_dualfile :: "bool \<Rightarrow> api \<Rightarrow> api" where
  "tcpreplay_set_dualfile v x = x\<lparr>x_dualfile := v\<rparr>"

definition tcpreplay_set_preload_pcap :: "bool \<Rightarrow> api \<Rightarrow> api" where
  "tcpreplay_set_preload_pcap v = with_opt (\<lambda>opt. opt\<lparr>o_preload_pcap := v\<rparr>)"

definition tcpreplay_set_limit_send :: "u64 \<Rightarrow> api \<Rightarrow> api" where
  "tcpreplay_set_limit_send v = with_opt (\<lambda>opt. opt\<lparr>o_limit_send := v\<rparr>)"

definition tcpreplay_set_flow_stats :: "bool \<Rightarrow> api \<Rightarrow> api" where
  "tcpreplay_set_flow_stats v = with_opt (\<lambda>opt. opt\<lparr>o_flow_stats := v\<rparr>)"

definition tcpreplay_set_flow_expiry :: "int \<Rightarrow> api \<Rightarrow> api" where
  "tcpreplay_set_flow_expiry v = with_opt (\<lambda>opt. opt\<lparr>o_flow_expiry := v\<rparr>)"

definition load_cache :: "system \<Rightarrow> string \<Rightarrow> api \<Rightarrow> api c_result" where
  "load_cache sys file x =
    c_bind (read_cache (sys_malloc sys) (sys_cache_files sys file)) (\<lambda>(n, cache, comment).
      Inr ((with_opt (\<lambda>opt. opt\<lparr>o_cache_packets := n, o_cachedata := Some cache\<rparr>) x)\<lparr>x_comment := comment\<rparr>))"

definition tcpreplay_set_tcpprep_cache :: "system \<Rightarrow> string \<Rightarrow> api \<Rightarrow> (int \<times> api) c_result" where
  "tcpreplay_set_tcpprep_cache sys file x =
    (if length (r_sources (x_replay x)) > 1 then Inr (- 1, x) else c_bind (load_cache sys file x) (\<lambda>x. Inr (0, x)))"

definition tcpreplay_add_pcapfile :: "string \<Rightarrow> api \<Rightarrow> int \<times> api" where
  "tcpreplay_add_pcapfile pcap_file x =
    (let r = x_replay x; n = length (r_sources r)
     in if n < MAX_FILES then
          (0, x\<lparr>x_replay := r\<lparr>r_sources := r_sources r @ [\<lparr>src_type = source_filename, src_filename = pcap_file\<rparr>],
            r_caches := (r_caches r)(n := (r_caches r n)\<lparr>fc_cached := False, fc_packets := []\<rparr>)\<rparr>\<rparr>)
        else (- 1, x))"

definition open_intf :: "system \<Rightarrow> intf \<Rightarrow> string \<Rightarrow> api \<Rightarrow> api c_result" where
  "open_intf sys i name x =
    (let x = (case i of Intf1 \<Rightarrow> x\<lparr>x_intf1_name := Some name\<rparr> | Intf2 \<Rightarrow> x\<lparr>x_intf2_name := Some name\<rparr>)
     in c_bind (sendpacket_open sys name) (\<lambda>sp.
          let r = x_replay x; c = r_ctx r;
              x = x\<lparr>x_replay := r\<lparr>r_ctx := c\<lparr>c_intf := (c_intf c)(i := sp)\<rparr>\<rparr>\<rparr>
          in Inr (case i of Intf1 \<Rightarrow> x | Intf2 \<Rightarrow> with_opt (\<lambda>opt. opt\<lparr>o_intf2 := True\<rparr>) x)))"

definition tcpreplay_set_interface :: "system \<Rightarrow> intf \<Rightarrow> string \<Rightarrow> api \<Rightarrow> (int \<times> api) c_result" where
  "tcpreplay_set_interface sys i value x =
    (case get_interface (x_intlist x) value of
       None \<Rightarrow> Inr (- 1, x)
     | Some name \<Rightarrow>
         c_bind (open_intf sys i name x) (\<lambda>x.
           let d = (case i of Intf1 \<Rightarrow> (sys_dlt sys name, snd (x_static_dlt x)) | Intf2 \<Rightarrow> (fst (x_static_dlt x), sys_dlt sys name));
               x = x\<lparr>x_static_dlt := d\<rparr>
           in Inr (if fst d \<noteq> - 1 \<and> snd d \<noteq> - 1 \<and> fst d \<noteq> snd d then - 1 else 0, x)))"

definition tcpreplay_abort :: "api \<Rightarrow> api" where
  "tcpreplay_abort x =
    (let r = x_replay x; c = r_ctx r; stop = (\<lambda>sp. sp\<lparr>sp_abort := True\<rparr>)
     in x\<lparr>x_replay := r\<lparr>r_ctx := c\<lparr>c_abort := True,
          c_intf := (\<lambda>i. if i = Intf1 \<and> x_intf1_name x \<noteq> None \<or> i = Intf2 \<and> o_intf2 (x_opt x) then stop (c_intf c i) else c_intf c i)\<rparr>\<rparr>\<rparr>)"

definition tcpreplay_suspend :: "api \<Rightarrow> api" where "tcpreplay_suspend x = x\<lparr>x_suspend := True\<rparr>"
definition tcpreplay_restart :: "api \<Rightarrow> api" where "tcpreplay_restart x = x\<lparr>x_suspend := False\<rparr>"

text \<open>The start time that is reported is the end time.\<close>

definition tcpreplay_get_start_time :: "api \<Rightarrow> timeval" where "tcpreplay_get_start_time x = c_end_time (r_ctx (x_replay x))"
definition tcpreplay_get_end_time :: "api \<Rightarrow> timeval" where "tcpreplay_get_end_time x = c_end_time (r_ctx (x_replay x))"

section \<open>The command line\<close>

record cmdline =
  a_dbug :: bool
  a_loop :: int
  a_loopdelay_ms :: int
  a_limit :: "int option"
  a_topspeed :: bool
  a_pps :: "int option"
  a_pps_multi :: int
  a_oneatatime :: bool
  a_mbps :: "string option"
  a_multiplier :: "string option"
  a_maxsleep :: "int option"
  a_stats :: "int option"
  a_preload_pcap :: bool
  a_dualfile :: bool
  a_quick_tx :: bool
  a_netmap :: bool
  a_unique_ip :: bool
  a_no_flow_stats :: bool
  a_flow_expiry :: "int option"
  a_timer :: "string option"
  a_pktlen :: bool
  a_intf1 :: string
  a_intf2 :: "string option"
  a_cachefile :: "string option"

text \<open>
  Conversion to an unsigned 64-bit integer as the x86-64 code does it: below \<open>2 ^ 63\<close> by the signed conversion, above after
  subtracting \<open>2 ^ 63\<close>.
\<close>

fun to_counter :: "cfloat \<Rightarrow> u64" where
  "to_counter (Fin x) = (if x < 2 ^ 63 then word_of_int (double_to_long (Fin x)) else word_of_int (double_to_long (Fin (x - 2 ^ 63))) + 2 ^ 63)"
| "to_counter PInf = 0"
| "to_counter _ = 2 ^ 63"

definition arg_speed :: "cmdline \<Rightarrow> tcpreplay_speed \<Rightarrow> tcpreplay_speed" where
  "arg_speed cmd s =
    (if a_topspeed cmd then s\<lparr>sp_mode := speed_topspeed, sp_speed := 0\<rparr>
     else case a_pps cmd of
         Some pps \<Rightarrow> s\<lparr>sp_mode := speed_packetrate, sp_speed := to_counter (fl32 (of_int pps)), sp_pps_multi := a_pps_multi cmd\<rparr>
       | None \<Rightarrow>
           if a_oneatatime cmd then s\<lparr>sp_mode := speed_oneatatime, sp_speed := 0\<rparr>
           else case a_mbps cmd of
               Some v \<Rightarrow> s\<lparr>sp_mode := speed_mbpsrate, sp_speed := to_counter (cf_mul fl64 (to_float (atof v)) (Fin 1000000))\<rparr>
             | None \<Rightarrow>
                 (case a_multiplier cmd of
                    Some v \<Rightarrow> s\<lparr>sp_mode := speed_multiplier, sp_multiplier := to_float (atof v)\<rparr>
                  | None \<Rightarrow> s))"

text \<open>The option is in milliseconds.\<close>

definition arg_maxsleep :: "int \<Rightarrow> Replay_Timing.timespec" where
  "arg_maxsleep v = \<lparr>ts_sec = v sdiv 1000, ts_nsec = (v smod 1000) * 1000\<rparr>"

definition arg_options :: "cmdline \<Rightarrow> api \<Rightarrow> api" where
  "arg_options cmd x =
    (let x = x\<lparr>x_replay := (x_replay x)\<lparr>r_loop := word_of_int (a_loop cmd)\<rparr>, x_loopdelay_ms := word_of_int (a_loopdelay_ms cmd)\<rparr>
     in with_opt (\<lambda>opt. opt\<lparr>
          o_limit_send := (case a_limit cmd of None \<Rightarrow> o_limit_send opt | Some v \<Rightarrow> word_of_int v),
          o_speed := arg_speed cmd (o_speed opt),
          o_maxsleep := (case a_maxsleep cmd of None \<Rightarrow> o_maxsleep opt | Some v \<Rightarrow> arg_maxsleep v),
          o_stats := (case a_stats cmd of None \<Rightarrow> o_stats opt | Some v \<Rightarrow> c_int v),
          o_preload_pcap := (a_preload_pcap cmd \<or> o_preload_pcap opt)\<rparr>) x)"

definition arg_flags :: "cmdline \<Rightarrow> tcpreplay_opt \<Rightarrow> tcpreplay_opt" where
  "arg_flags cmd opt = opt\<lparr>
    o_unique_ip := (a_unique_ip cmd \<or> o_unique_ip opt),
    o_flow_stats := (\<not> a_no_flow_stats cmd \<and> o_flow_stats opt),
    o_flow_expiry := (case a_flow_expiry cmd of None \<Rightarrow> o_flow_expiry opt | Some v \<Rightarrow> c_int v)\<rparr>"

definition arg_timer :: "cmdline \<Rightarrow> accurate \<Rightarrow> accurate option" where
  "arg_timer cmd d =
    (case a_timer cmd of
       None \<Rightarrow> Some d
     | Some t \<Rightarrow>
         if t = ''select'' then Some accurate_select
         else if t = ''gtod'' then Some accurate_gtod
         else if t = ''nano'' then Some accurate_nanosleep
         else None)"

definition arg_intf1 :: "system \<Rightarrow> cmdline \<Rightarrow> api \<Rightarrow> (bool \<times> api) c_result" where
  "arg_intf1 sys cmd x =
    (case get_interface (x_intlist x) (a_intf1 cmd) of
       None \<Rightarrow> Inr (False, x)
     | Some name \<Rightarrow>
         if starts_with ''netmap:'' name \<or> starts_with ''vale:'' name \<or> starts_with ''qtx:'' name then Inr (False, x)
         else c_bind (open_intf sys Intf1 name x) (\<lambda>x. Inr (True, x\<lparr>x_replay := (x_replay x)\<lparr>r_intf1dlt := sys_dlt sys name\<rparr>\<rparr>)))"

definition arg_intf2 :: "system \<Rightarrow> cmdline \<Rightarrow> api \<Rightarrow> (bool \<times> api) c_result" where
  "arg_intf2 sys cmd x =
    (case a_intf2 cmd of
       None \<Rightarrow> Inr (True, x)
     | Some alias \<Rightarrow>
         if a_cachefile cmd = None \<and> \<not> a_dualfile cmd then Inr (False, x)
         else case get_interface (x_intlist x) alias of
             None \<Rightarrow> Inr (False, x)
           | Some name \<Rightarrow>
               c_bind (open_intf sys Intf2 name x) (\<lambda>x.
                 let x = x\<lparr>x_replay := (x_replay x)\<lparr>r_intf2dlt := sys_dlt sys name\<rparr>\<rparr>
                 in Inr (r_intf2dlt (x_replay x) = r_intf1dlt (x_replay x), x)))"

text \<open>The return code and the context: 0, or \<open>-2\<close> with a warning, or \<open>-1\<close>.\<close>

definition tcpreplay_post_args :: "system \<Rightarrow> cmdline \<Rightarrow> nat \<Rightarrow> api \<Rightarrow> (int \<times> api) c_result" where
  "tcpreplay_post_args sys cmd argc x =
    (let x = arg_options cmd x;
         x = x\<lparr>x_dualfile := (a_dualfile cmd \<or> x_dualfile x)\<rparr>
     in if a_dualfile cmd \<and> (argc < 2 \<or> argc mod 2 \<noteq> 0) then Inr (- 1, x)
        else if a_quick_tx cmd \<or> a_netmap cmd then Inl Exited
        else
          (let x = with_opt (arg_flags cmd) x
           in case arg_timer cmd (o_accurate (x_opt x)) of
                None \<Rightarrow> Inr (- 1, x)
              | Some t \<Rightarrow>
                  (let x = with_opt (\<lambda>opt. opt\<lparr>o_accurate := t, o_use_pkthdr_len := (a_pktlen cmd \<or> o_use_pkthdr_len opt)\<rparr>) x
                   in c_bind (arg_intf1 sys cmd x) (\<lambda>(ok, x). if \<not> ok then Inr (- 1, x)
                      else c_bind (arg_intf2 sys cmd x) (\<lambda>(ok, x). if \<not> ok then Inr (- 1, x)
                      else c_bind (case a_cachefile cmd of None \<Rightarrow> Inr x | Some f \<Rightarrow> load_cache sys f x) (\<lambda>x.
                        Inr (if a_dbug cmd \<or> a_pktlen cmd then - 2 else 0, x)))))))"

section \<open>Checking a context\<close>

text \<open>
  \<^verbatim>\<open>tcpreplay_prepare\<close>.  The second interface is opened for the same direction as the first, which the model does not
  distinguish, and two interfaces are not required for two files.
\<close>

definition tcpreplay_prepare :: "system \<Rightarrow> api \<Rightarrow> (int \<times> api) c_result" where
  "tcpreplay_prepare sys x =
    (let n = length (r_sources (x_replay x)); opt = x_opt x
     in case x_intf1_name x of
          None \<Rightarrow> Inr (- 1, x)
        | Some name1 \<Rightarrow>
            if n = 0 then Inr (- 1, x)
            else if x_dualfile x \<and> (n < 2 \<or> n mod 2 \<noteq> 0) then Inr (- 1, x)
            else if x_dualfile x \<and> o_cachedata opt \<noteq> None then Inr (- 1, x)
            else if o_accurate opt = accurate_ioport \<or> o_accurate opt = accurate_abs_time then Inr (- 1, x)
            else if get_interface (x_intlist x) name1 = None then Inr (- 1, x)
            else c_bind (open_intf sys Intf1 name1 x) (\<lambda>x.
              case x_intf2_name x of
                None \<Rightarrow> Inr (0, x)
              | Some name2 \<Rightarrow>
                  if get_interface (x_intlist x) name2 = None then Inr (- 1, x)
                  else c_bind (open_intf sys Intf2 name2 x) (\<lambda>x.
                    Inr (if sys_dlt sys name2 \<noteq> sys_dlt sys name1 then - 1 else 0, x))))"

section \<open>The files\<close>

text \<open>The entries of the file cache are cleared, and the files added and preloaded, one after the other.\<close>

definition clear_caches :: "nat \<Rightarrow> api \<Rightarrow> api c_result" where
  "clear_caches argc x =
    (if argc > MAX_FILES then Inl Out_of_bounds
     else Inr (x\<lparr>x_replay := (x_replay x)\<lparr>r_caches := (\<lambda>i. if i < argc then (r_caches (x_replay x) i)\<lparr>fc_cached := False, fc_packets := []\<rparr>
       else r_caches (x_replay x) i)\<rparr>\<rparr>))"

fun load_files :: "(string \<Rightarrow> capture option) \<Rightarrow> environment \<Rightarrow> nat \<Rightarrow> string list \<Rightarrow> api \<Rightarrow> api c_result" where
  "load_files fs env i [] x = Inr x"
| "load_files fs env i (name # names) x =
    (let x = snd (tcpreplay_add_pcapfile name x); r = x_replay x
     in if o_preload_pcap (x_opt x) then
          if i \<ge> MAX_FILES then Inl Out_of_bounds
          else
            c_bind (preload_pcap_file env (x_opt x) (map_option (\<lambda>cap. (cap_dlt cap, cap_packets cap)) (fs (src_filename (source_at r i))))
                (r_caches r i) (r_ctx r)) (\<lambda>(fc, c).
              load_files fs env (i + 1) names (x\<lparr>x_replay := r\<lparr>r_caches := (r_caches r)(i := fc), r_ctx := c\<rparr>\<rparr>))
        else load_files fs env (i + 1) names x)"

definition setup_files :: "(string \<Rightarrow> capture option) \<Rightarrow> environment \<Rightarrow> string list \<Rightarrow> api \<Rightarrow> api c_result" where
  "setup_files fs env names x =
    c_bind (if o_preload_pcap (x_opt x) then clear_caches (length names) x else Inr x) (load_files fs env 0 names)"

section \<open>Lemmas\<close>

lemma with_opt_simps [simp]:
  "x_opt (with_opt f x) = f (x_opt x)" "x_replay (with_opt f x) = x_replay x" "x_dualfile (with_opt f x) = x_dualfile x"
  "x_intlist (with_opt f x) = x_intlist x" "x_intf1_name (with_opt f x) = x_intf1_name x" "x_intf2_name (with_opt f x) = x_intf2_name x"
  by (simp_all add: with_opt_def)

lemma init_table: "flow_hash_table_init ok DEFAULT_FLOW_HASH_BUCKET_SIZE = Inr fht \<Longrightarrow> flow_table_inv fht"
  by (auto simp: flow_hash_table_init_def flow_table_inv_def is_power_of_2_def split: if_splits)

lemma init_ready:
  assumes "tcpreplay_init sys dw = Inr x"
  shows "ready (r_ctx (x_replay x))" "c_dw (r_ctx (x_replay x)) = dw" "c_wire (r_ctx (x_replay x)) = []" "c_pkts_sent (r_ctx (x_replay x)) = 0"
    "c_bytes_sent (r_ctx (x_replay x)) = 0" "r_sources (x_replay x) = []" "\<not> x_dualfile x" "\<exists>l. get_interface_list sys = Inr l \<and> x_intlist x = Some l"
    "o_speed (x_opt x) = \<lparr>sp_mode = speed_multiplier, sp_speed = 0, sp_multiplier = Fin 1, sp_pps_multi = 0\<rparr>" "o_accurate (x_opt x) = accurate_gtod"
    "o_limit_send (x_opt x) = - 1" "\<not> o_preload_pcap (x_opt x)" "\<not> o_unique_ip (x_opt x)" "\<not> o_intf2 (x_opt x)"
proof -
  from assms obtain l fht where "get_interface_list sys = Inr l" "flow_hash_table_init (sys_malloc sys 1) DEFAULT_FLOW_HASH_BUCKET_SIZE = Inr fht" "sys_malloc sys 0"
    by (auto simp: tcpreplay_init_def c_bind_Inr split: if_splits)
  with assms init_table show "ready (r_ctx (x_replay x))" "c_dw (r_ctx (x_replay x)) = dw" "c_wire (r_ctx (x_replay x)) = []"
    "c_pkts_sent (r_ctx (x_replay x)) = 0" "c_bytes_sent (r_ctx (x_replay x)) = 0" "r_sources (x_replay x) = []" "\<not> x_dualfile x"
    "\<exists>l. get_interface_list sys = Inr l \<and> x_intlist x = Some l"
    "o_speed (x_opt x) = \<lparr>sp_mode = speed_multiplier, sp_speed = 0, sp_multiplier = Fin 1, sp_pps_multi = 0\<rparr>" "o_accurate (x_opt x) = accurate_gtod"
    "o_limit_send (x_opt x) = - 1" "\<not> o_preload_pcap (x_opt x)" "\<not> o_unique_ip (x_opt x)" "\<not> o_intf2 (x_opt x)"
    by (auto simp: tcpreplay_init_def ready_def new_sendpacket_def)
qed

lemma open_intf_Inr:
  "open_intf sys i name x = Inr x' \<longleftrightarrow> sys_opens sys name \<and>
    x' = (let r = x_replay x; c = r_ctx r;
              x = (case i of Intf1 \<Rightarrow> x\<lparr>x_intf1_name := Some name\<rparr> | Intf2 \<Rightarrow> with_opt (\<lambda>opt. opt\<lparr>o_intf2 := True\<rparr>) (x\<lparr>x_intf2_name := Some name\<rparr>))
          in x\<lparr>x_replay := r\<lparr>r_ctx := c\<lparr>c_intf := (c_intf c)(i := new_sendpacket)\<rparr>\<rparr>\<rparr>)"
  by (cases i) (auto simp: open_intf_def sendpacket_open_def Let_def with_opt_def)

text \<open>Nothing has been sent between \<open>x\<close> and \<open>y\<close>, and the files are the same.\<close>

definition idle :: "api \<Rightarrow> api \<Rightarrow> bool" where
  "idle x y \<longleftrightarrow>
    (let c = r_ctx (x_replay x); d = r_ctx (x_replay y)
     in (ready c \<longrightarrow> ready d) \<and> c_dw d = c_dw c \<and> c_wire d = c_wire c \<and> c_pkts_sent d = c_pkts_sent c \<and> c_bytes_sent d = c_bytes_sent c) \<and>
    r_sources (x_replay y) = r_sources (x_replay x) \<and> x_intlist y = x_intlist x"

lemma idle_trans: "idle x y \<Longrightarrow> idle y z \<Longrightarrow> idle x z"
  by (simp add: idle_def Let_def)

lemma open_intf_idle: "open_intf sys i name x = Inr y \<Longrightarrow> idle x y"
  by (cases i) (auto simp: open_intf_Inr Let_def idle_def ready_def new_sendpacket_def)

lemma open_intf_keeps:
  assumes "open_intf sys i name x = Inr y"
  shows "x_dualfile y = x_dualfile x" "r_loop (x_replay y) = r_loop (x_replay x)" "r_intf1dlt (x_replay y) = r_intf1dlt (x_replay x)"
    "x_opt y = (x_opt x)\<lparr>o_intf2 := (i = Intf2 \<or> o_intf2 (x_opt x))\<rparr>" "x_intf1_name y = (if i = Intf1 then Some name else x_intf1_name x)"
    "x_intlist y = x_intlist x"
  using assms by (cases i; simp add: open_intf_Inr Let_def)+

section \<open>Which command lines are accepted\<close>

text \<open>The name of a device that needs neither netmap nor Quick TX.\<close>

definition socket_name :: "string \<Rightarrow> bool" where
  "socket_name name \<longleftrightarrow> \<not> starts_with ''netmap:'' name \<and> \<not> starts_with ''vale:'' name \<and> \<not> starts_with ''qtx:'' name"

definition intf1_ok :: "system \<Rightarrow> interface list option \<Rightarrow> cmdline \<Rightarrow> string \<Rightarrow> bool" where
  "intf1_ok sys l cmd name \<longleftrightarrow> get_interface l (a_intf1 cmd) = Some name \<and> socket_name name \<and> sys_opens sys name"

definition intf2_ok :: "system \<Rightarrow> interface list option \<Rightarrow> cmdline \<Rightarrow> string \<Rightarrow> bool" where
  "intf2_ok sys l cmd name1 \<longleftrightarrow> a_intf2 cmd = None \<or>
    (a_cachefile cmd \<noteq> None \<or> a_dualfile cmd) \<and>
    (\<exists>name. get_interface l (the (a_intf2 cmd)) = Some name \<and> sys_opens sys name \<and> sys_dlt sys name = sys_dlt sys name1)"

definition timer_ok :: "cmdline \<Rightarrow> bool" where
  "timer_ok cmd \<longleftrightarrow> a_timer cmd \<in> {None, Some ''select'', Some ''gtod'', Some ''nano''}"

definition cache_ok :: "system \<Rightarrow> cmdline \<Rightarrow> bool" where
  "cache_ok sys cmd \<longleftrightarrow> (case a_cachefile cmd of None \<Rightarrow> True | Some f \<Rightarrow> \<not> isl (read_cache (sys_malloc sys) (sys_cache_files sys f)))"

definition acceptable :: "system \<Rightarrow> interface list option \<Rightarrow> cmdline \<Rightarrow> nat \<Rightarrow> bool" where
  "acceptable sys l cmd argc \<longleftrightarrow>
    (a_dualfile cmd \<longrightarrow> 2 \<le> argc \<and> even argc) \<and> \<not> a_quick_tx cmd \<and> \<not> a_netmap cmd \<and> timer_ok cmd \<and>
    (\<exists>name1. intf1_ok sys l cmd name1 \<and> intf2_ok sys l cmd name1) \<and> cache_ok sys cmd"

lemma arg_timer_Some: "arg_timer cmd d = Some t \<Longrightarrow> timer_ok cmd \<and> t \<in> {d, accurate_select, accurate_gtod, accurate_nanosleep}"
  by (auto simp: arg_timer_def timer_ok_def split: option.splits if_splits)

lemma arg_timer_None: "arg_timer cmd d = None \<longleftrightarrow> \<not> timer_ok cmd"
  by (auto simp: arg_timer_def timer_ok_def split: option.splits)

lemma arg_intf1_True:
  "arg_intf1 sys cmd x = Inr (True, x') \<longleftrightarrow> (\<exists>name x1. intf1_ok sys (x_intlist x) cmd name \<and> open_intf sys Intf1 name x = Inr x1 \<and>
    x' = x1\<lparr>x_replay := (x_replay x1)\<lparr>r_intf1dlt := sys_dlt sys name\<rparr>\<rparr>)"
  by (auto simp: arg_intf1_def intf1_ok_def socket_name_def c_bind_Inr open_intf_Inr split: option.splits)

lemma arg_intf2_True:
  "arg_intf2 sys cmd x = Inr (True, x') \<longleftrightarrow>
    a_intf2 cmd = None \<and> x' = x \<or>
    (\<exists>name x1. a_intf2 cmd \<noteq> None \<and> (a_cachefile cmd \<noteq> None \<or> a_dualfile cmd) \<and> get_interface (x_intlist x) (the (a_intf2 cmd)) = Some name \<and>
      open_intf sys Intf2 name x = Inr x1 \<and> sys_dlt sys name = r_intf1dlt (x_replay x) \<and>
      x' = x1\<lparr>x_replay := (x_replay x1)\<lparr>r_intf2dlt := sys_dlt sys name\<rparr>\<rparr>)"
  by (cases "a_intf2 cmd") (auto simp: arg_intf2_def c_bind_Inr Let_def open_intf_keeps(3) split: option.splits)

text \<open>The context when the interfaces are looked up.\<close>

definition parsed :: "cmdline \<Rightarrow> accurate \<Rightarrow> api \<Rightarrow> api" where
  "parsed cmd t x =
    with_opt (\<lambda>opt. (arg_flags cmd opt)\<lparr>o_accurate := t, o_use_pkthdr_len := (a_pktlen cmd \<or> o_use_pkthdr_len opt)\<rparr>)
      ((arg_options cmd x)\<lparr>x_dualfile := (a_dualfile cmd \<or> x_dualfile x)\<rparr>)"

lemma parsed_simps [simp]:
  "x_intlist (parsed cmd t x) = x_intlist x" "r_ctx (x_replay (parsed cmd t x)) = r_ctx (x_replay x)"
  "r_sources (x_replay (parsed cmd t x)) = r_sources (x_replay x)" "r_loop (x_replay (parsed cmd t x)) = word_of_int (a_loop cmd)"
  "x_dualfile (parsed cmd t x) \<longleftrightarrow> a_dualfile cmd \<or> x_dualfile x" "o_accurate (x_opt (parsed cmd t x)) = t"
  "o_intf2 (x_opt (parsed cmd t x)) = o_intf2 (x_opt x)" "o_cachedata (x_opt (parsed cmd t x)) = o_cachedata (x_opt x)"
  "o_speed (x_opt (parsed cmd t x)) = arg_speed cmd (o_speed (x_opt x))"
  "o_limit_send (x_opt (parsed cmd t x)) = (case a_limit cmd of None \<Rightarrow> o_limit_send (x_opt x) | Some v \<Rightarrow> word_of_int v)"
  "o_preload_pcap (x_opt (parsed cmd t x)) \<longleftrightarrow> a_preload_pcap cmd \<or> o_preload_pcap (x_opt x)"
  "o_unique_ip (x_opt (parsed cmd t x)) \<longleftrightarrow> a_unique_ip cmd \<or> o_unique_ip (x_opt x)"
  by (simp_all add: parsed_def arg_options_def arg_flags_def with_opt_def Let_def cong: option.case_cong)

lemma post_args_Inr:
  "tcpreplay_post_args sys cmd argc x = Inr (ret, x') \<and> ret \<noteq> - 1 \<longleftrightarrow>
    (a_dualfile cmd \<longrightarrow> 2 \<le> argc \<and> even argc) \<and> \<not> a_quick_tx cmd \<and> \<not> a_netmap cmd \<and>
    (\<exists>t x1 x2. arg_timer cmd (o_accurate (x_opt x)) = Some t \<and> arg_intf1 sys cmd (parsed cmd t x) = Inr (True, x1) \<and>
      arg_intf2 sys cmd x1 = Inr (True, x2) \<and> (case a_cachefile cmd of None \<Rightarrow> Inr x2 | Some f \<Rightarrow> load_cache sys f x2) = Inr x' \<and>
      ret = (if a_dbug cmd \<or> a_pktlen cmd then - 2 else 0))"
proof -
  define y where "y = with_opt (arg_flags cmd) ((arg_options cmd x)\<lparr>x_dualfile := (a_dualfile cmd \<or> x_dualfile (arg_options cmd x))\<rparr>)"
  have y: "with_opt (\<lambda>opt. opt\<lparr>o_accurate := t, o_use_pkthdr_len := (a_pktlen cmd \<or> o_use_pkthdr_len opt)\<rparr>) y = parsed cmd t x"
    "o_accurate (x_opt y) = o_accurate (x_opt x)" for t
    by (simp_all add: y_def parsed_def arg_options_def arg_flags_def with_opt_def Let_def cong: option.case_cong)
  have d: "(a_dualfile cmd \<and> (argc < 2 \<or> argc mod 2 \<noteq> 0)) \<longleftrightarrow> \<not> (a_dualfile cmd \<longrightarrow> 2 \<le> argc \<and> even argc)" by (auto simp: even_iff_mod_2_eq_zero)
  define w :: int where "w = (if a_dbug cmd \<or> a_pktlen cmd then - 2 else 0)"
  define cache where "cache = (\<lambda>x. case a_cachefile cmd of None \<Rightarrow> Inr x | Some f \<Rightarrow> load_cache sys f x)"
  have cache: "(case a_cachefile cmd of None \<Rightarrow> Inr x | Some f \<Rightarrow> load_cache sys f x) = cache x" for x by (simp add: cache_def)
  have w: "w \<noteq> - 1" by (simp add: w_def)
  have r: "c_bind r (\<lambda>(ok, x). if \<not> ok then Inr (- 1, x) else f x) = Inr (ret, x') \<and> ret \<noteq> - 1 \<longleftrightarrow>
      (\<exists>y. r = Inr (True, y) \<and> f y = Inr (ret, x') \<and> ret \<noteq> - 1)" for r :: "(bool \<times> api) c_result" and f
    by (auto simp: c_bind_Inr split: if_splits)
  have c: "c_bind (cache x2) (\<lambda>x. Inr (w, x)) = Inr (ret, x') \<and> ret \<noteq> - 1 \<longleftrightarrow> cache x2 = Inr x' \<and> ret = w" for x2
    using w by (auto simp: c_bind_Inr)
  show ?thesis
    unfolding tcpreplay_post_args_def Let_def y_def [symmetric] y d w_def [symmetric] cache
    by (cases "a_dualfile cmd \<longrightarrow> 2 \<le> argc \<and> even argc"; cases "a_quick_tx cmd \<or> a_netmap cmd"; cases "arg_timer cmd (o_accurate (x_opt x))")
      (auto simp: r c)
qed

lemma accepted_iff:
  assumes "x_intlist x = l" "o_accurate (x_opt x) = accurate_gtod"
  shows "(\<exists>ret x'. tcpreplay_post_args sys cmd argc x = Inr (ret, x') \<and> ret \<noteq> - 1) \<longleftrightarrow> acceptable sys l cmd argc"
proof -
  have cache: "(\<exists>x'. (case a_cachefile cmd of None \<Rightarrow> Inr x2 | Some f \<Rightarrow> load_cache sys f x2) = Inr x') \<longleftrightarrow> cache_ok sys cmd" for x2
  proof (cases "a_cachefile cmd")
    case (Some f)
    then show ?thesis by (cases "read_cache (sys_malloc sys) (sys_cache_files sys f)") (auto simp: cache_ok_def load_cache_def)
  qed (simp add: cache_ok_def)
  have i2: "(\<exists>x2. arg_intf2 sys cmd x1 = Inr (True, x2)) \<longleftrightarrow> intf2_ok sys l cmd name"
    if "x_intlist x1 = l" "r_intf1dlt (x_replay x1) = sys_dlt sys name" for x1 name
    using that by (cases "a_intf2 cmd") (auto simp: arg_intf2_True intf2_ok_def open_intf_Inr)
  have i1: "(\<exists>x1. arg_intf1 sys cmd (parsed cmd t x) = Inr (True, x1) \<and> (\<exists>x2. arg_intf2 sys cmd x1 = Inr (True, x2))) \<longleftrightarrow>
      (\<exists>name. intf1_ok sys l cmd name \<and> intf2_ok sys l cmd name)" (is "?L \<longleftrightarrow> ?R") for t
  proof
    assume ?L
    then obtain x1 name y where n: "intf1_ok sys l cmd name" "open_intf sys Intf1 name (parsed cmd t x) = Inr y"
      "x1 = y\<lparr>x_replay := (x_replay y)\<lparr>r_intf1dlt := sys_dlt sys name\<rparr>\<rparr>" "\<exists>x2. arg_intf2 sys cmd x1 = Inr (True, x2)"
      using assms(1) by (auto simp: arg_intf1_True)
    then show ?R using i2 [of x1 name] open_intf_keeps(6) [OF n(2)] assms(1) by auto
  next
    assume ?R
    then obtain name where n: "intf1_ok sys l cmd name" "intf2_ok sys l cmd name" by blast
    then obtain y where y: "open_intf sys Intf1 name (parsed cmd t x) = Inr y" by (auto simp: intf1_ok_def open_intf_Inr)
    then show ?L using n i2 [of "y\<lparr>x_replay := (x_replay y)\<lparr>r_intf1dlt := sys_dlt sys name\<rparr>\<rparr>" name] open_intf_keeps(6) [OF y] assms(1)
      by (auto simp: arg_intf1_True)
  qed
  have t: "(\<exists>t. arg_timer cmd accurate_gtod = Some t) \<longleftrightarrow> timer_ok cmd" using arg_timer_None [of cmd accurate_gtod] by auto
  show ?thesis
  proof
    assume "\<exists>ret x'. tcpreplay_post_args sys cmd argc x = Inr (ret, x') \<and> ret \<noteq> - 1"
    then show "acceptable sys l cmd argc" unfolding post_args_Inr acceptable_def assms(2) using cache i1 t by blast
  next
    assume a: "acceptable sys l cmd argc"
    then obtain tm where tm: "arg_timer cmd accurate_gtod = Some tm" using t by (auto simp: acceptable_def)
    from a i1 [of tm] obtain x1 x2 where x: "arg_intf1 sys cmd (parsed cmd tm x) = Inr (True, x1)" "arg_intf2 sys cmd x1 = Inr (True, x2)"
      by (auto simp: acceptable_def)
    from a cache [of x2] obtain x' where "(case a_cachefile cmd of None \<Rightarrow> Inr x2 | Some f \<Rightarrow> load_cache sys f x2) = Inr x'"
      by (auto simp: acceptable_def)
    with a tm x show "\<exists>ret x'. tcpreplay_post_args sys cmd argc x = Inr (ret, x') \<and> ret \<noteq> - 1"
      unfolding post_args_Inr acceptable_def assms(2) by blast
  qed
qed

lemma load_cache_keeps:
  assumes "load_cache sys f x = Inr y"
  shows "x_replay y = x_replay x" "x_dualfile y = x_dualfile x" "x_intf1_name y = x_intf1_name x" "x_intlist y = x_intlist x"
    "\<exists>n d. x_opt y = (x_opt x)\<lparr>o_cache_packets := n, o_cachedata := Some d\<rparr>"
  using assms by (auto simp: load_cache_def c_bind_Inr with_opt_def) blast

lemma arg_intf1_keeps:
  assumes "arg_intf1 sys cmd x = Inr (True, y)" "\<not> o_intf2 (x_opt x)"
  shows "idle x y" "x_opt y = x_opt x" "x_dualfile y = x_dualfile x" "r_loop (x_replay y) = r_loop (x_replay x)"
    "\<exists>name. x_intf1_name y = Some name \<and> intf1_ok sys (x_intlist x) cmd name \<and> r_intf1dlt (x_replay y) = sys_dlt sys name"
proof -
  obtain name z where z: "intf1_ok sys (x_intlist x) cmd name" "open_intf sys Intf1 name x = Inr z"
    "y = z\<lparr>x_replay := (x_replay z)\<lparr>r_intf1dlt := sys_dlt sys name\<rparr>\<rparr>" using assms(1) by (auto simp: arg_intf1_True)
  note k = open_intf_keeps [OF z(2)]
  show "idle x y" using open_intf_idle [OF z(2)] unfolding z(3) by (simp add: idle_def)
  have "x_opt z = x_opt x" using assms(2) k(4) by simp
  then show "x_opt y = x_opt x" unfolding z(3) by simp
  show "x_dualfile y = x_dualfile x" "r_loop (x_replay y) = r_loop (x_replay x)" using k(1,2) unfolding z(3) by simp_all
  show "\<exists>name. x_intf1_name y = Some name \<and> intf1_ok sys (x_intlist x) cmd name \<and> r_intf1dlt (x_replay y) = sys_dlt sys name"
    using z(1) k(5) unfolding z(3) by simp
qed

lemma arg_intf2_keeps:
  assumes "arg_intf2 sys cmd x = Inr (True, y)" "\<not> o_intf2 (x_opt x)"
  shows "idle x y" "x_opt y = (x_opt x)\<lparr>o_intf2 := (a_intf2 cmd \<noteq> None)\<rparr>" "x_dualfile y = x_dualfile x" "r_loop (x_replay y) = r_loop (x_replay x)"
    "x_intf1_name y = x_intf1_name x" "r_intf1dlt (x_replay y) = r_intf1dlt (x_replay x)"
    "a_intf2 cmd \<noteq> None \<Longrightarrow> (a_cachefile cmd \<noteq> None \<or> a_dualfile cmd) \<and> r_intf2dlt (x_replay y) = r_intf1dlt (x_replay y)"
proof -
  have "(idle x y \<and> x_opt y = (x_opt x)\<lparr>o_intf2 := (a_intf2 cmd \<noteq> None)\<rparr> \<and> x_dualfile y = x_dualfile x \<and> r_loop (x_replay y) = r_loop (x_replay x)) \<and>
      x_intf1_name y = x_intf1_name x \<and> r_intf1dlt (x_replay y) = r_intf1dlt (x_replay x) \<and>
      (a_intf2 cmd \<noteq> None \<longrightarrow> (a_cachefile cmd \<noteq> None \<or> a_dualfile cmd) \<and> r_intf2dlt (x_replay y) = r_intf1dlt (x_replay y))"
  proof (cases "a_intf2 cmd")
    case None
    then have "y = x" using assms(1) by (simp add: arg_intf2_def)
    then show ?thesis using None assms(2) by (simp add: idle_def)
  next
    case (Some a)
    then obtain name z where z: "a_cachefile cmd \<noteq> None \<or> a_dualfile cmd" "open_intf sys Intf2 name x = Inr z" "sys_dlt sys name = r_intf1dlt (x_replay x)"
      "y = z\<lparr>x_replay := (x_replay z)\<lparr>r_intf2dlt := sys_dlt sys name\<rparr>\<rparr>" using assms(1) unfolding arg_intf2_True
      by (metis option.distinct(1))
    note k = open_intf_keeps [OF z(2)]
    have "idle x y" using open_intf_idle [OF z(2)] unfolding z(4) by (simp add: idle_def)
    then show ?thesis using Some z(1,3) k unfolding z(4) by simp
  qed
  then show "idle x y" "x_opt y = (x_opt x)\<lparr>o_intf2 := (a_intf2 cmd \<noteq> None)\<rparr>" "x_dualfile y = x_dualfile x" "r_loop (x_replay y) = r_loop (x_replay x)"
    "x_intf1_name y = x_intf1_name x" "r_intf1dlt (x_replay y) = r_intf1dlt (x_replay x)"
    "a_intf2 cmd \<noteq> None \<Longrightarrow> (a_cachefile cmd \<noteq> None \<or> a_dualfile cmd) \<and> r_intf2dlt (x_replay y) = r_intf1dlt (x_replay y)" by blast+
qed

text \<open>What an accepted command line leaves behind.\<close>

lemma accepted_context:
  assumes "tcpreplay_post_args sys cmd argc x = Inr (ret, y)" "ret \<noteq> - 1" "\<not> o_intf2 (x_opt x)"
  shows "idle x y" "\<exists>t n d. arg_timer cmd (o_accurate (x_opt x)) = Some t \<and>
      x_opt y = (x_opt (parsed cmd t x))\<lparr>o_intf2 := (a_intf2 cmd \<noteq> None), o_cache_packets := n,
        o_cachedata := (if a_cachefile cmd = None then o_cachedata (x_opt x) else Some d)\<rparr>"
    "\<exists>name. x_intf1_name y = Some name \<and> intf1_ok sys (x_intlist x) cmd name \<and> r_intf1dlt (x_replay y) = sys_dlt sys name"
    "a_intf2 cmd \<noteq> None \<Longrightarrow> (a_cachefile cmd \<noteq> None \<or> a_dualfile cmd) \<and> r_intf2dlt (x_replay y) = r_intf1dlt (x_replay y)"
    "r_loop (x_replay y) = word_of_int (a_loop cmd)" "x_dualfile y \<longleftrightarrow> a_dualfile cmd \<or> x_dualfile x"
proof -
  from assms(1,2) post_args_Inr [of sys cmd argc x ret y] obtain t x1 x2 where
    t: "arg_timer cmd (o_accurate (x_opt x)) = Some t" and i: "arg_intf1 sys cmd (parsed cmd t x) = Inr (True, x1)" "arg_intf2 sys cmd x1 = Inr (True, x2)"
    and c: "(case a_cachefile cmd of None \<Rightarrow> Inr x2 | Some f \<Rightarrow> load_cache sys f x2) = Inr y" by blast
  have o: "\<not> o_intf2 (x_opt (parsed cmd t x))" using assms(3) by simp
  note k1 = arg_intf1_keeps [OF i(1) o]
  have "\<not> o_intf2 (x_opt x1)" using k1(2) o by simp
  note k2 = arg_intf2_keeps [OF i(2) this]
  have k3: "x_replay y = x_replay x2 \<and> x_dualfile y = x_dualfile x2 \<and> x_intf1_name y = x_intf1_name x2 \<and> x_intlist y = x_intlist x2 \<and>
    (\<exists>n d. x_opt y = (x_opt x2)\<lparr>o_cache_packets := n, o_cachedata := (if a_cachefile cmd = None then o_cachedata (x_opt x2) else Some d)\<rparr>)"
  proof (cases "a_cachefile cmd")
    case None
    then show ?thesis using c by (auto intro: exI [of _ "o_cache_packets (x_opt x2)"])
  next
    case (Some f)
    then have "load_cache sys f x2 = Inr y" using c by simp
    from load_cache_keeps [OF this] Some show ?thesis by simp
  qed
  have p: "idle x (parsed cmd t x)" by (simp add: idle_def)
  have "idle x2 y" using k3 by (simp add: idle_def)
  then show "idle x y" using p k1(1) k2(1) idle_trans by blast
  from k3 obtain n d where "x_opt y = (x_opt x2)\<lparr>o_cache_packets := n, o_cachedata := (if a_cachefile cmd = None then o_cachedata (x_opt x2) else Some d)\<rparr>" by blast
  then have "x_opt y = (x_opt (parsed cmd t x))\<lparr>o_intf2 := (a_intf2 cmd \<noteq> None), o_cache_packets := n,
      o_cachedata := (if a_cachefile cmd = None then o_cachedata (x_opt x) else Some d)\<rparr>" using k1(2) k2(2) by (simp cong: if_cong)
  with t show "\<exists>t n d. arg_timer cmd (o_accurate (x_opt x)) = Some t \<and>
      x_opt y = (x_opt (parsed cmd t x))\<lparr>o_intf2 := (a_intf2 cmd \<noteq> None), o_cache_packets := n,
        o_cachedata := (if a_cachefile cmd = None then o_cachedata (x_opt x) else Some d)\<rparr>" by blast
  show "\<exists>name. x_intf1_name y = Some name \<and> intf1_ok sys (x_intlist x) cmd name \<and> r_intf1dlt (x_replay y) = sys_dlt sys name"
    using k1(5) k2(5,6) k3 by simp
  show "a_intf2 cmd \<noteq> None \<Longrightarrow> (a_cachefile cmd \<noteq> None \<or> a_dualfile cmd) \<and> r_intf2dlt (x_replay y) = r_intf1dlt (x_replay y)"
    using k2(7) k3 by simp
  show "r_loop (x_replay y) = word_of_int (a_loop cmd)" "x_dualfile y \<longleftrightarrow> a_dualfile cmd \<or> x_dualfile x"
    using k1(3,4) k2(3,4) k3 by simp_all
qed

section \<open>The list of files\<close>

definition file_source :: "string \<Rightarrow> tcpreplay_source" where
  "file_source name = \<lparr>src_type = source_filename, src_filename = name\<rparr>"

text \<open>Files beyond the table are dropped without a message: the return value of \<^verbatim>\<open>tcpreplay_add_pcapfile\<close> is ignored.\<close>

lemma load_files_plain:
  assumes "\<not> o_preload_pcap (x_opt x)" "length (r_sources (x_replay x)) \<le> MAX_FILES"
  shows "\<exists>y. load_files fs env i names x = Inr y \<and> x_opt y = x_opt x \<and> x_dualfile y = x_dualfile x \<and>
    r_ctx (x_replay y) = r_ctx (x_replay x) \<and> r_loop (x_replay y) = r_loop (x_replay x) \<and> r_intf1dlt (x_replay y) = r_intf1dlt (x_replay x) \<and>
    r_sources (x_replay y) = take MAX_FILES (r_sources (x_replay x) @ map file_source names)"
  using assms
proof (induction names arbitrary: i x)
  case (Cons name names)
  let ?y = "snd (tcpreplay_add_pcapfile name x)"
  have y: "x_opt ?y = x_opt x" "x_dualfile ?y = x_dualfile x" "r_ctx (x_replay ?y) = r_ctx (x_replay x)" "r_loop (x_replay ?y) = r_loop (x_replay x)"
    "r_intf1dlt (x_replay ?y) = r_intf1dlt (x_replay x)" "r_sources (x_replay ?y) = take MAX_FILES (r_sources (x_replay x) @ [file_source name])"
    using Cons.prems(2) by (auto simp: tcpreplay_add_pcapfile_def file_source_def Let_def)
  moreover have "take MAX_FILES (take MAX_FILES (r_sources (x_replay x) @ [file_source name]) @ map file_source names) =
      take MAX_FILES (r_sources (x_replay x) @ file_source name # map file_source names)"
    by (cases "length (r_sources (x_replay x)) < MAX_FILES") (use Cons.prems(2) in simp_all)
  ultimately show ?case using Cons.IH [of ?y "i + 1"] Cons.prems(1) by (simp add: Let_def)
qed simp

section \<open>Properties\<close>

text \<open>
  The option \<^verbatim>\<open>maxsleep\<close> is documented in milliseconds; the remainder becomes microseconds in a field of nanoseconds, so that a
  limit below one second is shorter than meant by a factor of 1000.
\<close>

lemma maxsleep_too_short:
  assumes "0 \<le> v"
  shows "ts_sec (arg_maxsleep v) = v div 1000" "ts_nsec (arg_maxsleep v) * 1000 = (v mod 1000) * 1000000"
  using assms by (simp_all add: arg_maxsleep_def signed_divide_int_def signed_modulo_int_def sgn_if)

text \<open>The second interface is stopped only once it is open.\<close>

lemma abort_stops:
  "c_abort (r_ctx (x_replay (tcpreplay_abort x)))"
  "x_intf1_name x \<noteq> None \<Longrightarrow> sp_abort (c_intf (r_ctx (x_replay (tcpreplay_abort x))) Intf1)"
  "o_intf2 (x_opt x) \<Longrightarrow> sp_abort (c_intf (r_ctx (x_replay (tcpreplay_abort x))) Intf2)"
  by (simp_all add: tcpreplay_abort_def Let_def)

text \<open>
  C5: the command line.  A command line is accepted in a new context exactly if the number of files fits two-file mode, neither
  Quick TX nor netmap is asked for, the timer is one of the supported ones, the interfaces exist and can be opened, a second
  interface comes with a cache file or two-file mode and has the data link type of the first, and the cache file can be read.
  After that the context is ready for a replay in which nothing has been sent: the return code is \<open>-2\<close> exactly if there is a
  warning and 0 otherwise, the first interface is open with its data link type, and with two interfaces the context has cache data or is in
  two-file mode, with an even number of files, and the data link types agree.
\<close>

theorem post_args_accepts:
  assumes "tcpreplay_init sys dw = Inr x"
  shows "((\<exists>ret y. tcpreplay_post_args sys cmd argc x = Inr (ret, y) \<and> ret \<noteq> - 1) \<longleftrightarrow> acceptable sys (x_intlist x) cmd argc) \<and>
    (\<forall>ret y. tcpreplay_post_args sys cmd argc x = Inr (ret, y) \<and> ret \<noteq> - 1 \<longrightarrow>
      ret = (if a_dbug cmd \<or> a_pktlen cmd then - 2 else 0) \<and>
      ready (r_ctx (x_replay y)) \<and> c_dw (r_ctx (x_replay y)) = dw \<and> c_wire (r_ctx (x_replay y)) = [] \<and> c_pkts_sent (r_ctx (x_replay y)) = 0 \<and>
      o_accurate (x_opt y) \<in> {accurate_select, accurate_gtod, accurate_nanosleep} \<and>
      (\<exists>name. x_intf1_name y = Some name \<and> sys_opens sys name \<and> r_intf1dlt (x_replay y) = sys_dlt sys name) \<and>
      (x_dualfile y \<longrightarrow> 2 \<le> argc \<and> even argc) \<and>
      (o_intf2 (x_opt y) \<longrightarrow> (o_cachedata (x_opt y) \<noteq> None \<or> x_dualfile y) \<and> r_intf2dlt (x_replay y) = r_intf1dlt (x_replay y)))"
proof (intro conjI allI impI; (elim conjE)?)
  note i = init_ready [OF assms]
  show "(\<exists>ret y. tcpreplay_post_args sys cmd argc x = Inr (ret, y) \<and> ret \<noteq> - 1) \<longleftrightarrow> acceptable sys (x_intlist x) cmd argc"
    by (rule accepted_iff) (simp_all add: i)
  fix ret y
  assume y: "tcpreplay_post_args sys cmd argc x = Inr (ret, y)" "ret \<noteq> - 1"
  note c = accepted_context [OF y i(14)]
  have p: "(a_dualfile cmd \<longrightarrow> 2 \<le> argc \<and> even argc) \<and> ret = (if a_dbug cmd \<or> a_pktlen cmd then - 2 else 0)"
    using y post_args_Inr [of sys cmd argc x ret y] by blast
  then show "ret = (if a_dbug cmd \<or> a_pktlen cmd then - 2 else 0)" by blast
  show "ready (r_ctx (x_replay y))" "c_dw (r_ctx (x_replay y)) = dw" "c_wire (r_ctx (x_replay y)) = []" "c_pkts_sent (r_ctx (x_replay y)) = 0"
    using c(1) i(1-4) by (simp_all add: idle_def Let_def)
  obtain t n d where t: "arg_timer cmd (o_accurate (x_opt x)) = Some t" "x_opt y = (x_opt (parsed cmd t x))\<lparr>o_intf2 := (a_intf2 cmd \<noteq> None), o_cache_packets := n,
      o_cachedata := (if a_cachefile cmd = None then o_cachedata (x_opt x) else Some d)\<rparr>" using c(2) by blast
  show "o_accurate (x_opt y) \<in> {accurate_select, accurate_gtod, accurate_nanosleep}" using arg_timer_Some [OF t(1)] t(2) i(10) by auto
  show "\<exists>name. x_intf1_name y = Some name \<and> sys_opens sys name \<and> r_intf1dlt (x_replay y) = sys_dlt sys name" using c(3) by (auto simp: intf1_ok_def)
  show "2 \<le> argc" "even argc" if "x_dualfile y" using that p c(6) i(7) by blast+
  show "o_cachedata (x_opt y) \<noteq> None \<or> x_dualfile y" "r_intf2dlt (x_replay y) = r_intf1dlt (x_replay y)" if "o_intf2 (x_opt y)"
    using that c(4,6) t(2) by auto
qed

definition sample_system :: system where
  "sample_system = \<lparr>sys_devices = Some [''lo'', ''h3-eth0''], sys_char_devices = [], sys_opens = \<lambda>_. True, sys_dlt = \<lambda>_. DLT_EN10MB,
    sys_cache_files = \<lambda>_. None, sys_malloc = \<lambda>_. True\<rparr>"

definition sample_cmdline :: cmdline where
  "sample_cmdline = \<lparr>a_dbug = False, a_loop = 1, a_loopdelay_ms = 0, a_limit = None, a_topspeed = False, a_pps = None, a_pps_multi = 1,
    a_oneatatime = False, a_mbps = None, a_multiplier = None, a_maxsleep = None, a_stats = None, a_preload_pcap = False, a_dualfile = False,
    a_quick_tx = False, a_netmap = False, a_unique_ip = False, a_no_flow_stats = False, a_flow_expiry = None, a_timer = Some ''nano'',
    a_pktlen = False, a_intf1 = ''%1'', a_intf2 = None, a_cachefile = None\<rparr>"

lemma sample_interfaces: "get_interface_list sample_system = Inr [\<lparr>if_name = ''lo'', if_alias = ''%0''\<rparr>, \<lparr>if_name = ''h3-eth0'', if_alias = ''%1''\<rparr>]"
  by (simp add: get_interface_list_def sample_system_def) code_simp

lemma sample_init: "\<exists>x. tcpreplay_init sample_system dw = Inr x"
proof -
  have "is_power_of_2 DEFAULT_FLOW_HASH_BUCKET_SIZE" by code_simp
  moreover have "sys_malloc sample_system k" for k by (simp add: sample_system_def)
  ultimately show ?thesis by (simp add: tcpreplay_init_def sample_interfaces flow_hash_table_init_def Let_def)
qed

lemma sample_acceptable:
  assumes "tcpreplay_init sample_system dw = Inr x"
  shows "acceptable sample_system (x_intlist x) sample_cmdline n"
proof -
  have "x_intlist x = Some [\<lparr>if_name = ''lo'', if_alias = ''%0''\<rparr>, \<lparr>if_name = ''h3-eth0'', if_alias = ''%1''\<rparr>]"
    using init_ready(8) [OF assms] sample_interfaces by simp
  then have "intf1_ok sample_system (x_intlist x) sample_cmdline ''h3-eth0''"
    by (simp add: intf1_ok_def get_interface_def sample_cmdline_def sample_system_def socket_name_def starts_with_def)
  then show ?thesis by (auto simp: acceptable_def intf2_ok_def timer_ok_def cache_ok_def sample_cmdline_def)
qed

theorem post_args_accepts_witness:
  "\<exists>x y. tcpreplay_init sample_system dw_zero = Inr x \<and> tcpreplay_post_args sample_system sample_cmdline 1 x = Inr (0, y) \<and>
    x_intf1_name y \<noteq> None \<and> ready (r_ctx (x_replay y))"
proof -
  obtain x where x: "tcpreplay_init sample_system dw_zero = Inr x" using sample_init by blast
  have w: "\<not> a_dbug sample_cmdline \<and> \<not> a_pktlen sample_cmdline" by (simp add: sample_cmdline_def)
  from post_args_accepts [OF x, of sample_cmdline 1] sample_acceptable [OF x, of 1] w show ?thesis using x by fastforce
qed

end
