(* ===== verification/Replay_Report.thy ===== *)
theory Replay_Report
  imports Replay
begin

text \<open>
  What tcpreplay prints when the replay is over: \<^verbatim>\<open>packet_stats\<close> of \<^verbatim>\<open>common/utils.c\<close>, \<^verbatim>\<open>flow_stats\<close> of \<^verbatim>\<open>tcpreplay.c\<close> and
  \<^verbatim>\<open>sendpacket_getstat\<close> of \<^verbatim>\<open>common/sendpacket.c\<close>.  A report is the string printed.  Products wrap around at \<open>2 ^ 64\<close>.
\<close>

section \<open>Numbers\<close>

definition zero_padded :: "nat \<Rightarrow> nat \<Rightarrow> string" where
  "zero_padded w n = replicate (w - length (show_nat n)) CHR ''0'' @ show_nat n"

text \<open>The formats \<^verbatim>\<open>%llu\<close> and \<^verbatim>\<open>%u\<close> and, with a width, \<^verbatim>\<open>%zd\<close>.\<close>

definition show_u64 :: "u64 \<Rightarrow> string" where "show_u64 n = show_nat (unat n)"
definition show_u32 :: "nat \<Rightarrow> u32 \<Rightarrow> string" where "show_u32 w n = zero_padded w (unat n)"

definition show_long :: "nat \<Rightarrow> int \<Rightarrow> string" where
  "show_long w i = (if i < 0 then ''-'' @ zero_padded (w - 1) (nat (- i)) else zero_padded w (nat i))"

definition newline :: string where "newline = [CHR 0x0A]"

section \<open>Packets\<close>

record rates =
  bytes_sec :: u64
  bytes_sec_10ths :: u32
  mb_sec :: u64
  mb_sec_100ths :: u32
  mb_sec_1000ths :: u32
  pkts_sec :: u64
  pkts_sec_100ths :: u32

definition byte_rates :: "u64 \<Rightarrow> u64 \<Rightarrow> rates \<Rightarrow> rates" where
  "byte_rates diff_us bytes_sent r =
    (let bytes_sec_X10 = ((bytes_sent * 10 * 1000) div diff_us) * 1000;
         bytes_sec = bytes_sec_X10 div 10;
         mb_sec_X100 = (bytes_sec * 8) div (10 * 1000)
     in r\<lparr>bytes_sec := bytes_sec, bytes_sec_10ths := ucast (bytes_sec_X10 mod 10), mb_sec := mb_sec_X100 div 100,
          mb_sec_100ths := ucast (mb_sec_X100 mod 100), mb_sec_1000ths := ucast ((bytes_sec * 8) div 1000)\<rparr>)"

definition packet_rates :: "u64 \<Rightarrow> u64 \<Rightarrow> rates \<Rightarrow> rates" where
  "packet_rates diff_us pkts_sent r =
    (let pkts_sec_X100 = (pkts_sent * 100 * 1000 * 1000) div diff_us
     in r\<lparr>pkts_sec := pkts_sec_X100 div 100, pkts_sec_100ths := ucast (pkts_sec_X100 mod 100)\<rparr>)"

definition rates_of :: "u64 \<Rightarrow> u64 \<Rightarrow> u64 \<Rightarrow> rates" where
  "rates_of diff_us pkts_sent bytes_sent =
    (let r = \<lparr>bytes_sec = 0, bytes_sec_10ths = 0, mb_sec = 0, mb_sec_100ths = 0, mb_sec_1000ths = 0, pkts_sec = 0, pkts_sec_100ths = 0\<rparr>
     in if diff_us = 0 then r
        else
          (let r = (if bytes_sent \<noteq> 0 then byte_rates diff_us bytes_sent r else r)
           in if pkts_sent \<noteq> 0 then packet_rates diff_us pkts_sent r else r))"

definition show_seconds :: "timeval \<Rightarrow> string" where
  "show_seconds diff =
    show_long 0 (timeval.tv_sec diff) @ ''.'' @
    (if TIMEVAL_TO_MICROSEC diff \<ge> 1000000 then show_long 2 (timeval.tv_usec diff sdiv (100 * 1000)) else show_long 6 (timeval.tv_usec diff))"

text \<open>No function sets the member \<^verbatim>\<open>failed\<close> of the statistics, so that it is the zero of the initialization and its line is not printed.\<close>

definition packet_stats :: "tcpreplay \<Rightarrow> string" where
  "packet_stats c =
    (let diff = timersub (c_end_time c) (c_start_time c);
         r = rates_of (TIMEVAL_TO_MICROSEC diff) (c_pkts_sent c) (c_bytes_sent c)
     in ''Actual: '' @ show_u64 (c_pkts_sent c) @ '' packets ('' @ show_u64 (c_bytes_sent c) @ '' bytes) sent in '' @ show_seconds diff @
        '' seconds.'' @ newline @
        ''Rated: '' @ show_u64 (bytes_sec r) @ ''.'' @ show_u32 1 (bytes_sec_10ths r) @ '' Bps, '' @ show_u64 (mb_sec r) @ ''.'' @
        (if mb_sec r \<ge> 1 then show_u32 2 (mb_sec_100ths r) else show_u32 3 (mb_sec_1000ths r)) @ '' Mbps, '' @
        show_u64 (pkts_sec r) @ ''.'' @ show_u32 2 (pkts_sec_100ths r) @ '' pps'' @ newline)"

section \<open>Flows\<close>

record flow_report =
  fr_total :: u64
  fr_unique :: u64
  fr_expired :: u64
  fr_sec :: u64
  fr_sec_100ths :: u32
  fr_packets :: u64
  fr_non_flow :: u64

text \<open>The numbers of the report, or \<open>None\<close> if nothing is printed.\<close>

definition flow_numbers :: "tcpreplay_opt \<Rightarrow> bool \<Rightarrow> tcpreplay \<Rightarrow> flow_report option" where
  "flow_numbers opt unique_ip c =
    (let diff_us = TIMEVAL_TO_MICROSEC (timersub (c_end_time c) (c_start_time c));
         stats = c_flow_stats c;
         iteration = ucast (c_iteration c);
         k = (if unique_ip \<and> o_preload_pcap opt then iteration else 1);
         flows_total = c_flows stats * k;
         flows_sec_X100 = (if diff_us \<noteq> 0 then (flows_total * 100 * 1000 * 1000) div diff_us else 0)
     in if c_flows stats = 0 \<or> c_iteration c = 0 then None
        else Some \<lparr>fr_total = flows_total, fr_unique = c_flows_unique stats * k, fr_expired = c_flows_expired stats * k,
          fr_sec = flows_sec_X100 div 100, fr_sec_100ths = ucast (flows_sec_X100 mod 100),
          fr_packets = c_flow_packets stats * iteration, fr_non_flow = c_flow_non_flow_packets stats * iteration\<rparr>)"

definition flow_stats :: "tcpreplay_opt \<Rightarrow> bool \<Rightarrow> tcpreplay \<Rightarrow> string" where
  "flow_stats opt unique_ip c =
    (case flow_numbers opt unique_ip c of
       None \<Rightarrow> []
     | Some r \<Rightarrow>
         ''Flows: '' @ show_u64 (fr_total r) @ '' flows, '' @
         (if o_flow_expiry opt \<noteq> 0 then show_u64 (fr_unique r) @ '' unique, '' @ show_u64 (fr_expired r) @ '' expired, '' else []) @
         show_u64 (fr_sec r) @ ''.'' @ show_u32 2 (fr_sec_100ths r) @ '' fps, '' @ show_u64 (fr_packets r) @ '' flow packets, '' @
         show_u64 (fr_non_flow r) @ '' non-flow'' @ newline)"

section \<open>Interfaces\<close>

text \<open>A line of the report of an interface.  The buffer of the caller has 1024 bytes.\<close>

definition stat_line :: "string \<Rightarrow> u64 \<Rightarrow> string" where
  "stat_line name n = CHR 0x09 # name @ show_u64 n @ newline"

definition interface_lines :: "string \<Rightarrow> sendpacket_t \<Rightarrow> string" where
  "interface_lines device sp =
    ''Statistics for network device: '' @ device @ newline @
    stat_line ''Attempted packets:         '' (sp_attempt sp) @
    stat_line ''Successful packets:        '' (sp_sent sp) @
    stat_line ''Failed packets:            '' (sp_failed sp) @
    stat_line ''Truncated packets:         '' (sp_trunc_packets sp) @
    stat_line ''Retried packets (ENOBUFS): '' (sp_retry_enobufs sp) @
    stat_line ''Retried packets (EAGAIN):  '' (sp_retry_eagain sp)"

definition interface_flow_lines :: "flow_counters \<Rightarrow> string" where
  "interface_flow_lines f =
    stat_line ''Flows total:               '' (c_flows f) @
    stat_line ''Flows unique:              '' (c_flows_expired f) @
    stat_line ''Flows expired:             '' (c_flows_expired f) @
    stat_line ''Flow packets:              '' (c_flow_packets f) @
    stat_line ''Non-flow packets:          '' (c_flow_non_flow_packets f) @
    stat_line ''Invalid flow packets:      '' (c_flows_invalid_packets f)"

definition sendpacket_getstat :: "nat \<Rightarrow> string \<Rightarrow> sendpacket_t \<Rightarrow> string" where
  "sendpacket_getstat buf_size device sp =
    (let s = interface_lines device sp
     in if c_flow_packets (sp_flow sp) \<noteq> 0 then take (buf_size - 1) (s @ interface_flow_lines (sp_flow sp)) else take (buf_size - 1) s)"

section \<open>Lemmas\<close>

text \<open>Without overflow the hundredths of packets per second are exact, rounded down.\<close>

lemma packet_rate_exact:
  assumes "diff_us \<noteq> 0" "pkts_sent \<noteq> 0" "unat pkts_sent * 100000000 < 2 ^ 64"
  shows "unat (pkts_sec (rates_of diff_us pkts_sent bytes_sent)) * 100 + unat (pkts_sec_100ths (rates_of diff_us pkts_sent bytes_sent)) =
    unat pkts_sent * 100000000 div unat diff_us"
proof -
  have m: "pkts_sent * 100 * 1000 * 1000 = pkts_sent * 100000000" by (simp add: mult.assoc)
  have "unat (pkts_sent * 100000000) = unat pkts_sent * 100000000"
    using assms(3) by (simp add: unat_word_ariths)
  then have d: "unat ((pkts_sent * 100 * 1000 * 1000) div diff_us) = unat pkts_sent * 100000000 div unat diff_us"
    unfolding m by (simp add: unat_div)
  define x where "x = (pkts_sent * 100 * 1000 * 1000) div diff_us"
  have "unat (x mod 100) < 100" by (simp add: unat_mod)
  then have "unat (ucast (x mod 100) :: u32) = unat (x mod 100)" by (simp add: unsigned_ucast_eq take_bit_nat_eq_self)
  then have "unat (x div 100) * 100 + unat (ucast (x mod 100) :: u32) = unat x" by (simp add: unat_div unat_mod)
  then show ?thesis using assms(1,2) d by (simp add: rates_of_def packet_rates_def Let_def x_def)
qed

text \<open>The quotient of bytes and time is taken before the factor 1000, so that the bytes per second are a multiple of 100 and the tenths are 0.\<close>

lemma byte_rate_hundreds:
  assumes "unat bytes_sent * 10000 < 2 ^ 64" "unat bytes_sent * 10000 div unat diff_us * 1000 < 2 ^ 64"
  shows "bytes_sec_10ths (rates_of diff_us pkts_sent bytes_sent) = 0" "unat (bytes_sec (rates_of diff_us pkts_sent bytes_sent)) mod 100 = 0"
proof -
  define q where "q = (bytes_sent * 10 * 1000) div diff_us"
  have m: "bytes_sent * 10 * 1000 = bytes_sent * 10000" by (simp add: mult.assoc)
  have "unat (bytes_sent * 10000) = unat bytes_sent * 10000" using assms(1) by (simp add: unat_word_ariths)
  then have "unat q = unat bytes_sent * 10000 div unat diff_us" unfolding q_def m by (simp add: unat_div)
  with assms(2) have x: "unat (q * 1000) = unat q * 1000" by (simp add: unat_word_ariths)
  have "unat (q * 1000 mod 10) = 0" by (simp add: unat_mod x mod_mult_right_eq [symmetric, of "unat q" 1000])
  then have t: "q * 1000 mod 10 = 0" by (simp only: unat_eq_0)
  have q: "10000 * bytes_sent div diff_us = q" by (simp add: q_def mult.assoc mult.commute)
  have "unat q * 1000 div 10 = unat q * 100" by simp
  then have b: "unat (q * 1000 div 10) mod 100 = 0" by (simp add: unat_div x)
  show "bytes_sec_10ths (rates_of diff_us pkts_sent bytes_sent) = 0"
    using t by (simp add: rates_of_def byte_rates_def packet_rates_def Let_def q)
  show "unat (bytes_sec (rates_of diff_us pkts_sent bytes_sent)) mod 100 = 0"
    using b by (simp add: rates_of_def byte_rates_def packet_rates_def Let_def q)
qed

text \<open>From a second on, the tenths of a second are printed with two digits, as hundredths.\<close>

lemma seconds_misprinted: "show_seconds \<lparr>timeval.tv_sec = 1, timeval.tv_usec = 500000\<rparr> = ''1.05''"
  by code_simp

text \<open>
  Without preloading the flow statistics count every pass over every file, and the report multiplies them by the number of
  passes once more: with two passes of 10 packets each it says 40.
\<close>

lemma flow_packets_squared:
  assumes "c_flow_packets (c_flow_stats c) = word_of_nat (n * unat (c_iteration c))" "flow_numbers opt u c = Some r"
  shows "fr_packets r = word_of_nat (n * unat (c_iteration c) * unat (c_iteration c))"
proof -
  have "(ucast (c_iteration c) :: u64) = word_of_nat (unat (c_iteration c))" by (simp add: unsigned_ucast_eq)
  then show ?thesis using assms by (auto simp: flow_numbers_def Let_def split: if_splits)
qed

lemma flow_report_once:
  assumes "c_iteration c = 1" "c_flows (c_flow_stats c) \<noteq> 0"
  shows "\<exists>r. flow_numbers opt u c = Some r \<and> fr_total r = c_flows (c_flow_stats c) \<and> fr_packets r = c_flow_packets (c_flow_stats c) \<and>
    fr_non_flow r = c_flow_non_flow_packets (c_flow_stats c)"
  using assms by (simp add: flow_numbers_def Let_def)

text \<open>The report of an interface shows the expired flows as unique ones.\<close>

lemma unique_flows_misprinted: "interface_flow_lines f = interface_flow_lines (f\<lparr>c_flows_unique := n\<rparr>)"
  by (simp add: interface_flow_lines_def)

end
