(* ===== verification/Tcpreplay_Main.thy ===== *)
theory Tcpreplay_Main
  imports Tcpreplay_Api Replay_Report
begin

text \<open>
  \<^verbatim>\<open>main\<close> in \<^verbatim>\<open>tcpreplay/src/tcpreplay.c\<close>.  \<open>sender_main\<close> is the part that starts the testbed on a sending host: settings,
  random numbers, data warehouse, threads; its result is the setting, the warehouse, the threads started so far and the
  exit status, where \<open>0\<close> means that \<^verbatim>\<open>main\<close> goes on to the replay.  \<open>tcpreplay_main\<close> is the whole function, with the
  command line before, and after it the replay, its report and the wait for the report thread and the rotator.  It is the main
  thread on its own: the other threads take no step until the last packet is sent.  How their steps mix with
  the sending is the subject of the testbed, of which such a run is one.  The pause of a second before the replay is left out, and so is
  the release of memory after the waits, where \<^verbatim>\<open>data_warehouse_destroy\<close> is called.
\<close>

section \<open>Starting the sender\<close>

datatype sender_thread = Flow_infor_update | Rotate_interval | Send_condition_to_network

definition condition_thread_needed :: "cm_experiment_setting \<Rightarrow> bool" where
  "condition_thread_needed st \<longleftrightarrow> inject_or_tag_packet st = INJECT_PKT_AS_CONDITION \<and>
    host_or_switch_sample st = HOST_SAMPLE \<and> replacement st"

definition start_threads :: "(sender_thread \<Rightarrow> bool) \<Rightarrow> cm_experiment_setting \<Rightarrow> sender_thread list \<times> int" where
  "start_threads create_ok st =
    (if \<not> create_ok Flow_infor_update then ([], 1)
     else if \<not> create_ok Rotate_interval then ([Flow_infor_update], 1)
     else if condition_thread_needed st then
       (if \<not> create_ok Send_condition_to_network then ([Flow_infor_update, Rotate_interval], 1)
        else ([Flow_infor_update, Rotate_interval, Send_condition_to_network], 0))
     else ([Flow_infor_update, Rotate_interval], 0))"

definition sender_main :: "(sender_thread \<Rightarrow> bool) \<Rightarrow> string list option \<Rightarrow> int \<Rightarrow> (nat \<Rightarrow> bool) \<Rightarrow> string option \<Rightarrow>
    string list option \<Rightarrow> cm_experiment_setting \<Rightarrow> data_warehouse \<Rightarrow>
    (cm_experiment_setting \<times> data_warehouse \<times> sender_thread list \<times> int) c_result" where
  "sender_main create_ok setting_file now ok dev task_file st dw =
    (case init_cm_experiment_setting setting_file st of
       Inl e \<Rightarrow> Inl e
     | Inr (st, ret) \<Rightarrow>
         if ret \<noteq> 0 then Inr (st, dw, [], 1)
         else
           (case data_warehouse_init st ok dev task_file (dw\<lparr>dw_rand_buffer := srand48_r now\<rparr>) of
              Inl e \<Rightarrow> Inl e
            | Inr (dw, ret) \<Rightarrow>
                if ret \<noteq> 0 then Inr (st, dw, [], 1)
                else Inr (st, dw, start_threads create_ok st)))"

section \<open>The whole program\<close>

text \<open>The report, printed if anything has been sent; a device name is cut to \<^verbatim>\<open>MAX_IFNAMELEN\<close>.\<close>

definition MAX_IFNAMELEN :: nat where "MAX_IFNAMELEN = 64"

definition device_name :: "string option \<Rightarrow> string" where
  "device_name n = take (MAX_IFNAMELEN - 1) (case n of None \<Rightarrow> [] | Some s \<Rightarrow> s)"

definition final_report :: "api \<Rightarrow> string" where
  "final_report x =
    (let c = r_ctx (x_replay x); opt = x_opt x
     in if c_bytes_sent c > 0 then
          packet_stats c @ (if o_flow_stats opt then flow_stats opt (o_unique_ip opt) c else []) @
          sendpacket_getstat 1024 (device_name (x_intf1_name x)) (c_intf c Intf1) @
          (if o_intf2 opt then sendpacket_getstat 1024 (device_name (x_intf2_name x)) (c_intf c Intf2) else [])
        else [])"

definition intf_dlt_of :: "system \<Rightarrow> api \<Rightarrow> intf \<Rightarrow> int" where
  "intf_dlt_of sys x i = sys_dlt sys (the (case i of Intf1 \<Rightarrow> x_intf1_name x | Intf2 \<Rightarrow> x_intf2_name x))"

text \<open>
  What the testbed's part of \<^verbatim>\<open>main\<close> depends on: the arguments of \<open>sender_main\<close>, and what the report thread and the
  rotator meet: the result of opening the pipe, all the bytes that ever arrive in it, whether the file of the rotator can be opened, the clock and the
  rounds of the rotator.
\<close>

record host =
  h_create_ok :: "sender_thread \<Rightarrow> bool"
  h_setting_file :: "string list option"
  h_time :: int
  h_malloc :: "nat \<Rightarrow> bool"
  h_device :: "string option"
  h_task_file :: "string list option"
  h_open_ret :: "string \<Rightarrow> int"
  h_pipe :: "int \<Rightarrow> u8 list"
  h_fopen_ok :: "string \<Rightarrow> bool"
  h_clock :: "timespec list"
  h_rotator :: rotator_env

definition start_testbed :: "host \<Rightarrow> cm_experiment_setting \<Rightarrow> data_warehouse \<Rightarrow>
    (cm_experiment_setting \<times> data_warehouse \<times> sender_thread list \<times> int) c_result" where
  "start_testbed ho st dw = sender_main (h_create_ok ho) (h_setting_file ho) (h_time ho) (h_malloc ho) (h_device ho) (h_task_file ho) st dw"

definition set_dw :: "data_warehouse \<Rightarrow> api \<Rightarrow> api" where
  "set_dw dw x = x\<lparr>x_replay := (x_replay x)\<lparr>r_ctx := (r_ctx (x_replay x))\<lparr>c_dw := dw\<rparr>\<rparr>\<rparr>"

text \<open>
  How \<^verbatim>\<open>main\<close> ends: it returns a status, or it waits in \<^verbatim>\<open>pthread_join\<close> for a thread that does not return, either because
  it is blocked in \<^verbatim>\<open>read\<close> or because its loop goes on for ever.
\<close>

datatype main_end = Returns int | Joins sender_thread

definition join_threads :: "(flow_src \<Rightarrow> u32 \<Rightarrow> u32) \<Rightarrow> host \<Rightarrow> cm_experiment_setting \<Rightarrow> data_warehouse \<Rightarrow> main_end c_result" where
  "join_threads hb ho st dw =
    (case flow_infor_update hb st (h_device ho) (h_open_ret ho) (h_pipe ho) dw of
       (dw, Waiting) \<Rightarrow> Inr (Joins Flow_infor_update)
     | (dw, Ended) \<Rightarrow>
         (case rotate_thread hb st (h_device ho) (h_fopen_ok ho) (h_clock ho) (h_rotator ho) of
            None \<Rightarrow> Inr (Joins Rotate_interval)
          | Some (Inl e) \<Rightarrow> Inl e
          | Some (Inr lines) \<Rightarrow> Inr (Returns 0)))"

text \<open>The replay at the end of \<^verbatim>\<open>main\<close>; with a code below 0, also that of a warning, the program exits.\<close>

definition run_replay :: "(string \<Rightarrow> capture option) \<Rightarrow> system \<Rightarrow> host \<Rightarrow> environment \<Rightarrow> (flow_src \<Rightarrow> u32 \<Rightarrow> u32) \<Rightarrow>
    cm_experiment_setting \<Rightarrow> api \<Rightarrow> (main_end \<times> api \<times> string) c_result" where
  "run_replay fs sys ho env hb st x =
    c_bind (tcpreplay_replay fs (intf_dlt_of sys x) env (x_opt x) (x_dualfile x) hb st (x_replay x)) (\<lambda>(rcode, r).
      let x = x\<lparr>x_replay := r\<rparr>
      in if rcode < 0 then Inl Exited
         else c_bind (join_threads hb ho st (c_dw (r_ctx r))) (\<lambda>e. Inr (e, x, final_report x)))"

definition tcpreplay_main :: "(string \<Rightarrow> capture option) \<Rightarrow> system \<Rightarrow> host \<Rightarrow> environment \<Rightarrow> (flow_src \<Rightarrow> u32 \<Rightarrow> u32) \<Rightarrow>
    cmdline \<Rightarrow> string list \<Rightarrow> cm_experiment_setting \<Rightarrow> data_warehouse \<Rightarrow> (main_end \<times> api \<times> string) c_result" where
  "tcpreplay_main fs sys ho env hb cmd files st dw =
    c_bind (tcpreplay_init sys dw) (\<lambda>x.
    c_bind (tcpreplay_post_args sys cmd (length files) x) (\<lambda>(rcode, x).
      if rcode = - 1 then Inl Exited
      else
        c_bind (setup_files fs env files x) (\<lambda>x.
        c_bind (start_testbed ho st (c_dw (r_ctx (x_replay x)))) (\<lambda>(st, dw, threads, status).
          let x = set_dw dw x
          in if status \<noteq> 0 then Inr (Returns status, x, []) else run_replay fs sys ho env hb st x))))"

section \<open>Lemmas\<close>

lemma start_threads_0:
  "start_threads create_ok st = (ts, 0) \<Longrightarrow>
    ts = [Flow_infor_update, Rotate_interval] @ (if condition_thread_needed st then [Send_condition_to_network] else [])"
  by (auto simp: start_threads_def split: if_splits)

lemma setting_accepted_timers:
  assumes "init_cm_experiment_setting file st0 = Inr (st, 0)"
  shows "interval_msec_len st \<noteq> 0" "condition_msec_freq st \<noteq> 0"
proof -
  have "check_value_correct st = 0"
    using assms by (auto simp: init_cm_experiment_setting_def Let_def split: sum.splits prod.splits if_splits)
  then show "interval_msec_len st \<noteq> 0" "condition_msec_freq st \<noteq> 0" by (auto simp: check_value_correct_def split: if_splits)
qed

text \<open>The state of the testbed when the replay of a trace begins.\<close>

definition start_state :: "data_warehouse \<Rightarrow> receiver \<Rightarrow> (packet \<times> u32 \<times> u32) list \<Rightarrow> testbed" where
  "start_state dw rc trs = \<lparr>tb_trace = map gen_record trs, tb_dw = dw, tb_flight = [], tb_rc = rc, tb_total_lost = 0,
     tb_wire = [], tb_report = [], tb_dropped = []\<rparr>"

lemma start_state_ok:
  assumes "dw_inv hb st dw" "\<forall>f. vl_queue (dw_flow_recePktList_map dw) f = []" "rc_pipes rc h = []" "trace_ok h rc trs"
    "\<forall>k. sorted_wrt (<) (numbers k (trace_ids trs))"
  shows "tb_start hb st h trs (start_state dw rc trs)"
  using assms by (simp add: tb_start_def start_state_def del: split_paired_All)

lemma queue_create: "vl_queue (ht_vl_create True) f = []"
  using vl_create_wf by (cases "ht_vl_create True") (auto simp: vl_queue_def)

lemma init_other_bucket:
  "init_other_experiment_setting st = (st', r) \<Longrightarrow>
    fix_loss_map_bucket_size (sender st') = fix_loss_map_bucket_size (sender st) \<and> condition_thread_needed st' = condition_thread_needed st"
  by (auto simp: init_other_experiment_setting_def condition_thread_needed_def Let_def split: prod.splits if_splits)

text \<open>The waits: the rotator does not return, so \<^verbatim>\<open>main\<close> does not.\<close>

definition joined_thread :: "(flow_src \<Rightarrow> u32 \<Rightarrow> u32) \<Rightarrow> host \<Rightarrow> cm_experiment_setting \<Rightarrow> data_warehouse \<Rightarrow> sender_thread" where
  "joined_thread hb ho st dw =
    (if snd (flow_infor_update hb st (h_device ho) (h_open_ret ho) (h_pipe ho) dw) = Waiting then Flow_infor_update else Rotate_interval)"

lemma main_joins:
  assumes "flow_src_hash hb" "\<forall>n. dw_inv hb st (re_dw (h_rotator ho) n)" "init_target_flow_file (h_device ho) (h_fopen_ok ho) \<noteq> None"
  shows "join_threads hb ho st dw = Inr (Joins (joined_thread hb ho st dw))"
  using flow_src_hash.thread_never [OF assms] by (auto simp: join_threads_def joined_thread_def split: prod.split thread_state.split)

section \<open>Properties\<close>

text \<open>
  C34: the start of a sending host.  When \<^verbatim>\<open>main\<close> reaches the replay, the timers of the setting are not zero,
  the report thread and the rotator run, and the condition sender runs exactly when conditions are injected as packets, hosts
  sample and replacement is on.  If moreover the fixed-size map of the setting has at least one entry, which \<^verbatim>\<open>main\<close> does not check,
  then both buffers of the warehouse are well-formed and empty, with zero counters, and for every trace that fits the host, with
  numbers that increase within each flow, the testbed is in a state from which all properties of its runs hold.
\<close>

theorem sender_start:
  assumes "flow_src_hash hb" "sender_main create_ok setting_file now ok dev task_file st0 dw0 = Inr (st, dw, threads, 0)"
  shows "interval_msec_len st \<noteq> 0 \<and> condition_msec_freq st \<noteq> 0 \<and>
    threads = [Flow_infor_update, Rotate_interval] @
      (if inject_or_tag_packet st = INJECT_PKT_AS_CONDITION \<and> host_or_switch_sample st = HOST_SAMPLE \<and> replacement st
       then [Send_condition_to_network] else []) \<and>
    (0 < float_to_int (fix_loss_map_bucket_size (sender st)) \<longrightarrow>
      dw_inv hb st dw \<and> buffer_fresh hb dw 0 \<and> buffer_fresh hb dw 1 \<and>
      (rc_pipes rc h = [] \<and> trace_ok h rc trs \<and> (\<forall>k. sorted_wrt (<) (numbers k (trace_ids trs))) \<longrightarrow>
        tb_start hb st h trs (start_state dw rc trs)))"
proof -
  from assms(2) have st: "init_cm_experiment_setting setting_file st0 = Inr (st, 0)"
    and dw: "data_warehouse_init st ok dev task_file (dw0\<lparr>dw_rand_buffer := srand48_r now\<rparr>) = Inr (dw, 0)"
    and t: "start_threads create_ok st = (threads, 0)"
    by (auto simp: sender_main_def split: sum.splits prod.splits if_splits)
  have "dw_inv hb st dw \<and> buffer_fresh hb dw 0 \<and> buffer_fresh hb dw 1 \<and>
      (rc_pipes rc h = [] \<and> trace_ok h rc trs \<and> (\<forall>k. sorted_wrt (<) (numbers k (trace_ids trs))) \<longrightarrow>
        tb_start hb st h trs (start_state dw rc trs))" if "0 < float_to_int (fix_loss_map_bucket_size (sender st))"
  proof -
    note i = flow_src_hash.init_spec [OF assms(1) that dw]
    then have q: "\<forall>f. vl_queue (dw_flow_recePktList_map dw) f = []" by (simp add: queue_create)
    show ?thesis using i start_state_ok [OF _ q] by blast
  qed
  then show ?thesis using setting_accepted_timers [OF st] start_threads_0 [OF t, unfolded condition_thread_needed_def] by blast
qed

definition sender_setting_file :: "string list" where
  "sender_setting_file = sample_setting_file @ [''fix_loss_map_bucket_size:100'', ''replacement:1'']"

lemma sender_setting_read:
  "map_sum id (\<lambda>st. (check_value_correct st, float_to_int (fix_loss_map_bucket_size (sender st)), condition_thread_needed st))
    (read_setting_lines sender_setting_file setting_zero) = Inr (0, 100, True)"
  by code_simp

lemma sender_setting_accepted:
  "\<exists>st. init_cm_experiment_setting (Some sender_setting_file) setting_zero = Inr (st, 0) \<and>
    float_to_int (fix_loss_map_bucket_size (sender st)) = 100 \<and> condition_thread_needed st"
proof -
  obtain s1 where s1: "read_setting_lines sender_setting_file setting_zero = Inr s1" "check_value_correct s1 = 0"
    "float_to_int (fix_loss_map_bucket_size (sender s1)) = 100" "condition_thread_needed s1"
    using sender_setting_read by (cases "read_setting_lines sender_setting_file setting_zero") auto
  have "snd (init_other_experiment_setting s1) = 0"
    by (simp add: init_other_experiment_setting_def Let_def split_def)
  then obtain st where st: "init_other_experiment_setting s1 = (st, 0)" by (metis prod.collapse)
  then show ?thesis
    using s1 check_init_other [of s1] init_other_bucket [OF st]
    by (simp add: init_cm_experiment_setting_def read_cm_experiment_setting_from_file_def)
qed

theorem sender_start_witness:
  "\<exists>st dw. sender_main (\<lambda>_. True) (Some sender_setting_file) 1 (\<lambda>_. True) (Some ''h3-eth0'') (Some [''#id s r sw'', ''1 3 5 7 8''])
      setting_zero dw_zero = Inr (st, dw, [Flow_infor_update, Rotate_interval, Send_condition_to_network], 0) \<and>
    dw_inv flow_src_hash_bin st dw"
proof -
  obtain st where st: "init_cm_experiment_setting (Some sender_setting_file) setting_zero = Inr (st, 0)"
    "float_to_int (fix_loss_map_bucket_size (sender st)) = 100" "condition_thread_needed st" using sender_setting_accepted by blast
  obtain dw where "data_warehouse_init st (\<lambda>_. True) (Some ''h3-eth0'') (Some [''#id s r sw'', ''1 3 5 7 8''])
      (dw_zero\<lparr>dw_rand_buffer := srand48_r 1\<rparr>) = Inr (dw, 0)" using dw_sample_init by blast
  then have run: "sender_main (\<lambda>_. True) (Some sender_setting_file) 1 (\<lambda>_. True) (Some ''h3-eth0'') (Some [''#id s r sw'', ''1 3 5 7 8''])
      setting_zero dw_zero = Inr (st, dw, [Flow_infor_update, Rotate_interval, Send_condition_to_network], 0)"
    using st(1,3) by (simp add: sender_main_def start_threads_def)
  have "0 < float_to_int (fix_loss_map_bucket_size (sender st))" using st(2) by simp
  with run sender_start [OF murmur.flow_src_hash_axioms run] show ?thesis by blast
qed

section \<open>The whole run\<close>

text \<open>
  Command lines for a plain replay on one interface: no second interface, no preloading, no editing, no limit, a loop count.
  The speed does not wait for the user, and the timer that watches the clock has a clock that goes on.
\<close>

definition plain_cmdline :: "environment \<Rightarrow> cmdline \<Rightarrow> bool" where
  "plain_cmdline env cmd \<longleftrightarrow>
    a_intf2 cmd = None \<and> \<not> a_dualfile cmd \<and> \<not> a_preload_pcap cmd \<and> \<not> a_unique_ip cmd \<and> a_limit cmd = None \<and> 0 < a_loop cmd \<and> a_loop cmd < 2 ^ 32 \<and>
    (let s = arg_speed cmd \<lparr>sp_mode = speed_multiplier, sp_speed = 0, sp_multiplier = Fin 1, sp_pps_multi = 0\<rparr>
     in sp_mode s \<noteq> speed_oneatatime \<and> (sp_mode s = speed_packetrate \<longrightarrow> sp_speed s \<noteq> 0)) \<and>
    (arg_timer cmd accurate_gtod = Some accurate_gtod \<longrightarrow> running (e_clock env))"

lemma plain_context:
  assumes "plain_cmdline env cmd" "tcpreplay_init sys dw0 = Inr x" "tcpreplay_post_args sys cmd argc x = Inr (ret, y)" "ret \<noteq> - 1"
  shows "plain_options env (x_opt y)" "\<not> x_dualfile y" "r_loop (x_replay y) = word_of_int (a_loop cmd)"
proof -
  note i = init_ready [OF assms(2)] and p = assms(1) [unfolded plain_cmdline_def Let_def]
  note c = accepted_context [OF assms(3,4) i(14)]
  obtain t n d where t: "arg_timer cmd accurate_gtod = Some t" "x_opt y = (x_opt (parsed cmd t x))\<lparr>o_intf2 := (a_intf2 cmd \<noteq> None), o_cache_packets := n,
      o_cachedata := (if a_cachefile cmd = None then o_cachedata (x_opt x) else Some d)\<rparr>" using c(2) i(10) by metis
  have "t \<in> {accurate_gtod, accurate_select, accurate_nanosleep}" using arg_timer_Some [OF t(1)] by auto
  moreover have "sp_mode s \<in> {speed_multiplier, speed_mbpsrate, speed_topspeed} \<or> sp_mode s = speed_packetrate \<and> sp_speed s \<noteq> 0"
    if "sp_mode s \<noteq> speed_oneatatime \<and> (sp_mode s = speed_packetrate \<longrightarrow> sp_speed s \<noteq> 0)" for s :: tcpreplay_speed
    using that by (cases "sp_mode s") simp_all
  ultimately have "unattended env (x_opt y)" using p t i(9) by (auto simp: unattended_def)
  then show "plain_options env (x_opt y)" using p t(2) i(11-13) no_limit by (simp add: plain_options_def)
  show "\<not> x_dualfile y" "r_loop (x_replay y) = word_of_int (a_loop cmd)" using c(5,6) i(7) p by simp_all
qed

lemma set_dw_simps [simp]:
  "x_opt (set_dw dw x) = x_opt x" "x_dualfile (set_dw dw x) = x_dualfile x" "c_dw (r_ctx (x_replay (set_dw dw x))) = dw"
  "c_wire (r_ctx (x_replay (set_dw dw x))) = c_wire (r_ctx (x_replay x))" "c_pkts_sent (r_ctx (x_replay (set_dw dw x))) = c_pkts_sent (r_ctx (x_replay x))"
  "c_bytes_sent (r_ctx (x_replay (set_dw dw x))) = c_bytes_sent (r_ctx (x_replay x))" "r_sources (x_replay (set_dw dw x)) = r_sources (x_replay x)"
  "r_loop (x_replay (set_dw dw x)) = r_loop (x_replay x)" "ready (r_ctx (x_replay (set_dw dw x))) = ready (r_ctx (x_replay x))"
  by (simp_all add: set_dw_def ready_def)

lemma loop_count:
  assumes "0 < l" "l < 2 ^ 32"
  shows "(word_of_int l :: u32) > 0" "unat (word_of_int l :: u32) = nat l"
proof -
  have "uint (word_of_int l :: u32) = l" using assms by (simp add: uint_word_of_int)
  then show "unat (word_of_int l :: u32) = nat l" by (simp flip: nat_uint_eq)
  then have "unat (word_of_int l :: u32) \<noteq> 0" using assms(1) by simp
  then show "(word_of_int l :: u32) > 0" by (metis unat_0 word_gt_0)
qed

text \<open>The context when the testbed is started.\<close>

lemma main_before_testbed:
  assumes "tcpreplay_init sys dw0 = Inr x" "acceptable sys (x_intlist x) cmd (length files)" "plain_cmdline env cmd" "length files \<le> MAX_FILES"
  shows "\<exists>ret y z. tcpreplay_post_args sys cmd (length files) x = Inr (ret, y) \<and> ret \<noteq> - 1 \<and> setup_files fs env files y = Inr z \<and>
    plain_options env (x_opt z) \<and> \<not> x_dualfile z \<and> ready (r_ctx (x_replay z)) \<and> c_dw (r_ctx (x_replay z)) = dw0 \<and>
    c_wire (r_ctx (x_replay z)) = [] \<and> c_pkts_sent (r_ctx (x_replay z)) = 0 \<and> c_bytes_sent (r_ctx (x_replay z)) = 0 \<and>
    r_sources (x_replay z) = map file_source files \<and> r_loop (x_replay z) = word_of_int (a_loop cmd)"
proof -
  note i = init_ready [OF assms(1)]
  obtain ret y where y: "tcpreplay_post_args sys cmd (length files) x = Inr (ret, y)" "ret \<noteq> - 1"
    using accepted_iff [of x "x_intlist x" sys cmd "length files"] assms(2) i(10) by auto
  note k = plain_context [OF assms(3,1) y] and c = accepted_context(1) [OF y i(14)]
  have p: "\<not> o_preload_pcap (x_opt y)" using k(1) by (simp add: plain_options_def)
  have s: "r_sources (x_replay y) = []" using c i(6) by (simp add: idle_def)
  obtain z where z: "load_files fs env 0 files y = Inr z" "x_opt z = x_opt y" "x_dualfile z = x_dualfile y" "r_ctx (x_replay z) = r_ctx (x_replay y)"
    "r_loop (x_replay z) = r_loop (x_replay y)" "r_sources (x_replay z) = map file_source files"
    using load_files_plain [of y fs env 0 files] p s assms(4) by auto
  have "setup_files fs env files y = Inr z" using z(1) p by (simp add: setup_files_def)
  then show ?thesis using y k z(2-6) c i(1-5) by (intro exI [of _ ret] exI [of _ y] exI [of _ z]) (auto simp: idle_def Let_def)
qed

text \<open>
  C3: the main thread of a sending host, from the command line to the waits at its end, in a run in which the other threads take no step
  before the last packet is sent.  If the command line is accepted and asks
  for a plain replay, the files can be replayed, and the testbed starts, then the first interface
  carries, for each of the \<open>loop\<close> passes and file after file, every packet as the packet handler leaves it, and nothing else.  The warehouse
  \<^verbatim>\<open>main\<close> leaves is the one after all these packets, the counters are their number and bytes, the report printed is that of this
  context, and the run is one of the abstract testbed.  \<^verbatim>\<open>main\<close> does not return, though.  If the rotator could open its file, and
  the warehouse is well-formed whenever it takes the lock, \<^verbatim>\<open>main\<close> ends in \<^verbatim>\<open>pthread_join\<close>: it waits for the report thread while that
  is blocked on the pipe, and otherwise for the rotator, which never ends.
\<close>

theorem main_sends_trace:
  assumes "tcpreplay_init sys dw0 = Inr x" "acceptable sys (x_intlist x) cmd (length files)" "plain_cmdline env cmd"
    "files \<noteq> []" "length files \<le> MAX_FILES" "\<forall>f \<in> set files. replayable fs (file_source f)" "\<forall>k. prompt (e_answers env k)"
    "start_testbed ho st0 dw0 = Inr (st, dw, threads, 0)"
    "handled hb st DLT_EN10MB dw (passes fs (map file_source files) (nat (a_loop cmd))) = Some (gs, dw')" "length gs < 2 ^ 64"
    "tb_dw s = dw" "tb_trace s = map record_of (passes fs (map file_source files) (nat (a_loop cmd)))"
    "flow_src_hash hb" "\<forall>n. dw_inv hb st (re_dw (h_rotator ho) n)" "init_target_flow_file (h_device ho) (h_fopen_ok ho) \<noteq> None"
  shows "\<exists>y. tcpreplay_main fs sys ho env hb cmd files st0 dw0 = Inr (Joins (joined_thread hb ho st dw'), y, final_report y) \<and>
    c_wire (r_ctx (x_replay y)) = map (\<lambda>f. (Intf1, f)) gs \<and> c_dw (r_ctx (x_replay y)) = dw' \<and>
    c_pkts_sent (r_ctx (x_replay y)) = of_nat (length gs) \<and> c_bytes_sent (r_ctx (x_replay y)) = of_nat (length (concat gs)) \<and>
    (step hb st h net)\<^sup>*\<^sup>* s (s\<lparr>tb_trace := [], tb_dw := dw', tb_flight := tb_flight s @ gs\<rparr>)"
proof -
  from main_before_testbed [OF assms(1-3,5), of fs] obtain ret y z where
    y: "tcpreplay_post_args sys cmd (length files) x = Inr (ret, y)" "ret \<noteq> - 1" and
    z: "setup_files fs env files y = Inr z" "plain_options env (x_opt z)" "\<not> x_dualfile z" "ready (r_ctx (x_replay z))" "c_dw (r_ctx (x_replay z)) = dw0"
    "c_wire (r_ctx (x_replay z)) = []" "c_pkts_sent (r_ctx (x_replay z)) = 0" "c_bytes_sent (r_ctx (x_replay z)) = 0"
    "r_sources (x_replay z) = map file_source files" "r_loop (x_replay z) = word_of_int (a_loop cmd)" by blast
  have l: "(word_of_int (a_loop cmd) :: u32) > 0" "unat (word_of_int (a_loop cmd) :: u32) = nat (a_loop cmd)"
    using assms(3) loop_count [of "a_loop cmd"] by (simp_all add: plain_cmdline_def)
  let ?z = "set_dw dw z"
  have "\<exists>r. tcpreplay_replay fs (intf_dlt_of sys ?z) env (x_opt ?z) False hb st (x_replay ?z) = Inr (0, r) \<and>
      moved gs dw' (r_ctx (x_replay ?z)) (r_ctx r) \<and> \<not> r_running r"
    by (rule replay_ok) (use assms(4,6,7,9,10) z l in simp_all)
  then obtain r where r: "tcpreplay_replay fs (intf_dlt_of sys ?z) env (x_opt ?z) False hb st (x_replay ?z) = Inr (0, r)"
    "moved gs dw' (r_ctx (x_replay ?z)) (r_ctx r)" by blast
  have "c_dw (r_ctx r) = dw'" using r(2) by (simp add: moved_def progress_def)
  then have "tcpreplay_main fs sys ho env hb cmd files st0 dw0 =
      Inr (Joins (joined_thread hb ho st dw'), ?z\<lparr>x_replay := r\<rparr>, final_report (?z\<lparr>x_replay := r\<rparr>))"
    using y z(1,3,5) assms(1,8) r(1) main_joins [OF assms(13-15)] by (simp add: tcpreplay_main_def run_replay_def Let_def)
  moreover have "(step hb st h net)\<^sup>*\<^sup>* s (s\<lparr>tb_trace := [], tb_dw := dw', tb_flight := tb_flight s @ gs\<rparr>)"
    using handled_steps [of hb st s _ gs dw' "[]"] assms(9,11,12) by simp
  ultimately show ?thesis using r(2) z(6-8) by (auto simp: moved_def progress_def)
qed

text \<open>A host whose pipe stays empty, and whose rotator finds the warehouse \<open>dw\<close> in every round.\<close>

definition sample_host :: "data_warehouse \<Rightarrow> host" where
  "sample_host dw = \<lparr>h_create_ok = \<lambda>_. True, h_setting_file = Some sender_setting_file, h_time = 1, h_malloc = \<lambda>_. True,
    h_device = Some ''h3-eth0'', h_task_file = Some [''#id s r sw'', ''1 3 5 7 8''], h_open_ret = \<lambda>_. 7, h_pipe = \<lambda>_. [],
    h_fopen_ok = \<lambda>_. True, h_clock = [], h_rotator = \<lparr>re_dw = \<lambda>_. dw, re_alloc = \<lambda>_ _. True, re_after = \<lambda>_. \<lparr>tv_sec = 0, tv_nsec = 0\<rparr>,
      re_wake = \<lambda>_ _. \<lparr>tv_sec = 0, tv_nsec = 0\<rparr>\<rparr>\<rparr>"

lemma sample_testbed:
  "\<exists>st dw b dw'. start_testbed (sample_host d) setting_zero dw_zero = Inr (st, dw, [Flow_infor_update, Rotate_interval, Send_condition_to_network], 0) \<and>
    dw_inv flow_src_hash_bin st dw \<and> handled flow_src_hash_bin st DLT_EN10MB dw [sample_pcap] = Some ([b], dw')"
proof -
  obtain st where st: "init_cm_experiment_setting (Some sender_setting_file) setting_zero = Inr (st, 0)"
    "float_to_int (fix_loss_map_bucket_size (sender st)) = 100" "condition_thread_needed st" using sender_setting_accepted by blast
  obtain dw where dw: "data_warehouse_init st (\<lambda>_. True) (Some ''h3-eth0'') (Some [''#id s r sw'', ''1 3 5 7 8''])
      (dw_zero\<lparr>dw_rand_buffer := srand48_r 1\<rparr>) = Inr (dw, 0)" using dw_sample_init by blast
  have run: "start_testbed (sample_host d) setting_zero dw_zero = Inr (st, dw, [Flow_infor_update, Rotate_interval, Send_condition_to_network], 0)"
    using st(1,3) dw by (simp add: start_testbed_def sample_host_def sender_main_def start_threads_def)
  have "0 < float_to_int (fix_loss_map_bucket_size (sender st))" using st(2) by simp
  note i = murmur.init_spec [OF this dw]
  then have "dw_inv flow_src_hash_bin st dw" "tab_map flow_src_hash_bin (dw_flow_volume_map dw (dw_active_idx dw)) = Map.empty"
    by (auto simp: buffer_fresh_def)
  from sample_handled_in [OF this] this(1) run show ?thesis by blast
qed

lemma sample_plain: "plain_cmdline sample_environment sample_cmdline"
  by (simp add: plain_cmdline_def sample_cmdline_def arg_speed_def arg_timer_def Let_def)

lemma sample_files_open:
  "init_target_flow_file (h_device (sample_host d)) (h_fopen_ok (sample_host d)) \<noteq> None"
  "sender_get_fifo_fname (h_device (sample_host d)) 100 \<noteq> None"
proof -
  have "init_target_flow_file (Some ''h3-eth0'') (\<lambda>_. True) \<noteq> None" "sender_get_fifo_fname (Some ''h3-eth0'') 100 \<noteq> None" by code_simp+
  then show "init_target_flow_file (h_device (sample_host d)) (h_fopen_ok (sample_host d)) \<noteq> None"
    "sender_get_fifo_fname (h_device (sample_host d)) 100 \<noteq> None" by (simp_all add: sample_host_def)
qed

lemma sample_joined: "joined_thread hb (sample_host d) st dw = Flow_infor_update"
  using sample_files_open(2) [of d]
  by (auto simp: joined_thread_def flow_infor_update_def openFIFO_def sample_host_def Let_def)

theorem main_sends_trace_witness:
  "\<exists>d b y. tcpreplay_main sample_captures sample_system (sample_host d) sample_environment flow_src_hash_bin sample_cmdline [''t.pcap'']
      setting_zero dw_zero = Inr (Joins Flow_infor_update, y, final_report y) \<and>
    c_wire (r_ctx (x_replay y)) = [(Intf1, b)] \<and> c_pkts_sent (r_ctx (x_replay y)) = 1"
proof -
  obtain st dw b dw' where t: "\<And>d. start_testbed (sample_host d) setting_zero dw_zero = Inr (st, dw, [Flow_infor_update, Rotate_interval, Send_condition_to_network], 0)"
    "dw_inv flow_src_hash_bin st dw" "handled flow_src_hash_bin st DLT_EN10MB dw [sample_pcap] = Some ([b], dw')"
    using sample_testbed by (auto simp: start_testbed_def sample_host_def)
  obtain x where x: "tcpreplay_init sample_system dw_zero = Inr x" using sample_init by blast
  have l: "nat (a_loop sample_cmdline) = 1" "file_source ''t.pcap'' = sample_source" by (simp_all add: sample_cmdline_def file_source_def sample_source_def)
  have inv: "\<forall>n. dw_inv flow_src_hash_bin st (re_dw (h_rotator (sample_host dw)) n)" using t(2) by (simp add: sample_host_def)
  let ?s = "undefined\<lparr>tb_dw := dw, tb_trace := [record_of sample_pcap]\<rparr>"
  show ?thesis
    using main_sends_trace [of sample_system dw_zero x sample_cmdline "[''t.pcap'']" sample_environment sample_captures "sample_host dw" setting_zero st dw
        "[Flow_infor_update, Rotate_interval, Send_condition_to_network]" flow_src_hash_bin "[b]" dw' ?s,
        OF _ _ _ _ _ _ _ _ _ _ _ _ murmur.flow_src_hash_axioms inv sample_files_open(1)]
      x sample_acceptable [OF x] sample_plain t sample_ready(3) sample_replay_ok(2,3) l
    by (simp add: MAX_FILES_def sample_joined) blast
qed

end
